(* ===== verification/Prelude.thy ===== *)
theory Prelude
  imports Main "HOL-Library.Word" "HOL-Library.Monad_Syntax"
begin

text \<open>
  Shared vocabulary of the development: the machine integers of the C++ code, the byte order
  conversions of a little-endian host, the block memory that stands for the buffers handed out by
  a device, the status codes of \<^verbatim>\<open>tulips::Status\<close>, and the generic lemmas on byte lists, blocks
  and options that every component uses.

  Effects: a C++ function becomes a HOL function from its arguments and the state it may change to
  \<open>(result \<times> new state) option\<close>. \<open>None\<close> means that the C++ program has no defined result: it reads
  or writes outside a buffer, dereferences a null pointer, or throws. A \<^verbatim>\<open>Status\<close> that reports an
  error is an ordinary result.
\<close>

unbundle bit_operations_syntax

type_synonym u8 = "8 word"
type_synonym u16 = "16 word"
type_synonym u32 = "32 word"
type_synonym u64 = "64 word"

named_theorems mem_simps "rewriting reads and writes of the block memory"
named_theorems byte_simps "byte order conversions and byte images of integers"

section \<open>Status codes and actions\<close>

datatype status =
    Ok | InvalidArgument
  | HardwareError | NoMoreResources | HardwareLinkLost
  | NoDataAvailable | CorruptedData | IncompleteData | UnsupportedData
  | ProtocolError | UnsupportedProtocol
  | HardwareTranslationMissing | InvalidConnection | NotConnected
  | OperationInProgress | OperationCompleted | UnsupportedOperation

fun status_toString :: "status \<Rightarrow> string" where
  "status_toString Ok = ''Ok''"
| "status_toString InvalidArgument = ''InvalidArgument''"
| "status_toString HardwareError = ''HardwareError''"
| "status_toString NoMoreResources = ''NoMoreResources''"
| "status_toString HardwareLinkLost = ''HardwareLinkLost''"
| "status_toString NoDataAvailable = ''NoDataAvailable''"
| "status_toString CorruptedData = ''CorruptedData''"
| "status_toString IncompleteData = ''IncompleteData''"
| "status_toString UnsupportedData = ''UnsupportedData''"
| "status_toString ProtocolError = ''ProtocolError''"
| "status_toString UnsupportedProtocol = ''UnsupportedProtocol''"
| "status_toString HardwareTranslationMissing = ''HardwareTranslationMissing''"
| "status_toString InvalidConnection = ''InvalidConnection''"
| "status_toString NotConnected = ''NotConnected''"
| "status_toString OperationInProgress = ''OperationInProgress''"
| "status_toString OperationCompleted = ''OperationCompleted''"
| "status_toString UnsupportedOperation = ''UnsupportedOperation''"

datatype action = Abort | Close | Continue

section \<open>Integers in memory\<close>

text \<open>\<open>bytes16\<close> and \<open>bytes32\<close> are the memory images of host integers (least significant byte first);
  \<open>le16\<close> and \<open>le32\<close> read them back. \<open>htons\<close> and \<open>htonl\<close> swap the bytes and are their own inverses.\<close>

definition bytes16 :: "u16 \<Rightarrow> u8 list" where
  "bytes16 w = [ucast w, ucast (drop_bit 8 w)]"

definition bytes32 :: "u32 \<Rightarrow> u8 list" where
  "bytes32 w = [ucast w, ucast (drop_bit 8 w), ucast (drop_bit 16 w), ucast (drop_bit 24 w)]"

definition le16 :: "u8 \<Rightarrow> u8 \<Rightarrow> u16" where
  "le16 a b = ucast a OR push_bit 8 (ucast b)"

definition le32 :: "u8 \<Rightarrow> u8 \<Rightarrow> u8 \<Rightarrow> u8 \<Rightarrow> u32" where
  "le32 a b c d = ucast a OR push_bit 8 (ucast b) OR push_bit 16 (ucast c) OR push_bit 24 (ucast d)"

definition htons :: "u16 \<Rightarrow> u16" where
  "htons w = push_bit 8 w OR drop_bit 8 w"

definition htonl :: "u32 \<Rightarrow> u32" where
  "htonl w = le32 (ucast (drop_bit 24 w)) (ucast (drop_bit 16 w)) (ucast (drop_bit 8 w)) (ucast w)"

abbreviation "ntohs \<equiv> htons"
abbreviation "ntohl \<equiv> htonl"

lemma unat_lt8: "unat (w :: u8) < 256"
  using unsigned_less [of w] by simp

lemma unat_lt16: "unat (w :: u16) < 65536"
  using unsigned_less [of w] by simp

lemma unat_lt32: "unat (w :: u32) < 4294967296"
  using unsigned_less [of w] by simp

lemma unat_ucast_up:
  "unat (ucast (a :: u8) :: u16) = unat a"
  "unat (ucast (a :: u8) :: u32) = unat a"
  "unat (ucast (b :: u16) :: u32) = unat b"
  using unat_lt8 [of a] unat_lt16 [of b] by (simp_all add: unsigned_ucast_eq take_bit_nat_eq_self_iff)

lemma unat_ucast_up_64: "unat (ucast (b :: u16) :: u64) = unat b"
  by (simp add: unsigned_ucast_eq take_bit_nat_eq_self_iff) (use unat_lt16 [of b] in simp)

lemma length_bytes16 [simp]: "length (bytes16 w) = 2"
  by (simp add: bytes16_def)

lemma length_bytes32 [simp]: "length (bytes32 w) = 4"
  by (simp add: bytes32_def)

lemma le16_bytes16 [simp, byte_simps]: "le16 (ucast w) (ucast (drop_bit 8 w)) = w"
  by (rule bit_word_eqI) (auto simp: le16_def bit_simps)

lemma le32_bytes32 [simp, byte_simps]:
  "le32 (ucast w) (ucast (drop_bit 8 w)) (ucast (drop_bit 16 w)) (ucast (drop_bit 24 w)) = w"
proof (rule bit_word_eqI)
  fix n :: nat
  assume "n < LENGTH(32)"
  then consider "n < 8" | "8 \<le> n \<and> n < 16" | "16 \<le> n \<and> n < 24" | "24 \<le> n \<and> n < 32"
    by force
  then show "bit (le32 (ucast w) (ucast (drop_bit 8 w)) (ucast (drop_bit 16 w))
      (ucast (drop_bit 24 w))) n = bit w n"
    by cases (auto simp: le32_def bit_simps)
qed

lemma htons_htons [simp, byte_simps]: "htons (htons w) = w"
  by (rule bit_word_eqI) (auto simp: htons_def bit_simps)

lemma htons_eq_iff [simp]: "htons a = htons b \<longleftrightarrow> a = b"
  by (metis htons_htons)


lemma bit_htonl:
  "n < 32 \<Longrightarrow> bit (htonl w) n = bit w (if n < 8 then n + 24 else if n < 16 then n + 8
     else if n < 24 then n - 8 else n - 24)"
  by (auto simp: htonl_def le32_def bit_simps ac_simps)

lemma htonl_htonl [simp, byte_simps]: "htonl (htonl w) = w"
proof (rule bit_word_eqI)
  fix n :: nat
  assume "n < LENGTH(32)"
  then consider "n < 8" | "8 \<le> n \<and> n < 16" | "16 \<le> n \<and> n < 24" | "24 \<le> n \<and> n < 32"
    by force
  then show "bit (htonl (htonl w)) n = bit w n"
    by cases (auto simp: bit_htonl less_diff_conv2 split: if_splits)
qed

lemma htonl_eq_iff [simp]: "htonl a = htonl b \<longleftrightarrow> a = b"
  by (metis htonl_htonl)

section \<open>Total and partial correctness of fallible computations\<close>

text \<open>
  \<open>runs m Q\<close>: the computation has a defined result and it satisfies \<open>Q\<close> (total correctness);
  \<open>yields m Q\<close>: if it has one, it satisfies \<open>Q\<close>. Both distribute over \<open>bind\<close>, so a proof about a
  function follows its text one call at a time.
\<close>

definition runs :: "'a option \<Rightarrow> ('a \<Rightarrow> bool) \<Rightarrow> bool" where
  "runs m Q \<longleftrightarrow> (case m of None \<Rightarrow> False | Some x \<Rightarrow> Q x)"

definition yields :: "'a option \<Rightarrow> ('a \<Rightarrow> bool) \<Rightarrow> bool" where
  "yields m Q \<longleftrightarrow> (case m of None \<Rightarrow> True | Some x \<Rightarrow> Q x)"

named_theorems wp "distribution of runs and yields over the program text"

lemma runs_Some [simp]: "runs (Some x) Q = Q x"
  by (simp add: runs_def)

lemma runs_None [simp]: "runs None Q = False"
  by (simp add: runs_def)

lemma runs_bind [wp]: "runs (m \<bind> f) Q = runs m (\<lambda>x. runs (f x) Q)"
  by (cases m) simp_all

lemma runs_if [wp]: "runs (if b then m else n) Q = (if b then runs m Q else runs n Q)"
  by simp

lemma runs_prod [wp]: "runs (case p of (a, b) \<Rightarrow> f a b) Q = (case p of (a, b) \<Rightarrow> runs (f a b) Q)"
  by (simp split: prod.split)

lemma runs_Let [wp]: "runs (let x = a in f x) Q = (let x = a in runs (f x) Q)"
  by simp

lemma yields_Some [simp]: "yields (Some x) Q = Q x"
  by (simp add: yields_def)

lemma yields_None [simp]: "yields None Q = True"
  by (simp add: yields_def)

lemma yields_bind [wp]: "yields (m \<bind> f) Q = yields m (\<lambda>x. yields (f x) Q)"
  by (cases m) simp_all

lemma yields_if [wp]: "yields (if b then m else n) Q = (if b then yields m Q else yields n Q)"
  by simp

lemma yields_prod [wp]:
  "yields (case p of (a, b) \<Rightarrow> f a b) Q = (case p of (a, b) \<Rightarrow> yields (f a b) Q)"
  by (simp split: prod.split)

lemma runs_mono: "runs m P \<Longrightarrow> (\<And>x. m = Some x \<Longrightarrow> P x \<Longrightarrow> Q x) \<Longrightarrow> runs m Q"
  by (cases m) simp_all

lemma yields_mono: "yields m P \<Longrightarrow> (\<And>x. m = Some x \<Longrightarrow> P x \<Longrightarrow> Q x) \<Longrightarrow> yields m Q"
  by (cases m) simp_all

lemma runs_conj: "runs m P \<Longrightarrow> yields m Q \<Longrightarrow> runs m (\<lambda>x. P x \<and> Q x)"
  by (cases m) simp_all

lemma yields_conj: "yields m P \<Longrightarrow> yields m Q \<Longrightarrow> yields m (\<lambda>x. P x \<and> Q x)"
  by (cases m) simp_all

lemma yieldsI: "(\<And>x. m = Some x \<Longrightarrow> Q x) \<Longrightarrow> yields m Q"
  by (cases m) simp_all

lemma yieldsD: "yields m Q \<Longrightarrow> m = Some x \<Longrightarrow> Q x"
  by simp

lemma runs_iff: "runs m Q \<longleftrightarrow> (\<exists>x. m = Some x \<and> Q x)"
  by (cases m) simp_all

lemma runs_yields: "runs m Q \<Longrightarrow> yields m Q"
  by (cases m) simp_all

section \<open>Buffers, pointers and block memory\<close>

text \<open>
  Every buffer a device hands out is a block of bytes; a pointer is null or a block with an offset.
  Reading and writing check the bounds of the block.
\<close>

datatype ptr = Null | Ptr nat nat

type_synonym mem = "u8 list list"

definition patch :: "'a list \<Rightarrow> nat \<Rightarrow> 'a list \<Rightarrow> 'a list" where
  "patch xs i ys = take i xs @ ys @ drop (i + length ys) xs"

fun ptr_add :: "ptr \<Rightarrow> nat \<Rightarrow> ptr" where
  "ptr_add Null n = Null"
| "ptr_add (Ptr b i) n = Ptr b (i + n)"

fun ptr_sub :: "ptr \<Rightarrow> nat \<Rightarrow> ptr option" where
  "ptr_sub Null n = None"
| "ptr_sub (Ptr b i) n = (if n \<le> i then Some (Ptr b (i - n)) else None)"

fun valid :: "mem \<Rightarrow> ptr \<Rightarrow> nat \<Rightarrow> bool" where
  "valid m Null n = False"
| "valid m (Ptr b i) n = (b < length m \<and> i + n \<le> length (m ! b))"

text \<open>The bytes at a pointer and the memory with bytes replaced, where the access is in bounds.\<close>

fun mem_get :: "mem \<Rightarrow> ptr \<Rightarrow> nat \<Rightarrow> u8 list" where
  "mem_get m Null n = []"
| "mem_get m (Ptr b i) n = take n (drop i (m ! b))"

fun mem_upd :: "mem \<Rightarrow> ptr \<Rightarrow> u8 list \<Rightarrow> mem" where
  "mem_upd m Null bs = m"
| "mem_upd m (Ptr b i) bs = (if valid m (Ptr b i) (length bs) then m[b := patch (m ! b) i bs] else m)"

definition mem_read :: "mem \<Rightarrow> ptr \<Rightarrow> nat \<Rightarrow> u8 list option" where
  "mem_read m p n = (if valid m p n then Some (mem_get m p n) else None)"

definition mem_write :: "mem \<Rightarrow> ptr \<Rightarrow> u8 list \<Rightarrow> mem option" where
  "mem_write m p bs = (if valid m p (length bs) then Some (mem_upd m p bs) else None)"

text \<open>A copy of no bytes touches neither buffer, null or not.\<close>

definition mem_copy :: "mem \<Rightarrow> ptr \<Rightarrow> ptr \<Rightarrow> nat \<Rightarrow> mem option" where
  "mem_copy m dst src n = (if n = 0 then Some m else do { bs \<leftarrow> mem_read m src n; mem_write m dst bs })"

definition st8 :: "mem \<Rightarrow> ptr \<Rightarrow> nat \<Rightarrow> u8 \<Rightarrow> mem option" where
  "st8 m p i v = mem_write m (ptr_add p i) [v]"

definition st16 :: "mem \<Rightarrow> ptr \<Rightarrow> nat \<Rightarrow> u16 \<Rightarrow> mem option" where
  "st16 m p i v = mem_write m (ptr_add p i) (bytes16 v)"

definition st32 :: "mem \<Rightarrow> ptr \<Rightarrow> nat \<Rightarrow> u32 \<Rightarrow> mem option" where
  "st32 m p i v = mem_write m (ptr_add p i) (bytes32 v)"

definition rd8 :: "u8 list \<Rightarrow> nat \<Rightarrow> u8 option" where
  "rd8 xs i = (if i < length xs then Some (xs ! i) else None)"

definition rd16 :: "u8 list \<Rightarrow> nat \<Rightarrow> u16 option" where
  "rd16 xs i = do { a \<leftarrow> rd8 xs i; b \<leftarrow> rd8 xs (i + 1); Some (le16 a b) }"

definition rd32 :: "u8 list \<Rightarrow> nat \<Rightarrow> u32 option" where
  "rd32 xs i = do { a \<leftarrow> rd8 xs i; b \<leftarrow> rd8 xs (i + 1); c \<leftarrow> rd8 xs (i + 2); d \<leftarrow> rd8 xs (i + 3);
     Some (le32 a b c d) }"

definition ld8 :: "mem \<Rightarrow> ptr \<Rightarrow> nat \<Rightarrow> u8 option" where
  "ld8 m p i = do { bs \<leftarrow> mem_read m (ptr_add p i) 1; rd8 bs 0 }"

text \<open>\<open>mem_le m m'\<close>: every access that is in bounds in \<open>m\<close> is in bounds in \<open>m'\<close>.\<close>

definition mem_le :: "mem \<Rightarrow> mem \<Rightarrow> bool" where
  "mem_le m m' \<longleftrightarrow> (\<forall>p n. valid m p n \<longrightarrow> valid m' p n)"

subsection \<open>Laws of the memory\<close>

lemma length_patch [simp]: "i + length ys \<le> length xs \<Longrightarrow> length (patch xs i ys) = length xs"
  by (simp add: patch_def)

lemma patch_nth_in: "i \<le> k \<Longrightarrow> k < i + length ys \<Longrightarrow> i + length ys \<le> length xs \<Longrightarrow> patch xs i ys ! k = ys ! (k - i)"
  by (auto simp: patch_def nth_append less_diff_conv2)

lemma patch_nth_out:
  "k < i \<or> i + length ys \<le> k \<Longrightarrow> i + length ys \<le> length xs \<Longrightarrow> patch xs i ys ! k = xs ! k"
  by (auto simp: patch_def nth_append)

lemma take_drop_patch [simp]:
  "i + length ys \<le> length xs \<Longrightarrow> take (length ys) (drop i (patch xs i ys)) = ys"
  by (simp add: patch_def)

lemma take_drop_patch_out:
  assumes "j + n \<le> i \<or> i + length ys \<le> j" and "i + length ys \<le> length xs" and "j + n \<le> length xs"
  shows "take n (drop j (patch xs i ys)) = take n (drop j xs)"
  using assms by (intro nth_equalityI) (auto simp: patch_nth_out)

lemma mem_le_refl [simp, intro]: "mem_le m m"
  by (simp add: mem_le_def)

lemma mem_le_trans [trans]: "mem_le a b \<Longrightarrow> mem_le b c \<Longrightarrow> mem_le a c"
  by (auto simp: mem_le_def)

lemma valid_mono: "valid m p n \<Longrightarrow> mem_le m m' \<Longrightarrow> valid m' p n"
  by (simp add: mem_le_def)

lemma valid_less: "valid m p n \<Longrightarrow> k \<le> n \<Longrightarrow> valid m p k"
  by (cases p) auto

lemma valid_add [mem_simps]: "valid m p n \<Longrightarrow> i + k \<le> n \<Longrightarrow> valid m (ptr_add p i) k"
  by (cases p) auto

lemma ptr_add_add [simp]: "ptr_add (ptr_add p i) j = ptr_add p (i + j)"
  by (cases p) auto

lemma ptr_add_0 [simp]: "ptr_add p 0 = p"
  by (cases p) auto

lemma ptr_add_Null_iff [simp]: "ptr_add p n = Null \<longleftrightarrow> p = Null"
  by (cases p) auto

lemma ptr_sub_add [simp]: "p \<noteq> Null \<Longrightarrow> ptr_sub (ptr_add p n) n = Some p"
  by (cases p) auto

lemma ptr_sub_eq: "ptr_sub p n = Some q \<Longrightarrow> p = ptr_add q n"
  by (cases p) (auto split: if_splits)

lemma valid_not_Null: "valid m p n \<Longrightarrow> p \<noteq> Null"
  by auto

lemma length_mem_get [simp]: "valid m p n \<Longrightarrow> length (mem_get m p n) = n"
  by (cases p) auto

lemma length_mem_upd [simp]: "length (mem_upd m p bs) = length m"
  by (cases p) auto

lemma valid_mem_upd [simp]: "valid (mem_upd m p bs) = valid m"
proof (intro ext)
  fix q n
  show "valid (mem_upd m p bs) q n = valid m q n"
    by (cases p; cases q) (auto simp: nth_list_update)
qed

lemma mem_le_upd [simp]: "mem_le m (mem_upd m' p bs) = mem_le m m'" "mem_le (mem_upd m p bs) m' = mem_le m m'"
  by (simp_all add: mem_le_def)

lemma mem_read_valid [mem_simps]:
  "valid m p n \<Longrightarrow> k \<le> n \<Longrightarrow> mem_read m p k = Some (mem_get m p k)"
  "valid m p n \<Longrightarrow> i + k \<le> n \<Longrightarrow> mem_read m (ptr_add p i) k = Some (mem_get m (ptr_add p i) k)"
  by (auto simp: mem_read_def elim: valid_less intro: valid_add)

lemma mem_write_valid [mem_simps]:
  "valid m p n \<Longrightarrow> length bs \<le> n \<Longrightarrow> mem_write m p bs = Some (mem_upd m p bs)"
  "valid m p n \<Longrightarrow> i + length bs \<le> n \<Longrightarrow> mem_write m (ptr_add p i) bs = Some (mem_upd m (ptr_add p i) bs)"
  by (auto simp: mem_write_def elim: valid_less intro: valid_add)

lemma mem_get_upd_same [simp]: "valid m p (length bs) \<Longrightarrow> n = length bs \<Longrightarrow> mem_get (mem_upd m p bs) p n = bs"
  by (cases p) auto

text \<open>Stores into a buffer known to be long enough.\<close>

lemma st_valid [mem_simps]:
  "valid m p n \<Longrightarrow> i + 1 \<le> n \<Longrightarrow> st8 m p i a = Some (mem_upd m (ptr_add p i) [a])"
  "valid m p n \<Longrightarrow> i + 2 \<le> n \<Longrightarrow> st16 m p i b = Some (mem_upd m (ptr_add p i) (bytes16 b))"
  "valid m p n \<Longrightarrow> i + 4 \<le> n \<Longrightarrow> st32 m p i c = Some (mem_upd m (ptr_add p i) (bytes32 c))"
  by (simp_all add: st8_def st16_def st32_def mem_write_def valid_add)

lemma ld8_valid [mem_simps]:
  "valid m p n \<Longrightarrow> i + 1 \<le> n \<Longrightarrow> ld8 m p i = Some (mem_get m (ptr_add p i) 1 ! 0)"
  using length_mem_get [OF valid_add [of m p n i 1]]
  by (auto simp: ld8_def mem_read_def valid_add rd8_def simp del: length_mem_get)

text \<open>Two accesses are disjoint when they are in different blocks or do not overlap.\<close>

fun disjoint_from :: "ptr \<Rightarrow> nat \<Rightarrow> ptr \<Rightarrow> nat \<Rightarrow> bool" where
  "disjoint_from (Ptr b i) n (Ptr c j) k = (b \<noteq> c \<or> i + n \<le> j \<or> j + k \<le> i)"
| "disjoint_from _ n _ k = True"

lemma mem_get_upd_other:
  "valid m q n \<Longrightarrow> disjoint_from q n p (length bs) \<Longrightarrow> mem_get (mem_upd m p bs) q n = mem_get m q n"
  by (cases p; cases q) (auto simp: nth_list_update take_drop_patch_out)

section \<open>Further list and option facts\<close>

lemma Some_eq_bind: "(m \<bind> f) = Some y \<longleftrightarrow> (\<exists>x. m = Some x \<and> f x = Some y)"
  by (cases m) simp_all

lemma nth_list_update_if: "i < length xs \<Longrightarrow> xs[j := y] ! i = (if i = j then y else xs ! i)"
  by (simp add: nth_list_update)

section \<open>Linear search\<close>

fun first_index :: "('a \<Rightarrow> bool) \<Rightarrow> 'a list \<Rightarrow> nat option" where
  "first_index P [] = None"
| "first_index P (x # xs) = (if P x then Some 0 else map_option Suc (first_index P xs))"

lemma first_index_Some:
  "first_index P xs = Some k \<Longrightarrow> k < length xs \<and> P (xs ! k) \<and> (\<forall>i < k. \<not> P (xs ! i))"
  by (induction xs arbitrary: k) (auto simp: nth_Cons' split: if_splits)

lemma first_index_None: "first_index P xs = None \<longleftrightarrow> list_all (\<lambda>x. \<not> P x) xs"
  by (induction xs) auto

lemma first_index_ex: "k < length xs \<Longrightarrow> P (xs ! k) \<Longrightarrow> \<exists>i. first_index P xs = Some i"
  using first_index_None [of P xs] by (cases "first_index P xs") (auto simp: list_all_length)

lemma first_index_eqI:
  "k < length xs \<Longrightarrow> P (xs ! k) \<Longrightarrow> (\<And>i. i < k \<Longrightarrow> \<not> P (xs ! i)) \<Longrightarrow> first_index P xs = Some k"
  by (metis first_index_Some first_index_ex linorder_neqE_nat)

section \<open>Successive stores\<close>

lemma patch_right: "i + length ys + length zs \<le> length xs \<Longrightarrow> patch (patch xs i ys) (i + length ys) zs = patch xs i (ys @ zs)"
  by (simp add: patch_def ac_simps)

lemma patch_left: "i + length ys + length zs \<le> length xs \<Longrightarrow> patch (patch xs (i + length ys) zs) i ys = patch xs i (ys @ zs)"
  by (simp add: patch_def ac_simps min_absorb2)

lemma patch_inside:
  "j + length zs \<le> length ys \<Longrightarrow> i + length ys \<le> length xs \<Longrightarrow> patch (patch xs i ys) (i + j) zs = patch xs i (patch ys j zs)"
  by (simp add: patch_def add.assoc min_absorb2)

lemma upd_right [mem_simps]:
  "valid m p (length ys + length zs) \<Longrightarrow> k = length ys \<Longrightarrow> mem_upd (mem_upd m p ys) (ptr_add p k) zs = mem_upd m p (ys @ zs)"
  by (cases p) (auto simp: patch_right)

lemma upd_left [mem_simps]:
  "valid m p (length ys + length zs) \<Longrightarrow> k = length ys \<Longrightarrow> mem_upd (mem_upd m (ptr_add p k) zs) p ys = mem_upd m p (ys @ zs)"
  by (cases p) (auto simp: patch_left)

lemma upd_inside:
  "valid m p (length ys) \<Longrightarrow> j + length zs \<le> length ys \<Longrightarrow> mem_upd (mem_upd m p ys) (ptr_add p j) zs = mem_upd m p (patch ys j zs)"
  by (cases p) (auto simp: patch_inside)

lemma mod_neq_window: "n < w \<Longrightarrow> w < n + d \<Longrightarrow> n mod d \<noteq> w mod (d :: nat)"
  by (metis add_diff_inverse_nat dvd_imp_le less_imp_le_nat mod_eq_dvd_iff_nat
      nat_add_left_cancel_less not_less zero_less_diff)

section \<open>Integers of 64 bits in memory\<close>

definition bytes64 :: "u64 \<Rightarrow> u8 list" where
  "bytes64 w = bytes32 (ucast w) @ bytes32 (ucast (drop_bit 32 w))"

definition rd64 :: "u8 list \<Rightarrow> nat \<Rightarrow> u64 option" where
  "rd64 xs i = do { a \<leftarrow> rd32 xs i; b \<leftarrow> rd32 xs (i + 4); Some (ucast a OR push_bit 32 (ucast b)) }"

lemma length_bytes64 [simp]: "length (bytes64 a) = 8"
  by (simp add: bytes64_def)

lemma rd64_bytes64:
  assumes "take 8 (drop i xs) = bytes64 a"
  shows "rd64 xs i = Some a"
proof -
  have n: "i + k < length xs \<and> xs ! (i + k) = bytes64 a ! k" if "k < 8" for k
  proof -
    have "length (take 8 (drop i xs)) = 8"
      by (simp only: assms length_bytes64)
    then have "i + 8 \<le> length xs"
      by (auto simp: min_def split: if_splits)
    then show ?thesis
      using that nth_take [of k 8 "drop i xs"] by (simp add: assms)
  qed
  have "rd32 xs i = Some (ucast a)" "rd32 xs (i + 4) = Some (ucast (drop_bit 32 a))"
    using n [of 0] n [of 1] n [of 2] n [of 3] n [of 4] n [of 5] n [of 6] n [of 7]
    by (simp_all add: rd32_def rd8_def bytes64_def bytes32_def add.commute)
  moreover have "ucast (ucast a :: u32) OR push_bit 32 (ucast (ucast (drop_bit 32 a) :: u32)) = a"
    by (rule bit_word_eqI) (auto simp: bit_simps)
  ultimately show ?thesis
    by (simp add: rd64_def)
qed

end
