(* ===== verification/Fifo.thy ===== *)
theory Fifo
  imports Prelude
begin

text \<open>
  The single-producer, single-consumer ring of fixed-size slots of \<^verbatim>\<open>include/tulips/fifo/fifo.h\<close> and
  \<^verbatim>\<open>src/fifo\<close>, with the runtime null checks compiled in. The handle \<^verbatim>\<open>tulips_fifo_t\<close> is a
  \<open>fifo option\<close> (\<open>None\<close> is the null handle), the flexible array is the byte list \<open>f_data\<close>, and a
  pointer into it is an offset. The three counters are never reduced: an index is a counter modulo
  the depth, and the number of elements is a difference of counters.
\<close>

section \<open>The code\<close>

text \<open>In the C enumeration \<^verbatim>\<open>TULIPS_FIFO_YES\<close> and \<^verbatim>\<open>TULIPS_FIFO_OK\<close> are the same value.\<close>

datatype fifo_error =
    FIFO_NO | FIFO_OK | FIFO_IS_NULL | FIFO_ALREADY_ALLOCATED | FIFO_INVALID_DEPTH
  | FIFO_INVALID_DATA_LEN | FIFO_MALLOC_FAILED | FIFO_EMPTY | FIFO_FULL | FIFO_NO_SPACE_LEFT
  | FIFO_NO_PENDING_PUSH

abbreviation "FIFO_YES \<equiv> FIFO_OK"

record fifo =
  f_depth :: u64
  f_data_len :: u64
  f_prepare_count :: u64
  f_write_count :: u64
  f_read_count :: u64
  f_data :: "u8 list"

fun tulips_fifo_empty :: "fifo option \<Rightarrow> fifo_error" where
  "tulips_fifo_empty None = FIFO_IS_NULL"
| "tulips_fifo_empty (Some f) = (if f_read_count f = f_write_count f then FIFO_YES else FIFO_NO)"

fun tulips_fifo_full :: "fifo option \<Rightarrow> fifo_error" where
  "tulips_fifo_full None = FIFO_IS_NULL"
| "tulips_fifo_full (Some f) =
     (if f_write_count f - f_read_count f = f_depth f then FIFO_YES else FIFO_NO)"

fun tulips_fifo_must_prepare :: "fifo option \<Rightarrow> fifo_error" where
  "tulips_fifo_must_prepare None = FIFO_IS_NULL"
| "tulips_fifo_must_prepare (Some f) =
     (if f_prepare_count f = f_write_count f then FIFO_YES else FIFO_NO)"

fun tulips_fifo_must_commit :: "fifo option \<Rightarrow> fifo_error" where
  "tulips_fifo_must_commit None = FIFO_IS_NULL"
| "tulips_fifo_must_commit (Some f) =
     (if f_prepare_count f - f_read_count f = f_depth f then FIFO_YES else FIFO_NO)"

text \<open>The slot a counter selects, as an offset into the data.\<close>

definition slot_at :: "fifo \<Rightarrow> u64 \<Rightarrow> nat" where
  "slot_at f c = unat (c mod f_depth f) * unat (f_data_len f)"

fun tulips_fifo_front :: "fifo option \<Rightarrow> fifo_error \<times> nat option" where
  "tulips_fifo_front None = (FIFO_IS_NULL, None)"
| "tulips_fifo_front (Some f) =
     (if tulips_fifo_empty (Some f) = FIFO_YES then (FIFO_EMPTY, None)
      else (FIFO_OK, Some (slot_at f (f_read_count f))))"

text \<open>\<open>None\<close>: the copy reads past the caller's data or writes past the allocation.\<close>

fun tulips_fifo_push :: "fifo option \<Rightarrow> u8 list \<Rightarrow> (fifo_error \<times> fifo option) option" where
  "tulips_fifo_push None d = Some (FIFO_IS_NULL, None)"
| "tulips_fifo_push (Some f) d =
     (if tulips_fifo_full (Some f) = FIFO_YES then Some (FIFO_FULL, Some f)
      else let n = unat (f_data_len f); i = slot_at f (f_write_count f)
           in if n \<le> length d \<and> i + n \<le> length (f_data f)
              then Some (FIFO_OK, Some (f\<lparr>f_data := patch (f_data f) i (take n d),
                                          f_write_count := f_write_count f + 1\<rparr>))
              else None)"

fun tulips_fifo_pop :: "fifo option \<Rightarrow> fifo_error \<times> fifo option" where
  "tulips_fifo_pop None = (FIFO_IS_NULL, None)"
| "tulips_fifo_pop (Some f) =
     (if tulips_fifo_empty (Some f) = FIFO_YES then (FIFO_EMPTY, Some f)
      else (FIFO_OK, Some (f\<lparr>f_read_count := f_read_count f + 1\<rparr>)))"

fun tulips_fifo_prepare :: "fifo option \<Rightarrow> fifo_error \<times> nat option \<times> fifo option" where
  "tulips_fifo_prepare None = (FIFO_IS_NULL, None, None)"
| "tulips_fifo_prepare (Some f) =
     (if tulips_fifo_must_commit (Some f) = FIFO_YES then (FIFO_NO_SPACE_LEFT, None, Some f)
      else (FIFO_OK, Some (slot_at f (f_prepare_count f)),
            Some (f\<lparr>f_prepare_count := f_prepare_count f + 1\<rparr>)))"

fun tulips_fifo_commit :: "fifo option \<Rightarrow> fifo_error \<times> fifo option" where
  "tulips_fifo_commit None = (FIFO_IS_NULL, None)"
| "tulips_fifo_commit (Some f) =
     (if tulips_fifo_must_prepare (Some f) = FIFO_YES then (FIFO_NO_PENDING_PUSH, Some f)
      else (FIFO_OK, Some (f\<lparr>f_write_count := f_write_count f + 1\<rparr>)))"

text \<open>
  \<open>tulips_fifo_create depth dlen ok res\<close>: \<open>ok\<close> is whether \<^verbatim>\<open>malloc\<close> succeeds and \<open>res\<close> the handle
  before the call. The size is computed in 64 bits; 40 is the size of the fixed part of the
  structure, and an allocation smaller than that cannot even hold the counters (\<open>None\<close>).
\<close>

definition tulips_fifo_create ::
    "u64 \<Rightarrow> u64 \<Rightarrow> bool \<Rightarrow> fifo option \<Rightarrow> (fifo_error \<times> fifo option) option" where
  "tulips_fifo_create depth dlen ok res =
     (if depth = 0 then Some (FIFO_INVALID_DEPTH, res)
      else if dlen = 0 then Some (FIFO_INVALID_DATA_LEN, res)
      else if res \<noteq> None then Some (FIFO_ALREADY_ALLOCATED, res)
      else let payload = depth * dlen + 40
           in if \<not> ok then Some (FIFO_MALLOC_FAILED, res)
              else if payload < 40 then None
              else Some (FIFO_OK, Some \<lparr>f_depth = depth, f_data_len = dlen, f_prepare_count = 0,
                 f_write_count = 0, f_read_count = 0, f_data = replicate (unat payload - 40) 0\<rparr>))"

fun tulips_fifo_destroy :: "fifo option \<Rightarrow> fifo_error \<times> fifo option" where
  "tulips_fifo_destroy None = (FIFO_IS_NULL, None)"
| "tulips_fifo_destroy (Some f) = (FIFO_OK, None)"

section \<open>The interface: a bounded first-in first-out queue\<close>

text \<open>
  \<open>live\<close> says that one more element can be counted without overflow; \<open>fits\<close> that an element has the
  size of a slot.
\<close>

locale bounded_queue =
  fixes inv :: "'q \<Rightarrow> bool" and elems :: "'q \<Rightarrow> 'a list" and bound :: "'q \<Rightarrow> nat"
    and live :: "'q \<Rightarrow> bool" and fits :: "'q \<Rightarrow> 'a \<Rightarrow> bool"
    and push :: "'a \<Rightarrow> 'q \<Rightarrow> 'q option" and pop :: "'q \<Rightarrow> 'q option" and front :: "'q \<Rightarrow> 'a option"
  assumes elems_bound: "inv q \<Longrightarrow> length (elems q) \<le> bound q"
    and push_full: "inv q \<Longrightarrow> length (elems q) = bound q \<Longrightarrow> push x q = None"
    and push_room: "inv q \<Longrightarrow> live q \<Longrightarrow> fits q x \<Longrightarrow> length (elems q) < bound q \<Longrightarrow>
      \<exists>q'. push x q = Some q' \<and> inv q' \<and> elems q' = elems q @ [x] \<and> bound q' = bound q"
    and pop_empty: "inv q \<Longrightarrow> elems q = [] \<Longrightarrow> pop q = None"
    and pop_some: "inv q \<Longrightarrow> elems q = x # xs \<Longrightarrow>
      \<exists>q'. pop q = Some q' \<and> inv q' \<and> elems q' = xs \<and> bound q' = bound q"
    and front_elems: "inv q \<Longrightarrow> front q = (case elems q of [] \<Rightarrow> None | x # _ \<Rightarrow> Some x)"
begin

lemma push_Some_iff: "inv q \<Longrightarrow> live q \<Longrightarrow> fits q x \<Longrightarrow> push x q \<noteq> None \<longleftrightarrow> length (elems q) < bound q"
  using push_room push_full elems_bound by (metis le_neq_implies_less option.distinct(1))

lemma push_abs:
  assumes "inv q" "live q" "fits q x" "push x q = Some q'"
  shows "inv q' \<and> elems q' = elems q @ [x] \<and> bound q' = bound q"
proof -
  have "length (elems q) < bound q"
    using assms push_Some_iff by (metis option.distinct(1))
  from push_room [OF assms(1-3) this] assms(4) show ?thesis by auto
qed

lemma pop_abs:
  assumes "inv q" "pop q = Some q'"
  shows "inv q' \<and> elems q = the (front q) # elems q' \<and> bound q' = bound q"
proof (cases "elems q")
  case Nil
  with assms pop_empty show ?thesis by simp
next
  case (Cons x xs)
  from pop_some [OF assms(1) Cons] assms(2) front_elems [OF assms(1)] Cons show ?thesis by auto
qed

text \<open>What is pushed into an empty queue is popped next.\<close>

lemma push_pop:
  assumes "inv q" "live q" "fits q x" "push x q = Some q'" "elems q = []"
  shows "front q' = Some x \<and> (\<exists>q''. pop q' = Some q'' \<and> elems q'' = [])"
proof -
  from push_abs [OF assms(1-4)] assms(5) have q': "inv q'" "elems q' = [x]" by simp_all
  from pop_some [OF q'] front_elems [OF q'(1)] q'(2) show ?thesis by auto
qed

end


section \<open>The ring implements the interface\<close>

definition fifo_slot :: "fifo \<Rightarrow> nat \<Rightarrow> u8 list" where
  "fifo_slot f n = take (unat (f_data_len f)) (drop ((n mod unat (f_depth f)) * unat (f_data_len f)) (f_data f))"

text \<open>The elements between the read and the write counter, oldest first.\<close>

definition fifo_elems :: "fifo \<Rightarrow> u8 list list" where
  "fifo_elems f = map (fifo_slot f) [unat (f_read_count f) ..< unat (f_write_count f)]"

definition fifo_inv :: "fifo \<Rightarrow> bool" where
  "fifo_inv f \<longleftrightarrow> 0 < unat (f_depth f) \<and> 0 < unat (f_data_len f) \<and>
     length (f_data f) = unat (f_depth f) * unat (f_data_len f) \<and>
     unat (f_read_count f) \<le> unat (f_write_count f) \<and>
     unat (f_write_count f) \<le> unat (f_read_count f) + unat (f_depth f)"

definition fifo_live :: "fifo \<Rightarrow> bool" where
  "fifo_live f \<longleftrightarrow> unat (f_write_count f) < 2 ^ 64 - 1"

definition fifo_push1 :: "u8 list \<Rightarrow> fifo \<Rightarrow> fifo option" where
  "fifo_push1 x f = (case tulips_fifo_push (Some f) x of Some (FIFO_OK, f') \<Rightarrow> f' | _ \<Rightarrow> None)"

definition fifo_pop1 :: "fifo \<Rightarrow> fifo option" where
  "fifo_pop1 f = (case tulips_fifo_pop (Some f) of (FIFO_OK, f') \<Rightarrow> f' | _ \<Rightarrow> None)"

definition fifo_front1 :: "fifo \<Rightarrow> u8 list option" where
  "fifo_front1 f = (case tulips_fifo_front (Some f) of
     (FIFO_OK, Some i) \<Rightarrow> Some (take (unat (f_data_len f)) (drop i (f_data f))) | _ \<Rightarrow> None)"

lemma slot_apart:
  assumes "a \<noteq> (b :: nat)"
  shows "a * n + n \<le> b * n \<or> b * n + n \<le> a * n"
proof (cases "a < b")
  case True
  then have "Suc a * n \<le> b * n" by (intro mult_le_mono1) simp
  then show ?thesis by simp
next
  case False
  with assms have "Suc b * n \<le> a * n" by (intro mult_le_mono1) simp
  then show ?thesis by simp
qed

lemma slot_in_range: "fifo_inv f \<Longrightarrow> (n mod unat (f_depth f)) * unat (f_data_len f) + unat (f_data_len f) \<le> length (f_data f)"
proof -
  assume inv: "fifo_inv f"
  then have "Suc (n mod unat (f_depth f)) \<le> unat (f_depth f)"
    by (simp add: fifo_inv_def Suc_leI)
  then have "Suc (n mod unat (f_depth f)) * unat (f_data_len f) \<le> unat (f_depth f) * unat (f_data_len f)"
    by (rule mult_le_mono1)
  with inv show ?thesis by (simp add: fifo_inv_def)
qed

lemma slot_at_nat: "slot_at f c = (unat c mod unat (f_depth f)) * unat (f_data_len f)"
  by (simp add: slot_at_def unat_mod)

lemma length_fifo_elems: "fifo_inv f \<Longrightarrow> length (fifo_elems f) = unat (f_write_count f) - unat (f_read_count f)"
  by (simp add: fifo_elems_def)

lemma fifo_full_iff:
  assumes "fifo_inv f"
  shows "tulips_fifo_full (Some f) = FIFO_YES \<longleftrightarrow> length (fifo_elems f) = unat (f_depth f)"
proof -
  have "unat (f_write_count f - f_read_count f) = unat (f_write_count f) - unat (f_read_count f)"
    using assms by (intro unat_sub) (simp add: fifo_inv_def word_le_nat_alt)
  then show ?thesis
    using assms by (simp add: word_unat_eq_iff length_fifo_elems)
qed

lemma fifo_empty_iff: "fifo_inv f \<Longrightarrow> tulips_fifo_empty (Some f) = FIFO_YES \<longleftrightarrow> fifo_elems f = []"
  by (auto simp: fifo_elems_def fifo_inv_def word_unat_eq_iff)

lemma unat_inc64: "unat c < 2 ^ 64 - 1 \<Longrightarrow> unat (c + 1 :: u64) = unat c + 1"
  by (simp add: unat_word_ariths)

lemma fifo_push_room:
  assumes inv: "fifo_inv f" and live: "fifo_live f" and len: "length x = unat (f_data_len f)"
    and room: "length (fifo_elems f) < unat (f_depth f)"
  shows "\<exists>f'. fifo_push1 x f = Some f' \<and> fifo_inv f' \<and> fifo_elems f' = fifo_elems f @ [x] \<and>
    f_depth f' = f_depth f \<and> f_data_len f' = f_data_len f \<and>
    unat (f_write_count f') = unat (f_write_count f) + 1"
proof -
  let ?w = "unat (f_write_count f)" let ?r = "unat (f_read_count f)"
  let ?i = "slot_at f (f_write_count f)"
  let ?f = "f\<lparr>f_data := patch (f_data f) ?i x, f_write_count := f_write_count f + 1\<rparr>"
  have fit: "?i + length x \<le> length (f_data f)"
    using slot_in_range [OF inv] len by (simp add: slot_at_nat)
  have w1: "unat (f_write_count f + 1) = ?w + 1"
    using live by (simp add: fifo_live_def unat_inc64)
  have gap: "?w < ?r + unat (f_depth f)" "?r \<le> ?w"
    using room inv length_fifo_elems [OF inv] by (auto simp: fifo_inv_def)
  have push: "fifo_push1 x f = Some ?f"
    using fifo_full_iff [OF inv] room fit len by (auto simp: fifo_push1_def Let_def)
  have old: "fifo_slot ?f n = fifo_slot f n" if "n \<in> set [?r ..< ?w]" for n
  proof -
    have "n mod unat (f_depth f) \<noteq> ?w mod unat (f_depth f)"
      using that gap by (intro mod_neq_window) auto
    from slot_apart [OF this] show ?thesis
      using slot_in_range [OF inv, of n] fit len
      by (simp add: fifo_slot_def slot_at_nat take_drop_patch_out)
  qed
  have new: "fifo_slot ?f ?w = x"
    using take_drop_patch [OF fit] len by (simp add: fifo_slot_def flip: slot_at_nat)
  have "fifo_elems ?f = fifo_elems f @ [x]"
    using gap old new by (simp add: fifo_elems_def w1)
  moreover have "fifo_inv ?f"
    using inv gap fit by (simp add: fifo_inv_def w1)
  ultimately show ?thesis
    using push w1 by simp
qed

lemma fifo_front_elems:
  "fifo_inv f \<Longrightarrow> fifo_front1 f = (case fifo_elems f of [] \<Rightarrow> None | x # _ \<Rightarrow> Some x)"
proof -
  assume inv: "fifo_inv f"
  show ?thesis
  proof (cases "fifo_elems f")
    case Nil
    with fifo_empty_iff [OF inv] show ?thesis
      by (simp add: fifo_front1_def)
  next
    case (Cons x xs)
    then have "unat (f_read_count f) < unat (f_write_count f)" "x = fifo_slot f (unat (f_read_count f))"
      by (auto simp: fifo_elems_def upt_rec split: if_splits)
    with Cons fifo_empty_iff [OF inv] show ?thesis
      by (auto simp: fifo_front1_def fifo_slot_def slot_at_nat)
  qed
qed

lemma fifo_pop_some:
  assumes inv: "fifo_inv f" and elems: "fifo_elems f = x # xs"
  shows "\<exists>f'. fifo_pop1 f = Some f' \<and> fifo_inv f' \<and> fifo_elems f' = xs \<and> f_depth f' = f_depth f \<and>
    f_data_len f' = f_data_len f \<and> f_write_count f' = f_write_count f"
proof -
  let ?f = "f\<lparr>f_read_count := f_read_count f + 1\<rparr>"
  have lt: "unat (f_read_count f) < unat (f_write_count f)"
    using elems by (auto simp: fifo_elems_def upt_rec split: if_splits)
  moreover have "unat (f_write_count f) < 2 ^ 64"
    using unsigned_less [of "f_write_count f"] by simp
  ultimately have r1: "unat (f_read_count f + 1) = unat (f_read_count f) + 1"
    by (intro unat_inc64) linarith
  have "fifo_pop1 f = Some ?f"
    using fifo_empty_iff [OF inv] elems by (simp add: fifo_pop1_def)
  moreover have "fifo_inv ?f"
    using inv lt r1 by (simp add: fifo_inv_def)
  moreover have "fifo_elems ?f = xs"
    using elems lt by (simp add: fifo_elems_def r1 upt_rec [of "unat (f_read_count f)"] fifo_slot_def [abs_def])
  ultimately show ?thesis by simp
qed

interpretation ring: bounded_queue fifo_inv fifo_elems "\<lambda>f. unat (f_depth f)" fifo_live
    "\<lambda>f x. length x = unat (f_data_len f)" fifo_push1 fifo_pop1 fifo_front1
proof (unfold_locales, goal_cases)
  case (1 q)
  then show ?case by (auto simp: length_fifo_elems fifo_inv_def)
next
  case (2 q x)
  then show ?case using fifo_full_iff [of q] by (simp add: fifo_push1_def)
next
  case (3 q x)
  then show ?case using fifo_push_room by metis
next
  case (4 q)
  then show ?case using fifo_empty_iff [of q] by (simp add: fifo_pop1_def)
next
  case (5 q x xs)
  then show ?case using fifo_pop_some by metis
next
  case (6 q)
  then show ?case by (rule fifo_front_elems)
qed


section \<open>Properties\<close>

subsection \<open>Sequences of operations\<close>

text \<open>
  A sequence of calls on the ring and the same sequence on a list: each call returns its error code
  and, for \<^verbatim>\<open>front\<close>, the bytes of the slot the returned pointer designates.
\<close>

datatype fifo_op = FPush "u8 list" | FPop | FFront

fun fifo_call :: "fifo_op \<Rightarrow> fifo \<Rightarrow> ((fifo_error \<times> u8 list option) \<times> fifo) option" where
  "fifo_call (FPush x) f = (case tulips_fifo_push (Some f) x of
     Some (e, Some f') \<Rightarrow> Some ((e, None), f') | _ \<Rightarrow> None)"
| "fifo_call FPop f = (case tulips_fifo_pop (Some f) of
     (e, Some f') \<Rightarrow> Some ((e, None), f') | _ \<Rightarrow> None)"
| "fifo_call FFront f = (case tulips_fifo_front (Some f) of
     (e, i) \<Rightarrow> Some ((e, map_option (\<lambda>i. take (unat (f_data_len f)) (drop i (f_data f))) i), f))"

fun fifo_calls :: "fifo_op list \<Rightarrow> fifo \<Rightarrow> ((fifo_error \<times> u8 list option) list \<times> fifo) option" where
  "fifo_calls [] f = Some ([], f)"
| "fifo_calls (c # cs) f = do { (r, f) \<leftarrow> fifo_call c f; (rs, f) \<leftarrow> fifo_calls cs f; Some (r # rs, f) }"

fun queue_call :: "nat \<Rightarrow> fifo_op \<Rightarrow> u8 list list \<Rightarrow> (fifo_error \<times> u8 list option) \<times> u8 list list" where
  "queue_call n (FPush x) q =
     (if length q < n then ((FIFO_OK, None), q @ [x]) else ((FIFO_FULL, None), q))"
| "queue_call n FPop q = (case q of [] \<Rightarrow> ((FIFO_EMPTY, None), q) | x # q' \<Rightarrow> ((FIFO_OK, None), q'))"
| "queue_call n FFront q = (case q of [] \<Rightarrow> ((FIFO_EMPTY, None), q) | x # q' \<Rightarrow> ((FIFO_OK, Some x), q))"

fun queue_calls :: "nat \<Rightarrow> fifo_op list \<Rightarrow> u8 list list \<Rightarrow> (fifo_error \<times> u8 list option) list \<times> u8 list list" where
  "queue_calls n [] q = ([], q)"
| "queue_calls n (c # cs) q = (let (r, q) = queue_call n c q; (rs, q) = queue_calls n cs q in (r # rs, q))"

lemma fifo_call_refines:
  assumes inv: "fifo_inv f" and live: "fifo_live f"
    and len: "\<And>x. c = FPush x \<Longrightarrow> length x = unat (f_data_len f)"
  shows "\<exists>r f'. fifo_call c f = Some (r, f') \<and> fifo_inv f' \<and> f_depth f' = f_depth f \<and>
    f_data_len f' = f_data_len f \<and> unat (f_write_count f') \<le> unat (f_write_count f) + 1 \<and>
    queue_call (unat (f_depth f)) c (fifo_elems f) = (r, fifo_elems f')"
proof (cases c)
  case (FPush x)
  show ?thesis
  proof (cases "length (fifo_elems f) < unat (f_depth f)")
    case True
    from fifo_push_room [OF inv live len [OF FPush] True] obtain f' where
      f': "fifo_push1 x f = Some f'" "fifo_inv f'" "fifo_elems f' = fifo_elems f @ [x]"
        "f_depth f' = f_depth f" "f_data_len f' = f_data_len f"
        "unat (f_write_count f') = unat (f_write_count f) + 1" by blast
    from f'(1) have "tulips_fifo_push (Some f) x = Some (FIFO_OK, Some f')"
      by (auto simp: fifo_push1_def split: option.splits prod.splits fifo_error.splits)
    with f' FPush True show ?thesis by simp
  next
    case False
    then have "tulips_fifo_full (Some f) = FIFO_YES"
      using ring.elems_bound [OF inv] fifo_full_iff [OF inv] by simp
    with inv FPush False show ?thesis by simp
  qed
next
  case FPop
  show ?thesis
  proof (cases "fifo_elems f")
    case Nil
    with fifo_empty_iff [OF inv] inv FPop show ?thesis by simp
  next
    case (Cons x xs)
    from fifo_pop_some [OF inv Cons] obtain f' where
      f': "fifo_pop1 f = Some f'" "fifo_inv f'" "fifo_elems f' = xs"
        "f_depth f' = f_depth f" "f_data_len f' = f_data_len f" "f_write_count f' = f_write_count f"
      by blast
    from f'(1) have "tulips_fifo_pop (Some f) = (FIFO_OK, Some f')"
      by (auto simp: fifo_pop1_def split: option.splits prod.splits fifo_error.splits if_splits)
    with f' FPop Cons show ?thesis by simp
  qed
next
  case FFront
  show ?thesis
  proof (cases "fifo_elems f")
    case Nil
    with fifo_empty_iff [OF inv] inv FFront show ?thesis by simp
  next
    case (Cons x xs)
    with fifo_front_elems [OF inv] fifo_empty_iff [OF inv] inv FFront show ?thesis
      by (auto simp: fifo_front1_def)
  qed
qed

text \<open>
  C20: Any sequence of push, pop and front calls on the ring runs without leaving the allocation and
  returns exactly what a list queue of the same bound returns: no element is lost, duplicated,
  reordered or corrupted by the wrap-around of the slots, and full and empty are reported exactly
  then. The only bound is that the 64-bit write counter does not overflow.
\<close>

theorem fifo_refines_queue:
  assumes "fifo_inv f" and "unat (f_write_count f) + length cs < 2 ^ 64"
    and "\<forall>x. FPush x \<in> set cs \<longrightarrow> length x = unat (f_data_len f)"
  shows "\<exists>rs f'. fifo_calls cs f = Some (rs, f') \<and> fifo_inv f' \<and>
    queue_calls (unat (f_depth f)) cs (fifo_elems f) = (rs, fifo_elems f')"
  using assms
proof (induction cs arbitrary: f)
  case Nil
  then show ?case by simp
next
  case (Cons c cs)
  have live: "fifo_live f"
    using Cons.prems(2) by (simp add: fifo_live_def)
  from Cons.prems(3) have len: "\<And>x. c = FPush x \<Longrightarrow> length x = unat (f_data_len f)" by simp
  from fifo_call_refines [OF Cons.prems(1) live len] obtain r f' where
    c: "fifo_call c f = Some (r, f')" "fifo_inv f'" "f_depth f' = f_depth f" "f_data_len f' = f_data_len f"
      "unat (f_write_count f') \<le> unat (f_write_count f) + 1"
      "queue_call (unat (f_depth f)) c (fifo_elems f) = (r, fifo_elems f')"
    by blast
  have "unat (f_write_count f') + length cs < 2 ^ 64" "\<forall>x. FPush x \<in> set cs \<longrightarrow> length x = unat (f_data_len f')"
    using Cons.prems(2,3) c(4,5) by auto
  from Cons.IH [OF c(2) this] obtain rs f'' where
    "fifo_calls cs f' = Some (rs, f'')" "fifo_inv f''"
    "queue_calls (unat (f_depth f')) cs (fifo_elems f') = (rs, fifo_elems f'')"
    by blast
  with c show ?case by simp
qed

theorem fifo_refines_queue_witness:
  "\<exists>rs f'. fifo_calls [FPush [7], FPush [8], FPush [9], FPop, FPush [9], FFront]
      \<lparr>f_depth = 2, f_data_len = 1, f_prepare_count = 0, f_write_count = 0, f_read_count = 0, f_data = [0, 0]\<rparr>
      = Some (rs, f') \<and> fifo_inv f' \<and>
    queue_calls 2 [FPush [7], FPush [8], FPush [9], FPop, FPush [9], FFront] [] = (rs, fifo_elems f')"
  using fifo_refines_queue [of "\<lparr>f_depth = 2, f_data_len = 1, f_prepare_count = 0, f_write_count = 0,
      f_read_count = 0, f_data = [0, 0]\<rparr>" "[FPush [7], FPush [8], FPush [9], FPop, FPush [9], FFront]"]
  by (simp add: fifo_inv_def fifo_elems_def)

text \<open>
  Creation: when the 64-bit size computation does not overflow and \<^verbatim>\<open>malloc\<close> succeeds, the new ring
  satisfies the invariant and is empty; null sizes and an allocated handle are refused unchanged.
\<close>

theorem fifo_create_spec:
  "(depth = 0 \<longrightarrow> tulips_fifo_create depth dlen ok res = Some (FIFO_INVALID_DEPTH, res)) \<and>
   (depth \<noteq> 0 \<and> dlen = 0 \<longrightarrow> tulips_fifo_create depth dlen ok res = Some (FIFO_INVALID_DATA_LEN, res)) \<and>
   (depth \<noteq> 0 \<and> dlen \<noteq> 0 \<and> res \<noteq> None \<longrightarrow>
      tulips_fifo_create depth dlen ok res = Some (FIFO_ALREADY_ALLOCATED, res)) \<and>
   (depth \<noteq> 0 \<and> dlen \<noteq> 0 \<and> res = None \<and> ok \<and> unat depth * unat dlen + 40 < 2 ^ 64 \<longrightarrow>
      (\<exists>f. tulips_fifo_create depth dlen ok res = Some (FIFO_OK, Some f) \<and> fifo_inv f \<and> fifo_elems f = []))"
proof -
  have "unat (depth * dlen + 40) = unat depth * unat dlen + 40"
    if "unat depth * unat dlen + 40 < 2 ^ 64"
    using that by (simp add: unat_word_ariths)
  then show ?thesis
    by (auto simp: tulips_fifo_create_def Let_def fifo_inv_def fifo_elems_def unat_gt_0 word_less_nat_alt)
qed

theorem fifo_create_spec_witness:
  "\<exists>f. tulips_fifo_create 4 16 True None = Some (FIFO_OK, Some f) \<and> fifo_inv f \<and> fifo_elems f = []"
  using fifo_create_spec [of 4 16 True None] by simp

subsection \<open>Slots prepared in place\<close>

text \<open>In the prepare/commit protocol the slots from the write to the prepare counter are being filled.\<close>

definition fifo_pinv :: "fifo \<Rightarrow> bool" where
  "fifo_pinv f \<longleftrightarrow> fifo_inv f \<and> unat (f_write_count f) \<le> unat (f_prepare_count f) \<and>
     unat (f_prepare_count f) \<le> unat (f_read_count f) + unat (f_depth f)"

text \<open>
  A slot handed out by \<^verbatim>\<open>prepare\<close> lies inside the allocation and overlaps neither a slot the reader can
  still see nor a slot prepared earlier and not yet committed; a commit then appends exactly the
  content of the oldest prepared slot to the readable elements, and both keep the invariant.
\<close>

theorem fifo_prepare_commit:
  assumes inv: "fifo_pinv f" and live: "unat (f_prepare_count f) < 2 ^ 64 - 1"
  shows "(\<forall>i f'. tulips_fifo_prepare (Some f) = (FIFO_OK, Some i, Some f') \<longrightarrow> fifo_pinv f' \<and>
      i + unat (f_data_len f) \<le> length (f_data f) \<and>
      (\<forall>n. unat (f_read_count f) \<le> n \<and> n < unat (f_prepare_count f) \<longrightarrow>
        (let j = (n mod unat (f_depth f)) * unat (f_data_len f); l = unat (f_data_len f)
         in i + l \<le> j \<or> j + l \<le> i))) \<and>
    (\<forall>f'. tulips_fifo_commit (Some f) = (FIFO_OK, Some f') \<longrightarrow> fifo_pinv f' \<and>
      fifo_elems f' = fifo_elems f @ [fifo_slot f (unat (f_write_count f))])"
proof (intro conjI allI impI)
  fix i f' assume prep: "tulips_fifo_prepare (Some f) = (FIFO_OK, Some i, Some f')"
  have fi: "fifo_inv f"
    using inv by (simp add: fifo_pinv_def)
  let ?p = "unat (f_prepare_count f)" let ?r = "unat (f_read_count f)"
  have sub: "unat (f_prepare_count f - f_read_count f) = ?p - ?r"
    using inv by (intro unat_sub) (simp add: fifo_pinv_def fifo_inv_def word_le_nat_alt)
  have room: "?p < ?r + unat (f_depth f)"
    using prep sub inv by (auto simp: fifo_pinv_def word_unat_eq_iff split: if_splits)
  have f': "f' = f\<lparr>f_prepare_count := f_prepare_count f + 1\<rparr>" and i: "i = slot_at f (f_prepare_count f)"
    using prep by (auto split: if_splits)
  show "fifo_pinv f'"
    using inv room live by (simp add: f' fifo_pinv_def fifo_inv_def unat_inc64)
  show "i + unat (f_data_len f) \<le> length (f_data f)"
    using slot_in_range [OF fi] by (simp add: i slot_at_nat)
  fix n assume n: "?r \<le> n \<and> n < ?p"
  then have "n mod unat (f_depth f) \<noteq> ?p mod unat (f_depth f)"
    using room by (intro mod_neq_window) auto
  from slot_apart [OF this, of "unat (f_data_len f)"] show "let j = (n mod unat (f_depth f)) * unat (f_data_len f); l = unat (f_data_len f)
         in i + l \<le> j \<or> j + l \<le> i"
    by (auto simp: i slot_at_nat Let_def)
next
  fix f' assume com: "tulips_fifo_commit (Some f) = (FIFO_OK, Some f')"
  then have f': "f' = f\<lparr>f_write_count := f_write_count f + 1\<rparr>" and ne: "f_prepare_count f \<noteq> f_write_count f"
    by (auto split: if_splits)
  then have lt: "unat (f_write_count f) < unat (f_prepare_count f)"
    using inv by (auto simp: fifo_pinv_def word_unat_eq_iff)
  then have w1: "unat (f_write_count f + 1) = unat (f_write_count f) + 1"
    using live by (intro unat_inc64) linarith
  show "fifo_pinv f'"
    using inv lt by (simp add: f' fifo_pinv_def fifo_inv_def w1)
  show "fifo_elems f' = fifo_elems f @ [fifo_slot f (unat (f_write_count f))]"
    using inv by (simp add: f' fifo_elems_def w1 fifo_pinv_def fifo_inv_def fifo_slot_def [abs_def])
qed

theorem fifo_prepare_commit_witness:
  "let f = \<lparr>f_depth = 2, f_data_len = 1, f_prepare_count = 2, f_write_count = 1, f_read_count = 1, f_data = [3, 4]\<rparr>;
       f' = f\<lparr>f_write_count := 2\<rparr>
   in fifo_pinv f \<and> tulips_fifo_commit (Some f) = (FIFO_OK, Some f') \<and> fifo_pinv f' \<and> fifo_elems f' = [[4]]"
  using fifo_prepare_commit [of "\<lparr>f_depth = 2, f_data_len = 1, f_prepare_count = 2, f_write_count = 1,
      f_read_count = 1, f_data = [3, 4]\<rparr>"]
  by (simp add: fifo_pinv_def fifo_inv_def fifo_elems_def fifo_slot_def Let_def)

end
