(* ===== verification/Checksum.thy ===== *)
theory Checksum
  imports Prelude
begin

text \<open>
  The Internet checksum of \<^verbatim>\<open>src/stack/Utils.cpp\<close> and its uses for IPv4, ICMPv4 and TCPv4 headers
  (\<^verbatim>\<open>src/stack/IPv4.cpp\<close>, \<^verbatim>\<open>src/stack/ICMPv4.cpp\<close>, \<^verbatim>\<open>src/stack/tcpv4/Processor.cpp\<close>), with the
  arithmetic that justifies them: the 16-bit loop with end-around carry computes the one's
  complement sum, and a message whose checksum field holds the complement of that sum verifies.
\<close>

section \<open>The code\<close>

definition be16 :: "u8 \<Rightarrow> u8 \<Rightarrow> u16" where
  "be16 a b = push_bit 8 (ucast a) + ucast b"

definition csum_add :: "u16 \<Rightarrow> u16 \<Rightarrow> u16" where
  "csum_add s t = (let s = s + t in if s < t then s + 1 else s)"

fun csum_loop :: "u16 \<Rightarrow> u8 list \<Rightarrow> u16" where
  "csum_loop s [] = s"
| "csum_loop s [a] = csum_add s (be16 a 0)"
| "csum_loop s (a # b # xs) = csum_loop (csum_add s (be16 a b)) xs"

definition checksum :: "u16 \<Rightarrow> u8 list \<Rightarrow> u16 \<Rightarrow> u16 option" where
  "checksum seed data len =
     (if unat len \<le> length data then Some (csum_loop seed (take (unat len) data)) else None)"

definition cap :: "u32 \<Rightarrow> u16" where
  "cap l = (if l > 0xFFFF then 0xFFFF else ucast l)"

text \<open>The callers map a zero sum to \<open>0xffff\<close> and return network byte order.\<close>

definition csum_result :: "u16 \<Rightarrow> u16" where
  "csum_result s = (if s = 0 then 0xFFFF else htons s)"

definition ipv4_checksum :: "u8 list \<Rightarrow> u16 option" where
  "ipv4_checksum data = map_option csum_result (checksum 0 data 20)"

definition icmpv4_checksum :: "u8 list \<Rightarrow> u16 option" where
  "icmpv4_checksum data = map_option csum_result (checksum 0 data 8)"

definition tcpv4_checksum :: "u32 \<Rightarrow> u32 \<Rightarrow> u16 \<Rightarrow> u8 list \<Rightarrow> u16 option" where
  "tcpv4_checksum src dst len data = do {
     let s = len + 6;
     s \<leftarrow> checksum s (bytes32 src) 4;
     s \<leftarrow> checksum s (bytes32 dst) 4;
     s \<leftarrow> checksum s data len;
     Some (csum_result s)
   }"

section \<open>The specification: one's complement sums\<close>

text \<open>\<open>oc n\<close> is the 16-bit one's complement representative of \<open>n\<close>: 0 only for 0, else in 1..65535.\<close>

definition oc :: "nat \<Rightarrow> nat" where
  "oc n = (if n = 0 then 0 else Suc ((n - 1) mod 65535))"

fun words_sum :: "u8 list \<Rightarrow> nat" where
  "words_sum [] = 0"
| "words_sum [a] = 256 * unat a"
| "words_sum (a # b # xs) = 256 * unat a + unat b + words_sum xs"

lemma unat_be16: "unat (be16 a b) = 256 * unat a + unat b"
proof -
  have a: "unat a < 256" and b: "unat b < 256"
    by (rule unat_lt8)+
  have "unat (push_bit 8 (ucast a :: u16)) = 256 * unat a"
    using a by (simp add: push_bit_eq_mult unat_word_ariths unat_ucast_up)
  then show ?thesis
    using a b by (simp add: be16_def unat_word_ariths unat_ucast_up)
qed

lemma oc_small: "n \<le> 65535 \<Longrightarrow> oc n = n"
  by (simp add: oc_def)

lemma oc_le: "oc n \<le> 65535"
  using mod_less_divisor [of 65535 "n - 1"] by (simp add: oc_def del: mod_less_divisor)

lemma oc_eq_0 [simp]: "oc n = 0 \<longleftrightarrow> n = 0"
  by (simp add: oc_def)

lemma oc_0 [simp]: "oc 0 = 0"
  by simp

lemma oc_add_oc: "oc (oc a + b) = oc (a + b)"
proof (cases "a = 0")
  case False
  then have "(oc a + b - 1) mod 65535 = (a + b - 1) mod 65535"
    by (simp add: oc_def mod_simps flip: add_diff_assoc2)
  with False show ?thesis by (simp add: oc_def)
qed simp

lemma unat_csum_add: "unat (csum_add s t) = oc (unat s + unat t)"
proof -
  have s: "unat s < 65536" and t: "unat t < 65536"
    by (rule unat_lt16)+
  show ?thesis
  proof (cases "unat s + unat t < 65536")
    case True
    then have "unat (s + t) = unat s + unat t"
      by (simp add: unat_word_ariths)
    moreover from this have "\<not> s + t < t"
      by (simp add: word_less_nat_alt)
    ultimately show ?thesis
      using True by (simp add: csum_add_def oc_small)
  next
    case False
    with s t have st: "unat (s + t) = unat s + unat t - 65536"
      by (simp add: unat_word_ariths mod_if)
    with s t False have "s + t < t"
      by (simp add: word_less_nat_alt)
    moreover have "unat (s + t + 1) = unat s + unat t - 65535"
      using st s t False by (simp add: unat_word_ariths(1)[of "s + t"])
    moreover have "oc (unat s + unat t) = unat s + unat t - 65535"
    proof -
      have "(unat s + unat t - 1) mod 65535 = unat s + unat t - 1 - 65535"
        using s t False by (subst le_mod_geq) auto
      moreover have "Suc (unat s + unat t - 1 - 65535) = unat s + unat t - 65535"
        using False by linarith
      moreover have "unat s + unat t \<noteq> 0"
        using False by linarith
      ultimately show ?thesis
        by (simp only: oc_def if_False)
    qed
    ultimately show ?thesis
      by (simp add: csum_add_def)
  qed
qed

lemma unat_csum_loop: "unat (csum_loop s xs) = oc (unat s + words_sum xs)"
proof (induction s xs rule: csum_loop.induct)
  case (1 s)
  then show ?case
    using unat_lt16 [of s] by (simp add: oc_small)
next
  case (2 s a)
  then show ?case
    by (simp add: unat_csum_add unat_be16)
next
  case (3 s a b xs)
  then show ?case
    by (simp add: unat_csum_add unat_be16 oc_add_oc add.assoc)
qed

lemma words_sum_append: "even (length xs) \<Longrightarrow> words_sum (xs @ ys) = words_sum xs + words_sum ys"
  by (induction xs rule: words_sum.induct) auto

lemma csum_loop_append: "even (length xs) \<Longrightarrow> csum_loop s (xs @ ys) = csum_loop (csum_loop s xs) ys"
  by (induction s xs rule: csum_loop.induct) auto

text \<open>Replacing the 16-bit word at an even offset changes the sum by the difference of the words.\<close>

lemma words_sum_patch:
  assumes "even k" and "k + 2 \<le> length xs"
  shows "words_sum (patch xs k [c, d]) + (256 * unat (xs ! k) + unat (xs ! (k + 1))) =
         words_sum xs + (256 * unat c + unat d)"
proof -
  have tk: "length (take k xs) = k"
    using assms by simp
  have split: "xs = take k xs @ [xs ! k, xs ! (k + 1)] @ drop (k + 2) xs"
    using assms by (simp add: id_take_nth_drop Cons_nth_drop_Suc)
  have "words_sum xs = words_sum (take k xs) + (256 * unat (xs ! k) + unat (xs ! (k + 1))) +
      words_sum (drop (k + 2) xs)"
    using assms by (subst split) (simp add: words_sum_append)
  moreover have "words_sum (patch xs k [c, d]) = words_sum (take k xs) + (256 * unat c + unat d) +
      words_sum (drop (k + 2) xs)"
    using assms by (simp add: patch_def words_sum_append)
  ultimately show ?thesis by simp
qed

lemma be16_bytes16: "be16 (ucast w) (ucast (drop_bit 8 w)) = htons w"
proof -
  have "push_bit 8 (ucast (ucast w :: u8)) AND (ucast (ucast (drop_bit 8 w) :: u8)) = (0 :: u16)"
    by (rule bit_word_eqI) (auto simp: bit_simps)
  then have "be16 (ucast w) (ucast (drop_bit 8 w)) =
      push_bit 8 (ucast (ucast w :: u8)) OR (ucast (ucast (drop_bit 8 w) :: u8))"
    by (simp add: be16_def disjunctive_add_eq_or)
  also have "\<dots> = htons w"
    by (rule bit_word_eqI) (auto simp: htons_def bit_simps dest: bit_imp_le_length)
  finally show ?thesis .
qed

lemma htons_not: "htons (NOT w) = NOT (htons w)"
  by (rule bit_word_eqI) (auto simp: htons_def bit_simps dest: bit_imp_le_length)

lemma unat_not16: "unat (NOT w) = 65535 - unat (w :: u16)"
proof -
  have "unat (- 1 - w) = unat (- 1 :: u16) - unat w"
    by (rule unat_sub) (rule word_order.extremum)
  moreover have "NOT w = - 1 - w"
    by (simp add: not_eq_complement)
  ultimately show ?thesis
    by (simp add: unsigned_minus_1_eq_mask mask_eq_exp_minus_1)
qed

text \<open>
  The core of checksum generation: with the field zero and \<open>r\<close> the resulting sum, storing the
  complement of \<open>htons r\<close> makes the whole message sum to \<open>0xffff\<close>.
\<close>

lemma csum_complement:
  assumes k: "even k" "k + 2 \<le> length xs"
    and zero: "xs ! k = 0" "xs ! (k + 1) = 0"
    and pos: "unat s + words_sum xs > 0"
  shows "csum_loop s (patch xs k (bytes16 (NOT (csum_result (csum_loop s xs))))) = 0xFFFF"
proof -
  let ?r = "csum_loop s xs"
  have r: "unat ?r = oc (unat s + words_sum xs)"
    by (rule unat_csum_loop)
  then have nz: "?r \<noteq> 0"
    using pos by (metis oc_eq_0 less_numeral_extra(3) unat_0)
  then have res: "csum_result ?r = htons ?r"
    by (simp add: csum_result_def)
  let ?c = "NOT (htons ?r)"
  have word: "256 * unat (ucast ?c :: u8) + unat (ucast (drop_bit 8 ?c) :: u8) = 65535 - unat ?r"
    by (simp add: htons_not unat_not16 flip: unat_be16 be16_bytes16) (simp add: be16_bytes16 htons_not unat_not16)
  have "words_sum (patch xs k (bytes16 ?c)) = words_sum xs + (65535 - unat ?r)"
    using words_sum_patch [OF k, of "ucast ?c" "ucast (drop_bit 8 ?c)"] zero word
    by (simp add: bytes16_def)
  then have "unat (csum_loop s (patch xs k (bytes16 ?c))) = oc (unat s + words_sum xs + (65535 - unat ?r))"
    by (simp add: unat_csum_loop add.assoc)
  also have "\<dots> = oc (oc (unat s + words_sum xs) + (65535 - unat ?r))"
    by (simp add: oc_add_oc)
  also have "\<dots> = 65535"
    using oc_le [of "unat s + words_sum xs"] by (simp add: r oc_small)
  finally have "unat (csum_loop s (patch xs k (bytes16 ?c))) = unat (0xFFFF :: u16)"
    by simp
  then show ?thesis
    by (simp add: res word_unat_eq_iff)
qed


section \<open>Generated checksums verify\<close>

text \<open>
  C18: The checksum loop of the code, with its end-around carry, computes the one's complement sum of
  the seed and of the big-endian 16-bit words of the data (an odd last byte padded with zero).
\<close>

theorem checksum_is_ones_complement_sum:
  "unat len \<le> length data \<Longrightarrow>
   checksum seed data len = Some r \<longleftrightarrow> unat r = oc (unat seed + words_sum (take (unat len) data))"
  by (auto simp: checksum_def unat_csum_loop word_unat_eq_iff)

theorem checksum_is_ones_complement_sum_witness:
  "checksum 1 [0xFF, 0xFE, 0x01] 3 = Some 0x0100"
  using checksum_is_ones_complement_sum [of 3 "[0xFF, 0xFE, 0x01]" 1 "0x0100"]
  by (simp add: oc_def)

lemma ipv4_checksum_verifies:
  assumes "20 \<le> length hdr" and "hdr ! 10 = 0" and "hdr ! 11 = 0" and "hdr ! 0 \<noteq> 0"
    and "ipv4_checksum hdr = Some c"
  shows "ipv4_checksum (patch hdr 10 (bytes16 (NOT c))) = Some 0xFFFF"
proof -
  let ?h = "take 20 hdr"
  have c: "c = csum_result (csum_loop 0 ?h)"
    using assms by (simp add: ipv4_checksum_def checksum_def)
  have pos: "unat (0 :: u16) + words_sum ?h > 0"
  proof -
    obtain a b rest where "?h = a # b # rest"
      using assms(1) by (cases ?h; cases "tl ?h") (auto dest: arg_cong [where f = length])
    moreover from this have "a = hdr ! 0"
      using assms(1) by (metis nth_Cons_0 nth_take zero_less_numeral)
    ultimately show ?thesis
      using assms(4) by (simp add: unat_gt_0)
  qed
  have "take 20 (patch hdr 10 (bytes16 (NOT c))) = patch ?h 10 (bytes16 (NOT c))"
    using assms(1) by (simp add: patch_def take_drop min_def)
  moreover have "csum_loop 0 (patch ?h 10 (bytes16 (NOT c))) = 0xFFFF"
    unfolding c using assms(1-3) pos by (intro csum_complement) simp_all
  ultimately show ?thesis
    using assms(1) by (simp add: ipv4_checksum_def checksum_def csum_result_def htons_def)
qed

text \<open>
  C19: An IPv4 header whose checksum field is zero verifies (the code's check value \<open>0xffff\<close>) once the
  producer has stored the complement of \<open>ipv4_checksum\<close> in the field, whatever the other bytes are.
\<close>

theorem ipv4_checksum_roundtrip:
  assumes "20 \<le> length hdr" and "hdr ! 10 = 0" and "hdr ! 11 = 0" and "hdr ! 0 \<noteq> 0"
    and "ipv4_checksum hdr = Some c"
  shows "ipv4_checksum (patch hdr 10 (bytes16 (NOT c))) = Some 0xFFFF"
  using assms by (rule ipv4_checksum_verifies)

theorem ipv4_checksum_roundtrip_witness:
  "ipv4_checksum (patch ([0x45] @ replicate 19 0) 10 (bytes16 (NOT 0x0045))) = Some 0xFFFF"
  by (rule ipv4_checksum_roundtrip; code_simp)

lemma tcpv4_checksum_eq:
  assumes "unat len \<le> length data"
  shows "tcpv4_checksum src dst len data =
    Some (csum_result (csum_loop (csum_loop (len + 6) (bytes32 src @ bytes32 dst)) (take (unat len) data)))"
  using assms by (simp add: tcpv4_checksum_def checksum_def csum_loop_append Let_def)

lemma tcpv4_checksum_verifies:
  assumes "unat len \<le> length seg" and "20 \<le> unat len" and "seg ! 16 = 0" and "seg ! 17 = 0"
    and "len + 6 \<noteq> 0" and "tcpv4_checksum src dst len seg = Some c"
  shows "tcpv4_checksum src dst len (patch seg 16 (bytes16 (NOT c))) = Some 0xFFFF"
proof -
  let ?n = "unat len" let ?s = "csum_loop (len + 6) (bytes32 src @ bytes32 dst)"
  have c: "c = csum_result (csum_loop ?s (take ?n seg))"
    using assms by (simp add: tcpv4_checksum_eq)
  have pos: "unat ?s + words_sum (take ?n seg) > 0"
  proof -
    have "unat (len + 6) \<noteq> unat (0 :: u16)"
      using assms(5) by (metis word_unat_eq_iff)
    then have "unat ?s \<noteq> 0"
      by (simp add: unat_csum_loop)
    then show ?thesis by linarith
  qed
  have "take ?n (patch seg 16 (bytes16 (NOT c))) = patch (take ?n seg) 16 (bytes16 (NOT c))"
    using assms(1,2) by (simp add: patch_def take_drop min_def)
  moreover have "csum_loop ?s (patch (take ?n seg) 16 (bytes16 (NOT c))) = 0xFFFF"
    unfolding c using assms(1-4) pos by (intro csum_complement) simp_all
  ultimately show ?thesis
    using assms(1,2) by (simp add: tcpv4_checksum_eq csum_result_def htons_def)
qed

text \<open>
  A TCP segment whose checksum field is zero verifies against the same addresses and length (the
  receiver's check value \<open>0xffff\<close>) once the sender has stored the complement of \<open>tcpv4_checksum\<close>.
\<close>

theorem tcpv4_checksum_roundtrip:
  assumes "unat len \<le> length seg" and "20 \<le> unat len" and "seg ! 16 = 0" and "seg ! 17 = 0"
    and "len + 6 \<noteq> 0" and "tcpv4_checksum src dst len seg = Some c"
  shows "tcpv4_checksum src dst len (patch seg 16 (bytes16 (NOT c))) = Some 0xFFFF"
  using assms by (rule tcpv4_checksum_verifies)

theorem tcpv4_checksum_roundtrip_witness:
  "tcpv4_checksum 1 2 20 (patch (replicate 20 0) 16 (bytes16 (NOT 0x1A03))) = Some 0xFFFF"
  by (rule tcpv4_checksum_roundtrip; code_simp)

section \<open>Byte order\<close>

text \<open>The one's complement sum does not depend on the byte order: swapping bytes multiplies by 256.\<close>

lemma unat_htons: "unat (htons w) = 256 * (unat w mod 256) + unat w div 256"
proof -
  have "unat (htons w) = 256 * unat (ucast w :: u8) + unat (ucast (drop_bit 8 w) :: u8)"
    by (simp add: unat_be16 flip: be16_bytes16)
  also have "unat (ucast w :: u8) = unat w mod 256"
    by (simp add: unsigned_ucast_eq take_bit_eq_mod)
  also have "unat (ucast (drop_bit 8 w) :: u8) = unat w div 256"
    using unat_lt16 [of w] by (simp add: unsigned_ucast_eq take_bit_eq_mod drop_bit_eq_div unat_div_distrib)
  finally show ?thesis .
qed

lemma htons_mod: "unat (htons w) mod 65535 = 256 * unat w mod 65535"
proof -
  have "256 * unat w = 65536 * (unat w div 256) + 256 * (unat w mod 256)"
    using mult_div_mod_eq [of 256 "unat w"] by linarith
  also have "\<dots> = unat (htons w) + 65535 * (unat w div 256)"
    by (simp add: unat_htons)
  finally show ?thesis
    by simp
qed

lemma oc_cong: "a mod 65535 = b mod 65535 \<Longrightarrow> 0 < a \<Longrightarrow> 0 < b \<Longrightarrow> oc a = oc b"
proof -
  assume "a mod 65535 = b mod 65535" and p: "0 < a" "0 < b"
  then have "int a mod 65535 = int b mod 65535"
    by (metis of_nat_mod of_nat_numeral)
  then have "(int a - 1) mod 65535 = (int b - 1) mod 65535"
    by (metis mod_diff_left_eq)
  moreover have "int (a - 1) = int a - 1" "int (b - 1) = int b - 1"
    using p by simp_all
  ultimately have "int ((a - 1) mod 65535) = int ((b - 1) mod 65535)"
    by (simp add: zmod_int)
  then show ?thesis
    using p by (simp add: oc_def)
qed

end
