(* ===== verification/Net.thy ===== *)
theory Net
  imports Checksum
begin

text \<open>
  The sending half of the stack below the transport protocols: the interface of a network device
  (\<^verbatim>\<open>include/tulips/transport/Device.h\<close>, \<^verbatim>\<open>Producer.h\<close>) as a table of operations on an abstract device
  state, the addresses and header layouts of Ethernet and IPv4, and the two producers
  (\<^verbatim>\<open>src/stack/ethernet/Producer.cpp\<close>, \<^verbatim>\<open>src/stack/ipv4/Producer.cpp\<close>) that fill the headers of a
  buffer the device hands out and commit it.

  The record \<open>net\<close> is what these objects share: the memory, the device, and the state of the two
  producers. Every protocol above works on it.
\<close>

section \<open>Addresses\<close>

datatype mac = Mac u8 u8 u8 u8 u8 u8

fun mac_bytes :: "mac \<Rightarrow> u8 list" where
  "mac_bytes (Mac a b c d e f) = [a, b, c, d, e, f]"

definition mac_empty :: mac where "mac_empty = Mac 0 0 0 0 0 0"

definition mac_broadcast :: mac where "mac_broadcast = Mac 0xFF 0xFF 0xFF 0xFF 0xFF 0xFF"

fun mac_of :: "u8 list \<Rightarrow> nat \<Rightarrow> mac option" where
  "mac_of xs i = do { a \<leftarrow> rd8 xs i; b \<leftarrow> rd8 xs (i + 1); c \<leftarrow> rd8 xs (i + 2);
     d \<leftarrow> rd8 xs (i + 3); e \<leftarrow> rd8 xs (i + 4); f \<leftarrow> rd8 xs (i + 5); Some (Mac a b c d e f) }"

text \<open>An IPv4 address is its raw 32-bit field: the first byte of the dotted notation is the lowest.\<close>

type_synonym ip4 = u32

definition ip4_make :: "u8 \<Rightarrow> u8 \<Rightarrow> u8 \<Rightarrow> u8 \<Rightarrow> ip4" where
  "ip4_make a0 a1 a2 a3 = le32 a0 a1 a2 a3"

definition ip4_broadcast :: ip4 where "ip4_broadcast = ip4_make 0xFF 0xFF 0xFF 0xFF"

definition ip4_empty :: "ip4 \<Rightarrow> bool" where "ip4_empty a \<longleftrightarrow> a = 0"

lemma length_mac_bytes [simp]: "length (mac_bytes a) = 6"
  by (cases a) simp

section \<open>The device interface\<close>

text \<open>
  The virtual functions of \<^verbatim>\<open>transport::Device\<close> that the stack calls. \<^verbatim>\<open>prepare\<close> returns the buffer it
  stores through its reference argument, which is meaningful only with status \<open>Ok\<close>.
\<close>

record 'd device_ops =
  d_mtu :: "'d \<Rightarrow> u32"
  d_mss :: "'d \<Rightarrow> u32"
  d_rblog2 :: "'d \<Rightarrow> u8"
  d_rbavail :: "'d \<Rightarrow> u16"
  d_listen :: "u16 \<Rightarrow> 'd \<Rightarrow> status \<times> 'd"
  d_unlisten :: "u16 \<Rightarrow> 'd \<Rightarrow> 'd"
  d_prepare :: "mem \<Rightarrow> 'd \<Rightarrow> (status \<times> ptr \<times> mem \<times> 'd) option"
  d_commit :: "u32 \<Rightarrow> ptr \<Rightarrow> u16 \<Rightarrow> mem \<Rightarrow> 'd \<Rightarrow> (status \<times> mem \<times> 'd) option"

record eth_producer =
  eo_host :: mac
  eo_dest :: mac
  eo_type :: u16

record ip_producer =
  io_host :: ip4
  io_dest :: ip4
  io_router :: ip4
  io_mask :: ip4
  io_proto :: u8
  io_id :: u16
  io_sent :: u64

record 'd net =
  n_mem :: mem
  n_dev :: 'd
  n_eth :: eth_producer
  n_ip :: ip_producer

definition eth_producer_init :: "mac \<Rightarrow> eth_producer" where
  "eth_producer_init ha = \<lparr>eo_host = ha, eo_dest = mac_empty, eo_type = 0\<rparr>"

definition ip_producer_init :: "ip4 \<Rightarrow> ip_producer" where
  "ip_producer_init ha = \<lparr>io_host = ha, io_dest = 0, io_router = 0, io_mask = ip4_broadcast,
     io_proto = 0, io_id = 0, io_sent = 0\<rparr>"

section \<open>Ethernet producer\<close>

abbreviation (input) "ETHTYPE_ARP \<equiv> (0x0806 :: u16)"
abbreviation (input) "ETHTYPE_IP \<equiv> (0x0800 :: u16)"

definition eth_setDest :: "mac \<Rightarrow> 'd net \<Rightarrow> 'd net" where
  "eth_setDest a n = n\<lparr>n_eth := (n_eth n)\<lparr>eo_dest := a\<rparr>\<rparr>"

definition eth_setType :: "u16 \<Rightarrow> 'd net \<Rightarrow> 'd net" where
  "eth_setType t n = n\<lparr>n_eth := (n_eth n)\<lparr>eo_type := t\<rparr>\<rparr>"

definition eth_mss :: "'d device_ops \<Rightarrow> 'd net \<Rightarrow> u32" where
  "eth_mss ops n = d_mss ops (n_dev n) - 14"

definition eth_prepare :: "'d device_ops \<Rightarrow> 'd net \<Rightarrow> (status \<times> ptr \<times> 'd net) option" where
  "eth_prepare ops n = do {
     (ret, tmp, m, d) \<leftarrow> d_prepare ops (n_mem n) (n_dev n);
     let n = n\<lparr>n_mem := m, n_dev := d\<rparr>;
     if ret \<noteq> Ok then Some (ret, Null, n)
     else do {
       m \<leftarrow> mem_write m (ptr_add tmp 6) (mac_bytes (eo_host (n_eth n)));
       m \<leftarrow> mem_write m tmp (mac_bytes (eo_dest (n_eth n)));
       m \<leftarrow> st16 m tmp 12 (htons (eo_type (n_eth n)));
       Some (Ok, ptr_add tmp 14, n\<lparr>n_mem := m\<rparr>)
     }
   }"

definition eth_commit :: "'d device_ops \<Rightarrow> u32 \<Rightarrow> ptr \<Rightarrow> u16 \<Rightarrow> 'd net \<Rightarrow> (status \<times> 'd net) option" where
  "eth_commit ops len buf mss n = do {
     p \<leftarrow> ptr_sub buf 14;
     (ret, m, d) \<leftarrow> d_commit ops (len + 14) p mss (n_mem n) (n_dev n);
     Some (ret, n\<lparr>n_mem := m, n_dev := d\<rparr>)
   }"

section \<open>IPv4 producer\<close>

abbreviation (input) "PROTO_ICMP \<equiv> (1 :: u8)"
abbreviation (input) "PROTO_TCP \<equiv> (6 :: u8)"
abbreviation (input) "PROTO_TEST \<equiv> (254 :: u8)"

definition ip_setDest :: "ip4 \<Rightarrow> 'd net \<Rightarrow> 'd net" where
  "ip_setDest a n = n\<lparr>n_ip := (n_ip n)\<lparr>io_dest := a\<rparr>\<rparr>"

definition ip_setProtocol :: "u8 \<Rightarrow> 'd net \<Rightarrow> 'd net" where
  "ip_setProtocol p n = n\<lparr>n_ip := (n_ip n)\<lparr>io_proto := p\<rparr>\<rparr>"

definition ip_setRouter :: "ip4 \<Rightarrow> 'd net \<Rightarrow> 'd net" where
  "ip_setRouter a n = n\<lparr>n_ip := (n_ip n)\<lparr>io_router := a\<rparr>\<rparr>"

definition ip_setNetMask :: "ip4 \<Rightarrow> 'd net \<Rightarrow> 'd net" where
  "ip_setNetMask a n = n\<lparr>n_ip := (n_ip n)\<lparr>io_mask := a\<rparr>\<rparr>"

definition ip_isLocal :: "ip_producer \<Rightarrow> ip4 \<Rightarrow> bool" where
  "ip_isLocal p a \<longleftrightarrow> a AND io_mask p = io_host p AND io_mask p"

definition ip_mss :: "'d device_ops \<Rightarrow> 'd net \<Rightarrow> u32" where
  "ip_mss ops n = eth_mss ops n - 20"

text \<open>The 20 bytes \<^verbatim>\<open>prepare\<close> stores, in the order of the header structure.\<close>

definition ip_header_image :: "ip_producer \<Rightarrow> u8 list" where
  "ip_header_image p = [0x45, 0] @ bytes16 20 @ bytes16 (htons (io_id p)) @ [0, 0, 64, io_proto p] @
     bytes16 0 @ bytes32 (io_host p) @ bytes32 (io_dest p)"

definition ip_prepare :: "'d device_ops \<Rightarrow> 'd net \<Rightarrow> (status \<times> ptr \<times> 'd net) option" where
  "ip_prepare ops n = do {
     let n = eth_setType ETHTYPE_IP n;
     (ret, outdata, n) \<leftarrow> eth_prepare ops n;
     if ret \<noteq> Ok then Some (ret, Null, n)
     else do {
       let n = n\<lparr>n_ip := (n_ip n)\<lparr>io_id := io_id (n_ip n) + 1\<rparr>\<rparr>;
       m \<leftarrow> mem_write (n_mem n) outdata (ip_header_image (n_ip n));
       Some (Ok, ptr_add outdata 20, n\<lparr>n_mem := m\<rparr>)
     }
   }"

definition ip_commit :: "'d device_ops \<Rightarrow> u32 \<Rightarrow> ptr \<Rightarrow> u16 \<Rightarrow> 'd net \<Rightarrow> (status \<times> 'd net) option" where
  "ip_commit ops len buf mss n = do {
     outdata \<leftarrow> ptr_sub buf 20;
     let outlen = len + 20;
     m \<leftarrow> st16 (n_mem n) outdata 2 (htons (ucast outlen));
     hdr \<leftarrow> mem_read m outdata 20;
     c \<leftarrow> ipv4_checksum hdr;
     m \<leftarrow> st16 m outdata 10 (NOT c);
     eth_commit ops outlen outdata mss (n\<lparr>n_mem := m, n_ip := (n_ip n)\<lparr>io_sent := io_sent (n_ip n) + 1\<rparr>\<rparr>)
   }"

lemma length_ip_header_image [simp]: "length (ip_header_image p) = 20"
  by (simp add: ip_header_image_def)

section \<open>The contract of a device\<close>

text \<open>
  \<open>frame_ok m p k n\<close>: \<open>p\<close> points into a block with at least \<open>k\<close> bytes of headroom before it and \<open>n\<close> bytes
  after it. The producers strip their headers off the headroom when a buffer is committed.
\<close>

definition frame_ok :: "mem \<Rightarrow> ptr \<Rightarrow> nat \<Rightarrow> nat \<Rightarrow> bool" where
  "frame_ok m p k n \<longleftrightarrow> (\<exists>q. p = ptr_add q k \<and> valid m q (k + n))"

lemma frame_ok_valid: "frame_ok m p k n \<Longrightarrow> valid m p n"
  by (auto simp: frame_ok_def intro!: valid_add)

lemmas frame_simps [mem_simps] = mem_read_valid [OF frame_ok_valid] mem_write_valid [OF frame_ok_valid]
  st_valid [OF frame_ok_valid] ld8_valid [OF frame_ok_valid]

lemma frame_ok_mono: "frame_ok m p k n \<Longrightarrow> mem_le m m' \<Longrightarrow> frame_ok m' p k n"
  by (auto simp: frame_ok_def intro: valid_mono)

lemma frame_ok_upd [simp]: "frame_ok (mem_upd m q bs) = frame_ok m"
  by (intro ext) (simp add: frame_ok_def)

lemma frame_okI: "valid m q (k + n) \<Longrightarrow> frame_ok m (ptr_add q k) k n"
  by (auto simp: frame_ok_def)

lemma frame_ok_sub:
  assumes "frame_ok m p k n" and "j \<le> k"
  shows "\<exists>q. ptr_sub p j = Some q \<and> p = ptr_add q j \<and> frame_ok m q (k - j) (n + j)"
proof -
  from assms obtain q where q: "p = ptr_add q k" "valid m q (k + n)"
    by (auto simp: frame_ok_def)
  have p: "p = ptr_add (ptr_add q (k - j)) j" and "ptr_add q (k - j) \<noteq> Null"
    using q assms(2) by (auto simp del: ptr_add.simps)
  then have "ptr_sub p j = Some (ptr_add q (k - j))"
    by (metis ptr_sub_add)
  moreover have "frame_ok m (ptr_add q (k - j)) (k - j) (n + j)"
    using q assms(2) by (intro frame_okI) simp
  ultimately show ?thesis using p by blast
qed

lemma frame_ok_less: "frame_ok m p k n \<Longrightarrow> j \<le> n \<Longrightarrow> frame_ok m p k j"
  by (auto simp: frame_ok_def) (metis add_le_mono le_refl valid_less)

lemma frame_ok_shift: "frame_ok m p k n \<Longrightarrow> j \<le> n \<Longrightarrow> frame_ok m (ptr_add p j) (k + j) (n - j)"
  by (auto simp: frame_ok_def)

text \<open>
  \<open>nic ops dinv nmss hr\<close>: every buffer \<^verbatim>\<open>prepare\<close> hands out has room for \<^verbatim>\<open>mss()\<close> bytes after a headroom
  of \<open>hr\<close> bytes that belongs to the device, committing such a buffer is defined, buffers never shrink, the sizes are constant, and the device keeps its
  own invariant. \<open>reliable_nic\<close> adds that both operations always succeed.
\<close>

locale nic =
  fixes ops :: "'d device_ops" and dinv :: "mem \<Rightarrow> 'd \<Rightarrow> bool" and nmss :: nat and hr :: nat
  assumes mss_const: "dinv m d \<Longrightarrow> unat (d_mss ops d) = nmss"
    and dinv_mem: "dinv m d \<Longrightarrow> mem_le m m' \<Longrightarrow> dinv m' d"
    and dinv_listen: "dinv m d \<Longrightarrow> dinv m (snd (d_listen ops port d))"
    and dinv_unlisten: "dinv m d \<Longrightarrow> dinv m (d_unlisten ops port d)"
    and prepare_law: "dinv m d \<Longrightarrow> runs (d_prepare ops m d) (\<lambda>(st, p, m', d').
        mem_le m m' \<and> dinv m' d' \<and> (st = Ok \<longrightarrow> frame_ok m' p hr nmss))"
    and commit_law: "dinv m d \<Longrightarrow> frame_ok m p hr (unat len) \<Longrightarrow> unat len \<le> nmss \<Longrightarrow>
        runs (d_commit ops len p tso m d) (\<lambda>(st, m', d'). mem_le m m' \<and> dinv m' d')"

locale reliable_nic = nic +
  assumes prepare_Ok: "dinv m d \<Longrightarrow> d_prepare ops m d = Some (st, p, m', d') \<Longrightarrow> st = Ok"
    and commit_Ok: "dinv m d \<Longrightarrow> d_commit ops len p tso m d = Some (st, m', d') \<Longrightarrow> st = Ok"

lemma ip_commit_eq:
  assumes "ptr_sub p 20 = Some q" and "valid (n_mem n) q l" and "20 \<le> l"
  shows "\<exists>m. valid m = valid (n_mem n) \<and> mem_le (n_mem n) m \<and> ip_commit ops len p tso n =
    eth_commit ops (len + 20) q tso (n\<lparr>n_mem := m, n_ip := (n_ip n)\<lparr>io_sent := io_sent (n_ip n) + 1\<rparr>\<rparr>)"
proof -
  note simps = mem_read_valid(1) [OF assms(2)] st_valid(2) [OF assms(2)]
  let ?m = "mem_upd (n_mem n) (ptr_add q 2) (bytes16 (htons (ucast (len + 20))))"
  have v: "valid ?m q l" "length (mem_get ?m q 20) = 20"
    using assms(2,3) by (auto intro!: length_mem_get elim: valid_less)
  then obtain c where "ipv4_checksum (mem_get ?m q 20) = Some c"
    by (simp add: ipv4_checksum_def checksum_def)
  then have "ip_commit ops len p tso n = eth_commit ops (len + 20) q tso
      (n\<lparr>n_mem := mem_upd ?m (ptr_add q 10) (bytes16 (NOT c)), n_ip := (n_ip n)\<lparr>io_sent := io_sent (n_ip n) + 1\<rparr>\<rparr>)"
    using assms(3) by (simp add: ip_commit_def assms(1) simps mem_read_valid(1) [OF v(1)] st_valid(2) [OF v(1)] Let_def)
  then show ?thesis
    by (intro exI [of _ "mem_upd ?m (ptr_add q 10) (bytes16 (NOT c))"]) simp
qed

context nic
begin

lemma dinv_upd [simp]: "dinv m d \<Longrightarrow> dinv (mem_upd m p bs) d"
  by (erule dinv_mem) simp

lemma eth_prepare_runs:
  assumes "dinv (n_mem n) (n_dev n)" and "14 \<le> nmss"
  shows "runs (eth_prepare ops n) (\<lambda>(st, p, n'). mem_le (n_mem n) (n_mem n') \<and> dinv (n_mem n') (n_dev n') \<and>
    n_eth n' = n_eth n \<and> n_ip n' = n_ip n \<and> (st = Ok \<longrightarrow> frame_ok (n_mem n') p (hr + 14) (nmss - 14)))"
  unfolding eth_prepare_def runs_bind Let_def
  by (rule runs_mono [OF prepare_law [OF assms(1)]])
    (use assms(2) in \<open>auto simp: mem_simps wp intro: frame_ok_shift\<close>)

lemma ip_prepare_runs:
  assumes "dinv (n_mem n) (n_dev n)" and "34 \<le> nmss"
  shows "runs (ip_prepare ops n) (\<lambda>(st, p, n'). mem_le (n_mem n) (n_mem n') \<and> dinv (n_mem n') (n_dev n') \<and>
    (st = Ok \<longrightarrow> frame_ok (n_mem n') p (hr + 34) (nmss - 34)))"
  unfolding ip_prepare_def runs_bind Let_def
proof (rule runs_mono [OF eth_prepare_runs], goal_cases)
  case (3 r)
  have shift: "frame_ok m (ptr_add p 20) (hr + 34) (nmss - 34)" if "frame_ok m p (hr + 14) (nmss - 14)" for m p
    using frame_ok_shift [OF that, of 20] assms(2) by (simp add: add.commute)
  obtain st p n' where r: "r = (st, p, n')" by (cases r)
  show ?case
  proof (cases "st = Ok")
    case True
    then have "frame_ok (n_mem n') p (hr + 14) (nmss - 14)" using 3(2) r by simp
    note f = this shift [OF this]
    show ?thesis
      using 3(2) True assms(2) f(2) unfolding r
      by (simp add: frame_simps [OF f(1)] eth_setType_def)
  qed (use 3(2) r in \<open>simp add: eth_setType_def\<close>)
qed (use assms in \<open>auto simp: eth_setType_def\<close>)

lemma eth_commit_runs:
  assumes "dinv (n_mem n) (n_dev n)" and "frame_ok (n_mem n) p (hr + 14) l" and "unat len \<le> l" and "l + 14 \<le> nmss"
  shows "runs (eth_commit ops len p tso n) (\<lambda>(st, n'). mem_le (n_mem n) (n_mem n') \<and>
    dinv (n_mem n') (n_dev n') \<and> n_eth n' = n_eth n \<and> n_ip n' = n_ip n)"
proof -
  from frame_ok_sub [OF assms(2), of 14] obtain q where
    q: "ptr_sub p 14 = Some q" "frame_ok (n_mem n) q hr (l + 14)"
    by auto
  have len: "unat (len + 14) = unat len + 14"
    using assms mss_const [OF assms(1)] unat_lt32 [of "d_mss ops (n_dev n)"] by (simp add: unat_word_ariths)
  have "runs (d_commit ops (len + 14) q tso (n_mem n) (n_dev n)) (\<lambda>(st, m', d'). mem_le (n_mem n) m' \<and> dinv m' d')"
    by (rule commit_law) (use assms q len in \<open>auto elim: frame_ok_less\<close>)
  then show ?thesis
    unfolding eth_commit_def runs_bind q(1) by (auto simp: wp elim!: runs_mono)
qed

lemma ip_commit_runs:
  assumes "dinv (n_mem n) (n_dev n)" and "frame_ok (n_mem n) p (hr + 34) l" and "unat len \<le> l" and "l + 34 \<le> nmss"
  shows "runs (ip_commit ops len p tso n) (\<lambda>(st, n'). mem_le (n_mem n) (n_mem n') \<and>
    dinv (n_mem n') (n_dev n'))"
proof -
  from frame_ok_sub [OF assms(2), of 20] obtain q where
    q: "ptr_sub p 20 = Some q" "frame_ok (n_mem n) q (hr + 14) (l + 20)"
    by (auto simp: add.commute)
  have len: "unat (len + 20) = unat len + 20"
    using assms mss_const [OF assms(1)] unat_lt32 [of "d_mss ops (n_dev n)"] by (simp add: unat_word_ariths)
  obtain m where m: "valid m = valid (n_mem n)" "mem_le (n_mem n) m" and eq: "ip_commit ops len p tso n =
      eth_commit ops (len + 20) q tso (n\<lparr>n_mem := m, n_ip := (n_ip n)\<lparr>io_sent := io_sent (n_ip n) + 1\<rparr>\<rparr>)"
    using ip_commit_eq [OF q(1) frame_ok_valid [OF q(2)], where ops = ops and len = len and tso = tso] by auto
  have "frame_ok m q (hr + 14) (l + 20)"
    using q(2) m(2) by (rule frame_ok_mono)
  then have "runs (eth_commit ops (len + 20) q tso (n\<lparr>n_mem := m, n_ip := (n_ip n)\<lparr>io_sent := io_sent (n_ip n) + 1\<rparr>\<rparr>))
      (\<lambda>(st, n'). mem_le m (n_mem n') \<and> dinv (n_mem n') (n_dev n') \<and> n_eth n' = n_eth n \<and>
         n_ip n' = (n_ip n)\<lparr>io_sent := io_sent (n_ip n) + 1\<rparr>)"
    using eth_commit_runs [of "n\<lparr>n_mem := m, n_ip := (n_ip n)\<lparr>io_sent := io_sent (n_ip n) + 1\<rparr>\<rparr>" q "l + 20" "len + 20" tso]
      dinv_mem [OF assms(1) m(2)] len assms by simp
  then show ?thesis
    unfolding eq by (rule runs_mono) (use m(2) in \<open>auto intro: mem_le_trans\<close>)
qed

end

lemma st16_le: "st16 m p i v = Some m' \<Longrightarrow> mem_le m m'"
  by (auto simp: st16_def mem_write_def split: if_splits)

lemma mem_write_le: "mem_write m p bs = Some m' \<Longrightarrow> mem_le m m'"
  by (auto simp: mem_write_def split: if_splits)

context reliable_nic
begin

lemma eth_prepare_Ok: "dinv (n_mem n) (n_dev n) \<Longrightarrow> eth_prepare ops n = Some (st, p, n') \<Longrightarrow> st = Ok"
  by (auto simp: eth_prepare_def Some_eq_bind Let_def dest: prepare_Ok split: if_splits)

lemma ip_prepare_Ok: "dinv (n_mem n) (n_dev n) \<Longrightarrow> ip_prepare ops n = Some (st, p, n') \<Longrightarrow> st = Ok"
  by (auto simp: ip_prepare_def Some_eq_bind Let_def eth_setType_def dest: eth_prepare_Ok [rotated] split: if_splits)

lemma eth_commit_Ok: "dinv (n_mem n) (n_dev n) \<Longrightarrow> eth_commit ops len p tso n = Some (st, n') \<Longrightarrow> st = Ok"
  by (auto simp: eth_commit_def Some_eq_bind dest: commit_Ok split: if_splits)

lemma ip_commit_Ok: "dinv (n_mem n) (n_dev n) \<Longrightarrow> ip_commit ops len p tso n = Some (st, n') \<Longrightarrow> st = Ok"
  unfolding ip_commit_def Some_eq_bind Let_def
  by (auto dest!: eth_commit_Ok [rotated] st16_le intro: dinv_mem [OF dinv_mem])

lemma ip_prepare_total:
  assumes "dinv (n_mem n) (n_dev n)" and "34 \<le> nmss"
  shows "runs (ip_prepare ops n) (\<lambda>(st, p, n'). st = Ok \<and> mem_le (n_mem n) (n_mem n') \<and>
    dinv (n_mem n') (n_dev n') \<and> frame_ok (n_mem n') p (hr + 34) (nmss - 34))"
  by (rule runs_mono [OF ip_prepare_runs [OF assms]]) (use assms(1) in \<open>auto dest: ip_prepare_Ok\<close>)

lemma ip_commit_total:
  assumes "dinv (n_mem n) (n_dev n)" and "frame_ok (n_mem n) p (hr + 34) l" and "unat len \<le> l" and "l + 34 \<le> nmss"
  shows "runs (ip_commit ops len p tso n) (\<lambda>(st, n'). st = Ok \<and> mem_le (n_mem n) (n_mem n') \<and>
    dinv (n_mem n') (n_dev n'))"
  by (rule runs_mono [OF ip_commit_runs [OF assms]]) (use assms(1) in \<open>auto dest: ip_commit_Ok\<close>)

end

end
