(* ===== verification/TcpConn.thy ===== *)
theory TcpConn
  imports Net
begin

text \<open>
  A TCP connection and its segments: \<^verbatim>\<open>include/tulips/stack/tcpv4/Connection.h\<close>, \<^verbatim>\<open>Segment.h\<close> and their
  constructors. The bit fields keep their widths: the segment index has 4 bits and wraps, the
  retransmission counter has 5, the length of the send buffer has 24. Ports are in network byte
  order, as they are stored. A pointer the application owns (the cookie) is an opaque 64-bit value.

  A \<^verbatim>\<open>Segment&\<close> is the index of the segment in the array of its connection.
\<close>

section \<open>Segments\<close>

record segment =
  s_len :: u32
  s_seq :: u32
  s_dat :: ptr

definition segment_empty :: segment where
  "segment_empty = \<lparr>s_len = 0, s_seq = 0, s_dat = Null\<rparr>"

definition segment_set :: "u32 \<Rightarrow> u32 \<Rightarrow> ptr \<Rightarrow> segment" where
  "segment_set len seq dat = \<lparr>s_len = len, s_seq = seq, s_dat = dat\<rparr>"

definition segment_mark :: "u32 \<Rightarrow> segment \<Rightarrow> segment" where
  "segment_mark seq s = s\<lparr>s_seq := seq\<rparr>"

definition segment_clear :: "segment \<Rightarrow> segment" where
  "segment_clear s = s\<lparr>s_len := 0, s_seq := 0, s_dat := Null\<rparr>"

definition segment_swap :: "ptr \<Rightarrow> segment \<Rightarrow> mem \<Rightarrow> (segment \<times> mem) option" where
  "segment_swap to s m = do {
     m \<leftarrow> mem_copy m to (s_dat s) (unat (s_len s));
     Some (s\<lparr>s_dat := to\<rparr>, m)
   }"

section \<open>Connections\<close>

datatype conn_state =
    CLOSE | CLOSED | CLOSING | ESTABLISHED | FIN_WAIT_1 | FIN_WAIT_2 | LAST_ACK | STOPPED
  | SYN_RCVD | SYN_SENT | TIME_WAIT

abbreviation (input) "NO_DELAY \<equiv> (1 :: u64)"
abbreviation (input) "DELAYED_ACK \<equiv> (2 :: u64)"
abbreviation (input) "SEGMENT_COUNT \<equiv> (16 :: nat)"
abbreviation (input) "SEGMENT_BMASK \<equiv> (15 :: nat)"

record conn =
  m_id :: u16
  m_rethaddr :: mac
  m_ripaddr :: ip4
  m_lport :: u16
  m_rport :: u16
  m_rcv_nxt :: u32
  m_snd_nxt :: u32
  m_state :: conn_state
  m_ackdata :: bool
  m_newdata :: bool
  m_pshdata :: bool
  m_wndscl :: u8
  m_window :: u16
  m_segidx :: "4 word"
  m_nrtx :: "5 word"
  m_slen :: "24 word"
  m_sdat :: ptr
  m_initialmss :: u16
  m_mss :: u16
  m_sa :: u8
  m_sv :: u8
  m_rto :: u8
  m_timer :: u8
  m_opts :: u64
  m_cookie :: u64
  m_segments :: "segment list"

definition conn_init :: conn where
  "conn_init = \<lparr>m_id = - 1, m_rethaddr = mac_empty, m_ripaddr = 0, m_lport = 0, m_rport = 0,
     m_rcv_nxt = 0, m_snd_nxt = 0, m_state = CLOSED, m_ackdata = False, m_newdata = False,
     m_pshdata = False, m_wndscl = 0, m_window = 0, m_segidx = 0, m_nrtx = 0, m_slen = 0,
     m_sdat = Null, m_initialmss = 0, m_mss = 0, m_sa = 0, m_sv = 0, m_rto = 0, m_timer = 0,
     m_opts = 0, m_cookie = 0, m_segments = replicate SEGMENT_COUNT segment_empty\<rparr>"

definition has_nodelay :: "conn \<Rightarrow> bool" where
  "has_nodelay e \<longleftrightarrow> m_opts e AND NO_DELAY \<noteq> 0"

definition has_delayed_ack :: "conn \<Rightarrow> bool" where
  "has_delayed_ack e \<longleftrightarrow> m_opts e AND DELAYED_ACK \<noteq> 0"

definition setOptions :: "u8 \<Rightarrow> conn \<Rightarrow> conn" where
  "setOptions opts e = e\<lparr>m_opts := m_opts e OR ucast opts\<rparr>"

definition clearOptions :: "u8 \<Rightarrow> conn \<Rightarrow> conn" where
  "clearOptions opts e = e\<lparr>m_opts := m_opts e AND NOT (ucast opts)\<rparr>"

definition setCookie :: "u64 \<Rightarrow> conn \<Rightarrow> conn" where
  "setCookie c e = e\<lparr>m_cookie := c\<rparr>"

definition isActive :: "conn \<Rightarrow> bool" where
  "isActive e \<longleftrightarrow> m_state e \<noteq> CLOSED"

definition hasAvailableSegments :: "conn \<Rightarrow> bool" where
  "hasAvailableSegments e \<longleftrightarrow> list_ex (\<lambda>s. s_len s = 0) (m_segments e)"

definition hasOutstandingSegments :: "conn \<Rightarrow> bool" where
  "hasOutstandingSegments e \<longleftrightarrow> list_ex (\<lambda>s. s_len s \<noteq> 0) (m_segments e)"

definition hasPendingSendData :: "conn \<Rightarrow> bool" where
  "hasPendingSendData e \<longleftrightarrow> m_slen e \<noteq> 0"

definition window_of :: "conn \<Rightarrow> u16 \<Rightarrow> u32" where
  "window_of e wnd = push_bit (unat (m_wndscl e)) (ucast wnd)"

abbreviation "window e \<equiv> window_of e (m_window e)"

text \<open>The slots \<^verbatim>\<open>segidx\<close>, \<^verbatim>\<open>segidx + 1\<close>, ... of the array, each index reduced by the mask.\<close>

definition seg_slot :: "conn \<Rightarrow> nat \<Rightarrow> nat" where
  "seg_slot e i = (unat (m_segidx e) + i) mod SEGMENT_COUNT"

definition segment_cur :: "conn \<Rightarrow> segment" where
  "segment_cur e = m_segments e ! unat (m_segidx e)"

definition upd_seg :: "nat \<Rightarrow> segment \<Rightarrow> conn \<Rightarrow> conn" where
  "upd_seg i s e = e\<lparr>m_segments := (m_segments e)[i := s]\<rparr>"

definition nextAvailableSegment :: "conn \<Rightarrow> nat option" where
  "nextAvailableSegment e =
     map_option (seg_slot e) (find (\<lambda>i. s_len (m_segments e ! seg_slot e i) = 0) [0..<SEGMENT_COUNT])"

definition level :: "conn \<Rightarrow> nat" where
  "level e = length (filter (\<lambda>s. s_len s = 0) (m_segments e))"

text \<open>Van Jacobson's estimator. The intermediate \<open>m\<close> is a signed 8-bit integer: every assignment
  truncates, so it is an 8-bit word whose sign is its top bit.\<close>

definition updateRttEstimation :: "conn \<Rightarrow> conn" where
  "updateRttEstimation e = (
     let m = m_rto e - m_timer e;
         m = m - drop_bit 3 (m_sa e);
         sa = m_sa e + m;
         m = (if m <s 0 then - m else m);
         m = m - drop_bit 2 (m_sv e);
         sv = m_sv e + m
     in e\<lparr>m_sa := sa, m_sv := sv, m_rto := drop_bit 3 sa + sv\<rparr>)"

definition resetSendBuffer :: "conn \<Rightarrow> conn" where
  "resetSendBuffer e = e\<lparr>m_slen := 0, m_sdat := Null\<rparr>"

section \<open>The segment array as a queue\<close>

text \<open>\<open>segs_ring e\<close> is the array read from the current index on.\<close>

definition segs_ring :: "conn \<Rightarrow> segment list" where
  "segs_ring e = map (\<lambda>i. m_segments e ! seg_slot e i) [0..<SEGMENT_COUNT]"

text \<open>
  The segments in flight are the outstanding ones from the current index on; in a well-formed
  connection they are the front part of the ring and everything behind them is free.
\<close>

definition inflight :: "conn \<Rightarrow> segment list" where
  "inflight e = takeWhile (\<lambda>s. s_len s \<noteq> 0) (segs_ring e)"

definition ring_ok :: "conn \<Rightarrow> bool" where
  "ring_ok e \<longleftrightarrow> length (m_segments e) = SEGMENT_COUNT \<and>
     list_all (\<lambda>s. s_len s = 0) (drop (length (inflight e)) (segs_ring e))"

lemma unat_lt4: "unat (w :: 4 word) < 16"
  using unsigned_less [of w] by simp

lemma seg_slot_less [simp]: "seg_slot e i < 16"
  by (simp add: seg_slot_def)

lemma length_segs_ring [simp]: "length (segs_ring e) = 16"
  by (simp add: segs_ring_def)

lemma segs_ring_nth: "i < 16 \<Longrightarrow> segs_ring e ! i = m_segments e ! seg_slot e i"
  by (simp add: segs_ring_def)

lemma segs_ring_0: "segs_ring e ! 0 = segment_cur e"
  using unat_lt4 [of "m_segidx e"] by (simp add: segs_ring_def segment_cur_def seg_slot_def)

lemma seg_slot_inj: "i < 16 \<Longrightarrow> j < 16 \<Longrightarrow> seg_slot e i = seg_slot e j \<longleftrightarrow> i = j"
  using unat_lt4 [of "m_segidx e"]
  by (auto simp: seg_slot_def mod_if split: if_splits)

lemma seg_slot_surj: "j < 16 \<Longrightarrow> \<exists>i<16. j = seg_slot e i"
proof -
  assume j: "j < 16"
  have "seg_slot e ((j + 16 - unat (m_segidx e)) mod 16) = j"
    using j unat_lt4 [of "m_segidx e"] by (simp add: seg_slot_def mod_simps)
  then show ?thesis
    by (intro exI [of _ "(j + 16 - unat (m_segidx e)) mod 16"]) simp
qed

lemma set_segs_ring:
  assumes "length (m_segments e) = 16"
  shows "set (segs_ring e) = set (m_segments e)"
proof -
  have "set (segs_ring e) = (\<lambda>i. m_segments e ! i) ` (seg_slot e ` {0..<16})"
    by (simp add: segs_ring_def image_image)
  also have "seg_slot e ` {0..<16} = {0..<16}"
    by (auto simp: image_iff Bex_def dest: seg_slot_surj [of _ e])
  also have "(\<lambda>i. m_segments e ! i) ` {0..<16} = set (m_segments e)"
    using assms by (auto simp: in_set_conv_nth image_iff Bex_def)
  finally show ?thesis .
qed

lemma hasOutstanding_ring:
  "length (m_segments e) = 16 \<Longrightarrow> hasOutstandingSegments e \<longleftrightarrow> (\<exists>s\<in>set (segs_ring e). s_len s \<noteq> 0)"
  by (simp add: hasOutstandingSegments_def set_segs_ring list_ex_iff)

lemma hasAvailable_ring:
  "length (m_segments e) = 16 \<Longrightarrow> hasAvailableSegments e \<longleftrightarrow> (\<exists>s\<in>set (segs_ring e). s_len s = 0)"
  by (simp add: hasAvailableSegments_def set_segs_ring list_ex_iff)

lemma seg_slot_upd [simp]: "seg_slot (upd_seg j s e) k = seg_slot e k"
  by (simp add: seg_slot_def upd_seg_def)

lemma segs_ring_upd:
  assumes "length (m_segments e) = 16" and "i < 16"
  shows "segs_ring (upd_seg (seg_slot e i) s e) = (segs_ring e)[i := s]"
proof (rule nth_equalityI)
  fix k assume "k < length (segs_ring (upd_seg (seg_slot e i) s e))"
  then show "segs_ring (upd_seg (seg_slot e i) s e) ! k = (segs_ring e)[i := s] ! k"
    using assms seg_slot_inj [of k i e] seg_slot_upd [of "seg_slot e i" s e k]
    by (cases "k = i") (auto simp: segs_ring_nth upd_seg_def)
qed simp

lemma inflightI:
  assumes "length (m_segments e) = 16" and "segs_ring e = q @ z"
    and "\<And>s. s \<in> set q \<Longrightarrow> s_len s \<noteq> 0" and "\<And>s. s \<in> set z \<Longrightarrow> s_len s = 0"
  shows "inflight e = q" and "ring_ok e"
proof -
  have "takeWhile (\<lambda>s. s_len s \<noteq> 0) z = []"
    using assms(4) by (cases z) auto
  then show q: "inflight e = q"
    using assms(2,3) by (simp add: inflight_def takeWhile_append)
  show "ring_ok e"
    using assms by (simp add: ring_ok_def q list_all_iff)
qed

lemma ringE:
  assumes "ring_ok e"
  obtains z where "length (m_segments e) = 16" "segs_ring e = inflight e @ z"
    "\<forall>s\<in>set (inflight e). s_len s \<noteq> 0" "\<forall>s\<in>set z. s_len s = 0"
proof
  show "segs_ring e = inflight e @ drop (length (inflight e)) (segs_ring e)"
    unfolding inflight_def by (metis takeWhile_eq_take append_take_drop_id)
  show "\<forall>s\<in>set (inflight e). s_len s \<noteq> 0"
    unfolding inflight_def by (blast dest: set_takeWhileD)
qed (use assms in \<open>auto simp: ring_ok_def list_all_iff\<close>)

lemma inflight_outstanding: "ring_ok e \<Longrightarrow> hasOutstandingSegments e \<longleftrightarrow> inflight e \<noteq> []"
proof (erule ringE)
  fix z assume "length (m_segments e) = 16" "segs_ring e = inflight e @ z"
    "\<forall>s\<in>set (inflight e). s_len s \<noteq> 0" "\<forall>s\<in>set z. s_len s = 0"
  then show "hasOutstandingSegments e \<longleftrightarrow> inflight e \<noteq> []"
    by (cases "inflight e") (auto simp: hasOutstanding_ring)
qed

lemma inflight_available: "ring_ok e \<Longrightarrow> hasAvailableSegments e \<longleftrightarrow> length (inflight e) < 16"
proof (erule ringE)
  fix z assume z: "length (m_segments e) = 16" "segs_ring e = inflight e @ z"
    "\<forall>s\<in>set (inflight e). s_len s \<noteq> 0" "\<forall>s\<in>set z. s_len s = 0"
  have "length (inflight e) + length z = 16"
    using z(2) by (metis length_append length_segs_ring)
  then show "hasAvailableSegments e \<longleftrightarrow> length (inflight e) < 16"
    using z by (cases z) (auto simp: hasAvailable_ring)
qed

lemma nextAvailable_SomeD:
  "nextAvailableSegment e = Some i \<Longrightarrow> i < 16 \<and> s_len (m_segments e ! i) = 0"
  by (auto simp: nextAvailableSegment_def find_Some_iff)

lemma nextAvailable_None:
  "length (m_segments e) = 16 \<Longrightarrow> nextAvailableSegment e = None \<longleftrightarrow> \<not> hasAvailableSegments e"
  by (auto simp: nextAvailableSegment_def hasAvailable_ring segs_ring_def find_None_iff)

lemma nextAvailable_Some:
  "hasAvailableSegments e \<Longrightarrow> length (m_segments e) = 16 \<Longrightarrow>
   \<exists>i<16. nextAvailableSegment e = Some i \<and> s_len (m_segments e ! i) = 0"
  using nextAvailable_None [of e] nextAvailable_SomeD [of e] by (cases "nextAvailableSegment e") auto

lemma nextAvailable_ring:
  assumes "ring_ok e" and "length (inflight e) < 16"
  shows "nextAvailableSegment e = Some (seg_slot e (length (inflight e)))"
  using assms(1)
proof (rule ringE)
  let ?n = "length (inflight e)"
  fix z assume z: "length (m_segments e) = 16" "segs_ring e = inflight e @ z"
    "\<forall>s\<in>set (inflight e). s_len s \<noteq> 0" "\<forall>s\<in>set z. s_len s = 0"
  have "?n + length z = 16"
    using z(2) by (metis length_append length_segs_ring)
  then have "z \<noteq> []" using assms(2) by auto
  then have "s_len (segs_ring e ! ?n) = 0"
    using z(2,4) by (cases z) (auto simp: nth_append)
  moreover have "s_len (segs_ring e ! i) \<noteq> 0" if "i < ?n" for i
    using z(2,3) that by (auto simp: nth_append)
  ultimately have "find (\<lambda>i. s_len (m_segments e ! seg_slot e i) = 0) [0..<16] = Some ?n"
    using assms(2) by (auto simp: find_Some_iff segs_ring_nth intro!: exI [of _ ?n])
  then show ?thesis
    by (simp add: nextAvailableSegment_def)
qed

text \<open>Taking the next available segment appends to the queue in flight.\<close>

lemma inflight_append:
  assumes "ring_ok e" and "nextAvailableSegment e = Some i" and "s_len s \<noteq> 0"
  shows "inflight (upd_seg i s e) = inflight e @ [s]" and "ring_ok (upd_seg i s e)"
proof -
  from assms(1) obtain z where z: "length (m_segments e) = 16" "segs_ring e = inflight e @ z"
    "\<forall>s\<in>set (inflight e). s_len s \<noteq> 0" "\<forall>s\<in>set z. s_len s = 0"
    by (rule ringE)
  have len: "length (inflight e) + length z = 16"
    using z(2) by (metis length_append length_segs_ring)
  have lt: "length (inflight e) < 16"
    using assms(1,2) z(1) nextAvailable_None [of e] by (auto simp: inflight_available)
  then obtain y ys where ys: "z = y # ys" using len by (cases z) auto
  have i: "i = seg_slot e (length (inflight e))"
    using nextAvailable_ring [OF assms(1) lt] assms(2) by simp
  have "segs_ring (upd_seg i s e) = (inflight e @ [s]) @ ys"
    using segs_ring_upd [OF z(1) lt] by (simp add: i z(2) ys list_update_append)
  moreover have "length (m_segments (upd_seg i s e)) = 16"
    using z(1) by (simp add: upd_seg_def)
  ultimately show "inflight (upd_seg i s e) = inflight e @ [s]" "ring_ok (upd_seg i s e)"
    using z(3,4) assms(3) ys
      inflightI [of "upd_seg i s e" "inflight e @ [s]" ys] by (auto simp del: append_assoc)
qed

text \<open>Clearing the current segment and advancing the index removes the oldest one.\<close>

definition pop_segment :: "conn \<Rightarrow> conn" where
  "pop_segment e = (upd_seg (unat (m_segidx e)) (segment_clear (segment_cur e)) e)\<lparr>m_segidx := m_segidx e + 1\<rparr>"

lemma unat_inc4: "unat (w + 1 :: 4 word) = (unat w + 1) mod 16"
  by (simp add: unat_word_ariths)

lemma segs_ring_pop:
  assumes "length (m_segments e) = 16"
  shows "segs_ring (pop_segment e) = tl (segs_ring e) @ [segment_clear (segment_cur e)]"
proof (rule nth_equalityI)
  fix k assume "k < length (segs_ring (pop_segment e))"
  then have k: "k < 16" by simp
  have slot: "seg_slot (pop_segment e) k = seg_slot e (k + 1)"
    by (simp add: pop_segment_def upd_seg_def seg_slot_def unat_inc4 mod_simps)
  have cur: "seg_slot e 0 = unat (m_segidx e)"
    using unat_lt4 [of "m_segidx e"] by (simp add: seg_slot_def)
  show "segs_ring (pop_segment e) ! k = (tl (segs_ring e) @ [segment_clear (segment_cur e)]) ! k"
  proof (cases "k = 15")
    case True
    then have "seg_slot (pop_segment e) k = seg_slot e 16"
      using slot by simp
    also have "\<dots> = unat (m_segidx e)"
      using unat_lt4 [of "m_segidx e"] by (simp add: seg_slot_def)
    finally have "seg_slot (pop_segment e) k = unat (m_segidx e)" .
    with True show ?thesis
      using assms k unat_lt4 [of "m_segidx e"]
      by (simp add: segs_ring_nth nth_append) (simp add: pop_segment_def upd_seg_def)
  next
    case False
    then have "seg_slot e (k + 1) \<noteq> unat (m_segidx e)"
      using k seg_slot_inj [of "k + 1" 0 e] cur by simp
    with False k show ?thesis
      by (simp add: segs_ring_nth slot nth_append nth_tl) (simp add: pop_segment_def upd_seg_def seg_slot_def)
  qed
qed simp

lemma inflight_pop:
  assumes "ring_ok e" and "inflight e = s # ss"
  shows "segment_cur e = s" and "inflight (pop_segment e) = ss" and "ring_ok (pop_segment e)"
proof -
  from assms(1) obtain z where z: "length (m_segments e) = 16" "segs_ring e = inflight e @ z"
    "\<forall>s\<in>set (inflight e). s_len s \<noteq> 0" "\<forall>s\<in>set z. s_len s = 0"
    by (rule ringE)
  show "segment_cur e = s"
    using segs_ring_0 [of e] z(2) assms(2) by simp
  have "segs_ring (pop_segment e) = ss @ (z @ [segment_clear (segment_cur e)])"
    using segs_ring_pop [OF z(1)] z(2) assms(2) by simp
  moreover have "length (m_segments (pop_segment e)) = 16"
    using z(1) by (simp add: pop_segment_def upd_seg_def)
  ultimately show "inflight (pop_segment e) = ss" "ring_ok (pop_segment e)"
    using z(3,4) assms(2) by (auto intro!: inflightI simp: segment_clear_def)
qed

lemma unat_slen: "unat (ucast (w :: 24 word) :: u32) = unat w"
proof -
  have "unat w < 2 ^ 24"
    using unsigned_less [of w, where 'a = nat] by simp
  then show ?thesis
    by (simp add: unsigned_ucast_eq take_bit_nat_eq_self_iff)
qed

end
