(* ===== verification/TcpOptions.thy ===== *)
theory TcpOptions
  imports TcpConn
begin

text \<open>
  The parser of TCP options, \<^verbatim>\<open>src/stack/tcpv4/Options.cpp\<close>. The options start at offset 20 of the segment
  \<open>data\<close>, the bytes that can be read; \<open>len\<close> is the number of option bytes the header announces.
  \<open>None\<close> is a read past the end of the packet: the loop checks the position of an option code
  against \<open>len\<close>, but not the positions of its length and value.
\<close>

abbreviation (input) "OPT_END \<equiv> (0 :: u8)"
abbreviation (input) "OPT_NOOP \<equiv> (1 :: u8)"
abbreviation (input) "OPT_MSS \<equiv> (2 :: u8)"
abbreviation (input) "OPT_MSS_LEN \<equiv> (4 :: u8)"
abbreviation (input) "OPT_WSC \<equiv> (3 :: u8)"
abbreviation (input) "OPT_WSC_LEN \<equiv> (3 :: u8)"

definition set_initialmss :: "u16 \<Rightarrow> conn \<Rightarrow> conn" where
  "set_initialmss omss e = e\<lparr>m_initialmss := (if omss > m_initialmss e then m_initialmss e else omss)\<rparr>"

definition set_wndscl :: "u8 \<Rightarrow> conn \<Rightarrow> conn" where
  "set_wndscl wsc e = (let s = (if wsc > 14 then 14 else wsc)
     in e\<lparr>m_wndscl := s, m_window := drop_bit (unat s) (m_window e)\<rparr>)"

text \<open>One pass of the loop at position \<open>c\<close>: stop (\<open>Some None\<close>), or go on from a new position.\<close>

definition opt_step :: "nat \<Rightarrow> conn \<Rightarrow> u8 list \<Rightarrow> (nat \<times> conn) option option" where
  "opt_step c e data = do {
     opt \<leftarrow> rd8 data (20 + c);
     if opt = OPT_END then Some None
     else if opt = OPT_NOOP then Some (Some (c + 1, e))
     else do {
       olen \<leftarrow> rd8 data (20 + c + 1);
       if opt = OPT_MSS \<and> olen = OPT_MSS_LEN then do {
         omss \<leftarrow> rd16 data (20 + c + 2);
         Some (Some (c + 4, set_initialmss (ntohs omss) e))
       }
       else if opt = OPT_WSC \<and> olen = OPT_WSC_LEN then do {
         wsc \<leftarrow> rd8 data (20 + c + 2);
         Some (Some (c + 3, set_wndscl wsc e))
       }
       else if olen = 0 then Some None
       else if c + unat olen \<ge> 40 then Some None
       else Some (Some (c + unat olen, e))
     }
   }"

lemma opt_step_progress: "opt_step c e data = Some (Some (c', e')) \<Longrightarrow> c < c'"
  by (auto simp: opt_step_def word_unat_eq_iff split: if_split_asm Option.bind_split_asm)

function parse_from :: "nat \<Rightarrow> conn \<Rightarrow> nat \<Rightarrow> u8 list \<Rightarrow> conn option" where
  "parse_from c e len data =
     (if c < len
      then (case opt_step c e data of
              None \<Rightarrow> None
            | Some None \<Rightarrow> Some e
            | Some (Some (c', e')) \<Rightarrow> parse_from c' e' len data)
      else Some e)"
  by pat_completeness auto
termination
  by (relation "measure (\<lambda>(c, e, len, data). len - c)") (auto dest: opt_step_progress)

declare parse_from.simps [simp del]

definition options_parse :: "conn \<Rightarrow> u16 \<Rightarrow> u8 list \<Rightarrow> conn option" where
  "options_parse e len data = parse_from 0 e (unat len) data"

text \<open>What an accepted option list may change.\<close>

definition same_but_mss_window :: "conn \<Rightarrow> conn \<Rightarrow> bool" where
  "same_but_mss_window e e' \<longleftrightarrow> m_initialmss e' \<le> m_initialmss e \<and> m_window e' \<le> m_window e \<and>
     (m_wndscl e' = m_wndscl e \<or> m_wndscl e' \<le> 14) \<and>
     e' = e\<lparr>m_initialmss := m_initialmss e', m_window := m_window e', m_wndscl := m_wndscl e'\<rparr>"

lemma same_refl [simp]: "same_but_mss_window e e"
  by (simp add: same_but_mss_window_def)

lemma same_trans: "same_but_mss_window a b \<Longrightarrow> same_but_mss_window b c \<Longrightarrow> same_but_mss_window a c"
  unfolding same_but_mss_window_def by (cases a, cases b, cases c) auto

lemma drop_bit_le16: "drop_bit n (w :: u16) \<le> w"
  by (simp add: drop_bit_eq_div word_le_nat_alt unat_div)

lemma same_set_initialmss [simp]: "same_but_mss_window e (set_initialmss v e)"
  by (auto simp: same_but_mss_window_def set_initialmss_def)

lemma same_set_wndscl [simp]: "same_but_mss_window e (set_wndscl v e)"
  by (auto simp: same_but_mss_window_def set_wndscl_def Let_def drop_bit_le16 not_less)

lemma opt_step_same: "opt_step c e data = Some (Some (c', e')) \<Longrightarrow> same_but_mss_window e e'"
  by (auto simp: opt_step_def split: if_split_asm Option.bind_split_asm)

lemma parse_from_same: "yields (parse_from c e len data) (same_but_mss_window e)"
proof (induction c e len data rule: parse_from.induct)
  case (1 c e len data)
  show ?case
    by (subst parse_from.simps)
      (auto split: option.split intro: same_trans [OF opt_step_same] elim!: yields_mono [OF 1])
qed

lemma options_parse_same: "options_parse e len data = Some e' \<Longrightarrow> same_but_mss_window e e'"
  unfolding options_parse_def by (rule yieldsD [OF parse_from_same])

text \<open>With ten bytes of slack behind the announced options the parser cannot read past the packet.\<close>

lemma opt_step_runs: "20 + c + 4 \<le> length data \<Longrightarrow> opt_step c e data \<noteq> None"
  by (auto simp: opt_step_def rd8_def rd16_def)

lemma parse_from_runs: "20 + len + 3 \<le> length data \<Longrightarrow> \<exists>e'. parse_from c e len data = Some e'"
proof (induction c e len data rule: parse_from.induct)
  case (1 c e len data)
  show ?case
    using 1 opt_step_runs [of c data e] by (subst parse_from.simps) (auto split: option.split)
qed

text \<open>Whether the parser stays inside the packet does not depend on the connection.\<close>

lemma opt_step_indep:
  "(opt_step c e data = None) = (opt_step c e' data = None)"
  "(opt_step c e data = Some None) = (opt_step c e' data = Some None)"
  "opt_step c e data = Some (Some (k, d)) \<Longrightarrow> \<exists>d'. opt_step c e' data = Some (Some (k, d'))"
  by (auto simp: opt_step_def split: Option.bind_splits if_splits)

lemma parse_from_indep: "parse_from c e len data = None \<Longrightarrow> parse_from c e' len data = None"
proof (induction c e len data arbitrary: e' rule: parse_from.induct)
  case (1 c e len data)
  show ?case
  proof (cases "opt_step c e data")
    case None
    then show ?thesis
      using 1(2) opt_step_indep(1) [of c e data e'] by (simp add: parse_from.simps [of c] split: if_splits)
  next
    case (Some r)
    show ?thesis
    proof (cases r)
      case None
      then show ?thesis
        using 1(2) Some by (simp add: parse_from.simps [of c e] split: if_splits)
    next
      case [simp]: (Some p)
      obtain k d where p: "p = (k, d)" by (cases p)
      with \<open>opt_step c e data = Some r\<close> obtain d' where d': "opt_step c e' data = Some (Some (k, d'))"
        using opt_step_indep(3) [of c e data k d e'] by auto
      have lt: "c < len" and "parse_from k d len data = None"
        using 1(2) \<open>opt_step c e data = Some r\<close> p by (auto simp: parse_from.simps [of c e] split: if_splits)
      then have "parse_from k d' len data = None"
        using 1(1) \<open>opt_step c e data = Some r\<close> p by auto
      then show ?thesis
        using lt d' by (simp add: parse_from.simps [of c e'])
    qed
  qed
qed

lemma options_parse_indep: "options_parse e len data \<noteq> None \<Longrightarrow> options_parse e' len data \<noteq> None"
  unfolding options_parse_def by (metis parse_from_indep)

section \<open>What the parser guarantees\<close>

text \<open>
  C31: Parsing always ends. When it stays inside the packet, it changes nothing but the MSS, the
  window and the window scale; the MSS and the window never grow, and a window scale it sets is at
  most 14. It does stay inside the packet when at least three bytes follow the announced options.
\<close>

theorem options_parse_bounds:
  "(\<forall>e'. options_parse e len data = Some e' \<longrightarrow>
      m_initialmss e' \<le> m_initialmss e \<and> m_window e' \<le> m_window e \<and>
      (m_wndscl e' = m_wndscl e \<or> m_wndscl e' \<le> 14) \<and>
      e' = e\<lparr>m_initialmss := m_initialmss e', m_window := m_window e', m_wndscl := m_wndscl e'\<rparr>) \<and>
   (20 + unat len + 3 \<le> length data \<longrightarrow> options_parse e len data \<noteq> None)"
  using options_parse_same [of e len data] parse_from_runs [of "unat len" data 0 e]
  by (auto simp: same_but_mss_window_def options_parse_def)

theorem options_parse_bounds_witness:
  "\<exists>e'. options_parse conn_init 8 (replicate 20 0 @ [3, 3, 20, 2, 4, 5, 0xB4, 0, 0, 0, 0]) = Some e' \<and>
     m_initialmss e' \<le> 0 \<and> m_wndscl e' = 14"
proof -
  let ?d = "replicate 20 0 @ [3, 3, 20, 2, 4, 5, 0xB4, 0, 0, 0, 0] :: u8 list"
  obtain e' where e': "options_parse conn_init 8 ?d = Some e'"
    using options_parse_bounds [of conn_init 8 ?d] by auto
  moreover have "m_wndscl e' = 14"
    using e' by (simp add: options_parse_def parse_from.simps opt_step_def rd8_def rd16_def nth_append set_wndscl_def set_initialmss_def) auto
  moreover have "m_initialmss e' \<le> m_initialmss conn_init"
    using options_parse_bounds [of conn_init 8 ?d] e' by blast
  ultimately show ?thesis
    by (simp add: conn_init_def)
qed

text \<open>
  The check of the option length comes after the reads: a segment that ends with an MSS or window
  scale code, all of it inside the announced options, makes the parser read behind the segment.
\<close>

theorem options_parse_overread:
  assumes "length data = 20 + unat len" and "0 < len" and "last data = OPT_MSS \<or> last data = OPT_WSC"
    and "\<forall>i < unat len - 1. data ! (20 + i) = OPT_NOOP"
  shows "options_parse e len data = None"
proof -
  have "parse_from c e (unat len) data = None" if "c < unat len" for c
    using that
  proof (induction "unat len - c" arbitrary: c)
    case (Suc n)
    have n: "c < unat len" "c < length data - 20" using Suc.prems assms(1) by auto
    show ?case
    proof (cases "c = unat len - 1")
      case True
      have "data ! (20 + c) = last data"
        using assms(1) n True by (subst last_conv_nth) (auto intro!: arg_cong [where f = "(!) data"])
      then show ?thesis
        using assms n True by (subst parse_from.simps) (auto simp: opt_step_def rd8_def)
    next
      case False
      then have "data ! (20 + c) = OPT_NOOP" and "c + 1 < unat len"
        using assms(4) n by auto
      then show ?thesis
        using Suc(1) [of "c + 1"] Suc(2) n assms(1)
        by (subst parse_from.simps) (simp add: opt_step_def rd8_def)
    qed
  qed simp
  then show ?thesis
    using assms(2) by (simp add: options_parse_def word_less_nat_alt)
qed

theorem options_parse_overread_witness:
  "options_parse conn_init 4 (replicate 20 0 @ [1, 1, 1, 2]) = None"
  by (rule options_parse_overread) (auto simp: less_Suc_eq numeral_3_eq_3 nth_append)

end
