(* ===== verification/Timers.thy ===== *)
theory Timers
  imports Prelude
begin

text \<open>
  The timer of \<^verbatim>\<open>include/tulips/system/Timer.h\<close> and \<^verbatim>\<open>src/system/Timer.cpp\<close>. The clock is outside the
  program: its readings are arguments.
\<close>

record timer =
  tm_start :: u64
  tm_interval :: u64

definition timer_set :: "u64 \<Rightarrow> u64 \<Rightarrow> timer" where
  "timer_set now interval = \<lparr>tm_start = now, tm_interval = interval\<rparr>"

definition timer_reset :: "u64 \<Rightarrow> timer \<Rightarrow> timer" where
  "timer_reset now tm = tm\<lparr>tm_start := now\<rparr>"

definition timer_expired :: "u64 \<Rightarrow> timer \<Rightarrow> bool" where
  "timer_expired now tm \<longleftrightarrow> tm_interval tm \<le> now - tm_start tm"

text \<open>
  The test is on the cycles elapsed since the timer was set, taken modulo \<open>2 ^ 64\<close>: it is right across
  the wrap of the clock as long as less than \<open>2 ^ 64\<close> cycles elapse.
\<close>

lemma timer_expired_elapsed:
  assumes "elapsed < 2 ^ 64"
  shows "timer_expired (now + of_nat elapsed) (timer_set now i) \<longleftrightarrow> unat i \<le> elapsed"
proof -
  have "unat (of_nat elapsed :: u64) = elapsed"
    using assms by (simp add: unat_of_nat take_bit_nat_eq_self)
  then show ?thesis
    by (simp add: timer_expired_def timer_set_def word_le_nat_alt)
qed

end
