(* ===== verification/TcpSend.thy ===== *)
theory TcpSend
  imports TcpOptions Timers
begin

text \<open>
  The state of the TCP processor (\<^verbatim>\<open>include/tulips/stack/tcpv4/Processor.h\<close>) and everything that puts a
  segment on the wire (\<^verbatim>\<open>src/stack/tcpv4/Send.cpp\<close> and the inline members of the header).

  A \<^verbatim>\<open>Connection&\<close> argument is passed by value and the updated connection is returned; the callers
  store it back. A \<^verbatim>\<open>Segment&\<close> is its index in the connection. The output header is built in the block
  memory: the offsets 0 (source port), 2, 4 (sequence), 8 (acknowledgement), 12 (data offset in the
  high half, reserved bits in the low half), 13 (flags), 14 (window), 16 (checksum), 18 (urgent
  pointer) and 20 (options) are those of \<^verbatim>\<open>Header\<close>.
\<close>

section \<open>The state of the processor\<close>

abbreviation (input) "TCP_FIN \<equiv> (0x01 :: u8)"
abbreviation (input) "TCP_SYN \<equiv> (0x02 :: u8)"
abbreviation (input) "TCP_RST \<equiv> (0x04 :: u8)"
abbreviation (input) "TCP_PSH \<equiv> (0x08 :: u8)"
abbreviation (input) "TCP_ACK \<equiv> (0x10 :: u8)"
abbreviation (input) "TCP_URG \<equiv> (0x20 :: u8)"
abbreviation (input) "TCP_CTL \<equiv> (0x3f :: u8)"
abbreviation (input) "HEADER_OVERHEAD \<equiv> (40 :: u32)"
abbreviation (input) "RTO \<equiv> (3 :: u8)"

record tcp_stats =
  st_drop :: u64
  st_recv :: u64
  st_sent :: u64
  st_chkerr :: u64
  st_ackerr :: u64
  st_rst :: u64
  st_rexmit :: u64
  st_syndrop :: u64
  st_synrst :: u64

record ('d, 'h) tcp =
  t_net :: "'d net"
  t_handler :: 'h
  t_iss :: u32
  t_mss :: u32
  t_ports :: "u16 set"
  t_conns :: "conn list"
  t_stats :: tcp_stats
  t_timer :: timer

abbreviation "t_mem t \<equiv> n_mem (t_net t)"
abbreviation "t_dev t \<equiv> n_dev (t_net t)"

definition on_net :: "('d net \<Rightarrow> 'd net) \<Rightarrow> ('d, 'h) tcp \<Rightarrow> ('d, 'h) tcp" where
  "on_net f t = t\<lparr>t_net := f (t_net t)\<rparr>"

definition on_stats :: "(tcp_stats \<Rightarrow> tcp_stats) \<Rightarrow> ('d, 'h) tcp \<Rightarrow> ('d, 'h) tcp" where
  "on_stats f t = t\<lparr>t_stats := f (t_stats t)\<rparr>"

definition t_set_mem :: "mem \<Rightarrow> ('d, 'h) tcp \<Rightarrow> ('d, 'h) tcp" where
  "t_set_mem m = on_net (\<lambda>n. n\<lparr>n_mem := m\<rparr>)"

definition t_unlisten :: "'d device_ops \<Rightarrow> u16 \<Rightarrow> ('d, 'h) tcp \<Rightarrow> ('d, 'h) tcp" where
  "t_unlisten ops port = on_net (\<lambda>n. n\<lparr>n_dev := d_unlisten ops port (n_dev n)\<rparr>)"

section \<open>Header fields\<close>

definition tst8 :: "ptr \<Rightarrow> nat \<Rightarrow> u8 \<Rightarrow> ('d, 'h) tcp \<Rightarrow> ('d, 'h) tcp option" where
  "tst8 p i v t = do { m \<leftarrow> st8 (t_mem t) p i v; Some (t_set_mem m t) }"

definition tst16 :: "ptr \<Rightarrow> nat \<Rightarrow> u16 \<Rightarrow> ('d, 'h) tcp \<Rightarrow> ('d, 'h) tcp option" where
  "tst16 p i v t = do { m \<leftarrow> st16 (t_mem t) p i v; Some (t_set_mem m t) }"

definition tst32 :: "ptr \<Rightarrow> nat \<Rightarrow> u32 \<Rightarrow> ('d, 'h) tcp \<Rightarrow> ('d, 'h) tcp option" where
  "tst32 p i v t = do { m \<leftarrow> st32 (t_mem t) p i v; Some (t_set_mem m t) }"

definition set_flags :: "ptr \<Rightarrow> u8 \<Rightarrow> ('d, 'h) tcp \<Rightarrow> ('d, 'h) tcp option" where
  "set_flags p f = tst8 p 13 f"

definition or_flags :: "ptr \<Rightarrow> u8 \<Rightarrow> ('d, 'h) tcp \<Rightarrow> ('d, 'h) tcp option" where
  "or_flags p f t = do { old \<leftarrow> ld8 (t_mem t) p 13; set_flags p (old OR f) t }"

definition set_offset :: "ptr \<Rightarrow> u8 \<Rightarrow> ('d, 'h) tcp \<Rightarrow> ('d, 'h) tcp option" where
  "set_offset p k t = do { old \<leftarrow> ld8 (t_mem t) p 12; tst8 p 12 (old AND 0x0F OR push_bit 4 k) t }"

definition clear_reserved :: "ptr \<Rightarrow> ('d, 'h) tcp \<Rightarrow> ('d, 'h) tcp option" where
  "clear_reserved p t = do { old \<leftarrow> ld8 (t_mem t) p 12; tst8 p 12 (old AND 0xF0) t }"

section \<open>Sending\<close>

text \<open>\<^verbatim>\<open>send(dst, len, mss, outdata)\<close>: the length the checksum sees is truncated to 16 bits.\<close>

definition send_raw :: "'d device_ops \<Rightarrow> ip4 \<Rightarrow> u32 \<Rightarrow> u16 \<Rightarrow> ptr \<Rightarrow> ('d, 'h) tcp \<Rightarrow>
    (status \<times> ('d, 'h) tcp) option" where
  "send_raw ops dst len mss outdata t = do {
     t \<leftarrow> tst16 outdata 18 0 t;
     t \<leftarrow> tst16 outdata 16 0 t;
     t \<leftarrow> clear_reserved outdata t;
     seg \<leftarrow> mem_read (t_mem t) outdata (unat (ucast len :: u16));
     csum \<leftarrow> tcpv4_checksum (io_host (n_ip (t_net t))) dst (ucast len) seg;
     t \<leftarrow> tst16 outdata 16 (NOT csum) t;
     (ret, n) \<leftarrow> ip_commit ops len outdata mss (t_net t);
     Some (ret, t\<lparr>t_net := n\<rparr>)
   }"

text \<open>The header fields both \<^verbatim>\<open>send\<close> functions fill in before.\<close>

definition advertised_window :: "'d device_ops \<Rightarrow> conn \<Rightarrow> u8 \<Rightarrow> 'd \<Rightarrow> u16" where
  "advertised_window ops e flags d =
     (if m_state e = STOPPED then 0
      else if flags AND TCP_SYN \<noteq> 0
      then htons (cap (push_bit (unat (d_rblog2 ops d)) (ucast (d_rbavail ops d))))
      else htons (d_rbavail ops d))"

definition fill_header :: "'d device_ops \<Rightarrow> conn \<Rightarrow> u32 \<Rightarrow> ptr \<Rightarrow> ('d, 'h) tcp \<Rightarrow> ('d, 'h) tcp option" where
  "fill_header ops e seq outdata t = do {
     t \<leftarrow> tst32 outdata 8 (htonl (m_rcv_nxt e)) t;
     t \<leftarrow> tst32 outdata 4 (htonl seq) t;
     t \<leftarrow> tst16 outdata 0 (m_lport e) t;
     t \<leftarrow> tst16 outdata 2 (m_rport e) t;
     flags \<leftarrow> ld8 (t_mem t) outdata 13;
     tst16 outdata 14 (advertised_window ops e flags (t_dev t)) t
   }"

text \<open>The end of both: direct the producers at the peer and get the next send buffer.\<close>

definition address_peer :: "mac \<Rightarrow> ip4 \<Rightarrow> ('d, 'h) tcp \<Rightarrow> ('d, 'h) tcp" where
  "address_peer hw ip = on_net (\<lambda>n. eth_setDest hw (ip_setDest ip (ip_setProtocol PROTO_TCP n)))"

definition next_buffer :: "'d device_ops \<Rightarrow> conn \<Rightarrow> ('d, 'h) tcp \<Rightarrow> (status \<times> conn \<times> ('d, 'h) tcp) option" where
  "next_buffer ops e t = do {
     let t = address_peer (m_rethaddr e) (m_ripaddr e) t;
     (ret, p, n) \<leftarrow> ip_prepare ops (t_net t);
     Some (ret, e\<lparr>m_sdat := (if ret = Ok then p else m_sdat e)\<rparr>, t\<lparr>t_net := n\<rparr>)
   }"

text \<open>\<^verbatim>\<open>send(Connection&)\<close>, for control segments without data.\<close>

definition send_ctl :: "'d device_ops \<Rightarrow> conn \<Rightarrow> ('d, 'h) tcp \<Rightarrow> (status \<times> conn \<times> ('d, 'h) tcp) option" where
  "send_ctl ops e t = do {
     t \<leftarrow> fill_header ops e (m_snd_nxt e) (m_sdat e) t;
     (ret, t) \<leftarrow> send_raw ops (m_ripaddr e) 20 (m_mss e) (m_sdat e) t;
     if ret \<noteq> Ok then Some (ret, e, t) else next_buffer ops e t
   }"

text \<open>\<^verbatim>\<open>send(Connection&, len, Segment&)\<close>. A segment that does not start at the next sequence number is a
  retransmission and does not advance it.\<close>

definition advance :: "nat \<Rightarrow> conn \<Rightarrow> conn" where
  "advance i e = (let s = m_segments e ! i
     in if s_seq s \<noteq> m_snd_nxt e then e else e\<lparr>m_snd_nxt := m_snd_nxt e + s_len s\<rparr>)"

definition send_len :: "'d device_ops \<Rightarrow> conn \<Rightarrow> u32 \<Rightarrow> nat \<Rightarrow> ('d, 'h) tcp \<Rightarrow>
    (status \<times> conn \<times> ('d, 'h) tcp) option" where
  "send_len ops e len i t = do {
     let s = m_segments e ! i;
     t \<leftarrow> fill_header ops e (s_seq s) (s_dat s) t;
     (ret, t) \<leftarrow> send_raw ops (m_ripaddr e) len (m_mss e) (s_dat s) t;
     if ret \<noteq> Ok then Some (ret, e, t)
     else next_buffer ops (advance i e) t
   }"

text \<open>\<^verbatim>\<open>send(Connection&, Segment&, flags)\<close>\<close>

definition send_seg :: "'d device_ops \<Rightarrow> conn \<Rightarrow> nat \<Rightarrow> u8 \<Rightarrow> ('d, 'h) tcp \<Rightarrow>
    (status \<times> conn \<times> ('d, 'h) tcp) option" where
  "send_seg ops e i flags t = do {
     let s = m_segments e ! i;
     t \<leftarrow> set_flags (s_dat s) (flags OR TCP_ACK) t;
     t \<leftarrow> set_offset (s_dat s) 5 t;
     send_len ops e (s_len s + 20) i t
   }"

text \<open>The bytes of the three options of a SYN.\<close>

definition syn_options :: "'d device_ops \<Rightarrow> u16 \<Rightarrow> 'd \<Rightarrow> u8 list" where
  "syn_options ops initialmss d =
     [OPT_WSC, OPT_WSC_LEN, d_rblog2 ops d, OPT_MSS, OPT_MSS_LEN] @ bytes16 (htons initialmss) @ [OPT_END]"

definition sendSyn :: "'d device_ops \<Rightarrow> conn \<Rightarrow> nat \<Rightarrow> ('d, 'h) tcp \<Rightarrow>
    (status \<times> conn \<times> ('d, 'h) tcp) option" where
  "sendSyn ops e i t = do {
     let outdata = s_dat (m_segments e ! i);
     t \<leftarrow> or_flags outdata TCP_SYN t;
     t \<leftarrow> set_offset outdata 7 t;
     m \<leftarrow> mem_write (t_mem t) (ptr_add outdata 20) (syn_options ops (m_initialmss e) (t_dev t));
     send_len ops e 28 i (t_set_mem m t)
   }"

definition sendSynAck :: "'d device_ops \<Rightarrow> conn \<Rightarrow> nat \<Rightarrow> ('d, 'h) tcp \<Rightarrow>
    (status \<times> conn \<times> ('d, 'h) tcp) option" where
  "sendSynAck ops e i t = do {
     t \<leftarrow> set_flags (s_dat (m_segments e ! i)) TCP_ACK t;
     sendSyn ops e i t
   }"

definition sendFin :: "'d device_ops \<Rightarrow> conn \<Rightarrow> nat \<Rightarrow> ('d, 'h) tcp \<Rightarrow>
    (status \<times> conn \<times> ('d, 'h) tcp) option" where
  "sendFin ops e i t = do {
     t \<leftarrow> or_flags (s_dat (m_segments e ! i)) TCP_FIN t;
     t \<leftarrow> set_offset (s_dat (m_segments e ! i)) 5 t;
     send_len ops e 20 i t
   }"

definition sendFinAck :: "'d device_ops \<Rightarrow> conn \<Rightarrow> nat \<Rightarrow> ('d, 'h) tcp \<Rightarrow>
    (status \<times> conn \<times> ('d, 'h) tcp) option" where
  "sendFinAck ops e i t = do {
     t \<leftarrow> set_flags (s_dat (m_segments e ! i)) TCP_ACK t;
     sendFin ops e i t
   }"

text \<open>Claiming the next available segment for the content of the send buffer.\<close>

definition claim_segment :: "u32 \<Rightarrow> conn \<Rightarrow> (nat \<times> conn) option" where
  "claim_segment len e = do {
     i \<leftarrow> nextAvailableSegment e;
     Some (i, resetSendBuffer (upd_seg i (segment_set len (m_snd_nxt e) (m_sdat e)) e))
   }"

definition sendNoDelay :: "'d device_ops \<Rightarrow> conn \<Rightarrow> u8 \<Rightarrow> ('d, 'h) tcp \<Rightarrow>
    (status \<times> conn \<times> ('d, 'h) tcp) option" where
  "sendNoDelay ops e flag t = do {
     (i, e) \<leftarrow> claim_segment (ucast (m_slen e)) e;
     send_seg ops e i flag t
   }"

definition sendNagle :: "'d device_ops \<Rightarrow> conn \<Rightarrow> u32 \<Rightarrow> ('d, 'h) tcp \<Rightarrow>
    (status \<times> conn \<times> ('d, 'h) tcp) option" where
  "sendNagle ops e bound t =
     (if ucast (m_slen e) = bound
      then do {
        (i, e) \<leftarrow> claim_segment (ucast (m_slen e)) e;
        send_seg ops e i TCP_PSH t
      }
      else if hasOutstandingSegments e then Some (Ok, e, t)
      else sendNoDelay ops e TCP_PSH t)"

definition sendAbort :: "'d device_ops \<Rightarrow> conn \<Rightarrow> ('d, 'h) tcp \<Rightarrow> (status \<times> conn \<times> ('d, 'h) tcp) option" where
  "sendAbort ops e t = do {
     let t = t_unlisten ops (m_lport e) t;
     let e = e\<lparr>m_state := CLOSED\<rparr>;
     t \<leftarrow> set_flags (m_sdat e) TCP_RST t;
     t \<leftarrow> or_flags (m_sdat e) (if m_newdata e then TCP_ACK else 0) t;
     t \<leftarrow> set_offset (m_sdat e) 5 t;
     send_ctl ops e t
   }"

definition sendClose :: "'d device_ops \<Rightarrow> conn \<Rightarrow> ('d, 'h) tcp \<Rightarrow> (status \<times> conn \<times> ('d, 'h) tcp) option" where
  "sendClose ops e t =
     (if \<not> hasAvailableSegments e then Some (NoMoreResources, e, t)
      else do {
        let e = e\<lparr>m_state := FIN_WAIT_1\<rparr>;
        (i, e) \<leftarrow> claim_segment 1 e;
        sendFinAck ops e i t
      })"

text \<open>With data pending in the send buffer the flags go to a fresh buffer of the device, but what is
  sent afterwards is the send buffer of the connection.\<close>

definition sendAck :: "'d device_ops \<Rightarrow> conn \<Rightarrow> ('d, 'h) tcp \<Rightarrow> (status \<times> conn \<times> ('d, 'h) tcp) option" where
  "sendAck ops e t = do {
     (res, outdata, t) \<leftarrow>
       (if hasPendingSendData e
        then do {
          (res, p, m, d) \<leftarrow> d_prepare ops (t_mem t) (t_dev t);
          Some (res, p, on_net (\<lambda>n. n\<lparr>n_mem := m, n_dev := d\<rparr>) t)
        }
        else Some (Ok, m_sdat e, t));
     if res \<noteq> Ok then Some (res, e, t)
     else do {
       t \<leftarrow> set_flags outdata TCP_ACK t;
       t \<leftarrow> set_offset outdata 5 t;
       send_ctl ops e t
     }
   }"

text \<open>Retransmission of the oldest segment: its data moves to the send buffer of the connection.\<close>

definition rexmit_swap :: "conn \<Rightarrow> ('d, 'h) tcp \<Rightarrow> (conn \<times> ('d, 'h) tcp) option" where
  "rexmit_swap e t = do {
     (s, m) \<leftarrow> segment_swap (m_sdat e) (segment_cur e) (t_mem t);
     Some (resetSendBuffer (upd_seg (unat (m_segidx e)) s e), t_set_mem m t)
   }"

definition rexmit :: "'d device_ops \<Rightarrow> conn \<Rightarrow> ('d, 'h) tcp \<Rightarrow> (status \<times> conn \<times> ('d, 'h) tcp) option" where
  "rexmit ops e t = do {
     let t = on_stats (\<lambda>s. s\<lparr>st_rexmit := st_rexmit s + 1\<rparr>) t;
     case m_state e of
       SYN_RCVD \<Rightarrow> do {
         (e, t) \<leftarrow> rexmit_swap e t;
         sendSynAck ops e (unat (m_segidx e)) t
       }
     | SYN_SENT \<Rightarrow> do {
         (e, t) \<leftarrow> rexmit_swap e t;
         t \<leftarrow> set_flags (s_dat (segment_cur e)) 0 t;
         sendSyn ops e (unat (m_segidx e)) t
       }
     | ESTABLISHED \<Rightarrow> do {
         (e, t) \<leftarrow> rexmit_swap e t;
         send_seg ops e (unat (m_segidx e)) TCP_PSH t
       }
     | FIN_WAIT_1 \<Rightarrow> do {
         (e, t) \<leftarrow> rexmit_swap e t;
         sendFinAck ops e (unat (m_segidx e)) t
       }
     | CLOSING \<Rightarrow> do {
         (e, t) \<leftarrow> rexmit_swap e t;
         sendFinAck ops e (unat (m_segidx e)) t
       }
     | LAST_ACK \<Rightarrow> do {
         (e, t) \<leftarrow> rexmit_swap e t;
         sendFinAck ops e (unat (m_segidx e)) t
       }
     | CLOSE \<Rightarrow> Some (Ok, e, t)
     | FIN_WAIT_2 \<Rightarrow> Some (Ok, e, t)
     | TIME_WAIT \<Rightarrow> Some (Ok, e, t)
     | STOPPED \<Rightarrow> Some (Ok, e, t)
     | CLOSED \<Rightarrow> Some (Ok, e, t)
   }"

end
