(* ===== verification/TcpSafe.thy ===== *)
theory TcpSafe
  imports TcpSend
begin

text \<open>
  Memory safety of the sending side: on a link that always accepts frames, no function of
  \<^verbatim>\<open>Send.cpp\<close> reads or writes outside a buffer or through a null pointer, and each leaves the
  connection with a fresh send buffer. The lemmas are total correctness statements (\<open>runs\<close>): the
  function has a result and the result is well-formed.
\<close>

section \<open>Updates of the memory contents only\<close>

lemma t_set_mem_simps [simp]:
  "t_mem (t_set_mem m t) = m" "t_dev (t_set_mem m t) = t_dev t"
  "t_set_mem m (t_set_mem m' t) = t_set_mem m t" "t_set_mem (t_mem t) t = t"
  "n_ip (t_net (t_set_mem m t)) = n_ip (t_net t)" "n_eth (t_net (t_set_mem m t)) = n_eth (t_net t)"
  by (simp_all add: t_set_mem_def on_net_def)

lemma t_set_mem_sel [simp]:
  "t_handler (t_set_mem m t) = t_handler t" "t_iss (t_set_mem m t) = t_iss t" "t_mss (t_set_mem m t) = t_mss t"
  "t_ports (t_set_mem m t) = t_ports t" "t_conns (t_set_mem m t) = t_conns t"
  "t_stats (t_set_mem m t) = t_stats t" "t_timer (t_set_mem m t) = t_timer t"
  by (simp_all add: t_set_mem_def on_net_def)

text \<open>Stores into a valid buffer: the rest of the program runs on a memory with the same buffers.\<close>

lemma runs_tst:
  assumes "valid (t_mem t) p n" and "\<And>m. valid m = valid (t_mem t) \<Longrightarrow> Q (t_set_mem m t)"
  shows "i + 1 \<le> n \<Longrightarrow> runs (tst8 p i a t) Q"
    and "i + 2 \<le> n \<Longrightarrow> runs (tst16 p i b t) Q"
    and "i + 4 \<le> n \<Longrightarrow> runs (tst32 p i c t) Q"
  using assms(2) by (simp_all add: tst8_def tst16_def tst32_def st_valid [OF assms(1)])

lemma runs_ld8: "valid m p n \<Longrightarrow> i + 1 \<le> n \<Longrightarrow> (\<And>b. Q b) \<Longrightarrow> runs (ld8 m p i) Q"
  by (simp add: ld8_valid)

lemma runs_flags:
  assumes "valid (t_mem t) p n" and "14 \<le> n" and "\<And>m. valid m = valid (t_mem t) \<Longrightarrow> Q (t_set_mem m t)"
  shows "runs (set_flags p f t) Q" and "runs (or_flags p f t) Q"
    and "runs (set_offset p k t) Q" and "runs (clear_reserved p t) Q"
  using assms(2,3) by (simp_all add: set_flags_def or_flags_def set_offset_def clear_reserved_def
      ld8_valid [OF assms(1)] runs_tst [OF assms(1)])

lemma runs_fill_header:
  assumes "valid (t_mem t) p n" and "20 \<le> n" and "\<And>m. valid m = valid (t_mem t) \<Longrightarrow> Q (t_set_mem m t)"
  shows "runs (fill_header ops e seq p t) Q"
  unfolding fill_header_def runs_bind
  by (intro runs_tst [where n = n] runs_ld8 [where n = n]) (use assms in simp_all)

lemma runs_write:
  assumes "valid m p n" and "length bs \<le> n" and "\<And>m'. valid m' = valid m \<Longrightarrow> Q m'"
  shows "runs (mem_write m p bs) Q"
  using assms by (simp add: mem_write_valid)

lemma tcpv4_checksum_runs: "unat len \<le> length data \<Longrightarrow> \<exists>c. tcpv4_checksum src dst len data = Some c"
  by (simp add: tcpv4_checksum_def checksum_def)

section \<open>Well-formed connections\<close>

text \<open>
  \<open>hr\<close> is the headroom of the device and \<open>n\<close> its segment size: a send buffer has \<open>hr + 34\<close> bytes of
  lower headers before it and \<open>n - 34\<close> bytes of room, which is the 20 bytes of the TCP header and
  the segment size of the TCP processor.
\<close>

definition buf_ok :: "nat \<Rightarrow> nat \<Rightarrow> mem \<Rightarrow> ptr \<Rightarrow> bool" where
  "buf_ok hr n m p \<longleftrightarrow> frame_ok m p (hr + 34) (n - 34)"

definition seg_ok :: "nat \<Rightarrow> nat \<Rightarrow> mem \<Rightarrow> segment \<Rightarrow> bool" where
  "seg_ok hr n m s \<longleftrightarrow> s_len s = 0 \<or> buf_ok hr n m (s_dat s) \<and> unat (s_len s) \<le> n - 54"

definition segs_ok :: "nat \<Rightarrow> nat \<Rightarrow> mem \<Rightarrow> conn \<Rightarrow> bool" where
  "segs_ok hr n m e \<longleftrightarrow> length (m_segments e) = SEGMENT_COUNT \<and> list_all (seg_ok hr n m) (m_segments e)"

definition conn_ok :: "nat \<Rightarrow> nat \<Rightarrow> mem \<Rightarrow> conn \<Rightarrow> bool" where
  "conn_ok hr n m e \<longleftrightarrow> segs_ok hr n m e \<and> unat (m_slen e) \<le> n - 54 \<and> m_wndscl e \<le> 14 \<and>
     (m_state e \<noteq> CLOSED \<longrightarrow> buf_ok hr n m (m_sdat e))"

lemma buf_ok_mono: "buf_ok hr n m p \<Longrightarrow> mem_le m m' \<Longrightarrow> buf_ok hr n m' p"
  unfolding buf_ok_def by (rule frame_ok_mono)

lemma seg_ok_mono: "seg_ok hr n m s \<Longrightarrow> mem_le m m' \<Longrightarrow> seg_ok hr n m' s"
  by (auto simp: seg_ok_def intro: buf_ok_mono)

lemma segs_ok_mono: "segs_ok hr n m e \<Longrightarrow> mem_le m m' \<Longrightarrow> segs_ok hr n m' e"
  by (auto simp: segs_ok_def list_all_iff intro: seg_ok_mono)

lemma conn_ok_mono: "conn_ok hr n m e \<Longrightarrow> mem_le m m' \<Longrightarrow> conn_ok hr n m' e"
  by (auto simp: conn_ok_def intro: segs_ok_mono buf_ok_mono)

lemma mem_leI: "valid m' = valid m \<Longrightarrow> mem_le m m'"
  by (simp add: mem_le_def)

lemma buf_ok_valid: "buf_ok hr n m p \<Longrightarrow> valid m p (n - 34)"
  unfolding buf_ok_def by (rule frame_ok_valid)

lemma segs_ok_upd: "segs_ok hr n m e \<Longrightarrow> seg_ok hr n m s \<Longrightarrow> segs_ok hr n m (upd_seg i s e)"
  by (auto simp: segs_ok_def list_all_iff upd_seg_def dest: set_update_subset_insert [THEN subsetD])

lemma segs_ok_nth: "segs_ok hr n m e \<Longrightarrow> i < 16 \<Longrightarrow> seg_ok hr n m (m_segments e ! i)"
  by (simp add: segs_ok_def list_all_length)

lemma segs_ok_same: "m_segments e' = m_segments e \<Longrightarrow> segs_ok hr n m e' = segs_ok hr n m e"
  by (simp add: segs_ok_def)

lemma segs_ok_reset [simp]: "segs_ok hr n m (resetSendBuffer e) = segs_ok hr n m e"
  by (simp add: segs_ok_def resetSendBuffer_def)

text \<open>A connection whose send buffer has been claimed as segment \<open>i\<close> and sent.\<close>

definition claimed :: "u32 \<Rightarrow> nat \<Rightarrow> conn \<Rightarrow> conn" where
  "claimed len i e = (resetSendBuffer (upd_seg i (segment_set len (m_snd_nxt e) (m_sdat e)) e))
     \<lparr>m_snd_nxt := m_snd_nxt e + len\<rparr>"

lemma advance_claim:
  "i < length (m_segments e) \<Longrightarrow>
   advance i (resetSendBuffer (upd_seg i (segment_set len (m_snd_nxt e) (m_sdat e)) e)) = claimed len i e"
  by (simp add: advance_def claimed_def Let_def upd_seg_def segment_set_def resetSendBuffer_def)

lemma conn_ok_claimed:
  assumes "segs_ok hr n m e" and "buf_ok hr n m (m_sdat e)" and "unat len \<le> n - 54" and "m_wndscl e \<le> 14"
    and "mem_le m m'" and "buf_ok hr n m' p"
  shows "conn_ok hr n m' ((claimed len i e)\<lparr>m_sdat := p\<rparr>)"
proof -
  have "segs_ok hr n m' (upd_seg i (segment_set len (m_snd_nxt e) (m_sdat e)) e)"
    using assms by (intro segs_ok_upd) (auto simp: seg_ok_def segment_set_def intro: segs_ok_mono buf_ok_mono)
  then show ?thesis
    using assms(4,6) by (simp add: conn_ok_def claimed_def resetSendBuffer_def upd_seg_def segs_ok_def)
qed

lemma advance_sel [simp]:
  "m_segments (advance i e) = m_segments e" "m_state (advance i e) = m_state e" "m_slen (advance i e) = m_slen e"
  "m_wndscl (advance i e) = m_wndscl e" "m_segidx (advance i e) = m_segidx e"
  by (simp_all add: advance_def Let_def)

text \<open>A connection whose oldest segment has moved to the send buffer.\<close>

definition swapped :: "conn \<Rightarrow> conn" where
  "swapped e = resetSendBuffer (upd_seg (unat (m_segidx e)) ((segment_cur e)\<lparr>s_dat := m_sdat e\<rparr>) e)"

lemma swapped_sel [simp]:
  "m_state (swapped e) = m_state e" "m_slen (swapped e) = 0" "m_segidx (swapped e) = m_segidx e"
  "m_wndscl (swapped e) = m_wndscl e" "m_snd_nxt (swapped e) = m_snd_nxt e" "m_rcv_nxt (swapped e) = m_rcv_nxt e"
  by (simp_all add: swapped_def resetSendBuffer_def upd_seg_def)

lemma swapped_cur: "length (m_segments e) = 16 \<Longrightarrow> segment_cur (swapped e) = (segment_cur e)\<lparr>s_dat := m_sdat e\<rparr>"
  using unat_lt4 [of "m_segidx e"] by (simp add: swapped_def segment_cur_def resetSendBuffer_def upd_seg_def)

lemma swapped_segs_ok:
  assumes "segs_ok hr n m e" and "buf_ok hr n m (m_sdat e)"
  shows "segs_ok hr n m (swapped e)"
proof -
  have "seg_ok hr n m (segment_cur e)"
    unfolding segment_cur_def by (rule segs_ok_nth [OF assms(1) unat_lt4])
  then show ?thesis
    using assms unfolding swapped_def segs_ok_reset by (intro segs_ok_upd) (auto simp: seg_ok_def)
qed

lemma claimed_state [simp]: "m_state (claimed len i e) = m_state e"
  by (simp add: claimed_def resetSendBuffer_def upd_seg_def)

section \<open>The sending functions\<close>

text \<open>What every sending function keeps of the processor: it touches the network only.\<close>

definition net_only :: "('d, 'h) tcp \<Rightarrow> ('d, 'h) tcp \<Rightarrow> bool" where
  "net_only t t' \<longleftrightarrow> mem_le (t_mem t) (t_mem t') \<and> t' = t\<lparr>t_net := t_net t', t_stats := t_stats t'\<rparr>"

lemma net_only_refl [simp]: "net_only t t"
  by (simp add: net_only_def)

lemma net_only_trans [trans]: "net_only a b \<Longrightarrow> net_only b c \<Longrightarrow> net_only a c"
  unfolding net_only_def by (cases a, cases b, cases c) (auto intro: mem_le_trans)

lemma net_only_set_mem: "mem_le (t_mem t) m \<Longrightarrow> net_only t (t_set_mem m t)"
  by (simp add: net_only_def t_set_mem_def on_net_def)

lemma net_only_set_net: "mem_le (t_mem t) (n_mem n) \<Longrightarrow> net_only t (t\<lparr>t_net := n\<rparr>)"
  by (simp add: net_only_def)

lemma net_only_after: "valid m = valid (t_mem t) \<Longrightarrow> net_only (t_set_mem m t) b \<Longrightarrow> net_only t b"
  by (rule net_only_trans [OF net_only_set_mem [OF mem_leI]])

lemma sdat_exI: "buf_ok hr n m p \<Longrightarrow> \<exists>q. e\<lparr>m_sdat := p\<rparr> = e\<lparr>m_sdat := q\<rparr> \<and> buf_ok hr n m q"
  by blast

lemma net_only_mem: "net_only t t' \<Longrightarrow> mem_le (t_mem t) (t_mem t')"
  by (simp add: net_only_def)

lemma net_only_sel:
  assumes "net_only t t'"
  shows "t_handler t' = t_handler t" "t_iss t' = t_iss t" "t_mss t' = t_mss t" "t_ports t' = t_ports t"
    "t_conns t' = t_conns t" "t_timer t' = t_timer t"
  using assms by (cases t; cases t'; simp add: net_only_def)+

text \<open>A link that never fails and whose segments hold a SYN with its options but fit 24 bits.\<close>

locale tcp_link = reliable_nic +
  assumes nmss_lo: "62 \<le> nmss" and nmss_hi: "nmss < 2 ^ 24"
begin

abbreviation "tinv t \<equiv> dinv (t_mem t) (t_dev t)"

text \<open>\<open>sent e t\<close>: the operation succeeded, left \<open>e\<close> with a fresh send buffer and touched only the network.\<close>

abbreviation "sent e t \<equiv> (\<lambda>(st, e', t'). st = Ok \<and> net_only t t' \<and> tinv t' \<and>
    (\<exists>p. e' = e\<lparr>m_sdat := p\<rparr> \<and> buf_ok hr nmss (t_mem t') p))"

lemma dinv_valid: "dinv m d \<Longrightarrow> valid m' = valid m \<Longrightarrow> dinv m' d"
  by (erule dinv_mem) (rule mem_leI)

lemma tinv_set_mem: "tinv t \<Longrightarrow> valid m = valid (t_mem t) \<Longrightarrow> tinv (t_set_mem m t)"
  by (simp add: dinv_valid)

lemma send_raw_runs:
  assumes t: "tinv t" and p: "buf_ok hr nmss (t_mem t) p" and len: "unat len \<le> nmss - 34"
  shows "runs (send_raw ops dst len mss p t) (\<lambda>(st, t'). st = Ok \<and> net_only t t' \<and> tinv t')"
proof -
  have room: "20 \<le> nmss - 34"
    using nmss_lo by simp
  have len16: "unat (ucast len :: u16) \<le> nmss - 34"
    using len by (simp add: unsigned_ucast_eq order_trans [OF take_bit_nat_less_eq_self])
  note v = buf_ok_valid [OF p]
  have commit: "runs (do { (ret, n) \<leftarrow> ip_commit ops len p mss (t_net (t_set_mem m t)); Some (ret, (t_set_mem m t)\<lparr>t_net := n\<rparr>) })
      (\<lambda>(st, t'). st = Ok \<and> net_only t t' \<and> tinv t')" if "valid m = valid (t_mem t)" for m
  proof -
    have le: "mem_le (t_mem t) m"
      using that by (rule mem_leI)
    have "runs (ip_commit ops len p mss (t_net (t_set_mem m t)))
        (\<lambda>(st, n'). st = Ok \<and> mem_le m (n_mem n') \<and> dinv (n_mem n') (n_dev n'))"
      using ip_commit_total [of "t_net (t_set_mem m t)" p "nmss - 34" len mss] t p len le nmss_lo
      by (auto simp: buf_ok_def intro: dinv_mem frame_ok_mono)
    then show ?thesis
      unfolding runs_bind
      by (rule runs_mono) (use le in \<open>auto simp: t_set_mem_def on_net_def net_only_def intro: mem_le_trans\<close>)
  qed
  have csum: "\<exists>c. mem_read m p (unat (ucast len :: u16)) = Some (mem_get m p (unat (ucast len :: u16))) \<and>
      tcpv4_checksum src dst (ucast len) (mem_get m p (unat (ucast len :: u16))) = Some c"
    if "valid m = valid (t_mem t)" for m src
  proof -
    have vm: "valid m p (unat (ucast len :: u16))"
      using v that len16 by (simp add: valid_less [OF v])
    then show ?thesis
      using tcpv4_checksum_runs [of "ucast len" "mem_get m p (unat (ucast len :: u16))"]
      by (simp add: mem_read_def)
  qed
  show ?thesis
    unfolding send_raw_def
  proof (simp only: runs_bind, intro runs_tst(2) [where n = "nmss - 34"] runs_flags(4) [where n = "nmss - 34"])
    fix m1 m2 m3
    assume m: "valid m1 = valid (t_mem t)" "valid m2 = valid (t_mem (t_set_mem m1 t))"
      "valid m3 = valid (t_mem (t_set_mem m2 (t_set_mem m1 t)))"
    then have m3: "valid m3 = valid (t_mem t)" by simp
    from csum [OF this] obtain c where c: "mem_read m3 p (unat (ucast len :: u16)) = Some (mem_get m3 p (unat (ucast len :: u16)))"
      "tcpv4_checksum (io_host (n_ip (t_net t))) dst (ucast len) (mem_get m3 p (unat (ucast len :: u16))) = Some c"
      by blast
    show "runs (mem_read (t_mem (t_set_mem m3 (t_set_mem m2 (t_set_mem m1 t)))) p (unat (ucast len :: u16)))
       (\<lambda>x. runs (tcpv4_checksum (io_host (n_ip (t_net (t_set_mem m3 (t_set_mem m2 (t_set_mem m1 t)))))) dst (ucast len) x)
         (\<lambda>x. runs (tst16 p 16 (NOT x) (t_set_mem m3 (t_set_mem m2 (t_set_mem m1 t))))
           (\<lambda>x. runs (ip_commit ops len p mss (t_net x))
             (\<lambda>xa. runs (case xa of (ret, n) \<Rightarrow> Some (ret, x\<lparr>t_net := n\<rparr>)) (\<lambda>(st, t'). st = Ok \<and> net_only t t' \<and> tinv t')))))"
      using c m3 room v commit by (auto simp: runs_bind intro!: runs_tst(2) [where n = "nmss - 34"])
  qed (use room v in simp_all)
qed

lemma next_buffer_runs:
  assumes "tinv t"
  shows "runs (next_buffer ops e t) (sent e t)"
  unfolding next_buffer_def Let_def runs_bind
  by (rule runs_mono [OF ip_prepare_total])
    (use assms nmss_lo in \<open>auto simp: address_peer_def on_net_def eth_setDest_def ip_setDest_def
       ip_setProtocol_def buf_ok_def net_only_def\<close>)

lemma send_ctl_runs:
  assumes "tinv t" and "buf_ok hr nmss (t_mem t) (m_sdat e)"
  shows "runs (send_ctl ops e t) (sent e t)"
  unfolding send_ctl_def runs_bind
proof (rule runs_fill_header)
  fix m assume m: "valid m = valid (t_mem t)"
  have inv: "tinv (t_set_mem m t)" "buf_ok hr nmss (t_mem (t_set_mem m t)) (m_sdat e)"
    using assms m by (auto intro: dinv_valid buf_ok_mono mem_leI)
  show "runs (send_raw ops (m_ripaddr e) 20 (m_mss e) (m_sdat e) (t_set_mem m t))
     (\<lambda>x. runs (case x of (ret, t) \<Rightarrow> if ret \<noteq> Ok then Some (ret, e, t) else next_buffer ops e t)
        (sent e t))"
    using m nmss_lo
    by (intro runs_mono [OF send_raw_runs [OF inv]])
      (auto intro!: runs_mono [OF next_buffer_runs] sdat_exI dest!: net_only_after [OF m] elim: net_only_trans)
qed (use nmss_lo buf_ok_valid [OF assms(2)] in auto)

lemma send_len_runs:
  assumes "tinv t" and "buf_ok hr nmss (t_mem t) (s_dat (m_segments e ! i))" and "unat len \<le> nmss - 34"
  shows "runs (send_len ops e len i t) (sent (advance i e) t)"
  unfolding send_len_def runs_bind Let_def
proof (rule runs_fill_header)
  let ?s = "m_segments e ! i"
  fix m assume m: "valid m = valid (t_mem t)"
  have inv: "tinv (t_set_mem m t)" "buf_ok hr nmss (t_mem (t_set_mem m t)) (s_dat ?s)"
    using assms m by (auto intro: dinv_valid buf_ok_mono mem_leI)
  show "runs (send_raw ops (m_ripaddr e) len (m_mss e) (s_dat ?s) (t_set_mem m t))
     (\<lambda>x. runs (case x of (ret, t) \<Rightarrow> if ret \<noteq> Ok then Some (ret, e, t) else next_buffer ops (advance i e) t)
        (sent (advance i e) t))"
    using m assms(3)
    by (intro runs_mono [OF send_raw_runs [OF inv]])
      (auto intro!: runs_mono [OF next_buffer_runs] sdat_exI dest!: net_only_after [OF m] elim: net_only_trans)
qed (use nmss_lo buf_ok_valid [OF assms(2)] in auto)

lemma runs_prep:
  assumes "tinv t" and "buf_ok hr nmss (t_mem t) p"
    and "\<And>t1. tinv t1 \<Longrightarrow> buf_ok hr nmss (t_mem t1) p \<Longrightarrow> net_only t t1 \<Longrightarrow> valid (t_mem t1) = valid (t_mem t) \<Longrightarrow>
           runs (g t1) (sent e t1)"
  shows "runs (set_flags p f t \<bind> g) (sent e t)" and "runs (or_flags p f t \<bind> g) (sent e t)"
    and "runs (set_offset p k t \<bind> g) (sent e t)"
proof -
  have "runs (g (t_set_mem m t)) (sent e t)" if "valid m = valid (t_mem t)" for m
    using that assms(1,2)
    by (intro runs_mono [OF assms(3) [of "t_set_mem m t"]])
      (auto intro: dinv_valid buf_ok_mono mem_leI net_only_set_mem dest: net_only_after)
  moreover have "valid (t_mem t) p (nmss - 34)" "14 \<le> nmss - 34"
    using nmss_lo buf_ok_valid [OF assms(2)] by auto
  ultimately show "runs (set_flags p f t \<bind> g) (sent e t)" and "runs (or_flags p f t \<bind> g) (sent e t)"
    and "runs (set_offset p k t \<bind> g) (sent e t)"
    unfolding runs_bind by (auto intro: runs_flags)
qed

lemma send_seg_runs:
  assumes "tinv t" and "buf_ok hr nmss (t_mem t) (s_dat (m_segments e ! i))"
    and "unat (s_len (m_segments e ! i)) \<le> nmss - 54"
  shows "runs (send_seg ops e i f t) (sent (advance i e) t)"
proof -
  have "unat (s_len (m_segments e ! i) + 20) \<le> nmss - 34"
    using assms(3) nmss_lo nmss_hi by (simp add: unat_word_ariths)
  then show ?thesis
    unfolding send_seg_def Let_def by (intro runs_prep send_len_runs) (use assms in auto)
qed

lemma sendSyn_runs:
  assumes "tinv t" and "buf_ok hr nmss (t_mem t) (s_dat (m_segments e ! i))"
  shows "runs (sendSyn ops e i t) (sent (advance i e) t)"
  unfolding sendSyn_def Let_def
proof (intro runs_prep)
  fix t1 t2 :: "('a, 'b) tcp" assume t2: "tinv t2" "buf_ok hr nmss (t_mem t2) (s_dat (m_segments e ! i))"
  have len: "length (syn_options ops (m_initialmss e) (t_dev t2)) = 8"
    by (simp add: syn_options_def)
  have "runs (send_len ops e 28 i (t_set_mem m t2)) (sent (advance i e) t2)" if "valid m = valid (t_mem t2)" for m
    using that t2 nmss_lo
    by (intro runs_mono [OF send_len_runs])
      (auto intro: dinv_valid buf_ok_mono mem_leI dest: net_only_after)
  then show "runs (mem_write (t_mem t2) (ptr_add (s_dat (m_segments e ! i)) 20) (syn_options ops (m_initialmss e) (t_dev t2)) \<bind>
      (\<lambda>m. send_len ops e 28 i (t_set_mem m t2))) (sent (advance i e) t2)"
    unfolding runs_bind
    by (intro runs_write [where n = "nmss - 54"])
      (use nmss_lo buf_ok_valid [OF t2(2)] in \<open>auto simp: len intro: valid_add\<close>)
qed (use assms in auto)

lemma sendSynAck_runs:
  assumes "tinv t" and "buf_ok hr nmss (t_mem t) (s_dat (m_segments e ! i))"
  shows "runs (sendSynAck ops e i t) (sent (advance i e) t)"
  unfolding sendSynAck_def by (intro runs_prep sendSyn_runs) (use assms in auto)

lemma sendFinAck_runs:
  assumes "tinv t" and "buf_ok hr nmss (t_mem t) (s_dat (m_segments e ! i))"
  shows "runs (sendFinAck ops e i t) (sent (advance i e) t)"
  unfolding sendFinAck_def sendFin_def by (intro runs_prep send_len_runs) (use assms nmss_lo in auto)

lemma sendAbort_runs:
  assumes "tinv t" and "buf_ok hr nmss (t_mem t) (m_sdat e)"
  shows "runs (sendAbort ops e t) (sent (e\<lparr>m_state := CLOSED\<rparr>) t)"
proof -
  let ?t = "t_unlisten ops (m_lport e) t"
  have t: "tinv ?t" "buf_ok hr nmss (t_mem ?t) (m_sdat e)" "net_only t ?t"
    using assms by (simp_all add: t_unlisten_def on_net_def dinv_unlisten net_only_def)
  have "runs (sendAbort ops e t) (sent (e\<lparr>m_state := CLOSED\<rparr>) ?t)"
    unfolding sendAbort_def Let_def by (intro runs_prep send_ctl_runs) (use t in auto)
  then show ?thesis
    by (rule runs_mono) (use t(3) in \<open>auto intro: net_only_trans\<close>)
qed

lemma sendAck_runs:
  assumes "tinv t" and "buf_ok hr nmss (t_mem t) (m_sdat e)"
  shows "runs (sendAck ops e t) (sent e t)"
proof -
  have tail: "runs (do { t \<leftarrow> set_flags p TCP_ACK t1; t \<leftarrow> set_offset p 5 t; send_ctl ops e t }) (sent e t)"
    if t1: "tinv t1" "net_only t t1" and p: "valid (t_mem t1) p 14" for p t1
  proof -
    have "runs (send_ctl ops e (t_set_mem m t1)) (sent e t)" if "valid m = valid (t_mem t1)" for m
    proof (rule runs_mono [OF send_ctl_runs])
      show "tinv (t_set_mem m t1)"
        using t1(1) that by (rule tinv_set_mem)
      show "buf_ok hr nmss (t_mem (t_set_mem m t1)) (m_sdat e)"
        using assms(2) net_only_mem [OF t1(2)] that by (auto intro: buf_ok_mono mem_leI mem_le_trans)
    qed (use t1(2) that in \<open>auto dest: net_only_after intro: net_only_trans\<close>)
    then show ?thesis
      unfolding runs_bind by (intro runs_flags [where n = 14]) (use p in auto)
  qed
  show ?thesis
  proof (cases "hasPendingSendData e")
    case True
    have "runs (d_prepare ops (t_mem t) (t_dev t)) (\<lambda>(st, p, m', d'). st = Ok \<and> mem_le (t_mem t) m' \<and> dinv m' d' \<and>
        frame_ok m' p hr nmss)"
      by (rule runs_mono [OF prepare_law]) (use assms(1) in \<open>auto dest: prepare_Ok\<close>)
    then obtain p m' d' where p: "d_prepare ops (t_mem t) (t_dev t) = Some (Ok, p, m', d')"
        "mem_le (t_mem t) m'" "dinv m' d'" "frame_ok m' p hr nmss"
      by (auto simp: runs_iff)
    have "valid m' p 14"
      using frame_ok_valid [OF p(4)] nmss_lo by (auto elim: valid_less)
    then show ?thesis
      using True p tail [of "on_net (\<lambda>n. n\<lparr>n_mem := m', n_dev := d'\<rparr>) t" p]
      by (simp add: sendAck_def on_net_def net_only_def)
  next
    case False
    then show ?thesis
      using tail [of t "m_sdat e"] assms nmss_lo by (simp add: sendAck_def valid_less [OF buf_ok_valid])
  qed
qed

lemma claim_send_runs:
  assumes "tinv t" and "buf_ok hr nmss (t_mem t) (m_sdat e)" and "unat len \<le> nmss - 54"
    and "i < length (m_segments e)"
  defines "e1 \<equiv> resetSendBuffer (upd_seg i (segment_set len (m_snd_nxt e) (m_sdat e)) e)"
  shows "runs (send_seg ops e1 i f t) (sent (claimed len i e) t)"
    and "runs (sendFinAck ops e1 i t) (sent (claimed len i e) t)"
    and "runs (sendSynAck ops e1 i t) (sent (claimed len i e) t)"
    and "runs (sendSyn ops e1 i t) (sent (claimed len i e) t)"
proof -
  have s: "m_segments e1 ! i = segment_set len (m_snd_nxt e) (m_sdat e)"
    using assms(4) by (simp add: e1_def resetSendBuffer_def upd_seg_def)
  have a: "claimed len i e = advance i e1"
    unfolding e1_def by (rule advance_claim [OF assms(4), symmetric])
  show "runs (send_seg ops e1 i f t) (sent (claimed len i e) t)"
    unfolding a by (rule send_seg_runs) (use assms s in \<open>auto simp: segment_set_def\<close>)
  show "runs (sendFinAck ops e1 i t) (sent (claimed len i e) t)"
    unfolding a by (rule sendFinAck_runs) (use assms s in \<open>auto simp: segment_set_def\<close>)
  show "runs (sendSynAck ops e1 i t) (sent (claimed len i e) t)"
    unfolding a by (rule sendSynAck_runs) (use assms s in \<open>auto simp: segment_set_def\<close>)
  show "runs (sendSyn ops e1 i t) (sent (claimed len i e) t)"
    unfolding a by (rule sendSyn_runs) (use assms s in \<open>auto simp: segment_set_def\<close>)
qed

text \<open>\<open>served e0 t\<close>: the operation succeeded and the connection it returns is well-formed.\<close>

abbreviation "served s t \<equiv> (\<lambda>(st, e', t'). st = Ok \<and> net_only t t' \<and> tinv t' \<and>
    conn_ok hr nmss (t_mem t') e' \<and> m_state e' = s)"

lemma sent_claimed_served:
  assumes "runs m (sent (claimed len i e) t)" and "segs_ok hr nmss (t_mem t) e"
    and "buf_ok hr nmss (t_mem t) (m_sdat e)" and "unat len \<le> nmss - 54" and "m_wndscl e \<le> 14"
  shows "runs m (served (m_state e) t)"
  by (rule runs_mono [OF assms(1)]) (use assms(2-) in \<open>auto intro: conn_ok_claimed net_only_mem\<close>)

lemma sendNoDelay_runs:
  assumes "tinv t" and "conn_ok hr nmss (t_mem t) e" and "buf_ok hr nmss (t_mem t) (m_sdat e)"
    and "hasAvailableSegments e"
  shows "runs (sendNoDelay ops e f t) (served (m_state e) t)"
proof -
  from assms(2,4) obtain i where i: "i < 16" "nextAvailableSegment e = Some i"
    using nextAvailable_Some [of e] by (auto simp: conn_ok_def segs_ok_def)
  have len: "unat (ucast (m_slen e) :: u32) \<le> nmss - 54" "i < length (m_segments e)"
    using assms(2) i(1) by (auto simp: conn_ok_def unat_slen segs_ok_def)
  have "runs (send_seg ops (resetSendBuffer (upd_seg i (segment_set (ucast (m_slen e)) (m_snd_nxt e) (m_sdat e)) e)) i f t)
      (sent (claimed (ucast (m_slen e)) i e) t)"
    by (rule claim_send_runs(1)) (use assms len in auto)
  then have "runs (send_seg ops (resetSendBuffer (upd_seg i (segment_set (ucast (m_slen e)) (m_snd_nxt e) (m_sdat e)) e)) i f t)
      (served (m_state e) t)"
    by (rule sent_claimed_served) (use assms len in \<open>auto simp: conn_ok_def\<close>)
  then show ?thesis
    by (simp add: sendNoDelay_def claim_segment_def i(2))
qed

lemma sendNagle_runs:
  assumes "tinv t" and "conn_ok hr nmss (t_mem t) e" and "buf_ok hr nmss (t_mem t) (m_sdat e)"
    and "hasAvailableSegments e"
  shows "runs (sendNagle ops e bound t) (served (m_state e) t)"
  using sendNoDelay_runs [OF assms, of TCP_PSH] assms(1,2)
  by (auto simp: sendNagle_def sendNoDelay_def)

lemma sendClose_runs:
  assumes "tinv t" and "conn_ok hr nmss (t_mem t) e" and "buf_ok hr nmss (t_mem t) (m_sdat e)"
  shows "runs (sendClose ops e t) (\<lambda>(st, e', t'). net_only t t' \<and> tinv t' \<and> conn_ok hr nmss (t_mem t') e' \<and>
    (if hasAvailableSegments e then st = Ok \<and> m_state e' = FIN_WAIT_1 else st = NoMoreResources \<and> e' = e))"
proof (cases "hasAvailableSegments e")
  case True
  let ?e = "e\<lparr>m_state := FIN_WAIT_1\<rparr>"
  have ok: "segs_ok hr nmss (t_mem t) ?e" "hasAvailableSegments ?e"
    using assms(2) True by (auto simp: conn_ok_def segs_ok_def hasAvailableSegments_def)
  then obtain i where i: "i < 16" "nextAvailableSegment ?e = Some i"
    using nextAvailable_Some [of ?e] by (auto simp: segs_ok_def)
  have "runs (sendFinAck ops (resetSendBuffer (upd_seg i (segment_set 1 (m_snd_nxt ?e) (m_sdat ?e)) ?e)) i t)
      (sent (claimed 1 i ?e) t)"
    by (rule claim_send_runs(2)) (use assms ok i nmss_lo in \<open>auto simp: segs_ok_def\<close>)
  then have "runs (sendFinAck ops (resetSendBuffer (upd_seg i (segment_set 1 (m_snd_nxt ?e) (m_sdat ?e)) ?e)) i t)
      (served (m_state ?e) t)"
    by (rule sent_claimed_served) (use assms ok nmss_lo in \<open>auto simp: conn_ok_def\<close>)
  then have "runs (sendClose ops e t) (served FIN_WAIT_1 t)"
    using True i(2) by (simp add: sendClose_def Let_def claim_segment_def)
  then show ?thesis
    using True by (auto elim!: runs_mono)
qed (use assms in \<open>simp add: sendClose_def\<close>)

lemma sent_advance_served:
  assumes "runs m (sent (advance i e) t)" and "segs_ok hr nmss (t_mem t) e"
    and "unat (m_slen e) \<le> nmss - 54" and "m_wndscl e \<le> 14"
  shows "runs m (served (m_state e) t)"
proof (rule runs_mono [OF assms(1)], clarify)
  fix t' p assume n: "net_only t t'" "buf_ok hr nmss (t_mem t') p" "tinv t'"
  have "segs_ok hr nmss (t_mem t') ((advance i e)\<lparr>m_sdat := p\<rparr>)"
    using segs_ok_mono [OF assms(2) net_only_mem [OF n(1)]] by (simp add: segs_ok_def)
  then show "Ok = Ok \<and> net_only t t' \<and> tinv t' \<and> conn_ok hr nmss (t_mem t') ((advance i e)\<lparr>m_sdat := p\<rparr>) \<and>
      m_state ((advance i e)\<lparr>m_sdat := p\<rparr>) = m_state e"
    using n assms(3,4) by (simp add: conn_ok_def)
qed

lemma rexmit_swap_runs:
  assumes "conn_ok hr nmss (t_mem t) e" and "buf_ok hr nmss (t_mem t) (m_sdat e)"
    and "\<And>m. valid m = valid (t_mem t) \<Longrightarrow> Q (swapped e, t_set_mem m t)"
  shows "runs (rexmit_swap e t) Q"
proof -
  let ?s = "segment_cur e"
  have seg: "seg_ok hr nmss (t_mem t) ?s"
    unfolding segment_cur_def by (rule segs_ok_nth [OF _ unat_lt4]) (use assms(1) in \<open>simp add: conn_ok_def\<close>)
  have copy: "runs (mem_copy (t_mem t) (m_sdat e) (s_dat ?s) (unat (s_len ?s))) (\<lambda>m. valid m = valid (t_mem t))"
  proof (cases "s_len ?s = 0")
    case False
    then have v: "valid (t_mem t) (s_dat ?s) (unat (s_len ?s))" "unat (s_len ?s) \<le> nmss - 34"
      using seg by (auto simp: seg_ok_def intro: valid_less [OF buf_ok_valid])
    then show ?thesis
      using buf_ok_valid [OF assms(2)]
      by (auto simp: mem_copy_def runs_bind mem_read_def intro!: runs_write [where n = "nmss - 34"])
  qed (simp add: mem_copy_def)
  show ?thesis
    unfolding rexmit_swap_def segment_swap_def runs_bind
    by (rule runs_mono [OF copy]) (use assms(3) in \<open>simp add: swapped_def\<close>)
qed

lemma rexmit_runs:
  assumes "tinv t" and "conn_ok hr nmss (t_mem t) e" and "buf_ok hr nmss (t_mem t) (m_sdat e)"
  shows "runs (rexmit ops e t) (served (m_state e) t)"
proof -
  let ?t = "on_stats (\<lambda>s. s\<lparr>st_rexmit := st_rexmit s + 1\<rparr>) t"
  let ?i = "unat (m_segidx e)"
  have t: "t_net ?t = t_net t" "net_only t ?t"
    by (simp_all add: on_stats_def net_only_def)
  have segs: "segs_ok hr nmss (t_mem t) (swapped e)"
    by (rule swapped_segs_ok) (use assms in \<open>auto simp: conn_ok_def\<close>)
  have len: "length (m_segments e) = 16"
    using assms(2) by (simp add: conn_ok_def segs_ok_def)
  have cur: "m_segments (swapped e) ! ?i = (segment_cur e)\<lparr>s_dat := m_sdat e\<rparr>"
    using swapped_cur [OF len] by (simp add: segment_cur_def)
  have fit: "unat (s_len (segment_cur e)) \<le> nmss - 54"
    using segs_ok_nth [of hr nmss "t_mem t" e ?i] assms(2) unat_lt4 [of "m_segidx e"]
    by (auto simp: conn_ok_def segment_cur_def seg_ok_def)
  have resend: "runs (rexmit_swap e ?t \<bind> (\<lambda>(e, t). g e t)) (served (m_state e) t)"
    if g: "\<And>t'. tinv t' \<Longrightarrow> buf_ok hr nmss (t_mem t') (m_sdat e) \<Longrightarrow> runs (g (swapped e) t') (sent (advance ?i (swapped e)) t')" for g
    unfolding runs_bind
  proof (rule rexmit_swap_runs)
    fix m assume m: "valid m = valid (t_mem ?t)"
    have n: "net_only ?t (t_set_mem m ?t)"
      by (rule net_only_set_mem, rule mem_leI, rule m)
    have t': "tinv (t_set_mem m ?t)" "buf_ok hr nmss (t_mem (t_set_mem m ?t)) (m_sdat e)"
      "segs_ok hr nmss (t_mem (t_set_mem m ?t)) (swapped e)" "net_only t (t_set_mem m ?t)"
      using m t(1) segs assms net_only_trans [OF t(2) n]
      by (auto intro: dinv_valid buf_ok_mono segs_ok_mono mem_leI)
    have "runs (g (swapped e) (t_set_mem m ?t)) (served (m_state (swapped e)) (t_set_mem m ?t))"
      by (rule sent_advance_served [OF g]) (use t' assms in \<open>auto simp: conn_ok_def\<close>)
    then show "runs (case (swapped e, t_set_mem m ?t) of (e, t) \<Rightarrow> g e t) (served (m_state e) t)"
      by (auto elim!: runs_mono intro: net_only_trans [OF t'(4)])
  qed (use assms t in auto)
  have rest: "runs (Some (Ok, e, ?t)) (served (m_state e) t)"
    using assms t by simp
  have synack: "runs (rexmit_swap e ?t \<bind> (\<lambda>(e, t). sendSynAck ops e (unat (m_segidx e)) t)) (served (m_state e) t)"
    by (rule resend, simp only: swapped_sel, rule sendSynAck_runs) (simp_all add: cur)
  have syn: "runs (rexmit_swap e ?t \<bind> (\<lambda>(e, t). set_flags (s_dat (segment_cur e)) 0 t \<bind> sendSyn ops e (unat (m_segidx e))))
      (served (m_state e) t)"
    by (rule resend, simp only: swapped_sel, rule runs_prep(1), assumption, simp add: swapped_cur [OF len],
        rule sendSyn_runs) (simp_all add: cur swapped_cur [OF len])
  have psh: "runs (rexmit_swap e ?t \<bind> (\<lambda>(e, t). send_seg ops e (unat (m_segidx e)) TCP_PSH t)) (served (m_state e) t)"
    by (rule resend, simp only: swapped_sel, rule send_seg_runs) (use fit in \<open>simp_all add: cur\<close>)
  have fin: "runs (rexmit_swap e ?t \<bind> (\<lambda>(e, t). sendFinAck ops e (unat (m_segidx e)) t)) (served (m_state e) t)"
    by (rule resend, simp only: swapped_sel, rule sendFinAck_runs) (simp_all add: cur)
  show ?thesis
    unfolding rexmit_def Let_def
    using synack syn psh fin rest by (cases "m_state e") simp_all
qed

end

end
