(* ===== verification/TcpUser.thy ===== *)
theory TcpUser
  imports TcpSend
begin

text \<open>
  What an application asks of the TCP processor: construction, \<^verbatim>\<open>listen\<close> and \<^verbatim>\<open>unlisten\<close>
  (\<^verbatim>\<open>src/stack/tcpv4/Processor.cpp\<close>) and the operations of \<^verbatim>\<open>src/stack/tcpv4/Client.cpp\<close>, together with the
  table of callbacks through which the processor reports to it
  (\<^verbatim>\<open>include/tulips/stack/tcpv4/EventHandler.h\<close>).

  A callback gets the connection and may set its options and its cookie, which are the only parts
  of it the application can change; it returns them with the new state of the application. Where
  the application may answer, it also returns the bytes it wrote at \<^verbatim>\<open>sdata\<close> and the length it
  reported in \<^verbatim>\<open>slen\<close>. Callbacks do not call back into the processor.
\<close>

section \<open>The event handler\<close>

record 'h handler_ops =
  h_connected :: "conn \<Rightarrow> 'h \<Rightarrow> (u64 \<times> u64 \<times> 'h) option"
  h_aborted :: "conn \<Rightarrow> 'h \<Rightarrow> (u64 \<times> u64 \<times> 'h) option"
  h_timedout :: "conn \<Rightarrow> 'h \<Rightarrow> (u64 \<times> u64 \<times> 'h) option"
  h_closed :: "conn \<Rightarrow> 'h \<Rightarrow> (u64 \<times> u64 \<times> 'h) option"
  h_acked :: "conn \<Rightarrow> 'h \<Rightarrow> (action \<times> u64 \<times> u64 \<times> 'h) option"
  h_acked_send :: "conn \<Rightarrow> u32 \<Rightarrow> 'h \<Rightarrow> (action \<times> u8 list \<times> u32 \<times> u64 \<times> u64 \<times> 'h) option"
  h_newdata :: "conn \<Rightarrow> u8 list \<Rightarrow> 'h \<Rightarrow> (action \<times> u64 \<times> u64 \<times> 'h) option"
  h_newdata_send :: "conn \<Rightarrow> u8 list \<Rightarrow> u32 \<Rightarrow> 'h \<Rightarrow> (action \<times> u8 list \<times> u32 \<times> u64 \<times> u64 \<times> 'h) option"

definition app_view :: "u64 \<Rightarrow> u64 \<Rightarrow> conn \<Rightarrow> conn" where
  "app_view opts cookie e = e\<lparr>m_opts := opts, m_cookie := cookie\<rparr>"

definition notify :: "(conn \<Rightarrow> 'h \<Rightarrow> (u64 \<times> u64 \<times> 'h) option) \<Rightarrow> conn \<Rightarrow> ('d, 'h) tcp \<Rightarrow>
    (conn \<times> ('d, 'h) tcp) option" where
  "notify f e t = do {
     (opts, cookie, h) \<leftarrow> f e (t_handler t);
     Some (app_view opts cookie e, t\<lparr>t_handler := h\<rparr>)
   }"

definition ask :: "(conn \<Rightarrow> 'h \<Rightarrow> (action \<times> u64 \<times> u64 \<times> 'h) option) \<Rightarrow> conn \<Rightarrow> ('d, 'h) tcp \<Rightarrow>
    (action \<times> conn \<times> ('d, 'h) tcp) option" where
  "ask f e t = do {
     (a, opts, cookie, h) \<leftarrow> f e (t_handler t);
     Some (a, app_view opts cookie e, t\<lparr>t_handler := h\<rparr>)
   }"

text \<open>The bytes the application writes go to the send buffer, behind the data already pending there.\<close>

definition ask_send :: "(conn \<Rightarrow> 'h \<Rightarrow> (action \<times> u8 list \<times> u32 \<times> u64 \<times> u64 \<times> 'h) option) \<Rightarrow> conn \<Rightarrow>
    ('d, 'h) tcp \<Rightarrow> (action \<times> u32 \<times> conn \<times> ('d, 'h) tcp) option" where
  "ask_send f e t = do {
     (a, bs, rlen, opts, cookie, h) \<leftarrow> f e (t_handler t);
     m \<leftarrow> mem_write (t_mem t) (ptr_add (m_sdat e) (20 + unat (m_slen e))) bs;
     Some (a, rlen, app_view opts cookie e, t_set_mem m (t\<lparr>t_handler := h\<rparr>))
   }"

section \<open>Construction and ports\<close>

definition tcp_stats_zero :: tcp_stats where
  "tcp_stats_zero = \<lparr>st_drop = 0, st_recv = 0, st_sent = 0, st_chkerr = 0, st_ackerr = 0, st_rst = 0,
     st_rexmit = 0, st_syndrop = 0, st_synrst = 0\<rparr>"

text \<open>The loop that assigns the identifiers: its 16-bit counter never reaches an \<open>nconn\<close> above 65535, and
  the constructor then does not return.\<close>

partial_function (option) assign_ids :: "u64 \<Rightarrow> u16 \<Rightarrow> conn list \<Rightarrow> conn list option" where
  "assign_ids nconn i conns =
     (if ucast i < nconn then assign_ids nconn (i + 1) (conns[unat i := (conns ! unat i)\<lparr>m_id := i\<rparr>])
      else Some conns)"

text \<open>\<open>now\<close> is the reading of the clock and \<open>cps\<close> the number of cycles per second.\<close>

definition tcp_create :: "'d device_ops \<Rightarrow> 'd net \<Rightarrow> 'h \<Rightarrow> u64 \<Rightarrow> u64 \<Rightarrow> u64 \<Rightarrow> ('d, 'h) tcp option" where
  "tcp_create ops n h nconn now cps = do {
     conns \<leftarrow> assign_ids nconn 0 (replicate (unat nconn) conn_init);
     Some \<lparr>t_net = n, t_handler = h, t_iss = 0, t_mss = ip_mss ops n - 20, t_ports = {}, t_conns = conns,
       t_stats = tcp_stats_zero, t_timer = timer_set now cps\<rparr>
   }"

definition tcp_listen :: "'d device_ops \<Rightarrow> u16 \<Rightarrow> ('d, 'h) tcp \<Rightarrow> ('d, 'h) tcp" where
  "tcp_listen ops port t = (
     let (st, d) = d_listen ops port (t_dev t); t = on_net (\<lambda>n. n\<lparr>n_dev := d\<rparr>) t
     in if st = Ok then t\<lparr>t_ports := insert (htons port) (t_ports t)\<rparr> else t)"

definition tcp_unlisten :: "'d device_ops \<Rightarrow> u16 \<Rightarrow> ('d, 'h) tcp \<Rightarrow> ('d, 'h) tcp" where
  "tcp_unlisten ops port t = (let t = t_unlisten ops port t in t\<lparr>t_ports := t_ports t - {htons port}\<rparr>)"

section \<open>Opening a connection\<close>

text \<open>The search for a local port reads the clock until it finds one; \<open>readings\<close> are the successive
  readings, and \<open>None\<close> means that they did not suffice.\<close>

definition port_in_use :: "conn list \<Rightarrow> u16 \<Rightarrow> bool" where
  "port_in_use conns lport \<longleftrightarrow> list_ex (\<lambda>c. m_state c \<noteq> CLOSED \<and> m_lport c = htons lport) conns"

fun choose_port :: "conn list \<Rightarrow> u64 list \<Rightarrow> u16 option" where
  "choose_port conns [] = None"
| "choose_port conns (r # rs) = (
     let lport = ucast (r AND 0xFFFF)
     in if lport < 4096 then choose_port conns rs
        else if port_in_use conns lport then choose_port conns rs
        else Some lport)"

text \<open>\<open>older c best\<close>: the test that replaces the best connection in TIME_WAIT found so far.\<close>

definition older :: "conn list \<Rightarrow> conn \<Rightarrow> nat option \<Rightarrow> bool" where
  "older conns c best \<longleftrightarrow> (case best of None \<Rightarrow> True | Some b \<Rightarrow> m_timer c > m_timer (conns ! b))"

fun alloc_connect :: "conn list \<Rightarrow> nat list \<Rightarrow> nat option \<Rightarrow> nat option" where
  "alloc_connect conns [] best = best"
| "alloc_connect conns (i # is) best = (
     let c = conns ! i
     in if m_state c = CLOSED then Some i
        else if m_state c = TIME_WAIT \<and> older conns c best then alloc_connect conns is (Some i)
        else alloc_connect conns is best)"

definition connect_conn :: "mac \<Rightarrow> ip4 \<Rightarrow> u16 \<Rightarrow> u16 \<Rightarrow> u32 \<Rightarrow> u16 \<Rightarrow> conn \<Rightarrow> conn" where
  "connect_conn rhwaddr ripaddr lport rport iss mss e = e\<lparr>
     m_rethaddr := rhwaddr, m_ripaddr := ripaddr, m_lport := htons lport, m_rport := htons rport,
     m_rcv_nxt := 0, m_snd_nxt := iss, m_state := SYN_SENT, m_opts := 0, m_ackdata := False,
     m_newdata := False, m_pshdata := False, m_wndscl := 0, m_window := 0, m_segidx := 0, m_nrtx := 1,
     m_slen := 0, m_sdat := Null, m_initialmss := mss, m_mss := mss, m_sa := 0, m_sv := 16,
     m_rto := RTO, m_timer := RTO, m_cookie := 0\<rparr>"

definition set_conn :: "nat \<Rightarrow> conn \<Rightarrow> ('d, 'h) tcp \<Rightarrow> ('d, 'h) tcp" where
  "set_conn i e t = t\<lparr>t_conns := (t_conns t)[i := e]\<rparr>"

text \<open>The result carries the identifier that \<^verbatim>\<open>connect\<close> stores, if it gets that far.\<close>

definition tcp_connect :: "'d device_ops \<Rightarrow> mac \<Rightarrow> ip4 \<Rightarrow> u16 \<Rightarrow> u64 list \<Rightarrow> ('d, 'h) tcp \<Rightarrow>
    (status \<times> u16 option \<times> ('d, 'h) tcp) option" where
  "tcp_connect ops rhwaddr ripaddr rport readings t = do {
     let t = address_peer rhwaddr ripaddr t;
     (ret, outdata, n) \<leftarrow> ip_prepare ops (t_net t);
     let t = t\<lparr>t_net := n\<rparr>;
     if ret \<noteq> Ok then Some (ret, None, t)
     else do {
       lport \<leftarrow> choose_port (t_conns t) readings;
       case alloc_connect (t_conns t) [0..<length (t_conns t)] None of
         None \<Rightarrow> Some (NoMoreResources, None, t)
       | Some k \<Rightarrow> do {
           let (ret, d) = d_listen ops lport (t_dev t);
           let t = on_net (\<lambda>n. n\<lparr>n_dev := d\<rparr>) t;
           if ret \<noteq> Ok then Some (ret, None, t)
           else do {
             let e = connect_conn rhwaddr ripaddr lport rport (t_iss t)
               (ucast (d_mtu ops (t_dev t) - HEADER_OVERHEAD)) (t_conns t ! k);
             i \<leftarrow> nextAvailableSegment e;
             let e = upd_seg i (segment_set 1 (m_snd_nxt e) outdata) e;
             t \<leftarrow> set_flags outdata 0 t;
             (st, e, t) \<leftarrow> sendSyn ops e i t;
             if st \<noteq> Ok
             then Some (ret, None, set_conn k (e\<lparr>m_state := CLOSED\<rparr>) (t_unlisten ops lport t))
             else Some (Ok, Some (of_nat k), set_conn k e t)
           }
         }
     }
   }"

section \<open>Operations on a connection\<close>

definition tcp_abort :: "'d device_ops \<Rightarrow> 'h handler_ops \<Rightarrow> u16 \<Rightarrow> ('d, 'h) tcp \<Rightarrow>
    (status \<times> ('d, 'h) tcp) option" where
  "tcp_abort ops ev cid t =
     (if length (t_conns t) \<le> unat cid then Some (InvalidConnection, t)
      else do {
        let c = t_conns t ! unat cid;
        let t = t_unlisten ops (m_lport c) t;
        (c, t) \<leftarrow> notify (h_aborted ev) (c\<lparr>m_state := CLOSED\<rparr>) t;
        t \<leftarrow> set_flags (m_sdat c) 0 t;
        (st, c, t) \<leftarrow> sendAbort ops c t;
        Some (st, set_conn (unat cid) c t)
      })"

definition tcp_close :: "'d device_ops \<Rightarrow> u16 \<Rightarrow> ('d, 'h) tcp \<Rightarrow> (status \<times> ('d, 'h) tcp) option" where
  "tcp_close ops cid t =
     (if length (t_conns t) \<le> unat cid then Some (InvalidConnection, t)
      else let c = t_conns t ! unat cid in
        if m_state c \<noteq> ESTABLISHED then Some (NotConnected, t)
        else if hasOutstandingSegments c then Some (Ok, set_conn (unat cid) (c\<lparr>m_state := CLOSE\<rparr>) t)
        else do {
          t \<leftarrow> set_flags (m_sdat c) 0 t;
          (st, c, t) \<leftarrow> sendClose ops c t;
          Some (st, set_conn (unat cid) c t)
        })"

definition tcp_isClosed :: "u16 \<Rightarrow> ('d, 'h) tcp \<Rightarrow> bool" where
  "tcp_isClosed cid t \<longleftrightarrow> (if length (t_conns t) \<le> unat cid then True
     else m_state (t_conns t ! unat cid) = CLOSED)"

text \<open>The bytes that fit: the window of the peer or our segment size, less what is pending.\<close>

definition send_bound :: "conn \<Rightarrow> ('d, 'h) tcp \<Rightarrow> u32" where
  "send_bound c t = (if window c < t_mss t then window c else t_mss t)"

definition send_size :: "conn \<Rightarrow> u32 \<Rightarrow> u32 \<Rightarrow> u32" where
  "send_size c bound slen = (if ucast (m_slen c) + slen > bound then bound - ucast (m_slen c) else slen)"

definition send_copy :: "conn \<Rightarrow> u8 list \<Rightarrow> u32 \<Rightarrow> u32 \<Rightarrow> ('d, 'h) tcp \<Rightarrow>
    (u32 \<times> conn \<times> ('d, 'h) tcp) option" where
  "send_copy c data off slen t =
     (if slen = 0 then Some (off, c, t)
      else if length data < unat off + unat slen then None
      else do {
        m \<leftarrow> mem_write (t_mem t) (ptr_add (m_sdat c) (20 + unat (m_slen c))) (take (unat slen) (drop (unat off) data));
        Some (off + slen, c\<lparr>m_slen := m_slen c + ucast slen\<rparr>, t_set_mem m t)
      })"

text \<open>\<open>data\<close> is \<open>None\<close> for a null pointer; the second component of the result is the new value of \<^verbatim>\<open>off\<close>.\<close>

definition tcp_send :: "'d device_ops \<Rightarrow> u16 \<Rightarrow> u32 \<Rightarrow> u8 list option \<Rightarrow> u32 \<Rightarrow> ('d, 'h) tcp \<Rightarrow>
    (status \<times> u32 \<times> ('d, 'h) tcp) option" where
  "tcp_send ops cid len data off t =
     (if length (t_conns t) \<le> unat cid then Some (InvalidConnection, off, t)
      else let c = t_conns t ! unat cid in
        if m_state c \<noteq> ESTABLISHED then Some (NotConnected, off, t)
        else if has_nodelay c \<and> \<not> hasAvailableSegments c then Some (OperationInProgress, off, t)
        else case data of
          None \<Rightarrow> Some (InvalidArgument, off, t)
        | Some bs \<Rightarrow>
          if len = 0 then Some (InvalidArgument, off, t)
          else if off \<ge> len then Some (InvalidArgument, off, t)
          else let bound = send_bound c t in
            if bound < ucast (m_slen c) then Some (OperationInProgress, off, t)
            else do {
              let slen = send_size c bound (len - off);
              (off, c, t) \<leftarrow> send_copy c bs off slen t;
              if \<not> hasAvailableSegments c
              then Some (if slen = 0 then OperationInProgress else Ok, off, set_conn (unat cid) c t)
              else do {
                (st, c, t) \<leftarrow> (if has_nodelay c then sendNoDelay ops c (if off = len then TCP_PSH else 0) t
                               else sendNagle ops c bound t);
                Some (st, off, set_conn (unat cid) c t)
              }
            })"

definition tcp_get :: "u16 \<Rightarrow> ('d, 'h) tcp \<Rightarrow> status \<times> (ip4 \<times> u16 \<times> u16) option" where
  "tcp_get cid t =
     (if length (t_conns t) \<le> unat cid then (InvalidConnection, None)
      else let c = t_conns t ! unat cid in
        if m_state c \<noteq> ESTABLISHED then (NotConnected, None)
        else (Ok, Some (m_ripaddr c, ntohs (m_lport c), ntohs (m_rport c))))"

definition tcp_cookie :: "u16 \<Rightarrow> ('d, 'h) tcp \<Rightarrow> u64" where
  "tcp_cookie cid t = (if length (t_conns t) \<le> unat cid then 0 else m_cookie (t_conns t ! unat cid))"

definition tcp_hasOutstandingSegments :: "u16 \<Rightarrow> ('d, 'h) tcp \<Rightarrow> status \<times> bool option" where
  "tcp_hasOutstandingSegments cid t =
     (if length (t_conns t) \<le> unat cid then (InvalidConnection, None)
      else (Ok, Some (hasOutstandingSegments (t_conns t ! unat cid))))"

text \<open>\<^verbatim>\<open>send\<close> advances the offset, by no more than the data left.\<close>

lemma tcp_send_advances:
  assumes "tcp_send ops cid len data off t = Some (st, off', t')" and "off \<le> len" and "unat len + 2 ^ 24 \<le> 2 ^ 32"
  shows "off \<le> off' \<and> off' \<le> len"
proof -
  let ?c = "t_conns t ! unat cid"
  let ?b = "send_bound ?c t"
  have size: "send_size ?c ?b (len - off) \<le> len - off" if "\<not> ?b < ucast (m_slen ?c)"
  proof (cases "ucast (m_slen ?c) + (len - off) > ?b")
    case True
    have "unat (len - off) \<le> unat len"
      using assms(2) by (simp add: unat_sub)
    moreover have "unat (ucast (m_slen ?c) :: u32) < 2 ^ 24"
      using unsigned_less [of "m_slen ?c", where 'a = nat] by (simp add: unat_slen)
    ultimately have "unat (ucast (m_slen ?c) + (len - off)) = unat (ucast (m_slen ?c) :: u32) + unat (len - off)"
      using assms(3) by (subst unat_plus_if') simp
    then show ?thesis
      using True that by (simp add: send_size_def word_le_nat_alt word_less_nat_alt unat_sub)
  qed (simp add: send_size_def)
  have "off' = off \<or> (\<not> ?b < ucast (m_slen ?c) \<and> off' = off + send_size ?c ?b (len - off))"
    using assms(1) by (auto simp: tcp_send_def Let_def Some_eq_bind send_copy_def split: if_splits option.splits)
  then show ?thesis
  proof
    assume "\<not> ?b < ucast (m_slen ?c) \<and> off' = off + send_size ?c ?b (len - off)"
    then have "off' = off + send_size ?c ?b (len - off)" "unat (send_size ?c ?b (len - off)) \<le> unat len - unat off"
      using size assms(2) by (simp_all add: word_le_nat_alt unat_sub)
    moreover have "unat off \<le> unat len" "unat len < 2 ^ 32"
      using assms(2) unsigned_less [of len] by (simp_all add: word_le_nat_alt)
    ultimately have "unat off + unat (send_size ?c ?b (len - off)) \<le> unat len" "unat off + unat (send_size ?c ?b (len - off)) < 2 ^ 32"
      by linarith+
    then show ?thesis
      using \<open>off' = _\<close> by (simp add: word_le_nat_alt unat_plus_if')
  qed (use assms(2) in auto)
qed

section \<open>The construction terminates exactly for at most 65535 connections\<close>

lemma assign_ids_bound:
  assumes "assign_ids nconn i conns = Some conns'"
  shows "nconn \<le> 65535"
proof (rule assign_ids.raw_induct [where P = "\<lambda>nconn i conns conns'. nconn \<le> 65535", OF _ assms], goal_cases)
  case (1 f nconn i conns conns')
  show ?case
  proof (cases "ucast i < nconn")
    case False
    then have "unat nconn \<le> unat i"
      by (simp add: word_less_nat_alt not_less unat_ucast_up_64)
    also have "unat i \<le> unat (65535 :: u64)"
      using unat_lt16 [of i] by simp
    finally show ?thesis
      by (simp only: word_le_nat_alt)
  qed (use 1 in auto)
qed

lemma assign_ids_total:
  assumes "nconn \<le> 65535" and "length conns = unat nconn"
  shows "\<exists>conns'. assign_ids nconn i conns = Some conns' \<and> length conns' = length conns \<and>
    (\<forall>k < length conns. conns' ! k = (if unat i \<le> k then (conns ! k)\<lparr>m_id := of_nat k\<rparr> else conns ! k))"
  using assms(2)
proof (induction "unat nconn - unat i" arbitrary: i conns)
  case 0
  then have "\<not> ucast i < nconn"
    by (simp add: word_less_nat_alt unat_ucast_up_64)
  then show ?case
    using 0 by (subst assign_ids.simps) simp
next
  case (Suc d)
  have n: "unat nconn \<le> 65535"
    using assms(1) by (simp add: word_le_nat_alt)
  have lt: "unat i < unat nconn"
    using Suc.hyps(2) by simp
  then have i: "ucast i < nconn" "unat (i + 1) = unat i + 1"
    using n by (simp_all add: word_less_nat_alt unat_ucast_up_64 unat_word_ariths)
  let ?c = "conns[unat i := (conns ! unat i)\<lparr>m_id := i\<rparr>]"
  have "d = unat nconn - unat (i + 1)"
    using Suc.hyps(2) i(2) by simp
  from Suc.hyps(1) [OF this, of ?c] obtain conns' where c: "assign_ids nconn (i + 1) ?c = Some conns'" "length conns' = length conns"
      "\<And>k. k < length conns \<Longrightarrow> conns' ! k = (if unat (i + 1) \<le> k then (?c ! k)\<lparr>m_id := of_nat k\<rparr> else ?c ! k)"
    using Suc.prems by auto
  have "conns' ! k = (if unat i \<le> k then (conns ! k)\<lparr>m_id := of_nat k\<rparr> else conns ! k)" if "k < length conns" for k
    using c(3) [OF that] i(2) that by (cases "k = unat i") auto
  then show ?case
    using i(1) c(1,2) by (subst assign_ids.simps) auto
qed

lemma tcp_create_conns:
  assumes "tcp_create ops n h nconn now cps = Some t"
  shows "length (t_conns t) = unat nconn" "k < unat nconn \<Longrightarrow> t_conns t ! k = conn_init\<lparr>m_id := of_nat k\<rparr>"
    "t_net t = n" "t_handler t = h" "t_mss t = ip_mss ops n - 20" "nconn \<le> 65535"
proof -
  obtain conns where c: "assign_ids nconn 0 (replicate (unat nconn) conn_init) = Some conns"
    and t: "t_conns t = conns" "t_net t = n" "t_handler t = h" "t_mss t = ip_mss ops n - 20"
    using assms by (auto simp: tcp_create_def Some_eq_bind)
  have n: "nconn \<le> 65535"
    using assign_ids_bound [OF c] .
  from assign_ids_total [OF n, of "replicate (unat nconn) conn_init" 0] c
  show "length (t_conns t) = unat nconn" "k < unat nconn \<Longrightarrow> t_conns t ! k = conn_init\<lparr>m_id := of_nat k\<rparr>"
    by (auto simp: t)
  show "t_net t = n" "t_handler t = h" "t_mss t = ip_mss ops n - 20" "nconn \<le> 65535"
    using t n by simp_all
qed

text \<open>C15: The constructor of the TCP processor returns exactly if it is asked for at most 65535 connections:
  for more, the 16-bit counter of its loop wraps around below the limit and the loop runs forever. When
  it returns, every connection is closed, without segments, and its identifier is its index.\<close>
theorem tcp_create_terminates:
  "(nconn \<le> 65535 \<and> (\<exists>t. tcp_create ops n h nconn now cps = Some t \<and>
      t_conns t = List.map (\<lambda>k. conn_init\<lparr>m_id := of_nat k\<rparr>) [0..<unat nconn])) \<or>
   (nconn > 65535 \<and> tcp_create ops n h nconn now cps = None)"
proof (cases "nconn \<le> 65535")
  case True
  then obtain t where t: "tcp_create ops n h nconn now cps = Some t"
    using assign_ids_total [OF True, of "replicate (unat nconn) conn_init" 0] by (auto simp: tcp_create_def)
  have "t_conns t = List.map (\<lambda>k. conn_init\<lparr>m_id := of_nat k\<rparr>) [0..<unat nconn]"
    by (rule nth_equalityI) (use tcp_create_conns [OF t] in auto)
  then show ?thesis
    using True t by blast
next
  case False
  then show ?thesis
    using tcp_create_conns(6) [of ops n h nconn now cps] by (cases "tcp_create ops n h nconn now cps") auto
qed

end
