(* ===== verification/TcpProcess.thy ===== *)
theory TcpProcess
  imports TcpUser
begin

text \<open>
  The receiving side and the timers of the TCP processor, \<^verbatim>\<open>src/stack/tcpv4/Processor.cpp\<close>.

  An incoming segment is the list \<open>data\<close> of the bytes that can be read from the start of its TCP
  header, the length \<open>len\<close> the IP layer reports for it, and the addresses the two lower processors
  took from its headers. Handing bytes outside \<open>data\<close> to the application is \<open>None\<close>.
\<close>

section \<open>The incoming segment\<close>

record rx_info =
  rx_eth :: mac
  rx_src :: ip4
  rx_dst :: ip4

text \<open>Ports stay in network byte order; the other fields are in host order.\<close>

record tcp_header =
  hd_src :: u16
  hd_dst :: u16
  hd_seq :: u32
  hd_ack :: u32
  hd_off :: u8
  hd_flags :: u8
  hd_wnd :: u16
  hd_urgp :: u16

definition read_header :: "u8 list \<Rightarrow> tcp_header option" where
  "read_header data = do {
     src \<leftarrow> rd16 data 0;
     dst \<leftarrow> rd16 data 2;
     seq \<leftarrow> rd32 data 4;
     ack \<leftarrow> rd32 data 8;
     off \<leftarrow> rd8 data 12;
     flags \<leftarrow> rd8 data 13;
     wnd \<leftarrow> rd16 data 14;
     urgp \<leftarrow> rd16 data 18;
     Some \<lparr>hd_src = src, hd_dst = dst, hd_seq = ntohl seq, hd_ack = ntohl ack, hd_off = drop_bit 4 off,
       hd_flags = flags, hd_wnd = ntohs wnd, hd_urgp = ntohs urgp\<rparr>
   }"

abbreviation "hd_has h f \<equiv> hd_flags h AND f \<noteq> 0"

definition hd_len :: "tcp_header \<Rightarrow> u16" where
  "hd_len h = push_bit 2 (ucast (hd_off h))"

definition payload :: "u8 list \<Rightarrow> nat \<Rightarrow> u16 \<Rightarrow> u8 list option" where
  "payload data off n = (if off + unat n \<le> length data then Some (take (unat n) (drop off data)) else None)"

text \<open>The options of a SYN, if its header is longer than 20 bytes.\<close>

definition parse_options :: "conn \<Rightarrow> tcp_header \<Rightarrow> u8 list \<Rightarrow> conn option" where
  "parse_options e h data =
     (if hd_off h > 5 then options_parse e (push_bit 2 (ucast (hd_off h) - 5)) data else Some e)"

section \<open>Acknowledgements\<close>

definition restart_timer :: "conn \<Rightarrow> conn" where
  "restart_timer e = e\<lparr>m_timer := m_rto e\<rparr>"

definition first_ack :: "conn \<Rightarrow> conn" where
  "first_ack e = (
     let e = (if m_nrtx e = 0 then updateRttEstimation e else e)
     in restart_timer (e\<lparr>m_nrtx := 0, m_ackdata := True\<rparr>))"

definition window_update :: "u16 \<Rightarrow> conn \<Rightarrow> conn" where
  "window_update wnd e = (
     if window e \<noteq> window_of e wnd
     then let e = e\<lparr>m_window := wnd\<rparr> in if m_nrtx e = 0 then restart_timer (updateRttEstimation e) else e
     else e)"

text \<open>
  The scan of the segments, at most \<open>n\<close> more of them. The result says whether the peer asks for a
  retransmission, and whether the scan stopped at a segment that is only partly acknowledged.
  The 64-bit sums of the code cannot overflow and are natural numbers.
\<close>

datatype ack_result = AckDone | AckPartial | AckRexmit

fun ack_scan :: "nat \<Rightarrow> u32 \<Rightarrow> u16 \<Rightarrow> conn \<Rightarrow> ack_result \<times> conn" where
  "ack_scan 0 ackno wnd e = (AckDone, e)"
| "ack_scan (Suc n) ackno wnd e = (
     let s = segment_cur e;
         explm = unat (s_seq s) + unat (s_len s);
         acklm = (if ackno < s_seq s then unat ackno + 2 ^ 32 else unat ackno)
     in if ackno = s_seq s then (AckRexmit, window_update wnd e)
        else if acklm < explm then (AckPartial, e)
        else let e = (if \<not> m_ackdata e then first_ack e else e);
                 e = pop_segment e
             in if acklm = explm then (AckDone, e) else ack_scan n ackno wnd e)"

section \<open>Handling a segment by state\<close>

definition flag_data :: "tcp_header \<Rightarrow> u16 \<Rightarrow> conn \<Rightarrow> conn" where
  "flag_data h plen e = e\<lparr>m_newdata := True, m_pshdata := hd_has h TCP_PSH, m_rcv_nxt := m_rcv_nxt e + ucast plen\<rparr>"

definition in_syn_rcvd :: "'d device_ops \<Rightarrow> 'h handler_ops \<Rightarrow> tcp_header \<Rightarrow> u8 list \<Rightarrow> u16 \<Rightarrow> conn \<Rightarrow>
    ('d, 'h) tcp \<Rightarrow> (status \<times> conn \<times> ('d, 'h) tcp) option" where
  "in_syn_rcvd ops ev h data plen e t =
     (if m_ackdata e
      then do {
        (e, t) \<leftarrow> notify (h_connected ev) (e\<lparr>m_state := ESTABLISHED\<rparr>) t;
        if plen > 0
        then do {
          let e = flag_data h plen e;
          bs \<leftarrow> payload data (unat (hd_len h)) plen;
          (a, e, t) \<leftarrow> ask (\<lambda>e. h_newdata ev e bs) e t;
          sendAck ops e t
        }
        else Some (Ok, e, t)
      }
      else Some (Ok, e, t))"

definition in_syn_sent :: "'d device_ops \<Rightarrow> 'h handler_ops \<Rightarrow> tcp_header \<Rightarrow> u8 list \<Rightarrow> u16 \<Rightarrow> conn \<Rightarrow>
    ('d, 'h) tcp \<Rightarrow> (status \<times> conn \<times> ('d, 'h) tcp) option" where
  "in_syn_sent ops ev h data plen e t =
     (if m_ackdata e \<and> hd_flags h AND TCP_CTL = TCP_SYN OR TCP_ACK
      then do {
        let e = e\<lparr>m_state := ESTABLISHED, m_rcv_nxt := hd_seq h + 1, m_window := hd_wnd h\<rparr>;
        e \<leftarrow> parse_options e h data;
        (e, t) \<leftarrow> notify (h_connected ev) e t;
        if plen > 0
        then do {
          let e = e\<lparr>m_newdata := True, m_pshdata := hd_has h TCP_PSH\<rparr>;
          bs \<leftarrow> payload data (unat (hd_len h)) plen;
          (a, e, t) \<leftarrow> ask (\<lambda>e. h_newdata ev e bs) e t;
          sendAck ops e t
        }
        else sendAck ops e t
      }
      else do {
        (e, t) \<leftarrow> notify (h_aborted ev) e t;
        sendAbort ops e t
      })"

text \<open>Obeying the answer of the application: stop here, or go on with \<open>k\<close>.\<close>

definition obey :: "'d device_ops \<Rightarrow> action \<Rightarrow> conn \<Rightarrow> ('d, 'h) tcp \<Rightarrow>
    (conn \<Rightarrow> ('d, 'h) tcp \<Rightarrow> (status \<times> conn \<times> ('d, 'h) tcp) option) \<Rightarrow>
    (status \<times> conn \<times> ('d, 'h) tcp) option" where
  "obey ops a e t k = (case a of
     Abort \<Rightarrow> sendAbort ops e t
   | Close \<Rightarrow> sendClose ops e t
   | Continue \<Rightarrow> k e t)"

definition can_send :: "conn \<Rightarrow> bool" where
  "can_send e \<longleftrightarrow> hasAvailableSegments e \<and> window e > ucast (m_slen e)"

text \<open>Calling the application with room for \<open>alen\<close> bytes and accounting for its answer.\<close>

definition offer :: "'d device_ops \<Rightarrow> (u32 \<Rightarrow> conn \<Rightarrow> 'h \<Rightarrow> (action \<times> u8 list \<times> u32 \<times> u64 \<times> u64 \<times> 'h) option) \<Rightarrow>
    conn \<Rightarrow> ('d, 'h) tcp \<Rightarrow> (conn \<Rightarrow> ('d, 'h) tcp \<Rightarrow> (status \<times> conn \<times> ('d, 'h) tcp) option) \<Rightarrow>
    (status \<times> conn \<times> ('d, 'h) tcp) option" where
  "offer ops f e t k = do {
     let alen = send_bound e t - ucast (m_slen e);
     (a, rlen, e, t) \<leftarrow> ask_send (f alen) e t;
     obey ops a e t (\<lambda>e t.
       let rlen = (if rlen > alen then alen else rlen)
       in k (e\<lparr>m_slen := m_slen e + ucast rlen\<rparr>) t)
   }"

definition established_acked :: "'d device_ops \<Rightarrow> 'h handler_ops \<Rightarrow> conn \<Rightarrow> ('d, 'h) tcp \<Rightarrow>
    (bool \<Rightarrow> conn \<Rightarrow> ('d, 'h) tcp \<Rightarrow> (status \<times> conn \<times> ('d, 'h) tcp) option) \<Rightarrow>
    (status \<times> conn \<times> ('d, 'h) tcp) option" where
  "established_acked ops ev e t k =
     (if m_ackdata e
      then if can_send e
           then offer ops (\<lambda>alen e. h_acked_send ev e alen) e t (\<lambda>e t. k (can_send e) e t)
           else do {
             (a, e, t) \<leftarrow> ask (h_acked ev) e t;
             obey ops a e t (k False)
           }
      else k (can_send e) e t)"

definition established_newdata :: "'d device_ops \<Rightarrow> 'h handler_ops \<Rightarrow> u8 list \<Rightarrow> bool \<Rightarrow> conn \<Rightarrow> ('d, 'h) tcp \<Rightarrow>
    (conn \<Rightarrow> ('d, 'h) tcp \<Rightarrow> (status \<times> conn \<times> ('d, 'h) tcp) option) \<Rightarrow>
    (status \<times> conn \<times> ('d, 'h) tcp) option" where
  "established_newdata ops ev bs can e t k = do {
     (res, e, t) \<leftarrow> (if \<not> has_delayed_ack e then sendAck ops e t else Some (Ok, e, t));
     if res \<noteq> Ok then Some (res, e, t)
     else if can then offer ops (\<lambda>alen e. h_newdata_send ev e bs alen) e t k
     else do {
       (a, e, t) \<leftarrow> ask (\<lambda>e. h_newdata ev e bs) e t;
       obey ops a e t k
     }
   }"

definition established_flush :: "'d device_ops \<Rightarrow> bool \<Rightarrow> conn \<Rightarrow> ('d, 'h) tcp \<Rightarrow>
    (status \<times> conn \<times> ('d, 'h) tcp) option" where
  "established_flush ops can e t =
     (if hasPendingSendData e \<and> can then sendNoDelay ops e TCP_PSH t
      else if has_delayed_ack e \<and> m_newdata e then sendAck ops e t
      else Some (Ok, e, t))"

definition peer_window :: "u16 \<Rightarrow> conn \<Rightarrow> conn" where
  "peer_window wnd e = (
     let e = e\<lparr>m_window := wnd\<rparr>
     in e\<lparr>m_mss := (if window e \<le> ucast (m_initialmss e) \<and> window e > 0 then ucast (window e)
                    else m_initialmss e)\<rparr>)"

definition established_fin :: "'d device_ops \<Rightarrow> 'h handler_ops \<Rightarrow> tcp_header \<Rightarrow> u8 list \<Rightarrow> u16 \<Rightarrow> conn \<Rightarrow>
    ('d, 'h) tcp \<Rightarrow> (status \<times> conn \<times> ('d, 'h) tcp) option" where
  "established_fin ops ev h data plen e t =
     (if hasOutstandingSegments e then Some (Ok, e, t)
      else do {
        let e = e\<lparr>m_rcv_nxt := m_rcv_nxt e + (ucast plen + 1)\<rparr>;
        (e, t) \<leftarrow>
          (if plen > 0
           then do {
             bs \<leftarrow> payload data (unat (hd_len h)) plen;
             (a, e, t) \<leftarrow> ask (\<lambda>e. h_newdata ev e bs) e t;
             Some (e, t)
           }
           else Some (e, t));
        (i, e) \<leftarrow> claim_segment 1 (e\<lparr>m_state := LAST_ACK\<rparr>);
        sendFinAck ops e i t
      })"

definition in_established :: "'d device_ops \<Rightarrow> 'h handler_ops \<Rightarrow> tcp_header \<Rightarrow> u8 list \<Rightarrow> u16 \<Rightarrow> conn \<Rightarrow>
    ('d, 'h) tcp \<Rightarrow> (status \<times> conn \<times> ('d, 'h) tcp) option" where
  "in_established ops ev h data plen e t =
     (if hd_has h TCP_FIN then established_fin ops ev h data plen e t
      else do {
        let urglen = (if hd_has h TCP_URG then hd_urgp h else 0);
        let plen = plen - urglen;
        let e = (if plen > 0 then flag_data h plen e else e);
        let e = peer_window (hd_wnd h) e;
        if m_ackdata e \<or> m_newdata e
        then established_acked ops ev e t (\<lambda>can e t.
          if m_newdata e
          then do {
            bs \<leftarrow> payload data (unat (hd_len h) + unat urglen) plen;
            established_newdata ops ev bs can e t (established_flush ops can)
          }
          else established_flush ops can e t)
        else Some (Ok, e, t)
      })"

definition in_last_ack :: "'d device_ops \<Rightarrow> 'h handler_ops \<Rightarrow> conn \<Rightarrow> ('d, 'h) tcp \<Rightarrow>
    (status \<times> conn \<times> ('d, 'h) tcp) option" where
  "in_last_ack ops ev e t =
     (if m_ackdata e
      then do {
        let t = t_unlisten ops (m_lport e) t;
        (e, t) \<leftarrow> notify (h_closed ev) (e\<lparr>m_state := CLOSED\<rparr>) t;
        Some (Ok, e, t)
      }
      else Some (Ok, e, t))"

definition take_data :: "u16 \<Rightarrow> conn \<Rightarrow> conn" where
  "take_data plen e = (if plen > 0 then e\<lparr>m_rcv_nxt := m_rcv_nxt e + ucast plen\<rparr> else e)"

definition in_fin_wait_1 :: "'d device_ops \<Rightarrow> 'h handler_ops \<Rightarrow> tcp_header \<Rightarrow> u16 \<Rightarrow> conn \<Rightarrow> ('d, 'h) tcp \<Rightarrow>
    (status \<times> conn \<times> ('d, 'h) tcp) option" where
  "in_fin_wait_1 ops ev h plen e t = do {
     let e = take_data plen e;
     if hd_has h TCP_FIN
     then do {
       let e = (if m_ackdata e then e\<lparr>m_state := TIME_WAIT, m_timer := 0\<rparr> else e\<lparr>m_state := CLOSING\<rparr>);
       (e, t) \<leftarrow> notify (h_closed ev) (e\<lparr>m_rcv_nxt := m_rcv_nxt e + 1\<rparr>) t;
       sendAck ops e t
     }
     else if m_ackdata e then Some (Ok, e\<lparr>m_state := FIN_WAIT_2\<rparr>, t)
     else if plen > 0 then sendAck ops e t
     else Some (Ok, e, t)
   }"

definition in_fin_wait_2 :: "'d device_ops \<Rightarrow> 'h handler_ops \<Rightarrow> tcp_header \<Rightarrow> u16 \<Rightarrow> conn \<Rightarrow> ('d, 'h) tcp \<Rightarrow>
    (status \<times> conn \<times> ('d, 'h) tcp) option" where
  "in_fin_wait_2 ops ev h plen e t = do {
     let e = take_data plen e;
     if hd_has h TCP_FIN
     then do {
       (e, t) \<leftarrow> notify (h_closed ev) (e\<lparr>m_state := TIME_WAIT, m_rcv_nxt := m_rcv_nxt e + 1, m_timer := 0\<rparr>) t;
       sendAck ops e t
     }
     else if plen > 0 then sendAck ops e t
     else Some (Ok, e, t)
   }"

definition in_close :: "'d device_ops \<Rightarrow> tcp_header \<Rightarrow> u16 \<Rightarrow> conn \<Rightarrow> ('d, 'h) tcp \<Rightarrow>
    (status \<times> conn \<times> ('d, 'h) tcp) option" where
  "in_close ops h plen e t =
     (if hasOutstandingSegments e then Some (Ok, e, t)
      else do {
        (i, e) \<leftarrow> claim_segment 1 (e\<lparr>m_state := FIN_WAIT_1\<rparr>);
        let e = (if plen > 0 then flag_data h plen e else e);
        sendFinAck ops e i t
      })"

definition in_closing :: "conn \<Rightarrow> ('d, 'h) tcp \<Rightarrow> (status \<times> conn \<times> ('d, 'h) tcp) option" where
  "in_closing e t = Some (Ok, if m_ackdata e then e\<lparr>m_state := TIME_WAIT, m_timer := 0\<rparr> else e, t)"

definition process_state :: "'d device_ops \<Rightarrow> 'h handler_ops \<Rightarrow> tcp_header \<Rightarrow> u8 list \<Rightarrow> u16 \<Rightarrow> conn \<Rightarrow>
    ('d, 'h) tcp \<Rightarrow> (status \<times> conn \<times> ('d, 'h) tcp) option" where
  "process_state ops ev h data plen e t = (case m_state e of
     SYN_RCVD \<Rightarrow> in_syn_rcvd ops ev h data plen e t
   | SYN_SENT \<Rightarrow> in_syn_sent ops ev h data plen e t
   | ESTABLISHED \<Rightarrow> in_established ops ev h data plen e t
   | LAST_ACK \<Rightarrow> in_last_ack ops ev e t
   | FIN_WAIT_1 \<Rightarrow> in_fin_wait_1 ops ev h plen e t
   | FIN_WAIT_2 \<Rightarrow> in_fin_wait_2 ops ev h plen e t
   | TIME_WAIT \<Rightarrow> sendAck ops e t
   | CLOSE \<Rightarrow> in_close ops h plen e t
   | CLOSING \<Rightarrow> in_closing e t
   | STOPPED \<Rightarrow> Some (Ok, e, t)
   | CLOSED \<Rightarrow> Some (Ok, e, t))"

section \<open>Processing a segment on its connection\<close>

definition clear_data_state :: "conn \<Rightarrow> conn" where
  "clear_data_state e = e\<lparr>m_ackdata := False, m_newdata := False, m_pshdata := False\<rparr>"

text \<open>The sequence number check: not for the SYN/ACK that answers our SYN, and only if the segment
  takes up sequence space.\<close>

definition out_of_sequence :: "tcp_header \<Rightarrow> u16 \<Rightarrow> conn \<Rightarrow> bool" where
  "out_of_sequence h plen e \<longleftrightarrow>
     \<not> (m_state e = SYN_SENT \<and> hd_flags h AND TCP_CTL = TCP_SYN OR TCP_ACK) \<and>
     (plen > 0 \<or> hd_has h (TCP_SYN OR TCP_FIN)) \<and> hd_seq h \<noteq> m_rcv_nxt e"

definition count_ackerr :: "('d, 'h) tcp \<Rightarrow> ('d, 'h) tcp" where
  "count_ackerr = on_stats (\<lambda>s. s\<lparr>st_ackerr := st_ackerr s + 1\<rparr>)"

definition process_conn :: "'d device_ops \<Rightarrow> 'h handler_ops \<Rightarrow> tcp_header \<Rightarrow> u16 \<Rightarrow> u8 list \<Rightarrow> conn \<Rightarrow>
    ('d, 'h) tcp \<Rightarrow> (status \<times> conn \<times> ('d, 'h) tcp) option" where
  "process_conn ops ev h len data e t = do {
     let e = clear_data_state e;
     if hd_has h TCP_RST
     then do {
       let t = t_unlisten ops (m_lport e) t;
       (e, t) \<leftarrow> notify (h_aborted ev) (e\<lparr>m_state := CLOSED\<rparr>) t;
       Some (Ok, e, t)
     }
     else do {
       let plen = len - hd_len h;
       if out_of_sequence h plen e then sendAck ops e t
       else if hd_has h TCP_ACK \<and> hasOutstandingSegments e
       then case ack_scan SEGMENT_COUNT (hd_ack h) (hd_wnd h) e of
           (AckRexmit, e) \<Rightarrow> rexmit ops e t
         | (AckPartial, e) \<Rightarrow> process_state ops ev h data plen e (count_ackerr t)
         | (AckDone, e) \<Rightarrow> process_state ops ev h data plen e t
       else process_state ops ev h data plen e t
     }
   }"

section \<open>Demultiplexing\<close>

definition tcp_reset :: "'d device_ops \<Rightarrow> rx_info \<Rightarrow> tcp_header \<Rightarrow> ('d, 'h) tcp \<Rightarrow>
    (status \<times> ('d, 'h) tcp) option" where
  "tcp_reset ops rx h t = do {
     let t = address_peer (rx_eth rx) (rx_src rx) t;
     (ret, outdata, n) \<leftarrow> ip_prepare ops (t_net t);
     let t = t\<lparr>t_net := n\<rparr>;
     if ret \<noteq> Ok then Some (ret, t)
     else if hd_has h TCP_RST then Some (Ok, t)
     else do {
       let t = on_stats (\<lambda>s. s\<lparr>st_rst := st_rst s + 1\<rparr>) t;
       t \<leftarrow> set_flags outdata TCP_RST t;
       t \<leftarrow> set_offset outdata 5 t;
       t \<leftarrow> tst32 outdata 4 (htonl (hd_ack h)) t;
       t \<leftarrow> tst32 outdata 8 (htonl (hd_seq h + 1)) t;
       t \<leftarrow> tst16 outdata 0 (hd_dst h) t;
       t \<leftarrow> tst16 outdata 2 (hd_src h) t;
       send_raw ops (rx_src rx) 20 (ucast (d_mtu ops (t_dev t) - HEADER_OVERHEAD)) outdata t
     }
   }"

definition matches :: "rx_info \<Rightarrow> tcp_header \<Rightarrow> conn \<Rightarrow> bool" where
  "matches rx h e \<longleftrightarrow> m_state e \<noteq> CLOSED \<and> hd_dst h = m_lport e \<and> hd_src h = m_rport e \<and> rx_src rx = m_ripaddr e"

fun oldest_waiting :: "conn list \<Rightarrow> nat list \<Rightarrow> nat option \<Rightarrow> nat option" where
  "oldest_waiting conns [] best = best"
| "oldest_waiting conns (i # is) best = (
     let c = conns ! i
     in if m_state c = TIME_WAIT \<and> older conns c best then oldest_waiting conns is (Some i)
        else oldest_waiting conns is best)"

definition alloc_process :: "conn list \<Rightarrow> nat option" where
  "alloc_process conns = (case first_index (\<lambda>c. m_state c = CLOSED) conns of
     Some i \<Rightarrow> Some i
   | None \<Rightarrow> oldest_waiting conns [0..<length conns] None)"

definition accept_conn :: "rx_info \<Rightarrow> tcp_header \<Rightarrow> u32 \<Rightarrow> u16 \<Rightarrow> conn \<Rightarrow> conn" where
  "accept_conn rx h iss mss e = e\<lparr>
     m_rethaddr := rx_eth rx, m_ripaddr := rx_src rx, m_lport := hd_dst h, m_rport := hd_src h,
     m_rcv_nxt := hd_seq h + 1, m_snd_nxt := iss, m_state := SYN_RCVD, m_opts := 0, m_ackdata := False,
     m_newdata := False, m_pshdata := False, m_wndscl := 0, m_window := hd_wnd h, m_segidx := 0, m_nrtx := 0,
     m_slen := 0, m_sdat := Null, m_initialmss := mss, m_mss := mss, m_sa := 0, m_sv := 4,
     m_rto := RTO, m_timer := RTO\<rparr>"

definition tcp_accept :: "'d device_ops \<Rightarrow> rx_info \<Rightarrow> tcp_header \<Rightarrow> u8 list \<Rightarrow> nat \<Rightarrow> ('d, 'h) tcp \<Rightarrow>
    (status \<times> ('d, 'h) tcp) option" where
  "tcp_accept ops rx h data k t = do {
     let t = address_peer (rx_eth rx) (rx_src rx) t;
     (ret, sdat, n) \<leftarrow> ip_prepare ops (t_net t);
     let t = t\<lparr>t_net := n\<rparr>;
     if ret \<noteq> Ok then Some (ret, t)
     else do {
       let e = accept_conn rx h (t_iss t) (ucast (d_mtu ops (t_dev t) - HEADER_OVERHEAD)) (t_conns t ! k);
       i \<leftarrow> nextAvailableSegment e;
       let e = upd_seg i (segment_set 1 (m_snd_nxt e) sdat) e;
       e \<leftarrow> parse_options e h data;
       (st, e, t) \<leftarrow> sendSynAck ops e i t;
       Some (st, set_conn k e t)
     }
   }"

definition tcp_process :: "'d device_ops \<Rightarrow> 'h handler_ops \<Rightarrow> rx_info \<Rightarrow> u16 \<Rightarrow> u8 list \<Rightarrow> ('d, 'h) tcp \<Rightarrow>
    (status \<times> ('d, 'h) tcp) option" where
  "tcp_process ops ev rx len data t = do {
     let t = on_stats (\<lambda>s. s\<lparr>st_recv := st_recv s + 1\<rparr>) t;
     csum \<leftarrow> tcpv4_checksum (rx_src rx) (rx_dst rx) len data;
     if csum \<noteq> 0xFFFF
     then Some (CorruptedData, on_stats (\<lambda>s. s\<lparr>st_drop := st_drop s + 1, st_chkerr := st_chkerr s + 1\<rparr>) t)
     else do {
       h \<leftarrow> read_header data;
       case first_index (matches rx h) (t_conns t) of
         Some k \<Rightarrow> do {
           (st, e, t) \<leftarrow> process_conn ops ev h len data (t_conns t ! k) t;
           Some (st, set_conn k e t)
         }
       | None \<Rightarrow>
           if hd_flags h AND TCP_CTL \<noteq> TCP_SYN then tcp_reset ops rx h t
           else if hd_dst h \<notin> t_ports t
           then tcp_reset ops rx h (on_stats (\<lambda>s. s\<lparr>st_synrst := st_synrst s + 1\<rparr>) t)
           else (case alloc_process (t_conns t) of
             None \<Rightarrow> Some (Ok, on_stats (\<lambda>s. s\<lparr>st_syndrop := st_syndrop s + 1\<rparr>) t)
           | Some k \<Rightarrow> tcp_accept ops rx h data k t)
     }
   }"

section \<open>Timers\<close>

abbreviation (input) "MAXRTX \<equiv> (5 :: 5 word)"
abbreviation (input) "TIME_WAIT_TIMEOUT \<equiv> (120 :: u8)"

text \<open>One connection of the scan. The first component of the result is the status with which the scan
  stops, if it stops at this connection.\<close>

definition run_waiting :: "'d device_ops \<Rightarrow> conn \<Rightarrow> ('d, 'h) tcp \<Rightarrow> bool \<times> conn \<times> ('d, 'h) tcp" where
  "run_waiting ops e t =
     (if m_state e = TIME_WAIT \<or> m_state e = FIN_WAIT_2
      then let e = e\<lparr>m_timer := m_timer e + 1\<rparr>
           in if m_timer e = TIME_WAIT_TIMEOUT
              then (True, e\<lparr>m_state := CLOSED\<rparr>, t_unlisten ops (m_lport e) t)
              else (False, e, t)
      else (False, e, t))"

definition backoff :: "conn \<Rightarrow> conn" where
  "backoff e = e\<lparr>m_timer := push_bit (if m_nrtx e > 4 then 4 else unat (m_nrtx e)) RTO, m_nrtx := m_nrtx e + 1\<rparr>"

definition run_conn :: "'d device_ops \<Rightarrow> 'h handler_ops \<Rightarrow> conn \<Rightarrow> ('d, 'h) tcp \<Rightarrow>
    (status option \<times> conn \<times> ('d, 'h) tcp) option" where
  "run_conn ops ev e t =
     (if m_state e = CLOSED then Some (None, e, t)
      else let (closed, e, t) = run_waiting ops e t in
        if closed then Some (None, e, t)
        else if \<not> hasOutstandingSegments e then Some (None, e, t)
        else let e = e\<lparr>m_timer := m_timer e - 1\<rparr> in
          if m_timer e > 0 then Some (None, e, t)
          else if m_nrtx e = MAXRTX \<or> (m_state e = SYN_SENT \<or> m_state e = SYN_RCVD) \<and> m_nrtx e = MAXRTX
          then do {
            (e, t) \<leftarrow> notify (h_timedout ev) e t;
            (st, e, t) \<leftarrow> sendAbort ops e t;
            Some (Some st, e, t)
          }
          else do {
            (st, e, t) \<leftarrow> rexmit ops (backoff e) t;
            Some (Some st, e, t)
          })"

fun run_scan :: "'d device_ops \<Rightarrow> 'h handler_ops \<Rightarrow> nat list \<Rightarrow> ('d, 'h) tcp \<Rightarrow> (status \<times> ('d, 'h) tcp) option" where
  "run_scan ops ev [] t = Some (Ok, t)"
| "run_scan ops ev (i # is) t = do {
     (r, e, t) \<leftarrow> run_conn ops ev (t_conns t ! i) t;
     let t = set_conn i e t;
     case r of None \<Rightarrow> run_scan ops ev is t | Some st \<Rightarrow> Some (st, t)
   }"

text \<open>\<open>now\<close> and \<open>now'\<close> are the two readings of the clock, by the test and by the reset of the timer.\<close>

definition tcp_run :: "'d device_ops \<Rightarrow> 'h handler_ops \<Rightarrow> u64 \<Rightarrow> u64 \<Rightarrow> ('d, 'h) tcp \<Rightarrow> (status \<times> ('d, 'h) tcp) option" where
  "tcp_run ops ev now now' t =
     (if \<not> timer_expired now (t_timer t) then Some (Ok, t)
      else run_scan ops ev [0..<length (t_conns t)]
        (t\<lparr>t_timer := timer_reset now' (t_timer t), t_iss := t_iss t + 1\<rparr>))"

end
