(* ===== verification/TcpRxSafe.thy ===== *)
theory TcpRxSafe
  imports TcpSafe TcpProcess
begin

text \<open>
  Memory safety and preservation of the connection invariant for everything the processor does on
  its own: processing a segment, running the timers, accepting a connection. The application is
  behind the interface \<open>app\<close>: its callbacks return, keep an invariant of their own and write no more
  than the room they were offered.
\<close>

section \<open>The contract of the application\<close>

locale app =
  fixes ev :: "'h handler_ops" and hinv :: "'h \<Rightarrow> bool"
  assumes connected_law: "hinv h \<Longrightarrow> runs (h_connected ev e h) (\<lambda>(opts, cookie, h'). hinv h')"
    and aborted_law: "hinv h \<Longrightarrow> runs (h_aborted ev e h) (\<lambda>(opts, cookie, h'). hinv h')"
    and timedout_law: "hinv h \<Longrightarrow> runs (h_timedout ev e h) (\<lambda>(opts, cookie, h'). hinv h')"
    and closed_law: "hinv h \<Longrightarrow> runs (h_closed ev e h) (\<lambda>(opts, cookie, h'). hinv h')"
    and acked_law: "hinv h \<Longrightarrow> runs (h_acked ev e h) (\<lambda>(a, opts, cookie, h'). hinv h')"
    and newdata_law: "hinv h \<Longrightarrow> runs (h_newdata ev e bs h) (\<lambda>(a, opts, cookie, h'). hinv h')"
    and acked_send_law: "hinv h \<Longrightarrow> runs (h_acked_send ev e alen h)
          (\<lambda>(a, out, rlen, opts, cookie, h'). hinv h' \<and> length out \<le> unat alen)"
    and newdata_send_law: "hinv h \<Longrightarrow> runs (h_newdata_send ev e bs alen h)
          (\<lambda>(a, out, rlen, opts, cookie, h'). hinv h' \<and> length out \<le> unat alen)"

locale tcp_app = tcp_link ops dinv nmss hr + app ev hinv
  for ops :: "'d device_ops" and dinv :: "mem \<Rightarrow> 'd \<Rightarrow> bool" and nmss :: nat and hr :: nat
    and ev :: "'h handler_ops" and hinv :: "'h \<Rightarrow> bool"

section \<open>What processing keeps\<close>

definition keeps :: "('d, 'h) tcp \<Rightarrow> ('d, 'h) tcp \<Rightarrow> bool" where
  "keeps t t' \<longleftrightarrow> mem_le (t_mem t) (t_mem t') \<and>
     t' = t\<lparr>t_net := t_net t', t_stats := t_stats t', t_handler := t_handler t'\<rparr>"

lemma keeps_refl [simp]: "keeps t t"
  by (simp add: keeps_def)

lemma keeps_trans [trans]: "keeps a b \<Longrightarrow> keeps b c \<Longrightarrow> keeps a c"
  unfolding keeps_def by (cases a, cases b, cases c) (auto intro: mem_le_trans)

lemma net_only_keeps: "net_only t t' \<Longrightarrow> keeps t t'"
  unfolding net_only_def keeps_def by (cases t, cases t') auto

lemma keeps_sel:
  assumes "keeps t t'"
  shows "t_iss t' = t_iss t" "t_mss t' = t_mss t" "t_ports t' = t_ports t" "t_conns t' = t_conns t"
    "t_timer t' = t_timer t"
  using assms by (cases t; cases t'; simp add: keeps_def)+

lemma keeps_mem: "keeps t t' \<Longrightarrow> mem_le (t_mem t) (t_mem t')"
  by (simp add: keeps_def)

text \<open>
  A segment whose lengths are consistent: the header it announces lies inside the segment, the
  segment inside the packet, its options can be parsed and the urgent data is part of the payload.
\<close>

definition segment_wf :: "tcp_header \<Rightarrow> u16 \<Rightarrow> u8 list \<Rightarrow> bool" where
  "segment_wf h len data \<longleftrightarrow> hd_len h \<le> len \<and> unat len \<le> length data \<and>
     parse_options conn_init h data \<noteq> None \<and> (hd_has h TCP_URG \<longrightarrow> hd_urgp h \<le> len - hd_len h)"

lemma parse_options_wf:
  assumes "segment_wf h len data"
  shows "\<exists>e'. parse_options e h data = Some e' \<and> same_but_mss_window e e'"
proof (cases "hd_off h > 5")
  case True
  let ?n = "push_bit 2 (ucast (hd_off h) - 5) :: u16"
  have "options_parse e ?n data \<noteq> None"
    by (rule options_parse_indep [of conn_init]) (use assms True in \<open>simp add: segment_wf_def parse_options_def\<close>)
  then show ?thesis
    using True by (auto simp: parse_options_def intro: options_parse_same)
qed (simp add: parse_options_def)

lemma same_but_sel:
  assumes "same_but_mss_window e e'"
  shows "m_segments e' = m_segments e" "m_slen e' = m_slen e" "m_sdat e' = m_sdat e" "m_state e' = m_state e"
    "m_wndscl e' = m_wndscl e \<or> m_wndscl e' \<le> 14"
  using assms by (cases e; cases e'; simp add: same_but_mss_window_def)+

lemma payload_wf:
  assumes "segment_wf h len data" and "off + unat n \<le> unat len"
  shows "\<exists>bs. payload data off n = Some bs"
  using assms by (simp add: payload_def segment_wf_def)

lemma wf_plen: "segment_wf h len data \<Longrightarrow> unat (len - hd_len h) = unat len - unat (hd_len h)"
  by (simp add: segment_wf_def unat_sub)

lemma wf_hdr_le: "segment_wf h len data \<Longrightarrow> unat (hd_len h) \<le> unat len"
  by (simp add: segment_wf_def word_le_nat_alt)

section \<open>The scan of acknowledged segments\<close>

lemma updateRtt_sel [simp]:
  "m_segments (updateRttEstimation e) = m_segments e" "m_slen (updateRttEstimation e) = m_slen e"
  "m_wndscl (updateRttEstimation e) = m_wndscl e" "m_sdat (updateRttEstimation e) = m_sdat e"
  "m_state (updateRttEstimation e) = m_state e" "m_segidx (updateRttEstimation e) = m_segidx e"
  "m_rcv_nxt (updateRttEstimation e) = m_rcv_nxt e" "m_snd_nxt (updateRttEstimation e) = m_snd_nxt e"
  "m_window (updateRttEstimation e) = m_window e" "m_nrtx (updateRttEstimation e) = m_nrtx e"
  "m_ackdata (updateRttEstimation e) = m_ackdata e" "m_newdata (updateRttEstimation e) = m_newdata e"
  by (simp_all add: updateRttEstimation_def Let_def)

lemma first_ack_sel [simp]:
  "m_segments (first_ack e) = m_segments e" "m_slen (first_ack e) = m_slen e"
  "m_wndscl (first_ack e) = m_wndscl e" "m_sdat (first_ack e) = m_sdat e"
  "m_state (first_ack e) = m_state e" "m_segidx (first_ack e) = m_segidx e"
  "m_rcv_nxt (first_ack e) = m_rcv_nxt e" "m_snd_nxt (first_ack e) = m_snd_nxt e"
  "m_window (first_ack e) = m_window e" "m_newdata (first_ack e) = m_newdata e" "m_ackdata (first_ack e)"
  "m_nrtx (first_ack e) = 0"
  by (simp_all add: first_ack_def restart_timer_def Let_def)

lemma window_update_sel [simp]:
  "m_segments (window_update w e) = m_segments e" "m_slen (window_update w e) = m_slen e"
  "m_wndscl (window_update w e) = m_wndscl e" "m_sdat (window_update w e) = m_sdat e"
  "m_state (window_update w e) = m_state e" "m_segidx (window_update w e) = m_segidx e"
  "m_rcv_nxt (window_update w e) = m_rcv_nxt e" "m_snd_nxt (window_update w e) = m_snd_nxt e"
  "m_ackdata (window_update w e) = m_ackdata e" "m_newdata (window_update w e) = m_newdata e"
  by (simp_all add: window_update_def restart_timer_def Let_def)

lemma pop_segment_sel [simp]:
  "m_slen (pop_segment e) = m_slen e" "m_wndscl (pop_segment e) = m_wndscl e" "m_sdat (pop_segment e) = m_sdat e"
  "m_state (pop_segment e) = m_state e" "m_rcv_nxt (pop_segment e) = m_rcv_nxt e"
  "m_snd_nxt (pop_segment e) = m_snd_nxt e" "m_window (pop_segment e) = m_window e"
  "m_ackdata (pop_segment e) = m_ackdata e" "m_newdata (pop_segment e) = m_newdata e"
  by (simp_all add: pop_segment_def upd_seg_def)

lemma segs_ok_pop: "segs_ok hr n m e \<Longrightarrow> segs_ok hr n m (pop_segment e)"
  unfolding pop_segment_def
  using segs_ok_upd [of hr n m e "segment_clear (segment_cur e)" "unat (m_segidx e)"]
  by (simp add: segs_ok_def seg_ok_def segment_clear_def)

lemma ack_scan_keeps:
  assumes "ack_scan n a w e = (r, e')"
  shows "m_slen e' = m_slen e \<and> m_wndscl e' = m_wndscl e \<and> m_sdat e' = m_sdat e \<and> m_state e' = m_state e \<and>
    m_rcv_nxt e' = m_rcv_nxt e \<and> m_snd_nxt e' = m_snd_nxt e \<and> m_newdata e' = m_newdata e \<and>
    (segs_ok hr k m e \<longrightarrow> segs_ok hr k m e')"
  using assms
proof (induction n a w e rule: ack_scan.induct)
  case (2 n a w e)
  show ?case
    using 2(2) 2(1) [OF refl refl refl _ _ refl refl]
    by (auto simp: Let_def segs_ok_def [of hr k m "window_update w e"] segs_ok_def [of hr k m "first_ack e"]
      segs_ok_def [symmetric] intro: segs_ok_pop split: if_splits)
qed simp

context tcp_app
begin

text \<open>\<open>live t0 e t\<close>: in the course of an operation that began in \<open>t0\<close>, the processor is in a good state
  and \<open>e\<close> is a well-formed connection with a send buffer; \<open>good t0\<close> is what the operation ends with.\<close>

definition live :: "('d, 'h) tcp \<Rightarrow> conn \<Rightarrow> ('d, 'h) tcp \<Rightarrow> bool" where
  "live t0 e t \<longleftrightarrow> keeps t0 t \<and> tinv t \<and> hinv (t_handler t) \<and> unat (t_mss t) = nmss - 54 \<and>
     conn_ok hr nmss (t_mem t) e \<and> buf_ok hr nmss (t_mem t) (m_sdat e)"

definition good :: "('d, 'h) tcp \<Rightarrow> status \<times> conn \<times> ('d, 'h) tcp \<Rightarrow> bool" where
  "good t0 = (\<lambda>(st, e, t). keeps t0 t \<and> tinv t \<and> hinv (t_handler t) \<and> conn_ok hr nmss (t_mem t) e)"

lemma live_good: "live t0 e t \<Longrightarrow> good t0 (st, e, t)"
  by (simp add: live_def good_def)

lemma live_upd:
  "live t0 e t \<Longrightarrow> m_segments e' = m_segments e \<Longrightarrow> m_slen e' = m_slen e \<Longrightarrow> m_wndscl e' = m_wndscl e \<Longrightarrow>
   m_sdat e' = m_sdat e \<Longrightarrow> live t0 e' t"
  by (simp add: live_def conn_ok_def segs_ok_def)

lemma live_net:
  assumes "live t0 e t" and "net_only t t'" and "tinv t'" and "conn_ok hr nmss (t_mem t') e'"
    and "buf_ok hr nmss (t_mem t') (m_sdat e')"
  shows "live t0 e' t'"
  using assms net_only_sel [OF assms(2)] by (auto simp: live_def intro: keeps_trans net_only_keeps)

lemma live_stats: "live t0 e t \<Longrightarrow> live t0 e (on_stats f t)"
  by (rule live_net [of t0 e t]) (auto simp: live_def on_stats_def net_only_def)

lemma live_unlisten: "live t0 e t \<Longrightarrow> live t0 e (t_unlisten ops port t)"
  by (rule live_net [of t0 e t]) (auto simp: live_def t_unlisten_def on_net_def net_only_def dinv_unlisten)

lemma live_app: "live t0 e t \<Longrightarrow> hinv h \<Longrightarrow> live t0 (app_view opts cookie e) (t\<lparr>t_handler := h\<rparr>)"
  unfolding live_def keeps_def conn_ok_def segs_ok_def app_view_def by (cases t0; cases t) auto

lemma notify_live:
  assumes "live t0 e t" and "\<And>h. hinv h \<Longrightarrow> runs (f e h) (\<lambda>(opts, cookie, h'). hinv h')"
    and "\<And>opts cookie t'. live t0 (app_view opts cookie e) t' \<Longrightarrow> Q (app_view opts cookie e, t')"
  shows "runs (notify f e t) Q"
proof -
  from assms(1,2) have "runs (f e (t_handler t)) (\<lambda>(opts, cookie, h'). hinv h')"
    by (simp add: live_def)
  then show ?thesis
    unfolding notify_def runs_bind
    by (rule runs_mono) (use assms(1) in \<open>auto intro!: assms(3) live_app\<close>)
qed

lemma ask_live:
  assumes "live t0 e t" and "\<And>h. hinv h \<Longrightarrow> runs (f e h) (\<lambda>(a, opts, cookie, h'). hinv h')"
    and "\<And>a opts cookie t'. live t0 (app_view opts cookie e) t' \<Longrightarrow> Q (a, app_view opts cookie e, t')"
  shows "runs (ask f e t) Q"
proof -
  from assms(1,2) have "runs (f e (t_handler t)) (\<lambda>(a, opts, cookie, h'). hinv h')"
    by (simp add: live_def)
  then show ?thesis
    unfolding ask_def runs_bind
    by (rule runs_mono) (use assms(1) in \<open>auto intro!: assms(3) live_app\<close>)
qed

lemma sent_live:
  assumes "runs m (sent e' t)" and "live t0 e t" and "segs_ok hr nmss (t_mem t) e'"
    and "unat (m_slen e') \<le> nmss - 54" and "m_wndscl e' \<le> 14"
    and "\<And>p t'. live t0 (e'\<lparr>m_sdat := p\<rparr>) t' \<Longrightarrow> Q (Ok, e'\<lparr>m_sdat := p\<rparr>, t')"
  shows "runs m Q"
proof (rule runs_mono [OF assms(1)], clarify)
  fix t' p assume n: "net_only t t'" "tinv t'" "buf_ok hr nmss (t_mem t') p"
  have "segs_ok hr nmss (t_mem t') (e'\<lparr>m_sdat := p\<rparr>)"
    using segs_ok_mono [OF assms(3) net_only_mem [OF n(1)]] by (simp add: segs_ok_def)
  then have "live t0 (e'\<lparr>m_sdat := p\<rparr>) t'"
    by (intro live_net [OF assms(2) n(1,2)]) (use n assms(4,5) in \<open>simp_all add: conn_ok_def\<close>)
  then show "Q (Ok, e'\<lparr>m_sdat := p\<rparr>, t')"
    by (rule assms(6))
qed

lemma sendAck_live:
  assumes "live t0 e t" and "\<And>p t'. live t0 (e\<lparr>m_sdat := p\<rparr>) t' \<Longrightarrow> Q (Ok, e\<lparr>m_sdat := p\<rparr>, t')"
  shows "runs (sendAck ops e t) Q"
  by (rule sent_live [OF sendAck_runs assms(1)]) (use assms in \<open>auto simp: live_def conn_ok_def\<close>)

lemma sendAck_good: "live t0 e t \<Longrightarrow> runs (sendAck ops e t) (good t0)"
  by (erule sendAck_live) (rule live_good)

lemma sendAbort_good:
  assumes "live t0 e t"
  shows "runs (sendAbort ops e t) (good t0)"
  by (rule sent_live [OF sendAbort_runs assms])
    (use assms in \<open>auto simp: live_def conn_ok_def segs_ok_def intro: live_good\<close>)

lemma served_good:
  assumes "runs m (\<lambda>(st, e', t'). net_only t t' \<and> tinv t' \<and> conn_ok hr nmss (t_mem t') e')" and "live t0 e t"
  shows "runs m (good t0)"
  by (rule runs_mono [OF assms(1)])
    (use assms(2) net_only_sel(1) in \<open>force simp: good_def live_def intro: keeps_trans net_only_keeps\<close>)

lemma sendClose_good: "live t0 e t \<Longrightarrow> runs (sendClose ops e t) (good t0)"
  by (rule served_good [OF runs_mono [OF sendClose_runs]]) (auto simp: live_def)

lemma sendNoDelay_good: "live t0 e t \<Longrightarrow> hasAvailableSegments e \<Longrightarrow> runs (sendNoDelay ops e f t) (good t0)"
  by (rule served_good [OF runs_mono [OF sendNoDelay_runs]]) (auto simp: live_def)

lemma rexmit_good: "live t0 e t \<Longrightarrow> runs (rexmit ops e t) (good t0)"
  by (rule served_good [OF runs_mono [OF rexmit_runs]]) (auto simp: live_def)

lemma obey_good:
  assumes "live t0 e t" and "a = Continue \<Longrightarrow> runs (k e t) (good t0)"
  shows "runs (obey ops a e t k) (good t0)"
  using assms by (cases a) (auto simp: obey_def intro: sendAbort_good sendClose_good)

lemma unat_slen_le: "unat (ucast (m_slen e) :: u32) = unat (m_slen e)"
  by (rule unat_slen)

lemma send_bound_le: "unat (t_mss t) = nmss - 54 \<Longrightarrow> unat (send_bound e t) \<le> nmss - 54"
  by (auto simp: send_bound_def word_less_nat_alt)

lemma slen_bound:
  assumes "live t0 e t" and "can_send e"
  shows "unat (send_bound e t - ucast (m_slen e)) = unat (send_bound e t) - unat (m_slen e)"
    and "unat (m_slen e) \<le> unat (send_bound e t)"
proof -
  show le: "unat (m_slen e) \<le> unat (send_bound e t)"
    using assms by (auto simp: send_bound_def can_send_def live_def conn_ok_def word_less_nat_alt unat_slen)
  then show "unat (send_bound e t - ucast (m_slen e)) = unat (send_bound e t) - unat (m_slen e)"
    by (subst unat_sub) (auto simp: word_le_nat_alt unat_slen)
qed

lemma slen_add:
  assumes "unat (m_slen e) + unat (r :: u32) \<le> nmss - 54"
  shows "unat (m_slen e + ucast r) = unat (m_slen e) + unat r"
proof -
  have lt: "unat (m_slen e) + unat r < 2 ^ 24"
    using assms nmss_hi by linarith
  then have "unat (ucast r :: 24 word) = unat r"
    by (simp add: unsigned_ucast_eq take_bit_nat_eq_self_iff)
  with lt show ?thesis
    by (simp add: unat_word_ariths)
qed

lemma offer_good:
  assumes l: "live t0 e t" and c: "can_send e"
    and f: "\<And>alen e h. hinv h \<Longrightarrow> runs (f alen e h) (\<lambda>(a, out, rlen, opts, cookie, h'). hinv h' \<and> length out \<le> unat alen)"
    and k: "\<And>e' t'. live t0 e' t' \<Longrightarrow> m_segments e' = m_segments e \<Longrightarrow> runs (k e' t') (good t0)"
  shows "runs (offer ops f e t k) (good t0)"
proof -
  let ?alen = "send_bound e t - ucast (m_slen e)"
  note al = slen_bound [OF l c]
  have b: "unat (send_bound e t) \<le> nmss - 54"
    using l by (intro send_bound_le) (simp add: live_def)
  have "runs (f ?alen e (t_handler t)) (\<lambda>(a, out, rlen, opts, cookie, h'). hinv h' \<and> length out \<le> unat ?alen)"
    using f l by (simp add: live_def)
  then obtain a out rlen opts cookie h' where fe: "f ?alen e (t_handler t) = Some (a, out, rlen, opts, cookie, h')"
    "hinv h'" "length out \<le> unat ?alen"
    by (auto simp: runs_iff)
  have v: "valid (t_mem t) (m_sdat e) (nmss - 34)"
    using l by (auto simp: live_def intro: buf_ok_valid)
  have fit: "20 + unat (m_slen e) + length out \<le> nmss - 34"
    using fe(3) al b nmss_lo by linarith
  define m where "m = mem_upd (t_mem t) (ptr_add (m_sdat e) (20 + unat (m_slen e))) out"
  let ?t = "t_set_mem m (t\<lparr>t_handler := h'\<rparr>)" and ?e = "app_view opts cookie e"
  have wr: "ask_send (f ?alen) e t = Some (a, rlen, ?e, ?t)"
    using mem_write_valid(2) [OF v fit] fe by (simp add: ask_send_def m_def)
  have live': "live t0 ?e ?t"
    by (rule live_net [OF live_app [OF l fe(2), of opts cookie] net_only_set_mem [OF mem_leI]])
      (use l in \<open>auto simp: m_def app_view_def live_def conn_ok_def segs_ok_def
         intro: dinv_valid buf_ok_mono mem_leI\<close>,
       auto simp: list_all_iff intro: seg_ok_mono mem_leI)
  show ?thesis
    unfolding offer_def Let_def wr bind.bind_lunit prod.case
  proof (rule obey_good [OF live'])
    let ?r = "if rlen > ?alen then ?alen else rlen"
    have r: "unat ?r \<le> unat ?alen"
      by (auto simp: word_less_nat_alt not_less)
    have sum: "unat (m_slen ?e) + unat ?r \<le> nmss - 54"
      using r al b by (simp add: app_view_def)
    have "live t0 (?e\<lparr>m_slen := m_slen ?e + ucast ?r\<rparr>) ?t"
      using live' slen_add [OF sum] sum by (simp add: live_def conn_ok_def segs_ok_def)
    then show "runs (k (?e\<lparr>m_slen := m_slen ?e + ucast ?r\<rparr>) ?t) (good t0)"
      by (rule k) (simp add: app_view_def)
  qed
qed

lemmas app_laws = connected_law aborted_law timedout_law closed_law acked_law newdata_law
  acked_send_law newdata_send_law

lemma payload_runs:
  assumes "segment_wf h len data" and "off + unat n \<le> unat len" and "\<And>bs. Q bs"
  shows "runs (payload data off n) Q"
  using payload_wf [OF assms(1,2)] assms(3) by auto

lemma plen_fits: "segment_wf h len data \<Longrightarrow> unat (hd_len h) + unat (len - hd_len h) \<le> unat len"
  using wf_plen wf_hdr_le by fastforce

lemma in_syn_rcvd_good:
  assumes l: "live t0 e t" and w: "segment_wf h len data"
  shows "runs (in_syn_rcvd ops ev h data (len - hd_len h) e t) (good t0)"
proof (cases "m_ackdata e")
  case True
  have "live t0 (e\<lparr>m_state := ESTABLISHED\<rparr>) t"
    by (rule live_upd [OF l]) simp_all
  then show ?thesis
    unfolding in_syn_rcvd_def if_P [OF True] runs_bind Let_def
  proof (rule notify_live [OF _ connected_law], goal_cases)
    case (2 opts cookie t')
    note l2 = 2
    let ?e = "flag_data h (len - hd_len h) (app_view opts cookie (e\<lparr>m_state := ESTABLISHED\<rparr>))"
    have l3: "live t0 ?e t'"
      by (rule live_upd [OF l2]) (simp_all add: flag_data_def app_view_def)
    show ?case
      by (auto simp: runs_bind intro!: live_good [OF l2] payload_runs [OF w plen_fits [OF w]]
        ask_live [OF l3 newdata_law] sendAck_good)
  qed simp
qed (use l in \<open>simp add: in_syn_rcvd_def live_good\<close>)

lemma in_syn_sent_good:
  assumes l: "live t0 e t" and w: "segment_wf h len data"
  shows "runs (in_syn_sent ops ev h data (len - hd_len h) e t) (good t0)"
proof (cases "m_ackdata e \<and> hd_flags h AND TCP_CTL = TCP_SYN OR TCP_ACK")
  case True
  let ?e = "e\<lparr>m_state := ESTABLISHED, m_rcv_nxt := hd_seq h + 1, m_window := hd_wnd h\<rparr>"
  obtain e1 where e1: "parse_options ?e h data = Some e1" "same_but_mss_window ?e e1"
    using parse_options_wf [OF w] by blast
  have "live t0 e1 t"
    using l same_but_sel [OF e1(2)] by (auto simp: live_def conn_ok_def segs_ok_def)
  then show ?thesis
    unfolding in_syn_sent_def if_P [OF True] runs_bind Let_def e1(1) runs_Some
  proof (rule notify_live [OF _ connected_law], goal_cases)
    case (2 opts cookie t')
    note l2 = 2
    let ?e2 = "(app_view opts cookie e1)\<lparr>m_newdata := True, m_pshdata := hd_has h TCP_PSH\<rparr>"
    have l3: "live t0 ?e2 t'"
      by (rule live_upd [OF l2]) (simp_all add: app_view_def)
    show ?case
      by (auto simp: runs_bind intro!: sendAck_good [OF l2] payload_runs [OF w plen_fits [OF w]]
        ask_live [OF l3 newdata_law] sendAck_good)
  qed simp
next
  case False
  show ?thesis
    unfolding in_syn_sent_def if_not_P [OF False] runs_bind
    by (rule notify_live [OF l aborted_law]) (auto intro: sendAbort_good)
qed

lemma live_claim:
  assumes l: "live t0 e t" and a: "hasAvailableSegments e"
    and q: "\<And>i. i < 16 \<Longrightarrow> live t0 e t \<Longrightarrow>
      Q (i, resetSendBuffer (upd_seg i (segment_set len (m_snd_nxt e) (m_sdat e)) e))"
  shows "runs (claim_segment len e) Q"
proof -
  from l a obtain i where "i < 16" "nextAvailableSegment e = Some i"
    using nextAvailable_Some [of e] by (auto simp: live_def conn_ok_def segs_ok_def)
  then show ?thesis
    using q l by (simp add: claim_segment_def)
qed

lemma no_outstanding_available:
  "length (m_segments e) = 16 \<Longrightarrow> \<not> hasOutstandingSegments e \<Longrightarrow> hasAvailableSegments e"
  by (cases "m_segments e") (auto simp: hasOutstandingSegments_def hasAvailableSegments_def list_ex_iff)

lemma live_length: "live t0 e t \<Longrightarrow> length (m_segments e) = 16"
  by (simp add: live_def conn_ok_def segs_ok_def)

text \<open>Claiming a segment for a FIN, with \<open>f\<close> an update of the connection in between.\<close>

lemma claim_fin_good:
  assumes l: "live t0 e t" and a: "hasAvailableSegments e"
    and f: "\<And>e. m_segments (f e) = m_segments e" "\<And>e. m_slen (f e) = m_slen e" "\<And>e. m_wndscl (f e) = m_wndscl e"
  shows "runs (do { (i, e) \<leftarrow> claim_segment 1 e; sendFinAck ops (f e) i t }) (good t0)"
  unfolding runs_bind
proof (rule live_claim [OF l a], simp only: prod.case)
  fix i :: nat assume i: "i < 16"
  let ?e = "resetSendBuffer (upd_seg i (segment_set 1 (m_snd_nxt e) (m_sdat e)) e)"
  have s: "s_dat (m_segments (f ?e) ! i) = m_sdat e"
    using i live_length [OF l] by (simp add: f resetSendBuffer_def upd_seg_def segment_set_def)
  have "segs_ok hr nmss (t_mem t) (upd_seg i (segment_set 1 (m_snd_nxt e) (m_sdat e)) e)"
    using l nmss_lo by (intro segs_ok_upd) (auto simp: live_def conn_ok_def seg_ok_def segment_set_def)
  then have ok: "segs_ok hr nmss (t_mem t) (advance i (f ?e))"
    by (simp add: segs_ok_def f resetSendBuffer_def upd_seg_def)
  have "runs (sendFinAck ops (f ?e) i t) (sent (advance i (f ?e)) t)"
    using l by (intro sendFinAck_runs) (auto simp: live_def s)
  then show "runs (sendFinAck ops (f ?e) i t) (good t0)"
    by (rule sent_live [OF _ l ok])
      (use l in \<open>auto simp: f resetSendBuffer_def upd_seg_def live_def conn_ok_def intro!: live_good [unfolded live_def conn_ok_def]\<close>)
qed

lemma established_fin_good:
  assumes l: "live t0 e t" and w: "segment_wf h len data"
  shows "runs (established_fin ops ev h data (len - hd_len h) e t) (good t0)"
proof (cases "hasOutstandingSegments e")
  case False
  have fin: "runs (do { (i, e) \<leftarrow> claim_segment 1 (e'\<lparr>m_state := LAST_ACK\<rparr>); sendFinAck ops e i t' }) (good t0)"
    if l': "live t0 e' t'" and "m_segments e' = m_segments e" for e' t'
  proof (rule claim_fin_good [where f = "\<lambda>e. e"])
    show "live t0 (e'\<lparr>m_state := LAST_ACK\<rparr>) t'"
      by (rule live_upd [OF l']) simp_all
    show "hasAvailableSegments (e'\<lparr>m_state := LAST_ACK\<rparr>)"
      using no_outstanding_available [OF live_length [OF l]] False that(2)
      by (simp add: hasAvailableSegments_def hasOutstandingSegments_def)
  qed simp_all
  let ?e = "e\<lparr>m_rcv_nxt := m_rcv_nxt e + (ucast (len - hd_len h) + 1)\<rparr>"
  have l1: "live t0 ?e t"
    by (rule live_upd [OF l]) simp_all
  show ?thesis
    unfolding established_fin_def if_not_P [OF False] Let_def
    using fin [OF l1]
    by (auto simp: runs_bind app_view_def intro!: payload_runs [OF w plen_fits [OF w]] ask_live [OF l1 newdata_law]
        fin [unfolded runs_bind])
qed (use l in \<open>simp add: established_fin_def live_good\<close>)

lemma established_flush_good:
  assumes "live t0 e t" and "can \<Longrightarrow> hasAvailableSegments e"
  shows "runs (established_flush ops can e t) (good t0)"
  using assms by (auto simp: established_flush_def intro: sendNoDelay_good sendAck_good live_good)

lemma established_newdata_good:
  assumes l: "live t0 e t" and c: "can \<Longrightarrow> can_send e"
  shows "runs (established_newdata ops ev bs can e t (established_flush ops can)) (good t0)"
proof -
  have rest: "runs (if can then offer ops (\<lambda>alen e. h_newdata_send ev e bs alen) e1 t1 (established_flush ops can)
      else do { (a, e, t) \<leftarrow> ask (\<lambda>e. h_newdata ev e bs) e1 t1; obey ops a e t (established_flush ops can) }) (good t0)"
    if l1: "live t0 e1 t1" and "can \<Longrightarrow> can_send e1" for e1 t1
  proof (cases can)
    case True
    with that have "can_send e1" by simp
    with True show ?thesis
      using l1 by (auto intro!: offer_good newdata_send_law established_flush_good
          simp: can_send_def hasAvailableSegments_def)
  next
    case False
    then show ?thesis
      using l1 by (auto simp: runs_bind intro!: ask_live [OF l1 newdata_law] obey_good established_flush_good)
  qed
  show ?thesis
  proof (cases "has_delayed_ack e")
    case True
    then show ?thesis
      using rest [OF l c] by (simp add: established_newdata_def)
  next
    case False
    show ?thesis
      unfolding established_newdata_def if_P [OF False] runs_bind
    proof (rule sendAck_live [OF l], goal_cases)
      case (1 p t')
      then show ?case
        using rest [OF 1] c by (simp add: can_send_def hasAvailableSegments_def window_of_def)
    qed
  qed
qed

lemma in_established_good:
  assumes l: "live t0 e t" and w: "segment_wf h len data"
  shows "runs (in_established ops ev h data (len - hd_len h) e t) (good t0)"
proof (cases "hd_has h TCP_FIN")
  case True
  then show ?thesis
    using established_fin_good [OF l w] by (simp add: in_established_def)
next
  case False
  define urg where "urg = (if hd_has h TCP_URG then hd_urgp h else 0)"
  define plen where "plen = len - hd_len h - urg"
  define e1 where "e1 = peer_window (hd_wnd h) (if plen > 0 then flag_data h plen e else e)"
  have fits: "unat (hd_len h) + unat urg + unat plen \<le> unat len"
  proof -
    have "urg \<le> len - hd_len h"
      using w by (auto simp: urg_def segment_wf_def)
    then have "unat plen = unat (len - hd_len h) - unat urg" "unat urg \<le> unat (len - hd_len h)"
      by (auto simp: plen_def unat_sub word_le_nat_alt)
    then show ?thesis
      using plen_fits [OF w] by linarith
  qed
  have l1: "live t0 e1 t"
    by (rule live_upd [OF l]) (simp_all add: e1_def peer_window_def flag_data_def Let_def)
  define k where "k = (\<lambda>can e t. if m_newdata e
      then do { bs \<leftarrow> payload data (unat (hd_len h) + unat urg) plen;
        established_newdata ops ev bs can e t (established_flush ops can) }
      else established_flush ops can e t)"
  have tail: "runs (k can e' t') (good t0)" if "live t0 e' t'" "can \<Longrightarrow> can_send e'" for e' t' can
    using that by (auto simp: k_def runs_bind can_send_def intro!: payload_runs [OF w fits]
        established_newdata_good established_flush_good)
  have main: "runs (established_acked ops ev e1 t k) (good t0)"
    using l1 tail [OF l1] unfolding established_acked_def
    by (auto simp: runs_bind intro!: tail offer_good acked_send_law ask_live [OF l1 acked_law] obey_good)
  have "in_established ops ev h data (len - hd_len h) e t =
      (if m_ackdata e1 \<or> m_newdata e1 then established_acked ops ev e1 t k else Some (Ok, e1, t))"
    using False unfolding in_established_def k_def e1_def plen_def urg_def by (simp only: if_False Let_def)
  then show ?thesis
    using main l1 live_good by simp
qed

lemma notify_good:
  assumes "live t0 e t" and "\<And>h. hinv h \<Longrightarrow> runs (f e h) (\<lambda>(opts, cookie, h'). hinv h')"
  shows "runs (notify f e t) (\<lambda>x. good t0 (Ok, x))"
  by (rule notify_live [OF assms(1)]) (auto intro: assms(2) live_good)

lemma in_last_ack_good:
  assumes l: "live t0 e t"
  shows "runs (in_last_ack ops ev e t) (good t0)"
proof (cases "m_ackdata e")
  case True
  have "live t0 (e\<lparr>m_state := CLOSED\<rparr>) (t_unlisten ops (m_lport e) t)"
    by (rule live_upd [OF live_unlisten [OF l]]) simp_all
  from notify_good [OF this closed_law] show ?thesis
    using True by (simp add: in_last_ack_def Let_def runs_bind split_def)
qed (use l in \<open>simp add: in_last_ack_def live_good\<close>)

lemma live_state:
  assumes "live t0 e t"
  shows "live t0 (take_data n e) t" "live t0 (flag_data h n e) t" "live t0 (e\<lparr>m_state := s\<rparr>) t"
    "live t0 (e\<lparr>m_state := s, m_timer := x\<rparr>) t" "live t0 (e\<lparr>m_rcv_nxt := r\<rparr>) t"
    "live t0 (e\<lparr>m_state := s, m_rcv_nxt := r, m_timer := x\<rparr>) t" "live t0 (e\<lparr>m_timer := x\<rparr>) t"
    "live t0 (clear_data_state e) t"
  by (auto intro!: live_upd [OF assms] simp: take_data_def flag_data_def clear_data_state_def)

lemma notify_ack_good:
  assumes "live t0 e t"
  shows "runs (do { (e, t) \<leftarrow> notify (h_closed ev) e t; sendAck ops e t }) (good t0)"
  unfolding runs_bind by (rule notify_live [OF assms closed_law]) (auto intro: sendAck_good)

lemma in_fin_wait_good:
  assumes l: "live t0 e t"
  shows "runs (in_fin_wait_1 ops ev h plen e t) (good t0)" and "runs (in_fin_wait_2 ops ev h plen e t) (good t0)"
  using l unfolding in_fin_wait_1_def in_fin_wait_2_def Let_def
  by (auto intro!: notify_ack_good live_state sendAck_good live_good)

lemma in_close_good:
  assumes l: "live t0 e t"
  shows "runs (in_close ops h plen e t) (good t0)"
proof (cases "hasOutstandingSegments e")
  case False
  have "hasAvailableSegments (e\<lparr>m_state := FIN_WAIT_1\<rparr>)"
    using no_outstanding_available [OF live_length [OF l]] False by (simp add: hasAvailableSegments_def)
  from claim_fin_good [OF live_state(3) [OF l] this, of "\<lambda>e. if plen > 0 then flag_data h plen e else e"]
  show ?thesis
    using False by (simp add: in_close_def Let_def flag_data_def)
qed (use l in \<open>simp add: in_close_def live_good\<close>)

lemma process_state_good:
  assumes "live t0 e t" and "segment_wf h len data"
  shows "runs (process_state ops ev h data (len - hd_len h) e t) (good t0)"
  using in_syn_rcvd_good [OF assms] in_syn_sent_good [OF assms] in_established_good [OF assms]
    in_last_ack_good [OF assms(1)] in_fin_wait_good [OF assms(1)] in_close_good [OF assms(1)]
    sendAck_good [OF assms(1)] live_good [OF assms(1)] live_good [OF live_state(4) [OF assms(1)]]
  by (cases "m_state e") (simp_all add: process_state_def in_closing_def)

lemma process_conn_good:
  assumes l: "live t0 e t" and w: "segment_wf h len data"
  shows "runs (process_conn ops ev h len data e t) (good t0)"
proof -
  note l1 = live_state(8) [OF l]
  let ?e = "clear_data_state e"
  show ?thesis
  proof (cases "hd_has h TCP_RST")
    case True
    have "live t0 (?e\<lparr>m_state := CLOSED\<rparr>) (t_unlisten ops (m_lport ?e) t)"
      by (intro live_state live_unlisten) (rule l)
    from notify_good [OF this aborted_law] show ?thesis
      using True by (simp add: process_conn_def Let_def runs_bind split_def)
  next
    case False
    have scan: "runs (case ack_scan 16 (hd_ack h) (hd_wnd h) ?e of
           (AckRexmit, e) \<Rightarrow> rexmit ops e t
         | (AckPartial, e) \<Rightarrow> process_state ops ev h data (len - hd_len h) e (count_ackerr t)
         | (AckDone, e) \<Rightarrow> process_state ops ev h data (len - hd_len h) e t) (good t0)"
    proof -
      obtain r e' where r: "ack_scan 16 (hd_ack h) (hd_wnd h) ?e = (r, e')"
        by (cases "ack_scan 16 (hd_ack h) (hd_wnd h) ?e")
      have "live t0 e' t"
        using l1 ack_scan_keeps [OF r, of hr nmss "t_mem t"] by (auto simp: live_def conn_ok_def)
      then show ?thesis
        using w by (cases r) (auto simp: r count_ackerr_def intro: rexmit_good process_state_good live_stats)
    qed
    then show ?thesis
      using False sendAck_good [OF l1] process_state_good [OF l1 w]
      by (simp add: process_conn_def Let_def)
  qed
qed

end

section \<open>The invariant of the processor\<close>

definition tcp_ok :: "nat \<Rightarrow> nat \<Rightarrow> ('d, 'h) tcp \<Rightarrow> bool" where
  "tcp_ok hr n t \<longleftrightarrow> unat (t_mss t) = n - 54 \<and> list_all (conn_ok hr n (t_mem t)) (t_conns t)"

text \<open>
  A connection record that is taken into use again needs a free segment, since neither the closing
  nor the opening of a connection frees the segments that are still outstanding.
\<close>

definition reusable :: "conn list \<Rightarrow> bool" where
  "reusable conns \<longleftrightarrow>
     list_all (\<lambda>e. m_state e = CLOSED \<or> m_state e = TIME_WAIT \<longrightarrow> hasAvailableSegments e) conns"

lemma tcp_ok_nth: "tcp_ok hr n t \<Longrightarrow> k < length (t_conns t) \<Longrightarrow> conn_ok hr n (t_mem t) (t_conns t ! k)"
  by (simp add: tcp_ok_def list_all_length)

lemma tcp_ok_mono:
  assumes "tcp_ok hr n t" and "mem_le (t_mem t) (t_mem t')" and "t_mss t' = t_mss t" and "t_conns t' = t_conns t"
  shows "tcp_ok hr n t'"
  using assms by (auto simp: tcp_ok_def list_all_iff intro: conn_ok_mono)

lemma tcp_ok_set_conn:
  assumes "tcp_ok hr n t" and "conn_ok hr n (t_mem t) e"
  shows "tcp_ok hr n (set_conn k e t)"
  using assms by (auto simp: tcp_ok_def set_conn_def list_all_iff dest: set_update_subset_insert [THEN subsetD])

lemma oldest_waiting_Some:
  "oldest_waiting conns is best = Some k \<Longrightarrow> k \<in> set is \<and> m_state (conns ! k) = TIME_WAIT \<or> best = Some k"
  by (induction conns "is" best rule: oldest_waiting.induct) (auto simp: Let_def split: if_splits)

lemma alloc_process_Some:
  "alloc_process conns = Some k \<Longrightarrow> k < length conns \<and> (m_state (conns ! k) = CLOSED \<or> m_state (conns ! k) = TIME_WAIT)"
  by (auto simp: alloc_process_def split: option.splits dest: first_index_Some oldest_waiting_Some)

lemma alloc_connect_Some:
  "alloc_connect conns is best = Some k \<Longrightarrow>
   k \<in> set is \<and> (m_state (conns ! k) = CLOSED \<or> m_state (conns ! k) = TIME_WAIT) \<or> best = Some k"
  by (induction conns "is" best rule: alloc_connect.induct) (auto simp: Let_def split: if_splits)

lemma reusable_nth:
  "reusable conns \<Longrightarrow> k < length conns \<Longrightarrow> m_state (conns ! k) = CLOSED \<or> m_state (conns ! k) = TIME_WAIT \<Longrightarrow>
   hasAvailableSegments (conns ! k)"
  by (auto simp: reusable_def list_all_length)

context tcp_app
begin

definition tcp_inv :: "('d, 'h) tcp \<Rightarrow> bool" where
  "tcp_inv t \<longleftrightarrow> tinv t \<and> hinv (t_handler t) \<and> tcp_ok hr nmss t"

lemma inv_live:
  assumes "tcp_inv t" and "k < length (t_conns t)" and "m_state (t_conns t ! k) \<noteq> CLOSED"
  shows "live t (t_conns t ! k) t"
  using assms tcp_ok_nth [of hr nmss t k] by (auto simp: live_def tcp_inv_def conn_ok_def tcp_ok_def)

lemma good_inv:
  assumes "tcp_inv t0" and "good t0 (st, e, t)"
  shows "tcp_inv (set_conn k e t)"
proof -
  have k: "keeps t0 t" and c: "conn_ok hr nmss (t_mem t) e"
    using assms(2) by (auto simp: good_def)
  have "tcp_ok hr nmss t"
    by (rule tcp_ok_mono [of hr nmss t0]) (use assms(1) keeps_mem [OF k] keeps_sel [OF k] in \<open>auto simp: tcp_inv_def\<close>)
  from tcp_ok_set_conn [OF this c] show ?thesis
    using assms by (auto simp: tcp_inv_def good_def set_conn_def)
qed

lemma inv_net:
  assumes "tcp_inv t" and "net_only t t'" and "tinv t'"
  shows "tcp_inv t'"
  using assms net_only_sel [OF assms(2)] net_only_mem [OF assms(2)]
  by (auto simp: tcp_inv_def intro: tcp_ok_mono)

lemma inv_stats: "tcp_inv t \<Longrightarrow> tcp_inv (on_stats f t)"
  by (rule inv_net [of t]) (auto simp: on_stats_def net_only_def tcp_inv_def)

lemma address_peer_sel [simp]:
  "t_conns (address_peer hw ip t) = t_conns t" "t_iss (address_peer hw ip t) = t_iss t"
  "t_mss (address_peer hw ip t) = t_mss t" "(address_peer hw ip t)\<lparr>t_net := n\<rparr> = t\<lparr>t_net := n\<rparr>"
  "t_ports (address_peer hw ip t) = t_ports t" "t_handler (address_peer hw ip t) = t_handler t"
  by (simp_all add: address_peer_def on_net_def)

text \<open>Every allocation of a frame by the processor on its own behalf.\<close>

lemma prepare_inv:
  assumes "tcp_inv t"
    and "\<And>p n. tcp_inv (t\<lparr>t_net := n\<rparr>) \<Longrightarrow> net_only t (t\<lparr>t_net := n\<rparr>) \<Longrightarrow> buf_ok hr nmss (n_mem n) p \<Longrightarrow> Q (Ok, p, n)"
  shows "runs (ip_prepare ops (t_net (address_peer hw ip t))) Q"
proof (rule runs_mono [OF ip_prepare_total], goal_cases)
  case 1
  then show ?case
    using assms(1) by (simp add: tcp_inv_def address_peer_def on_net_def eth_setDest_def ip_setDest_def ip_setProtocol_def)
next
  case (3 r)
  obtain st p n where r: "r = (st, p, n)" by (cases r)
  have n: "net_only t (t\<lparr>t_net := n\<rparr>)" "dinv (n_mem n) (n_dev n)"
    using 3(2) r by (auto simp: net_only_def address_peer_def on_net_def eth_setDest_def ip_setDest_def ip_setProtocol_def)
  have "tcp_inv (t\<lparr>t_net := n\<rparr>)"
    by (rule inv_net [OF assms(1) n(1)]) (simp add: n(2))
  then show ?case
    using 3(2) r n assms(2) by (auto simp: buf_ok_def)
qed (use nmss_lo in simp)

lemma process_matched:
  assumes "tcp_inv t" and "first_index (matches rx h) (t_conns t) = Some k" and "segment_wf h len data"
  shows "runs (do { (st, e, t) \<leftarrow> process_conn ops ev h len data (t_conns t ! k) t; Some (st, set_conn k e t) })
    (\<lambda>(st, t'). tcp_inv t')"
proof -
  have "live t (t_conns t ! k) t"
    using first_index_Some [OF assms(2)] by (intro inv_live [OF assms(1)]) (auto simp: matches_def)
  from process_conn_good [OF this assms(3)] show ?thesis
    unfolding runs_bind by (rule runs_mono) (use good_inv [OF assms(1)] in auto)
qed

text \<open>The stores of a control segment into a fresh buffer, then its transmission.\<close>

lemma tcp_reset_inv:
  assumes "tcp_inv t"
  shows "runs (tcp_reset ops rx h t) (\<lambda>(st, t'). tcp_inv t')"
  unfolding tcp_reset_def Let_def runs_bind
proof (rule prepare_inv [OF assms], goal_cases)
  case (1 p n)
  let ?t = "on_stats (\<lambda>s. s\<lparr>st_rst := st_rst s + 1\<rparr>) (t\<lparr>t_net := n\<rparr>)"
  have inv: "tcp_inv ?t"
    by (rule inv_stats [OF 1(1)])
  have v: "valid (t_mem ?t) p (nmss - 34)" "20 \<le> nmss - 34"
    using 1(3) nmss_lo by (auto simp: on_stats_def dest: buf_ok_valid)
  have send: "runs (send_raw ops (rx_src rx) 20 mss p (t_set_mem m ?t)) (\<lambda>(st, t'). tcp_inv t')"
    if "valid m = valid (t_mem ?t)" for m mss
  proof (rule runs_mono [OF send_raw_runs])
    have "net_only ?t (t_set_mem m ?t)"
      by (rule net_only_set_mem [OF mem_leI [OF that]])
    moreover show "tinv (t_set_mem m ?t)"
      using inv that by (auto simp: tcp_inv_def intro: dinv_valid)
    ultimately have i: "tcp_inv (t_set_mem m ?t)"
      by (rule inv_net [OF inv])
    show "buf_ok hr nmss (t_mem (t_set_mem m ?t)) p"
      using 1(3) that by (auto simp: on_stats_def intro: buf_ok_mono mem_leI)
    fix x assume "(case x of (st, t') \<Rightarrow> st = Ok \<and> net_only (t_set_mem m ?t) t' \<and> tinv t')"
    then show "case x of (st, t') \<Rightarrow> tcp_inv t'"
      using inv_net [OF i] by auto
  qed (use nmss_lo in auto)
  have "runs (do { t1 \<leftarrow> set_flags p TCP_RST ?t; t2 \<leftarrow> set_offset p 5 t1; t3 \<leftarrow> tst32 p 4 (htonl (hd_ack h)) t2;
      t4 \<leftarrow> tst32 p 8 (htonl (hd_seq h + 1)) t3; t5 \<leftarrow> tst16 p 0 (hd_dst h) t4; t6 \<leftarrow> tst16 p 2 (hd_src h) t5;
      send_raw ops (rx_src rx) 20 (ucast (d_mtu ops (t_dev t6) - HEADER_OVERHEAD)) p t6 }) (\<lambda>(st, t'). tcp_inv t')"
    unfolding runs_bind
    by (intro runs_flags [where n = "nmss - 34"] runs_tst [where n = "nmss - 34"]) (use v send in auto)
  then show ?case
    using 1(1) by (simp add: runs_bind)
qed

text \<open>A connection record taken into use: the SYN or SYN/ACK goes out of its first segment.\<close>

lemma open_conn:
  assumes inv: "tcp_inv t" and segs: "segs_ok hr nmss (t_mem t) e" and p: "buf_ok hr nmss (t_mem t) p"
    and e: "m_segments e' = m_segments (upd_seg i (segment_set 1 seq p) e)" "m_slen e' = 0" "m_wndscl e' \<le> 14" "i < 16"
  shows "runs (sendSynAck ops e' i t) (\<lambda>(st, e2, t2). st = Ok \<and> tcp_inv (set_conn k e2 t2))"
    and "runs (do { t \<leftarrow> set_flags p 0 t; sendSyn ops e' i t }) (\<lambda>(st, e2, t2). st = Ok \<and> tcp_inv (set_conn k e2 t2))"
proof -
  have dat: "s_dat (m_segments e' ! i) = p"
    using e(1,4) segs by (simp add: upd_seg_def segment_set_def segs_ok_def)
  have ok: "segs_ok hr nmss (t_mem t) e'"
    using segs_ok_upd [OF segs, of "segment_set 1 seq p" i] p nmss_lo
    by (simp add: segs_ok_same [OF e(1)] seg_ok_def segment_set_def)
  have post: "runs m (\<lambda>(st, e2, t2). st = Ok \<and> tcp_inv (set_conn k e2 t2))" if m: "runs m (sent (advance i e') t)" for m
  proof (rule runs_mono [OF sent_advance_served [OF m ok]])
    fix x assume x: "case x of (st, e2, t2) \<Rightarrow> st = Ok \<and> net_only t t2 \<and> tinv t2 \<and> conn_ok hr nmss (t_mem t2) e2 \<and> m_state e2 = m_state e'"
    then obtain st e2 t2 where x2: "x = (st, e2, t2)" "st = Ok" "net_only t t2" "tinv t2" "conn_ok hr nmss (t_mem t2) e2"
      by (cases x) auto
    have "tcp_inv t2"
      by (rule inv_net [OF inv x2(3,4)])
    then have "tcp_inv (set_conn k e2 t2)"
      using tcp_ok_set_conn x2(5) by (auto simp: tcp_inv_def set_conn_def)
    then show "case x of (st, e2, t2) \<Rightarrow> st = Ok \<and> tcp_inv (set_conn k e2 t2)"
      using x2 by simp
  qed (use e in auto)
  show "runs (sendSynAck ops e' i t) (\<lambda>(st, e2, t2). st = Ok \<and> tcp_inv (set_conn k e2 t2))"
    by (rule post, rule sendSynAck_runs) (use inv p dat in \<open>auto simp: tcp_inv_def\<close>)
  show "runs (do { t \<leftarrow> set_flags p 0 t; sendSyn ops e' i t }) (\<lambda>(st, e2, t2). st = Ok \<and> tcp_inv (set_conn k e2 t2))"
  proof (rule post, rule runs_prep(1))
    show "tinv t"
      using inv by (simp add: tcp_inv_def)
    fix t1 :: "('d, 'h) tcp" assume "tinv t1" "buf_ok hr nmss (t_mem t1) p"
    then show "runs (sendSyn ops e' i t1) (sent (advance i e') t1)"
      by (intro sendSyn_runs) (simp_all add: dat)
  qed (rule p)
qed

lemma tcp_accept_inv:
  assumes inv: "tcp_inv t" and k: "k < length (t_conns t)" and a: "hasAvailableSegments (t_conns t ! k)"
    and w: "segment_wf h len data"
  shows "runs (tcp_accept ops rx h data k t) (\<lambda>(st, t'). tcp_inv t')"
  unfolding tcp_accept_def Let_def runs_bind
proof (rule prepare_inv [OF inv], goal_cases)
  case (1 p n)
  let ?t = "t\<lparr>t_net := n\<rparr>"
  let ?e = "accept_conn rx h (t_iss t) (ucast (d_mtu ops (t_dev ?t) - HEADER_OVERHEAD)) (t_conns t ! k)"
  have segs: "segs_ok hr nmss (t_mem ?t) ?e"
    using tcp_ok_nth [of hr nmss ?t k] 1(1) k by (auto simp: tcp_inv_def conn_ok_def segs_ok_def accept_conn_def)
  have "hasAvailableSegments ?e" "length (m_segments ?e) = 16"
    using a segs by (auto simp: hasAvailableSegments_def accept_conn_def segs_ok_def)
  then obtain i where i: "i < 16" "nextAvailableSegment ?e = Some i"
    using nextAvailable_Some by blast
  obtain e' where e': "parse_options (upd_seg i (segment_set 1 (m_snd_nxt ?e) p) ?e) h data = Some e'"
    "same_but_mss_window (upd_seg i (segment_set 1 (m_snd_nxt ?e) p) ?e) e'"
    using parse_options_wf [OF w] by blast
  have "runs (sendSynAck ops e' i ?t) (\<lambda>(st, e2, t2). st = Ok \<and> tcp_inv (set_conn k e2 t2))"
    by (rule open_conn(1) [OF 1(1) segs]) (use 1 i same_but_sel [OF e'(2)] in \<open>auto simp: accept_conn_def upd_seg_def\<close>)
  then show ?case
    using i(2) e'(1) by (simp add: runs_bind) (auto elim!: runs_mono)
qed

lemma tcp_process_inv:
  assumes inv: "tcp_inv t" and len: "unat len \<le> length data" and hdr: "read_header data = Some h"
    and wf: "segment_wf h len data" and re: "reusable (t_conns t)"
  shows "runs (tcp_process ops ev rx len data t) (\<lambda>(st, t'). tcp_inv t')"
proof -
  obtain c where c: "tcpv4_checksum (rx_src rx) (rx_dst rx) len data = Some c"
    using tcpv4_checksum_runs [OF len] by blast
  let ?t = "on_stats (\<lambda>s. s\<lparr>st_recv := st_recv s + 1\<rparr>) t"
  have i: "tcp_inv ?t" and conns: "t_conns ?t = t_conns t"
    using inv_stats [OF inv] by (auto simp: on_stats_def)
  have acc: "runs (tcp_accept ops rx h data k ?t) (\<lambda>(st, t'). tcp_inv t')" if "alloc_process (t_conns t) = Some k" for k
    using alloc_process_Some [OF that] reusable_nth [OF re] conns by (intro tcp_accept_inv [OF i _ _ wf]) auto
  show ?thesis
  proof (cases "first_index (matches rx h) (t_conns t)")
    case (Some k)
    with process_matched [OF i, of rx h k len data] show ?thesis
      using i wf inv_stats conns by (simp add: tcp_process_def Let_def c hdr)
  next
    case None
    then show ?thesis
      using i conns by (auto simp: tcp_process_def Let_def c hdr split: option.split
          intro: inv_stats tcp_reset_inv acc)
  qed
qed

lemma run_conn_good:
  assumes "m_state e \<noteq> CLOSED \<Longrightarrow> live t e t" and "conn_ok hr nmss (t_mem t) e" and "tcp_inv t"
  shows "runs (run_conn ops ev e t) (\<lambda>(r, e', t'). good t (Ok, e', t'))"
proof (cases "m_state e = CLOSED")
  case True
  then show ?thesis
    using assms(2,3) by (simp add: run_conn_def good_def tcp_inv_def)
next
  case False
  obtain closed e1 t1 where w: "run_waiting ops e t = (closed, e1, t1)"
    by (cases "run_waiting ops e t")
  have l1: "live t e1 t1"
    using assms(1) [OF False] w
    by (auto simp: run_waiting_def Let_def split: if_splits intro!: live_unlisten intro: live_upd)
  let ?e = "e1\<lparr>m_timer := m_timer e1 - 1\<rparr>"
  have l2: "live t ?e t1" "live t (backoff ?e) t1"
    by (auto intro!: live_upd [OF l1] simp: backoff_def)
  have abort: "runs (do { (st, e, t) \<leftarrow> sendAbort ops e2 t2; Some (Some st, e, t) }) (\<lambda>(r, e', t'). good t (Ok, e', t'))"
    if "live t e2 t2" for e2 t2
    unfolding runs_bind by (rule runs_mono [OF sendAbort_good [OF that]]) (auto simp: good_def)
  have "runs (do { (e, t) \<leftarrow> notify (h_timedout ev) ?e t1; (st, e, t) \<leftarrow> sendAbort ops e t; Some (Some st, e, t) })
      (\<lambda>(r, e', t'). good t (Ok, e', t'))"
    by (subst runs_bind, rule notify_live [OF l2(1) timedout_law]) (simp_all only: prod.case abort)
  moreover have "runs (do { (st, e, t) \<leftarrow> rexmit ops (backoff ?e) t1; Some (Some st, e, t) })
      (\<lambda>(r, e', t'). good t (Ok, e', t'))"
    unfolding runs_bind by (rule runs_mono [OF rexmit_good [OF l2(2)]]) (auto simp: good_def)
  ultimately show ?thesis
    using False live_good [OF l1] live_good [OF l2(1)] by (simp add: run_conn_def w Let_def)
qed

lemma run_scan_inv:
  assumes "tcp_inv t" and "set is \<subseteq> {0..<length (t_conns t)}"
  shows "runs (run_scan ops ev is t) (\<lambda>(st, t'). tcp_inv t')"
  using assms
proof (induction "is" arbitrary: t)
  case (Cons i "is")
  let ?e = "t_conns t ! i"
  have i: "i < length (t_conns t)"
    using Cons.prems(2) by auto
  have "runs (run_conn ops ev ?e t) (\<lambda>(r, e', t'). good t (Ok, e', t'))"
    using Cons.prems(1) inv_live [OF Cons.prems(1) i] tcp_ok_nth [of hr nmss t i] i
    by (intro run_conn_good) (auto simp: tcp_inv_def)
  then show ?case
    unfolding run_scan.simps runs_bind
  proof (rule runs_mono, clarify)
    fix r e' t' assume g: "good t (Ok, e', t')"
    have inv: "tcp_inv (set_conn i e' t')"
      by (rule good_inv [OF Cons.prems(1) g])
    have "length (t_conns (set_conn i e' t')) = length (t_conns t)"
      using g keeps_sel(4) by (force simp: good_def set_conn_def)
    then show "runs (let t = set_conn i e' t' in case r of None \<Rightarrow> run_scan ops ev is t | Some st \<Rightarrow> Some (st, t))
        (\<lambda>(st, t'). tcp_inv t')"
      using Cons.IH [OF inv] inv Cons.prems(2) by (cases r) (auto simp: Let_def)
  qed
qed simp

lemma tcp_run_inv:
  assumes "tcp_inv t"
  shows "runs (tcp_run ops ev now now' t) (\<lambda>(st, t'). tcp_inv t')"
proof -
  have "tcp_inv (t\<lparr>t_timer := timer_reset now' (t_timer t), t_iss := t_iss t + 1\<rparr>)"
    using assms by (simp add: tcp_inv_def tcp_ok_def)
  from run_scan_inv [OF this, of "[0..<length (t_conns t)]"] show ?thesis
    using assms by (auto simp: tcp_run_def)
qed

lemma good_runs_inv:
  assumes "tcp_inv t" and "runs m (good t)"
  shows "runs (do { (st, e, t) \<leftarrow> m; Some (st, set_conn k e t) }) (\<lambda>(st, t'). tcp_inv t')"
  unfolding runs_bind by (rule runs_mono [OF assms(2)]) (use good_inv [OF assms(1)] in \<open>auto simp: good_def\<close>)

lemma flags_live:
  assumes "live t0 e t" and "\<And>t'. live t0 e t' \<Longrightarrow> runs (g t') Q"
  shows "runs (set_flags (m_sdat e) f t \<bind> g) Q"
  unfolding runs_bind
proof (rule runs_flags(1) [where n = "nmss - 34"])
  show "valid (t_mem t) (m_sdat e) (nmss - 34)"
    using assms(1) by (auto simp: live_def intro: buf_ok_valid)
  fix m assume m: "valid m = valid (t_mem t)"
  have "net_only t (t_set_mem m t)"
    by (rule net_only_set_mem [OF mem_leI [OF m]])
  then have "live t0 e (t_set_mem m t)"
    by (rule live_net [OF assms(1)])
      (use assms(1) m in \<open>auto simp: live_def intro: dinv_valid conn_ok_mono buf_ok_mono mem_leI\<close>)
  then show "runs (g (t_set_mem m t)) Q"
    by (rule assms(2))
qed (use nmss_lo in simp)

lemma tcp_abort_inv:
  assumes inv: "tcp_inv t" and a: "unat cid < length (t_conns t) \<Longrightarrow> m_state (t_conns t ! unat cid) \<noteq> CLOSED"
  shows "runs (tcp_abort ops ev cid t) (\<lambda>(st, t'). tcp_inv t')"
proof (cases "length (t_conns t) \<le> unat cid")
  case False
  let ?c = "t_conns t ! unat cid"
  have l: "live t ?c t"
    using False a by (intro inv_live [OF inv]) auto
  have "live t (?c\<lparr>m_state := CLOSED\<rparr>) (t_unlisten ops (m_lport ?c) t)"
    by (intro live_state live_unlisten l)
  then have "runs (do { (c, t) \<leftarrow> notify (h_aborted ev) (?c\<lparr>m_state := CLOSED\<rparr>) (t_unlisten ops (m_lport ?c) t);
      t \<leftarrow> set_flags (m_sdat c) 0 t; sendAbort ops c t }) (good t)"
    unfolding runs_bind
    by (rule notify_live [OF _ aborted_law]) (auto simp: runs_bind [symmetric] intro!: flags_live sendAbort_good)
  from good_runs_inv [OF inv this, of "unat cid"] show ?thesis
    using False by (simp add: tcp_abort_def Let_def split_def)
qed (use inv in \<open>simp add: tcp_abort_def\<close>)

lemma tcp_close_inv:
  assumes inv: "tcp_inv t"
  shows "runs (tcp_close ops cid t) (\<lambda>(st, t'). tcp_inv t')"
proof (cases "length (t_conns t) \<le> unat cid \<or> m_state (t_conns t ! unat cid) \<noteq> ESTABLISHED")
  case False
  let ?c = "t_conns t ! unat cid"
  have l: "live t ?c t"
    using False by (intro inv_live [OF inv]) auto
  have "runs (do { t \<leftarrow> set_flags (m_sdat ?c) 0 t; sendClose ops ?c t }) (good t)"
    by (intro flags_live [OF l] sendClose_good)
  from good_runs_inv [OF inv this, of "unat cid"] good_inv [OF inv live_good [OF live_state(3) [OF l]]]
  show ?thesis
    using False by (auto simp: tcp_close_def Let_def)
qed (use inv in \<open>auto simp: tcp_close_def Let_def\<close>)

lemma send_size_le:
  assumes "\<not> bound < ucast (m_slen c)" and "unat (m_slen c) + unat n < 2 ^ 32"
  shows "unat (send_size c bound n) \<le> unat n \<and> unat (m_slen c) + unat (send_size c bound n) \<le> unat bound"
proof -
  have le: "unat (m_slen c) \<le> unat bound"
    using assms(1) by (simp add: word_less_nat_alt unat_slen not_less)
  have sub: "unat (bound - ucast (m_slen c)) = unat bound - unat (m_slen c)"
    using le by (subst unat_sub) (auto simp: word_le_nat_alt unat_slen)
  have add: "unat (ucast (m_slen c) + n) = unat (m_slen c) + unat n"
    using assms(2) by (simp add: unat_word_ariths unat_slen)
  show ?thesis
    using sub le add by (auto simp: send_size_def word_less_nat_alt)
qed

lemma send_copy_live:
  assumes l: "live t0 c t" and fit: "unat (m_slen c) + unat slen \<le> nmss - 54" and d: "unat off + unat slen \<le> length data"
    and q: "\<And>off' c' t'. live t0 c' t' \<Longrightarrow> m_segments c' = m_segments c \<Longrightarrow> Q (off', c', t')"
  shows "runs (send_copy c data off slen t) Q"
proof (cases "slen = 0")
  case False
  let ?bs = "take (unat slen) (drop (unat off) data)"
  let ?c = "c\<lparr>m_slen := m_slen c + ucast slen\<rparr>"
  have "valid (t_mem t) (m_sdat c) (nmss - 34)"
    using l by (auto simp: live_def intro: buf_ok_valid)
  then obtain m where m: "mem_write (t_mem t) (ptr_add (m_sdat c) (20 + unat (m_slen c))) ?bs = Some m" "valid m = valid (t_mem t)"
    using fit nmss_lo d by (simp add: mem_write_valid(2) [where n = "nmss - 34"])
  have c1: "live t0 ?c t"
    using l slen_add [OF fit] fit by (simp add: live_def conn_ok_def segs_ok_def)
  have "live t0 ?c (t_set_mem m t)"
    by (rule live_net [OF c1 net_only_set_mem [OF mem_leI [OF m(2)]]])
      (use c1 m(2) in \<open>auto simp: live_def intro: dinv_valid conn_ok_mono buf_ok_mono mem_leI\<close>)
  then show ?thesis
    using False m(1) d q by (simp add: send_copy_def)
qed (use l q in \<open>simp add: send_copy_def\<close>)

lemma tcp_send_inv:
  assumes inv: "tcp_inv t" and len: "unat len + 2 ^ 24 \<le> 2 ^ 32" and d: "\<forall>bs. data = Some bs \<longrightarrow> unat len \<le> length bs"
  shows "runs (tcp_send ops cid len data off t) (\<lambda>(st, off', t'). tcp_inv t')"
proof (cases "length (t_conns t) \<le> unat cid \<or> m_state (t_conns t ! unat cid) \<noteq> ESTABLISHED \<or> data = None \<or> off \<ge> len")
  case True
  then show ?thesis
    using inv by (auto simp: tcp_send_def Let_def split: option.split)
next
  case False
  let ?c = "t_conns t ! unat cid"
  obtain bs where bs: "data = Some bs" "unat len \<le> length bs"
    using False d by auto
  have l: "live t ?c t"
    using False by (intro inv_live [OF inv]) auto
  have off: "unat off < unat len" "unat (len - off) = unat len - unat off"
    using False by (auto simp: word_le_nat_alt unat_sub)
  have small: "unat (m_slen ?c) + unat (len - off) < 2 ^ 32"
    using l len off nmss_hi by (auto simp: live_def conn_ok_def)
  have b: "unat (send_bound ?c t) \<le> nmss - 54"
    using l by (intro send_bound_le) (simp add: live_def)
  let ?n = "send_size ?c (send_bound ?c t) (len - off)"
  have tail: "runs (do { (off, c, t) \<leftarrow> send_copy ?c bs off ?n t;
      if \<not> hasAvailableSegments c then Some (if ?n = 0 then OperationInProgress else Ok, off, set_conn (unat cid) c t)
      else do {
        (st, c, t) \<leftarrow> (if has_nodelay c then sendNoDelay ops c (if off = len then TCP_PSH else 0) t
                       else sendNagle ops c (send_bound ?c t0) t);
        Some (st, off, set_conn (unat cid) c t) } }) (\<lambda>(st, off', t'). tcp_inv t')"
    if "\<not> send_bound ?c t < ucast (m_slen ?c)" and "t0 = t" for t0
    unfolding runs_bind
  proof (rule send_copy_live [OF l], goal_cases)
    case (3 off' c' t')
    have nagle: "runs (sendNagle ops c' bd t') (good t)" if "hasAvailableSegments c'" for bd
      by (rule served_good [OF runs_mono [OF sendNagle_runs] 3(1)]) (use 3 that in \<open>auto simp: live_def\<close>)
    show ?case
      using good_inv [OF inv live_good [OF 3(1)]] good_inv [OF inv]
      by (auto simp: runs_bind intro!: runs_mono [OF nagle] runs_mono [OF sendNoDelay_good [OF 3(1)]] simp: good_def)
  qed (use send_size_le [OF that(1) small] b off bs in auto)
  show ?thesis
    using False bs(1) inv tail by (auto simp: tcp_send_def Let_def)
qed

lemma tcp_connect_inv:
  assumes inv: "tcp_inv t" and port: "choose_port (t_conns t) readings \<noteq> None" and re: "reusable (t_conns t)"
  shows "runs (tcp_connect ops hw ip rport readings t) (\<lambda>(st, id, t'). tcp_inv t')"
  unfolding tcp_connect_def Let_def runs_bind
proof (rule prepare_inv [OF inv], goal_cases)
  case (1 p n)
  obtain lport where lport: "choose_port (t_conns t) readings = Some lport"
    using port by blast
  let ?t = "t\<lparr>t_net := n\<rparr>"
  show ?case
  proof (cases "alloc_connect (t_conns t) [0..<length (t_conns t)] None")
    case None
    then show ?thesis
      using 1(1) lport by simp
  next
    case (Some k)
    then have k: "k < length (t_conns t)" "hasAvailableSegments (t_conns t ! k)"
      using alloc_connect_Some [OF Some] reusable_nth [OF re] by auto
    obtain st d where l: "d_listen ops lport (n_dev n) = (st, d)"
      by (cases "d_listen ops lport (n_dev n)")
    let ?t2 = "on_net (\<lambda>n. n\<lparr>n_dev := d\<rparr>) ?t"
    have inv2: "tcp_inv ?t2"
      by (rule inv_net [OF 1(1)]) (use 1(1) dinv_listen [of "n_mem n" "n_dev n" lport] l in
          \<open>auto simp: on_net_def net_only_def tcp_inv_def\<close>)
    let ?e = "connect_conn hw ip lport rport (t_iss t) (ucast (d_mtu ops d - HEADER_OVERHEAD)) (t_conns t ! k)"
    have segs: "segs_ok hr nmss (t_mem ?t2) ?e"
      using tcp_ok_nth [of hr nmss ?t2 k] inv2 k(1)
      by (auto simp: tcp_inv_def conn_ok_def segs_ok_def connect_conn_def on_net_def)
    have "hasAvailableSegments ?e" "length (m_segments ?e) = 16"
      using k(2) segs by (auto simp: hasAvailableSegments_def connect_conn_def segs_ok_def)
    then obtain i where i: "i < 16" "nextAvailableSegment ?e = Some i"
      using nextAvailable_Some by blast
    let ?e2 = "upd_seg i (segment_set 1 (m_snd_nxt ?e) p) ?e"
    have "runs (do { t \<leftarrow> set_flags p 0 ?t2; sendSyn ops ?e2 i t }) (\<lambda>(st, e2, t2). st = Ok \<and> tcp_inv (set_conn k e2 t2))"
      by (rule open_conn(2) [OF inv2 segs]) (use 1(3) i in \<open>auto simp: upd_seg_def connect_conn_def on_net_def\<close>)
    then show ?thesis
      using lport Some l i(2) inv2
      by (simp add: on_net_def runs_bind) (auto simp: split_def elim!: runs_mono)
  qed
qed

end

end
