(* ===== verification/TcpStates.thy ===== *)
theory TcpStates
  imports TcpRxSafe
begin

text \<open>
  The state machine of a connection. The sending functions change nothing of a connection but what
  belongs to sending, on any device and with any outcome; from that follows which changes of state
  each entry point of the processor can make, stated as one step of the relation \<open>tcp_step\<close>.
\<close>

section \<open>What sending leaves alone\<close>

definition core :: "conn \<Rightarrow> conn" where
  "core e = e\<lparr>m_snd_nxt := 0, m_slen := 0, m_sdat := Null,
     m_segments := replicate (length (m_segments e)) segment_empty\<rparr>"

definition tcore :: "('d, 'h) tcp \<Rightarrow> conn list \<times> 'h \<times> u32 \<times> u16 set \<times> u32 \<times> timer" where
  "tcore t = (t_conns t, t_handler t, t_mss t, t_ports t, t_iss t, t_timer t)"

text \<open>\<open>tx e t\<close>: the result differs from \<open>e\<close> and \<open>t\<close> only in what sending may change.\<close>

definition tx :: "conn \<Rightarrow> ('d, 'h) tcp \<Rightarrow> status \<times> conn \<times> ('d, 'h) tcp \<Rightarrow> bool" where
  "tx e t = (\<lambda>(st, e', t'). core e' = core e \<and> tcore t' = tcore t)"

lemma tx_Some [simp]: "tx e t (st, e', t') \<longleftrightarrow> core e' = core e \<and> tcore t' = tcore t"
  by (simp add: tx_def)

lemma core_sel:
  assumes "core e' = core e"
  shows "m_state e' = m_state e" "m_rcv_nxt e' = m_rcv_nxt e" "m_opts e' = m_opts e" "m_window e' = m_window e"
    "m_wndscl e' = m_wndscl e" "m_newdata e' = m_newdata e" "m_ackdata e' = m_ackdata e" "m_lport e' = m_lport e"
    "m_rport e' = m_rport e" "m_ripaddr e' = m_ripaddr e" "m_segidx e' = m_segidx e" "m_mss e' = m_mss e"
    "length (m_segments e') = length (m_segments e)" "m_id e' = m_id e" "m_timer e' = m_timer e" "m_nrtx e' = m_nrtx e"
proof -
  have "length (m_segments (core e')) = length (m_segments (core e))"
    using assms by simp
  then show "length (m_segments e') = length (m_segments e)"
    by (simp add: core_def)
qed (use assms in \<open>cases e; cases e'; simp add: core_def\<close>)+

lemma core_upd [simp]:
  "core (e\<lparr>m_sdat := p\<rparr>) = core e" "core (upd_seg i s e) = core e" "core (resetSendBuffer e) = core e"
  "core (advance i e) = core e" "core (e\<lparr>m_slen := n\<rparr>) = core e"
  by (simp_all add: core_def upd_seg_def resetSendBuffer_def advance_def Let_def)

lemma core_state: "core (e\<lparr>m_state := s\<rparr>) = (core e)\<lparr>m_state := s\<rparr>"
  by (simp add: core_def)

lemma tcore_upd [simp]:
  "tcore (t_set_mem m t) = tcore t" "tcore (t\<lparr>t_net := n\<rparr>) = tcore t" "tcore (address_peer hw ip t) = tcore t"
  "tcore (on_stats f t) = tcore t" "tcore (t_unlisten ops port t) = tcore t" "tcore (on_net g t) = tcore t"
  by (simp_all add: tcore_def t_set_mem_def on_net_def address_peer_def on_stats_def t_unlisten_def)

lemma tcore_sel:
  assumes "tcore t' = tcore t"
  shows "t_conns t' = t_conns t" "t_handler t' = t_handler t" "t_mss t' = t_mss t" "t_ports t' = t_ports t"
    "t_iss t' = t_iss t" "t_timer t' = t_timer t"
  using assms by (simp_all add: tcore_def)

lemma tst_core:
  "tst8 p i a t = Some t' \<Longrightarrow> tcore t' = tcore t" "tst16 p i b t = Some t' \<Longrightarrow> tcore t' = tcore t"
  "tst32 p i c t = Some t' \<Longrightarrow> tcore t' = tcore t"
  by (auto simp: tst8_def tst16_def tst32_def Some_eq_bind)

lemma flags_core:
  "set_flags p f t = Some t' \<Longrightarrow> tcore t' = tcore t" "or_flags p f t = Some t' \<Longrightarrow> tcore t' = tcore t"
  "set_offset p k t = Some t' \<Longrightarrow> tcore t' = tcore t" "clear_reserved p t = Some t' \<Longrightarrow> tcore t' = tcore t"
  by (auto simp: set_flags_def or_flags_def set_offset_def clear_reserved_def Some_eq_bind dest: tst_core)

named_theorems tx_dest "what a successful sending function leaves alone"

lemmas [tx_dest] = tst_core flags_core

lemma fill_header_core [tx_dest]: "fill_header ops e seq p t = Some t' \<Longrightarrow> tcore t' = tcore t"
  by (auto simp: fill_header_def Some_eq_bind dest!: tx_dest)

lemma send_raw_core [tx_dest]: "send_raw ops dst len mss p t = Some (st, t') \<Longrightarrow> tcore t' = tcore t"
  by (auto simp: send_raw_def Some_eq_bind dest!: tx_dest)

lemma next_buffer_tx [tx_dest]: "next_buffer ops e t = Some r \<Longrightarrow> tx e t r"
  by (auto simp: next_buffer_def Let_def Some_eq_bind)

lemma send_ctl_tx [tx_dest]: "send_ctl ops e t = Some r \<Longrightarrow> tx e t r"
  by (cases r) (auto simp: send_ctl_def Some_eq_bind split: if_splits dest!: tx_dest)

lemma send_len_tx [tx_dest]: "send_len ops e len i t = Some r \<Longrightarrow> tx e t r"
  by (cases r) (auto simp: send_len_def Let_def Some_eq_bind split: if_splits dest!: tx_dest)

lemma send_seg_tx [tx_dest]: "send_seg ops e i f t = Some r \<Longrightarrow> tx e t r"
  by (cases r) (auto simp: send_seg_def Let_def Some_eq_bind dest!: tx_dest)

lemma sendSyn_tx [tx_dest]: "sendSyn ops e i t = Some r \<Longrightarrow> tx e t r"
  by (cases r) (auto simp: sendSyn_def Let_def Some_eq_bind dest!: tx_dest)

lemma sendSynAck_tx [tx_dest]: "sendSynAck ops e i t = Some r \<Longrightarrow> tx e t r"
  by (cases r) (auto simp: sendSynAck_def Some_eq_bind dest!: tx_dest)

lemma sendFinAck_tx [tx_dest]: "sendFinAck ops e i t = Some r \<Longrightarrow> tx e t r"
  by (cases r) (auto simp: sendFinAck_def sendFin_def Some_eq_bind dest!: tx_dest)

lemma claim_segment_tx [tx_dest]: "claim_segment len e = Some (i, e') \<Longrightarrow> core e' = core e"
  by (auto simp: claim_segment_def Some_eq_bind)

lemma sendNoDelay_tx [tx_dest]: "sendNoDelay ops e f t = Some r \<Longrightarrow> tx e t r"
  by (cases r) (auto simp: sendNoDelay_def Some_eq_bind dest!: tx_dest)

lemma sendNagle_tx [tx_dest]: "sendNagle ops e bound t = Some r \<Longrightarrow> tx e t r"
  by (cases r) (auto simp: sendNagle_def Some_eq_bind split: if_splits dest!: tx_dest)

lemma sendAck_tx [tx_dest]: "sendAck ops e t = Some r \<Longrightarrow> tx e t r"
  by (cases r) (auto simp: sendAck_def Some_eq_bind split: if_splits dest!: tx_dest)

lemma rexmit_swap_tx [tx_dest]: "rexmit_swap e t = Some (e', t') \<Longrightarrow> core e' = core e \<and> tcore t' = tcore t"
  by (auto simp: rexmit_swap_def Some_eq_bind)

lemma rexmit_tx [tx_dest]: "rexmit ops e t = Some r \<Longrightarrow> tx e t r"
  by (cases r) (auto simp: rexmit_def Let_def Some_eq_bind split: conn_state.splits dest!: tx_dest)

lemma sendAbort_tx [tx_dest]: "sendAbort ops e t = Some r \<Longrightarrow> tx (e\<lparr>m_state := CLOSED\<rparr>) t r"
  by (cases r) (auto simp: sendAbort_def Let_def Some_eq_bind dest!: tx_dest)

lemma sendClose_tx [tx_dest]: "sendClose ops e t = Some r \<Longrightarrow>
    tx (if hasAvailableSegments e then e\<lparr>m_state := FIN_WAIT_1\<rparr> else e) t r"
  by (cases r) (auto simp: sendClose_def Let_def Some_eq_bind split: if_splits dest!: tx_dest)

section \<open>The state machine\<close>

inductive tcp_step :: "conn_state \<Rightarrow> conn_state \<Rightarrow> bool" where
  stay: "tcp_step s s"
| active_open: "s = CLOSED \<or> s = TIME_WAIT \<Longrightarrow> tcp_step s SYN_SENT"
| passive_open: "s = CLOSED \<or> s = TIME_WAIT \<Longrightarrow> tcp_step s SYN_RCVD"
| open_acked: "s = SYN_SENT \<or> s = SYN_RCVD \<Longrightarrow> tcp_step s ESTABLISHED"
| abort: "tcp_step s CLOSED"
| close_later: "tcp_step ESTABLISHED CLOSE"
| close_now: "s = ESTABLISHED \<or> s = CLOSE \<Longrightarrow> tcp_step s FIN_WAIT_1"
| close_passive: "tcp_step ESTABLISHED LAST_ACK"
| fin_acked: "tcp_step FIN_WAIT_1 FIN_WAIT_2"
| fin_crossed: "tcp_step FIN_WAIT_1 CLOSING"
| fin_both: "s = FIN_WAIT_1 \<or> s = FIN_WAIT_2 \<or> s = CLOSING \<Longrightarrow> tcp_step s TIME_WAIT"

inductive_simps tcp_step_to: "tcp_step s STOPPED" "tcp_step s CLOSED" "tcp_step s FIN_WAIT_2" "tcp_step s SYN_RCVD"
inductive_cases tcp_step_from: "tcp_step TIME_WAIT s" "tcp_step LAST_ACK s" "tcp_step CLOSED s"

definition moves :: "conn_state set \<Rightarrow> ('d, 'h) tcp \<Rightarrow> status \<times> conn \<times> ('d, 'h) tcp \<Rightarrow> bool" where
  "moves S t = (\<lambda>(st, e', t'). m_state e' \<in> S \<and> t_conns t' = t_conns t)"

lemma moves_Some [simp]: "moves S t (st, e', t') \<longleftrightarrow> m_state e' \<in> S \<and> t_conns t' = t_conns t"
  by (simp add: moves_def)

lemma tx_moves: "tx e t r \<Longrightarrow> m_state e \<in> S \<Longrightarrow> moves S t r"
  by (cases r) (auto dest: core_sel tcore_sel)

lemma moves_conns: "t_conns t = t_conns t0 \<Longrightarrow> moves S t = moves S t0"
  by (simp add: moves_def)

lemma app_view_state [simp]: "m_state (app_view opts cookie e) = m_state e" "m_rcv_nxt (app_view opts cookie e) = m_rcv_nxt e"
  "m_segments (app_view opts cookie e) = m_segments e" "m_newdata (app_view opts cookie e) = m_newdata e"
  by (simp_all add: app_view_def)

lemma notify_state: "notify f e t = Some (e', t') \<Longrightarrow> m_state e' = m_state e \<and> t_conns t' = t_conns t"
  by (auto simp: notify_def Some_eq_bind)

lemma ask_state: "ask f e t = Some (a, e', t') \<Longrightarrow> m_state e' = m_state e \<and> t_conns t' = t_conns t"
  by (auto simp: ask_def Some_eq_bind)

lemma ask_send_state: "ask_send f e t = Some (a, rlen, e', t') \<Longrightarrow> m_state e' = m_state e \<and> t_conns t' = t_conns t"
  by (auto simp: ask_send_def Some_eq_bind)

lemmas app_dest = notify_state ask_state ask_send_state

lemma sendAck_moves: "sendAck ops e t = Some r \<Longrightarrow> m_state e \<in> S \<Longrightarrow> moves S t r"
  by (drule sendAck_tx) (rule tx_moves)

lemma flag_data_state [simp]: "m_state (flag_data h n e) = m_state e"
  by (simp add: flag_data_def)

lemma in_syn_rcvd_moves:
  "in_syn_rcvd ops ev h data plen e t = Some r \<Longrightarrow> m_state e = SYN_RCVD \<Longrightarrow> moves {SYN_RCVD, ESTABLISHED} t r"
  by (cases r) (auto simp: in_syn_rcvd_def Let_def Some_eq_bind split: if_splits
      dest!: app_dest sendAck_moves [where S = "{ESTABLISHED}"])

lemma parse_options_state: "parse_options e h data = Some e' \<Longrightarrow> m_state e' = m_state e"
  by (auto simp: parse_options_def split: if_splits dest!: options_parse_same same_but_sel(4))

lemma in_syn_sent_moves:
  "in_syn_sent ops ev h data plen e t = Some r \<Longrightarrow> m_state e = SYN_SENT \<Longrightarrow> moves {ESTABLISHED, CLOSED} t r"
  by (cases r) (auto simp: in_syn_sent_def Let_def Some_eq_bind split: if_splits
      dest!: app_dest parse_options_state sendAbort_tx [THEN tx_moves, of _ _ _ _ "{CLOSED}"]
        sendAck_moves [where S = "{ESTABLISHED}"])

abbreviation "EST \<equiv> {ESTABLISHED, CLOSED, FIN_WAIT_1}"

lemma obey_moves:
  assumes "obey ops a e t k = Some r" and "m_state e = ESTABLISHED" and "\<And>r. k e t = Some r \<Longrightarrow> moves EST t r"
  shows "moves EST t r"
  using assms by (cases a) (auto simp: obey_def dest!: sendAbort_tx sendClose_tx intro: tx_moves split: if_splits)

lemma offer_moves:
  assumes "offer ops f e t k = Some r" and "m_state e = ESTABLISHED"
    and k: "\<And>e' t' r. m_state e' = ESTABLISHED \<Longrightarrow> t_conns t' = t_conns t \<Longrightarrow> k e' t' = Some r \<Longrightarrow> moves EST t r"
  shows "moves EST t r"
proof -
  obtain a rlen e1 t1 where 1: "ask_send (f (send_bound e t - ucast (m_slen e))) e t = Some (a, rlen, e1, t1)"
    and r: "obey ops a e1 t1 (\<lambda>e' t'. let r = if rlen > send_bound e t - ucast (m_slen e) then send_bound e t - ucast (m_slen e) else rlen
        in k (e'\<lparr>m_slen := m_slen e' + ucast r\<rparr>) t') = Some r"
    using assms(1) by (auto simp: offer_def Let_def Some_eq_bind)
  note s = ask_send_state [OF 1]
  have same: "moves EST t1 = moves EST t"
    by (rule moves_conns) (use s in simp)
  have "moves EST t1 r"
  proof (rule obey_moves [OF r])
    fix r' assume "(let r = if rlen > send_bound e t - ucast (m_slen e) then send_bound e t - ucast (m_slen e) else rlen
        in k (e1\<lparr>m_slen := m_slen e1 + ucast r\<rparr>) t1) = Some r'"
    then have "moves EST t r'"
      unfolding Let_def by (rule k [rotated 2]) (use s assms(2) in simp_all)
    then show "moves EST t1 r'"
      by (simp only: same)
  qed (use s assms(2) in simp)
  then show ?thesis
    by (simp only: same)
qed

lemma established_flush_moves:
  "established_flush ops can e t = Some r \<Longrightarrow> m_state e = ESTABLISHED \<Longrightarrow> moves EST t r"
  by (auto simp: established_flush_def split: if_splits dest!: sendNoDelay_tx sendAck_tx intro: tx_moves)

lemma established_newdata_moves:
  assumes "established_newdata ops ev bs can e t (established_flush ops can) = Some r" and "m_state e = ESTABLISHED"
  shows "moves EST t r"
proof -
  obtain res e1 t1 where 1: "(if \<not> has_delayed_ack e then sendAck ops e t else Some (Ok, e, t)) = Some (res, e1, t1)"
    and r: "(if res \<noteq> Ok then Some (res, e1, t1)
      else if can then offer ops (\<lambda>alen e. h_newdata_send ev e bs alen) e1 t1 (established_flush ops can)
      else ask (\<lambda>e. h_newdata ev e bs) e1 t1 \<bind> (\<lambda>(a, e, t). obey ops a e t (established_flush ops can))) = Some r"
    using assms(1) by (simp only: established_newdata_def Some_eq_bind prod.case) auto
  have s: "m_state e1 = ESTABLISHED" "t_conns t1 = t_conns t"
    using 1 assms(2) by (auto split: if_splits dest!: sendAck_tx core_sel(1) tcore_sel(1))
  have flush: "moves EST t0 r" if "m_state e' = ESTABLISHED" "t_conns t' = t_conns t0"
    "established_flush ops can e' t' = Some r" for e' t' t0 r
    using established_flush_moves [OF that(3,1)] by (simp only: moves_conns [OF that(2)])
  have "moves EST t1 r"
  proof (cases "res \<noteq> Ok")
    case False
    show ?thesis
    proof (cases can)
      case True
      then have o: "offer ops (\<lambda>alen e. h_newdata_send ev e bs alen) e1 t1 (established_flush ops can) = Some r"
        using r False by simp
      show ?thesis
        by (rule offer_moves [OF o s(1)]) (rule flush)
    next
      case can: False
      obtain a e2 t2 where a: "ask (\<lambda>e. h_newdata ev e bs) e1 t1 = Some (a, e2, t2)"
          "obey ops a e2 t2 (established_flush ops can) = Some r"
        using r False can by (cases "ask (\<lambda>e. h_newdata ev e bs) e1 t1") auto
      note s2 = ask_state [OF a(1)]
      have "moves EST t2 r"
        by (rule obey_moves [OF a(2)]) (use s2 s in simp, rule flush, use s2 s in simp_all)
      then show ?thesis
        using s2 by (simp only: moves_conns [of t2 t1])
    qed
  qed (use r s in auto)
  then show ?thesis
    by (simp only: moves_conns [OF s(2)])
qed

lemma established_acked_moves:
  assumes "established_acked ops ev e t k = Some r" and "m_state e = ESTABLISHED"
    and k: "\<And>can e' t' r. m_state e' = ESTABLISHED \<Longrightarrow> t_conns t' = t_conns t \<Longrightarrow> k can e' t' = Some r \<Longrightarrow> moves EST t r"
  shows "moves EST t r"
proof (cases "m_ackdata e")
  case True
  show ?thesis
  proof (cases "can_send e")
    case c: True
    have o: "offer ops (\<lambda>alen e. h_acked_send ev e alen) e t (\<lambda>e t. k (can_send e) e t) = Some r"
      using assms(1) True c by (simp add: established_acked_def)
    show ?thesis
      by (rule offer_moves [OF o assms(2)]) (rule k)
  next
    case False
    obtain a e2 t2 where a: "ask (h_acked ev) e t = Some (a, e2, t2)" "obey ops a e2 t2 (k False) = Some r"
      using assms(1) True False by (cases "ask (h_acked ev) e t") (auto simp: established_acked_def)
    note s2 = ask_state [OF a(1)]
    have same: "moves EST t2 = moves EST t"
      by (rule moves_conns) (use s2 in simp)
    have "moves EST t2 r"
      by (rule obey_moves [OF a(2)]) (use s2 assms(2) in simp, simp only: same, rule k, use s2 assms(2) in simp_all)
    then show ?thesis
      by (simp only: same)
  qed
next
  case False
  then show ?thesis
    using k [OF assms(2) refl, of "can_send e"] assms(1) by (simp add: established_acked_def)
qed

lemma claim_segment_state: "claim_segment len e = Some (i, e') \<Longrightarrow> m_state e' = m_state e"
  using core_sel(1) [OF claim_segment_tx] .

lemma sendFinAck_moves: "sendFinAck ops e i t = Some r \<Longrightarrow> m_state e \<in> S \<Longrightarrow> moves S t r"
  by (drule sendFinAck_tx) (rule tx_moves)

lemma established_fin_moves:
  "established_fin ops ev h data plen e t = Some r \<Longrightarrow> m_state e = ESTABLISHED \<Longrightarrow> moves {ESTABLISHED, LAST_ACK} t r"
  by (cases r) (auto simp: established_fin_def Let_def Some_eq_bind split: if_splits
      dest!: app_dest claim_segment_state sendFinAck_moves [where S = "{LAST_ACK}"])

lemma peer_window_state [simp]: "m_state (peer_window w e) = m_state e"
  by (simp add: peer_window_def Let_def)

abbreviation "EST' \<equiv> {ESTABLISHED, CLOSED, FIN_WAIT_1, LAST_ACK}"

lemma moves_mono: "moves S t r \<Longrightarrow> S \<subseteq> S' \<Longrightarrow> moves S' t r"
  by (cases r) auto

lemma in_established_moves:
  assumes "in_established ops ev h data plen e t = Some r" and e: "m_state e = ESTABLISHED"
  shows "moves EST' t r"
proof (cases "hd_has h TCP_FIN")
  case True
  then have "moves {ESTABLISHED, LAST_ACK} t r"
    using assms by (intro established_fin_moves) (auto simp: in_established_def)
  then show ?thesis
    by (rule moves_mono) auto
next
  case False
  define urglen where "urglen = (if hd_has h TCP_URG then hd_urgp h else 0)"
  define e1 where "e1 = peer_window (hd_wnd h) (if plen - urglen > 0 then flag_data h (plen - urglen) e else e)"
  have e1: "m_state e1 = ESTABLISHED"
    by (simp add: e1_def e)
  let ?k = "\<lambda>can e t. if m_newdata e
          then do {
            bs \<leftarrow> payload data (unat (hd_len h) + unat urglen) (plen - urglen);
            established_newdata ops ev bs can e t (established_flush ops can)
          }
          else established_flush ops can e t"
  have r: "(if m_ackdata e1 \<or> m_newdata e1 then established_acked ops ev e1 t ?k else Some (Ok, e1, t)) = Some r"
    using assms(1) False unfolding in_established_def Let_def e1_def urglen_def by (simp only: if_False)
  have "moves EST t r"
  proof (cases "m_ackdata e1 \<or> m_newdata e1")
    case True
    show ?thesis
    proof (rule established_acked_moves [of ops ev e1 t ?k])
      show "established_acked ops ev e1 t ?k = Some r"
        using r True by simp
      fix can e' t' r'
      assume k: "m_state e' = ESTABLISHED" "t_conns t' = t_conns t" "?k can e' t' = Some r'"
      show "moves EST t r'"
        unfolding moves_conns [OF k(2), symmetric]
      proof (cases "m_newdata e'")
        case True
        then show "moves EST t' r'"
          using k(1,3) by (auto simp: Some_eq_bind intro: established_newdata_moves)
      next
        case False
        then show "moves EST t' r'"
          using k(1,3) by (auto intro: established_flush_moves)
      qed
    qed (rule e1)
  next
    case False
    then show ?thesis
      using r e1 by auto
  qed
  then show ?thesis
    by (rule moves_mono) auto
qed

lemma take_data_state [simp]: "m_state (take_data plen e) = m_state e"
  by (simp add: take_data_def)

lemma t_unlisten_conns [simp]: "t_conns (t_unlisten ops port t) = t_conns t"
  using tcore_upd(5) tcore_sel(1) by blast

lemma in_last_ack_moves:
  "in_last_ack ops ev e t = Some r \<Longrightarrow> m_state e = LAST_ACK \<Longrightarrow> moves {LAST_ACK, CLOSED} t r"
  by (cases r) (auto simp: in_last_ack_def Let_def Some_eq_bind split: if_splits dest!: app_dest)

lemma in_fin_wait_1_moves:
  "in_fin_wait_1 ops ev h plen e t = Some r \<Longrightarrow> m_state e = FIN_WAIT_1 \<Longrightarrow>
   moves {FIN_WAIT_1, FIN_WAIT_2, CLOSING, TIME_WAIT} t r"
  by (cases r) (auto simp: in_fin_wait_1_def Let_def Some_eq_bind split: if_splits
      dest!: app_dest sendAck_moves [where S = "{FIN_WAIT_1, CLOSING, TIME_WAIT}"])

lemma in_fin_wait_2_moves:
  "in_fin_wait_2 ops ev h plen e t = Some r \<Longrightarrow> m_state e = FIN_WAIT_2 \<Longrightarrow> moves {FIN_WAIT_2, TIME_WAIT} t r"
  by (cases r) (auto simp: in_fin_wait_2_def Let_def Some_eq_bind split: if_splits
      dest!: app_dest sendAck_moves [where S = "{FIN_WAIT_2, TIME_WAIT}"])

lemma in_close_moves:
  "in_close ops h plen e t = Some r \<Longrightarrow> m_state e = CLOSE \<Longrightarrow> moves {CLOSE, FIN_WAIT_1} t r"
  by (cases r) (auto simp: in_close_def Let_def Some_eq_bind split: if_splits
      dest!: claim_segment_state sendFinAck_moves [where S = "{CLOSE, FIN_WAIT_1}"])

lemma in_closing_moves:
  "in_closing e t = Some r \<Longrightarrow> m_state e = CLOSING \<Longrightarrow> moves {CLOSING, TIME_WAIT} t r"
  by (auto simp: in_closing_def)

section \<open>One step per call\<close>

lemma tcp_step_simps:
  "tcp_step CLOSED s \<longleftrightarrow> s \<in> {CLOSED, SYN_SENT, SYN_RCVD}"
  "tcp_step SYN_RCVD s \<longleftrightarrow> s \<in> {SYN_RCVD, ESTABLISHED, CLOSED}"
  "tcp_step SYN_SENT s \<longleftrightarrow> s \<in> {SYN_SENT, ESTABLISHED, CLOSED}"
  "tcp_step ESTABLISHED s \<longleftrightarrow> s \<in> {ESTABLISHED, CLOSED, CLOSE, FIN_WAIT_1, LAST_ACK}"
  "tcp_step FIN_WAIT_1 s \<longleftrightarrow> s \<in> {FIN_WAIT_1, FIN_WAIT_2, CLOSING, TIME_WAIT, CLOSED}"
  "tcp_step FIN_WAIT_2 s \<longleftrightarrow> s \<in> {FIN_WAIT_2, TIME_WAIT, CLOSED}"
  "tcp_step CLOSE s \<longleftrightarrow> s \<in> {CLOSE, FIN_WAIT_1, CLOSED}"
  "tcp_step CLOSING s \<longleftrightarrow> s \<in> {CLOSING, TIME_WAIT, CLOSED}"
  "tcp_step TIME_WAIT s \<longleftrightarrow> s \<in> {TIME_WAIT, SYN_SENT, SYN_RCVD, CLOSED}"
  "tcp_step LAST_ACK s \<longleftrightarrow> s \<in> {LAST_ACK, CLOSED}"
  "tcp_step STOPPED s \<longleftrightarrow> s \<in> {STOPPED, CLOSED}"
  by (cases s; auto simp: tcp_step.simps)+

abbreviation "steps e \<equiv> moves {s. tcp_step (m_state e) s}"

lemma process_state_steps:
  assumes "process_state ops ev h data plen e t = Some r"
  shows "steps e t r"
proof (cases "m_state e")
  case STOPPED
  then show ?thesis using assms by (auto simp: process_state_def tcp_step_simps)
next
  case CLOSED
  then show ?thesis using assms by (auto simp: process_state_def tcp_step_simps)
next
  case TIME_WAIT
  then show ?thesis
    using assms by (intro sendAck_moves [of ops e t r]) (auto simp: process_state_def tcp_step_simps)
next
  case LAST_ACK
  then show ?thesis
    using assms in_last_ack_moves [of ops ev e t r, THEN moves_mono] by (auto simp: process_state_def tcp_step_simps)
next
  case SYN_RCVD
  then show ?thesis
    using assms in_syn_rcvd_moves [of ops ev h data plen e t r, THEN moves_mono] by (auto simp: process_state_def tcp_step_simps)
next
  case SYN_SENT
  then show ?thesis
    using assms in_syn_sent_moves [of ops ev h data plen e t r, THEN moves_mono] by (auto simp: process_state_def tcp_step_simps)
next
  case ESTABLISHED
  then show ?thesis
    using assms in_established_moves [of ops ev h data plen e t r, THEN moves_mono] by (auto simp: process_state_def tcp_step_simps)
next
  case FIN_WAIT_1
  then show ?thesis
    using assms in_fin_wait_1_moves [of ops ev h plen e t r, THEN moves_mono] by (auto simp: process_state_def tcp_step_simps)
next
  case FIN_WAIT_2
  then show ?thesis
    using assms in_fin_wait_2_moves [of ops ev h plen e t r, THEN moves_mono] by (auto simp: process_state_def tcp_step_simps)
next
  case CLOSE
  then show ?thesis
    using assms in_close_moves [of ops h plen e t r, THEN moves_mono] by (auto simp: process_state_def tcp_step_simps)
next
  case CLOSING
  then show ?thesis
    using assms in_closing_moves [of e t r, THEN moves_mono] by (auto simp: process_state_def tcp_step_simps)
qed

lemma rexmit_moves: "rexmit ops e t = Some r \<Longrightarrow> m_state e \<in> S \<Longrightarrow> moves S t r"
  by (drule rexmit_tx) (rule tx_moves)

lemma on_stats_conns [simp]: "t_conns (on_stats f t) = t_conns t" "t_conns (count_ackerr t) = t_conns t"
  by (simp_all add: on_stats_def count_ackerr_def)

lemma clear_data_state_state [simp]: "m_state (clear_data_state e) = m_state e"
  by (simp add: clear_data_state_def)

lemma process_conn_steps:
  assumes "process_conn ops ev h len data e t = Some r"
  shows "steps e t r"
proof -
  let ?e = "clear_data_state e" and ?plen = "len - hd_len h"
  have stay: "m_state ?e \<in> {s. tcp_step (m_state e) s}"
    by (simp add: stay)
  show ?thesis
  proof (cases "hd_has h TCP_RST")
    case True
    then show ?thesis
      using assms by (cases r) (auto simp: process_conn_def Let_def Some_eq_bind abort dest!: app_dest)
  next
    case False
    note p = assms [unfolded process_conn_def Let_def, simplified False if_False]
    show ?thesis
    proof (cases "out_of_sequence h ?plen ?e \<or> \<not> (hd_has h TCP_ACK \<and> hasOutstandingSegments ?e)")
      case True
      then show ?thesis
        using p stay process_state_steps [of ops ev h data ?plen ?e t r] sendAck_moves [of ops ?e t r]
        by (auto split: if_splits)
    next
      case scan: False
      obtain a e' where a: "ack_scan SEGMENT_COUNT (hd_ack h) (hd_wnd h) ?e = (a, e')"
        by fastforce
      have s: "m_state e' = m_state e"
        using ack_scan_keeps [OF a] by simp
      have p': "(case (a, e') of (AckRexmit, e) \<Rightarrow> rexmit ops e t
          | (AckPartial, e) \<Rightarrow> process_state ops ev h data ?plen e (count_ackerr t)
          | (AckDone, e) \<Rightarrow> process_state ops ev h data ?plen e t) = Some r"
        using p scan a by simp
      show ?thesis
        using p' stay s process_state_steps [of ops ev h data ?plen e' t r] rexmit_moves [of ops e' t r]
          process_state_steps [of ops ev h data ?plen e' "count_ackerr t" r]
        by (cases a) (auto simp: moves_conns [of "count_ackerr t" t])
    qed
  qed
qed

section \<open>All the connections of a processor\<close>

definition evolves :: "('d, 'h) tcp \<Rightarrow> ('d, 'h) tcp \<Rightarrow> bool" where
  "evolves t t' \<longleftrightarrow> list_all2 (\<lambda>c c'. tcp_step (m_state c) (m_state c')) (t_conns t) (t_conns t')"

lemma evolves_same: "t_conns t' = t_conns t \<Longrightarrow> evolves t t'"
  by (simp add: evolves_def list_all2_conv_all_nth stay)

lemma evolves_set: "steps (t_conns t ! k) t (st, e, t') \<Longrightarrow> evolves t (set_conn k e t')"
  by (cases "k < length (t_conns t)")
    (auto simp: evolves_def set_conn_def list_all2_conv_all_nth nth_list_update stay)

lemma address_peer_conns [simp]: "t_conns (address_peer hw ip t) = t_conns t"
  using tcore_upd(3) tcore_sel(1) by blast

lemma send_raw_conns: "send_raw ops dst len mss p t = Some (st, t') \<Longrightarrow> t_conns t' = t_conns t"
  using tcore_sel(1) [OF send_raw_core] .

lemma tst_conns:
  "tst8 p i a t = Some t' \<Longrightarrow> t_conns t' = t_conns t" "tst16 p i b t = Some t' \<Longrightarrow> t_conns t' = t_conns t"
  "tst32 p i c t = Some t' \<Longrightarrow> t_conns t' = t_conns t"
  "set_flags p f t = Some t' \<Longrightarrow> t_conns t' = t_conns t" "set_offset p k t = Some t' \<Longrightarrow> t_conns t' = t_conns t"
  by (drule tst_core flags_core, erule tcore_sel(1))+

lemma tcp_reset_conns: "tcp_reset ops rx h t = Some (st, t') \<Longrightarrow> t_conns t' = t_conns t"
  by (auto simp: tcp_reset_def Let_def Some_eq_bind split: if_splits dest!: tst_conns send_raw_conns)

lemma alloc_process_state:
  "alloc_process conns = Some k \<Longrightarrow> m_state (conns ! k) = CLOSED \<or> m_state (conns ! k) = TIME_WAIT"
  using alloc_process_Some by blast

lemma accept_conn_state [simp]: "m_state (accept_conn rx h iss mss e) = SYN_RCVD"
  by (simp add: accept_conn_def)

lemma connect_conn_state [simp]: "m_state (connect_conn hw ip lport rport iss mss e) = SYN_SENT"
  by (simp add: connect_conn_def)

lemma upd_seg_state [simp]: "m_state (upd_seg i s e) = m_state e"
  by (simp add: upd_seg_def)

lemma sendSynAck_moves: "sendSynAck ops e i t = Some r \<Longrightarrow> m_state e \<in> S \<Longrightarrow> moves S t r"
  by (drule sendSynAck_tx) (rule tx_moves)

lemma sendSyn_moves: "sendSyn ops e i t = Some r \<Longrightarrow> m_state e \<in> S \<Longrightarrow> moves S t r"
  by (drule sendSyn_tx) (rule tx_moves)

lemma tcp_accept_evolves:
  assumes "tcp_accept ops rx h data k t = Some (st, t')" and "m_state (t_conns t ! k) \<in> {CLOSED, TIME_WAIT}"
  shows "evolves t t'"
proof -
  have step: "tcp_step (m_state (t_conns t ! k)) SYN_RCVD"
    using assms(2) by (auto simp: tcp_step_simps)
  show ?thesis
    using assms(1) step
    by (auto simp: tcp_accept_def Let_def Some_eq_bind split: if_splits
        intro: evolves_same evolves_set dest!: parse_options_state sendSynAck_moves [where S = "{SYN_RCVD}"])
qed

lemma tcp_process_evolves:
  assumes "tcp_process ops ev rx len data t = Some (st, t')"
  shows "evolves t t'"
proof -
  let ?t = "on_stats (\<lambda>s. s\<lparr>st_recv := st_recv s + 1\<rparr>) t"
  have same: "evolves ?t = (evolves t :: ('a, 'b) tcp \<Rightarrow> bool)"
    by (simp add: evolves_def fun_eq_iff)
  have "evolves ?t t'"
  proof (cases "tcpv4_checksum (rx_src rx) (rx_dst rx) len data = Some 0xFFFF")
    case False
    then show ?thesis
      using assms by (auto simp: tcp_process_def Let_def Some_eq_bind evolves_same)
  next
    case True
    then obtain h where h: "read_header data = Some h"
      using assms by (auto simp: tcp_process_def Let_def Some_eq_bind)
    show ?thesis
    proof (cases "first_index (matches rx h) (t_conns t)")
      case (Some k)
      then obtain e t1 where "process_conn ops ev h len data (t_conns ?t ! k) ?t = Some (st, e, t1)" "t' = set_conn k e t1"
        using assms True h by (auto simp: tcp_process_def Let_def Some_eq_bind)
      then show ?thesis
        by (simp only:) (rule evolves_set, rule process_conn_steps)
    next
      case None
      then show ?thesis
        using assms True h
        by (auto simp: tcp_process_def Let_def split: if_splits option.splits
            intro: evolves_same dest!: tcp_reset_conns tcp_accept_evolves dest: alloc_process_state)
    qed
  qed
  then show ?thesis
    by (simp only: same)
qed

lemma run_waiting_steps:
  assumes "run_waiting ops e t = (b, e', t')"
  shows "t_conns t' = t_conns t \<and> (if b then m_state e' = CLOSED else m_state e' = m_state e)"
  using assms by (auto simp: run_waiting_def Let_def split: if_splits)

lemma backoff_state [simp]: "m_state (backoff e) = m_state e"
  by (simp add: backoff_def)

lemma run_conn_steps:
  assumes "run_conn ops ev e t = Some (st, e', t')"
  shows "steps e t (Ok, e', t')"
proof (cases "m_state e = CLOSED")
  case True
  then show ?thesis using assms by (auto simp: run_conn_def stay)
next
  case False
  obtain b e1 t1 where w: "run_waiting ops e t = (b, e1, t1)"
    by (metis prod_cases3)
  note s = run_waiting_steps [OF w]
  show ?thesis
    using assms False w s
    by (auto simp: run_conn_def Let_def Some_eq_bind stay abort split: if_splits
        dest!: app_dest sendAbort_tx [THEN tx_moves, of _ _ _ _ "{CLOSED}"] rexmit_moves [where S = "{m_state e}"])
qed

lemma run_scan_steps:
  assumes "run_scan ops ev is t = Some (st, t')" and "distinct is"
  shows "length (t_conns t') = length (t_conns t) \<and>
    (\<forall>i < length (t_conns t). (i \<notin> set is \<longrightarrow> t_conns t' ! i = t_conns t ! i) \<and>
       tcp_step (m_state (t_conns t ! i)) (m_state (t_conns t' ! i)))"
  using assms
proof (induction "is" arbitrary: t)
  case (Cons i "is")
  obtain r e t1 where r: "run_conn ops ev (t_conns t ! i) t = Some (r, e, t1)"
    and k: "(case r of None \<Rightarrow> run_scan ops ev is (set_conn i e t1) | Some st \<Rightarrow> Some (st, set_conn i e t1)) = Some (st, t')"
    using Cons.prems by (auto simp: Some_eq_bind Let_def)
  have s: "t_conns (set_conn i e t1) = (t_conns t)[i := e]" "tcp_step (m_state (t_conns t ! i)) (m_state e)"
    using run_conn_steps [OF r] by (simp_all add: set_conn_def)
  show ?case
  proof (cases r)
    case None
    then have "run_scan ops ev is (set_conn i e t1) = Some (st, t')"
      using k by simp
    note IH = Cons.IH [OF this] and d = Cons.prems(2)
    have "t_conns t' ! i = t_conns (set_conn i e t1) ! i" if "i < length (t_conns t)"
      using IH d s(1) that by simp
    moreover have "tcp_step (m_state (t_conns (set_conn i e t1) ! j)) (m_state (t_conns t' ! j))" if "j < length (t_conns t)" for j
      using IH d s(1) that by simp
    moreover have "t_conns t' ! j = t_conns t ! j" if "j \<notin> set (i # is)" "j < length (t_conns t)" for j
      using IH d s(1) that by simp
    ultimately show ?thesis
      using IH d s by (metis distinct.simps(2) length_list_update nth_list_update_eq nth_list_update_neq)
  next
    case (Some a)
    have "tcp_step (m_state (t_conns t ! j)) (m_state ((t_conns t)[i := e] ! j))" if "j < length (t_conns t)" for j
      using s(2) that by (cases "j = i") (auto simp: stay)
    then show ?thesis
      using k s Some by auto
  qed
qed (auto simp: stay)

lemma tcp_run_evolves: "tcp_run ops ev now now' t = Some (st, t') \<Longrightarrow> evolves t t'"
  by (auto simp: tcp_run_def evolves_def list_all2_conv_all_nth stay split: if_splits dest: run_scan_steps)

lemma tcp_connect_evolves:
  assumes "tcp_connect ops hw ip rport readings t = Some (st, cid, t')"
  shows "evolves t t'"
proof -
  obtain ret p n where p: "ip_prepare ops (t_net (address_peer hw ip t)) = Some (ret, p, n)"
    using assms by (auto simp: tcp_connect_def Let_def Some_eq_bind)
  show ?thesis
  proof (cases "\<exists>lport k. ret = Ok \<and> choose_port (t_conns t) readings = Some lport \<and>
      alloc_connect (t_conns t) [0..<length (t_conns t)] None = Some k")
    case True
    then obtain lport k where k: "ret = Ok" "choose_port (t_conns t) readings = Some lport"
        "alloc_connect (t_conns t) [0..<length (t_conns t)] None = Some k"
      by blast
    have "tcp_step (m_state (t_conns t ! k)) SYN_SENT" "tcp_step (m_state (t_conns t ! k)) CLOSED"
      using alloc_connect_Some [OF k(3)] by (auto simp: tcp_step_simps)
    then show ?thesis
      using assms p k
      by (auto simp: tcp_connect_def Let_def on_net_def split: if_splits prod.splits
          simp: Some_eq_bind intro: evolves_same evolves_set dest!: tst_conns sendSyn_moves [where S = "{SYN_SENT}"])
  next
    case False
    then show ?thesis
      using assms p
      by (auto simp: tcp_connect_def Let_def Some_eq_bind evolves_same split: if_splits option.splits)
  qed
qed

lemma tcp_abort_evolves:
  assumes "tcp_abort ops ev cid t = Some (st, t')"
  shows "evolves t t'"
  using assms
  by (auto simp: tcp_abort_def Let_def Some_eq_bind evolves_same abort split: if_splits
      intro!: evolves_set dest!: app_dest tst_conns sendAbort_tx [THEN tx_moves, of _ _ _ _ "{CLOSED}"])

lemma sendClose_moves: "sendClose ops e t = Some r \<Longrightarrow> m_state e = ESTABLISHED \<Longrightarrow> moves {ESTABLISHED, FIN_WAIT_1} t r"
  by (drule sendClose_tx) (auto intro: tx_moves split: if_splits)

lemma tcp_close_evolves:
  assumes "tcp_close ops cid t = Some (st, t')"
  shows "evolves t t'"
  using assms
  by (auto simp: tcp_close_def Let_def Some_eq_bind evolves_same tcp_step_simps split: if_splits
      intro!: evolves_set dest!: tst_conns sendClose_moves)

lemma send_copy_steps: "send_copy c data off slen t = Some (off', c', t') \<Longrightarrow> m_state c' = m_state c \<and> t_conns t' = t_conns t"
  by (auto simp: send_copy_def Some_eq_bind t_set_mem_def on_net_def split: if_splits)

text \<open>A send that gets past the checks copies data to the connection and may then put segments on the wire.\<close>

lemma tcp_send_cases:
  assumes "tcp_send ops cid len data off t = Some (st, off', t')" and "t' \<noteq> t"
  obtains bs c1 t1 c2 t2 st' where "m_state (t_conns t ! unat cid) = ESTABLISHED" "data = Some bs" "off < len"
    "send_copy (t_conns t ! unat cid) bs off
      (send_size (t_conns t ! unat cid) (send_bound (t_conns t ! unat cid) t) (len - off)) t = Some (off', c1, t1)"
    "t' = set_conn (unat cid) c2 t2" "tx c1 t1 (st', c2, t2)"
proof -
  let ?c = "t_conns t ! unat cid"
  let ?bound = "send_bound ?c t"
  let ?slen = "send_size ?c ?bound (len - off)"
  obtain bs where bs: "data = Some bs"
    using assms by (cases data) (auto simp: tcp_send_def Let_def split: if_splits)
  have r: "m_state ?c = ESTABLISHED" "off < len" "do {
      (off, c, t) \<leftarrow> send_copy ?c bs off ?slen t;
      if \<not> hasAvailableSegments c
      then Some (if ?slen = 0 then OperationInProgress else Ok, off, set_conn (unat cid) c t)
      else do {
        (st, c, t) \<leftarrow> (if has_nodelay c then sendNoDelay ops c (if off = len then TCP_PSH else 0) t
                       else sendNagle ops c ?bound t);
        Some (st, off, set_conn (unat cid) c t)
      }
    } = Some (st, off', t')"
    using assms bs by (auto simp only: tcp_send_def Let_def option.case not_le prod.inject option.inject split: if_splits)
  then obtain off1 c1 t1 where c: "send_copy ?c bs off ?slen t = Some (off1, c1, t1)"
    by (auto simp: Some_eq_bind)
  let ?m = "if has_nodelay c1 then sendNoDelay ops c1 (if off1 = len then TCP_PSH else 0) t1 else sendNagle ops c1 ?bound t1"
  have "\<exists>c2 t2 st. t' = set_conn (unat cid) c2 t2 \<and> off' = off1 \<and> (c2 = c1 \<and> t2 = t1 \<or> ?m = Some (st, c2, t2))"
  proof (cases "hasAvailableSegments c1")
    case True
    have "?m \<bind> (\<lambda>(st, c, t). Some (st, off1, set_conn (unat cid) c t)) = Some (st, off', t')"
      using r(3) True unfolding c by (simp only: Option.bind.simps prod.case not_not if_False simp_thms)
    then obtain c2 t2 where "?m = Some (st, c2, t2)" "t' = set_conn (unat cid) c2 t2" "off' = off1"
      unfolding Some_eq_bind by force
    then show ?thesis
      by blast
  qed (use r c in auto)
  then obtain c2 t2 st' where t': "t' = set_conn (unat cid) c2 t2" "off' = off1" and m: "c2 = c1 \<and> t2 = t1 \<or> ?m = Some (st', c2, t2)"
    by blast
  have "tx c1 t1 (st', c2, t2)"
    using m by (cases "has_nodelay c1") (auto dest: sendNoDelay_tx sendNagle_tx)
  then show ?thesis
    using that r(1,2) bs c t' by blast
qed

lemma tcp_send_evolves:
  assumes "tcp_send ops cid len data off t = Some (st, off', t')"
  shows "evolves t t'"
proof (cases "t' = t")
  case False
  let ?c = "t_conns t ! unat cid"
  obtain bs c1 t1 c2 t2 st' where r: "send_copy ?c bs off (send_size ?c (send_bound ?c t) (len - off)) t = Some (off', c1, t1)"
      "t' = set_conn (unat cid) c2 t2" "tx c1 t1 (st', c2, t2)"
    using tcp_send_cases [OF assms False] by metis
  have "steps ?c t (st', c2, t2)"
    using send_copy_steps [OF r(1)] tx_moves [OF r(3), of "{s. tcp_step (m_state ?c) s}"] by (simp add: stay)
  then show ?thesis
    unfolding r(2) by (rule evolves_set)
qed (simp add: evolves_same)

section \<open>Sequences of events\<close>

text \<open>What can happen to a processor once it is constructed.\<close>

datatype tcp_event =
    Segment rx_info u16 "u8 list"
  | Tick u64 u64
  | Connect mac ip4 u16 "u64 list"
  | AbortConn u16
  | CloseConn u16
  | SendData u16 u32 "u8 list option" u32
  | Listen u16
  | Unlisten u16

definition drop_result :: "('a \<times> 'b) option \<Rightarrow> 'b option" where
  "drop_result = map_option snd"

fun tcp_handle :: "'d device_ops \<Rightarrow> 'h handler_ops \<Rightarrow> tcp_event \<Rightarrow> ('d, 'h) tcp \<Rightarrow> ('d, 'h) tcp option" where
  "tcp_handle ops ev (Segment rx len data) t = drop_result (tcp_process ops ev rx len data t)"
| "tcp_handle ops ev (Tick now now') t = drop_result (tcp_run ops ev now now' t)"
| "tcp_handle ops ev (Connect hw ip rport readings) t =
     map_option (\<lambda>(st, cid, t). t) (tcp_connect ops hw ip rport readings t)"
| "tcp_handle ops ev (AbortConn cid) t = drop_result (tcp_abort ops ev cid t)"
| "tcp_handle ops ev (CloseConn cid) t = drop_result (tcp_close ops cid t)"
| "tcp_handle ops ev (SendData cid len data off) t = map_option (\<lambda>(st, off, t). t) (tcp_send ops cid len data off t)"
| "tcp_handle ops ev (Listen port) t = Some (tcp_listen ops port t)"
| "tcp_handle ops ev (Unlisten port) t = Some (tcp_unlisten ops port t)"

inductive tcp_reaches :: "'d device_ops \<Rightarrow> 'h handler_ops \<Rightarrow> ('d, 'h) tcp \<Rightarrow> ('d, 'h) tcp \<Rightarrow> bool"
  for ops ev t0 where
  start: "tcp_reaches ops ev t0 t0"
| event: "tcp_reaches ops ev t0 t \<Longrightarrow> tcp_handle ops ev x t = Some t' \<Longrightarrow> tcp_reaches ops ev t0 t'"

lemma listen_conns [simp]: "t_conns (tcp_listen ops port t) = t_conns t" "t_conns (tcp_unlisten ops port t) = t_conns t"
  by (auto simp: tcp_listen_def tcp_unlisten_def Let_def on_net_def split: prod.split)

lemma tcp_handle_evolves:
  assumes "tcp_handle ops ev x t = Some t'"
  shows "evolves t t'"
proof (cases x)
  case (Segment rx len data)
  then show ?thesis
    using assms by (auto simp: drop_result_def dest: tcp_process_evolves)
next
  case (Tick now now')
  then show ?thesis
    using assms by (auto simp: drop_result_def dest: tcp_run_evolves)
next
  case (Connect hw ip rport readings)
  then show ?thesis
    using assms by (auto dest: tcp_connect_evolves)
next
  case (AbortConn cid)
  then show ?thesis
    using assms by (auto simp: drop_result_def dest: tcp_abort_evolves)
next
  case (CloseConn cid)
  then show ?thesis
    using assms by (auto simp: drop_result_def dest: tcp_close_evolves)
next
  case (SendData cid len data off)
  then show ?thesis
    using assms by (auto dest: tcp_send_evolves)
qed (use assms in \<open>auto intro: evolves_same\<close>)

definition no_stopped :: "('d, 'h) tcp \<Rightarrow> bool" where
  "no_stopped t \<longleftrightarrow> list_all (\<lambda>c. m_state c \<noteq> STOPPED) (t_conns t)"

lemma step_not_stopped: "tcp_step s STOPPED \<longleftrightarrow> s = STOPPED"
  by (auto simp: tcp_step.simps)

lemma evolves_no_stopped: "evolves t t' \<Longrightarrow> no_stopped t \<Longrightarrow> no_stopped t' \<and> length (t_conns t') = length (t_conns t)"
  by (auto simp: evolves_def no_stopped_def list_all2_conv_all_nth list_all_length) (metis step_not_stopped)

lemma tcp_create_sel:
  assumes "tcp_create ops n h nconn now cps = Some t0"
  shows "length (t_conns t0) = unat nconn" "no_stopped t0"
  using tcp_create_conns [OF assms] by (auto simp: no_stopped_def conn_init_def list_all_length)

lemma reaches_no_stopped:
  "tcp_reaches ops ev t0 t \<Longrightarrow> no_stopped t0 \<Longrightarrow> no_stopped t \<and> length (t_conns t) = length (t_conns t0)"
  by (induction rule: tcp_reaches.induct) (use tcp_handle_evolves evolves_no_stopped in metis)+

end
