(* ===== verification/TcpAck.thy ===== *)
theory TcpAck
  imports TcpStates
begin

text \<open>
  Acknowledgements against their specification. The segments in flight of a connection cover the
  sequence numbers from the oldest unacknowledged byte to the next one to send; an acknowledgement
  number at distance \<open>d\<close> from the oldest byte acknowledges \<open>d\<close> bytes. The scan of the code, with its
  64-bit comparisons, removes exactly the segments that lie within these bytes.
\<close>

section \<open>Segments in flight\<close>

abbreviation seg_bytes :: "segment list \<Rightarrow> nat" where
  "seg_bytes q \<equiv> sum_list (map (\<lambda>s. unat (s_len s)) q)"

text \<open>\<open>covers q una nxt\<close>: the segments lie one behind the other, from \<open>una\<close> up to \<open>nxt\<close>.\<close>

fun covers :: "segment list \<Rightarrow> u32 \<Rightarrow> u32 \<Rightarrow> bool" where
  "covers [] una nxt \<longleftrightarrow> una = nxt"
| "covers (s # q) una nxt \<longleftrightarrow> s_seq s = una \<and> covers q (una + s_len s) nxt"

lemma covers_append: "covers (p @ q) una nxt \<longleftrightarrow> (\<exists>mid. covers p una mid \<and> covers q mid nxt)"
  by (induction p arbitrary: una) auto

lemma covers_mid: "covers p una mid \<Longrightarrow> mid = una + of_nat (seg_bytes p)"
  by (induction p arbitrary: una) (force simp: add.assoc)+

lemma inflight_cong: "m_segments e' = m_segments e \<Longrightarrow> m_segidx e' = m_segidx e \<Longrightarrow>
    inflight e' = inflight e \<and> ring_ok e' = ring_ok e"
  by (simp add: inflight_def ring_ok_def segs_ring_def seg_slot_def)

lemma inflight_first_ack [simp]: "inflight (first_ack e) = inflight e" "ring_ok (first_ack e) = ring_ok e"
  using inflight_cong [of "first_ack e" e] by simp_all

lemma inflight_window_update [simp]: "inflight (window_update w e) = inflight e" "ring_ok (window_update w e) = ring_ok e"
  using inflight_cong [of "window_update w e" e] by simp_all

section \<open>The scan\<close>

text \<open>The distance of the acknowledgement from a segment decides what the code decides with sums.\<close>

lemma ack_distance:
  fixes ackno seq :: u32
  shows "(if ackno < seq then unat ackno + 2 ^ 32 else unat ackno) = unat seq + unat (ackno - seq)"
proof (cases "ackno < seq")
  case True
  then have "unat (ackno - seq) = 2 ^ 32 + unat ackno - unat seq"
    by (simp add: unat_sub_if' word_less_nat_alt not_le word_le_nat_alt)
  then show ?thesis
    using True unat_lt32 [of seq] by simp
next
  case False
  then have "unat (ackno - seq) = unat ackno - unat seq"
    by (simp add: unat_sub word_le_nat_alt word_less_nat_alt)
  then show ?thesis
    using False by (simp add: word_less_nat_alt)
qed

lemma ack_scan_Suc:
  "ack_scan (Suc n) ackno wnd e = (
     let d = unat (ackno - s_seq (segment_cur e)); l = unat (s_len (segment_cur e));
         e' = pop_segment (if \<not> m_ackdata e then first_ack e else e)
     in if d = 0 then (AckRexmit, window_update wnd e)
        else if d < l then (AckPartial, e)
        else if d = l then (AckDone, e') else ack_scan n ackno wnd e')"
proof -
  have "ackno = s_seq (segment_cur e) \<longleftrightarrow> unat (ackno - s_seq (segment_cur e)) = 0"
    by (simp add: unat_eq_0)
  then show ?thesis
    using ack_distance [of ackno "s_seq (segment_cur e)"] by (simp add: Let_def)
qed

lemma pop_ackdata: "m_ackdata (pop_segment (if \<not> m_ackdata e then first_ack e else e))"
  by simp

lemma ack_scan_ackdata: "ack_scan n a w e = (r, e') \<Longrightarrow> m_ackdata e \<Longrightarrow> m_ackdata e'"
proof (induction n arbitrary: e)
  case (Suc n)
  then show ?case
    unfolding ack_scan_Suc by (auto simp: Let_def split: if_splits)
qed simp

text \<open>What the scan does for an acknowledgement of \<open>d > 0\<close> bytes, at most the bytes in flight.\<close>

definition acked :: "conn \<Rightarrow> nat \<Rightarrow> ack_result \<times> conn \<Rightarrow> bool" where
  "acked e d = (\<lambda>(r, e'). \<exists>p. inflight e = p @ inflight e' \<and> ring_ok e' \<and> seg_bytes p \<le> d \<and>
     (r = AckDone \<and> seg_bytes p = d \<or>
      r = AckPartial \<and> seg_bytes p < d \<and> (\<exists>s q. inflight e' = s # q \<and> d < seg_bytes p + unat (s_len s))) \<and>
     (p \<noteq> [] \<longrightarrow> m_ackdata e'))"

lemma ack_scan_acked:
  assumes "ring_ok e" and "covers (inflight e) una nxt" and "0 < unat (ackno - una)"
    and "unat (ackno - una) \<le> seg_bytes (inflight e)" and "length (inflight e) \<le> n" and "seg_bytes (inflight e) < 2 ^ 32"
  shows "acked e (unat (ackno - una)) (ack_scan n ackno wnd e)"
  using assms
proof (induction n arbitrary: e una)
  case (Suc n)
  let ?d = "unat (ackno - una)" and ?e = "if \<not> m_ackdata e then first_ack e else e"
  obtain s q where q: "inflight e = s # q"
    using Suc.prems(3,4) by (cases "inflight e") auto
  have e: "inflight ?e = s # q" "ring_ok ?e"
    using q Suc.prems(1) by auto
  note pop = inflight_pop [OF e(2,1)] inflight_pop(1) [OF Suc.prems(1) q]
  have cov: "s_seq s = una" "covers q (una + s_len s) nxt"
    using Suc.prems(2) q by auto
  let ?l = "unat (s_len s)"
  note scan = ack_scan_Suc [of n ackno wnd e, unfolded pop(4) cov(1) Let_def]
  consider "?d < ?l" | "?d = ?l" | "?l < ?d"
    by linarith
  then show ?case
  proof cases
    case 1
    then show ?thesis
      using Suc.prems scan q by (auto simp: acked_def)
  next
    case 2
    have "acked e ?d (AckDone, pop_segment ?e)"
      using 2 q pop pop_ackdata [of e] by (simp add: acked_def)
    moreover have "ack_scan (Suc n) ackno wnd e = (AckDone, pop_segment ?e)"
      using 2 Suc.prems(3) scan by simp
    ultimately show ?thesis
      by simp
  next
    case 3
    have d: "unat (ackno - (una + s_len s)) = ?d - ?l"
      using 3 by (simp add: diff_diff_eq [symmetric] unat_sub word_le_nat_alt)
    have "acked (pop_segment ?e) (?d - ?l) (ack_scan n ackno wnd (pop_segment ?e))"
      unfolding d [symmetric]
      by (rule Suc.IH [OF pop(3)]) (use 3 d cov Suc.prems(4-6) q pop in simp_all)
    moreover obtain r e' where r: "ack_scan n ackno wnd (pop_segment ?e) = (r, e')"
      by fastforce
    ultimately obtain p where p: "q = p @ inflight e'" "ring_ok e'"
        "seg_bytes p \<le> ?d - ?l" "p \<noteq> [] \<longrightarrow> m_ackdata e'"
        "r = AckDone \<and> seg_bytes p = ?d - ?l \<or>
         r = AckPartial \<and> seg_bytes p < ?d - ?l \<and> (\<exists>s q. inflight e' = s # q \<and> ?d - ?l < seg_bytes p + unat (s_len s))"
      unfolding r acked_def pop(2) prod.case by (elim exE conjE) (rule that)
    have "m_ackdata e'"
      using ack_scan_ackdata [OF r] pop_ackdata [of e] by simp
    then have "acked e ?d (r, e')"
      using p q 3 by (auto simp: acked_def intro!: exI [of _ "s # p"])
    moreover have "ack_scan (Suc n) ackno wnd e = (r, e')"
      using 3 Suc.prems(3) scan r by simp
    ultimately show ?thesis
      by simp
  qed
qed simp

text \<open>Behind the segments in flight the slots are free, and passing over them frees nothing.\<close>

lemma inflight_pop_empty:
  assumes "ring_ok e" and "inflight e = []"
  shows "inflight (pop_segment e) = []" "ring_ok (pop_segment e)"
proof -
  from assms(1) obtain z where z: "length (m_segments e) = 16" "segs_ring e = z" "\<forall>s\<in>set z. s_len s = 0"
    by (rule ringE) (use assms(2) in simp)
  have ring: "segs_ring (pop_segment e) = [] @ (tl z @ [segment_clear (segment_cur e)])"
    using segs_ring_pop [OF z(1)] z(2) by simp
  have free: "s_len s = 0" if "s \<in> set (tl z @ [segment_clear (segment_cur e)])" for s
    using that z(3) by (cases z) (auto simp: segment_clear_def)
  have len: "length (m_segments (pop_segment e)) = 16"
    using z(1) by (simp add: pop_segment_def upd_seg_def)
  show "inflight (pop_segment e) = []" "ring_ok (pop_segment e)"
    by (rule inflightI [OF len ring], simp, erule free)+
qed

lemma ack_scan_empty:
  "ack_scan n a w e = (r, e') \<Longrightarrow> ring_ok e \<Longrightarrow> inflight e = [] \<Longrightarrow> inflight e' = []"
proof (induction n arbitrary: e)
  case (Suc n)
  let ?e = "if \<not> m_ackdata e then first_ack e else e"
  have "inflight (pop_segment ?e) = []" "ring_ok (pop_segment ?e)"
    using inflight_pop_empty [of ?e] Suc.prems by auto
  then show ?case
    using Suc.prems Suc.IH [of "pop_segment ?e"] unfolding ack_scan_Suc by (auto simp: Let_def split: if_splits)
qed simp

lemma ack_scan_beyond:
  assumes "ring_ok e" and "covers (inflight e) una nxt" and "seg_bytes (inflight e) < unat (ackno - una)"
    and "length (inflight e) \<le> n" and "ack_scan n ackno wnd e = (r, e')"
  shows "inflight e' = []"
  using assms
proof (induction n arbitrary: e una)
  case (Suc n)
  let ?d = "unat (ackno - una)" and ?e = "if \<not> m_ackdata e then first_ack e else e"
  show ?case
  proof (cases "inflight e")
    case Nil
    then show ?thesis
      using ack_scan_empty [OF Suc.prems(5,1)] by simp
  next
    case (Cons s q)
    have e: "inflight ?e = s # q" "ring_ok ?e"
      using Cons Suc.prems(1) by auto
    note pop = inflight_pop [OF e(2,1)] inflight_pop(1) [OF Suc.prems(1) Cons]
    have cov: "s_seq s = una" "covers q (una + s_len s) nxt" and l: "unat (s_len s) < ?d"
      using Suc.prems(2,3) Cons by auto
    have d: "unat (ackno - (una + s_len s)) = ?d - unat (s_len s)"
      using l by (simp add: diff_diff_eq [symmetric] unat_sub word_le_nat_alt)
    have "ack_scan n ackno wnd (pop_segment ?e) = (r, e')"
      using Suc.prems(5) l unfolding ack_scan_Suc pop(4) cov(1) Let_def by (simp split: if_splits)
    from Suc.IH [OF pop(3) _ _ _ this, of "una + s_len s"] show ?thesis
      using cov(2) d l Suc.prems(3,4) Cons pop(2) by simp
  qed
qed simp

section \<open>Properties\<close>

text \<open>C7: Acknowledgements refine their specification. For the segments in flight of a connection, covering the
  bytes from \<open>una\<close> to \<open>nxt\<close>, an acknowledgement of \<open>d > 0\<close> of these bytes removes the front segments that
  lie wholly within them, in order, and keeps the others, which then cover the bytes from the new
  oldest one; the result says whether the acknowledgement ends between two segments or inside one. The
  64-bit comparisons of the code are right across the wrap of the sequence numbers.\<close>
theorem ack_removes_acknowledged:
  assumes "ring_ok e" and "covers (inflight e) una nxt" and "0 < unat (ackno - una)"
    and "unat (ackno - una) \<le> seg_bytes (inflight e)" and "seg_bytes (inflight e) < 2 ^ 32"
  shows "\<exists>r e' p. ack_scan SEGMENT_COUNT ackno wnd e = (r, e') \<and> inflight e = p @ inflight e' \<and> ring_ok e' \<and>
    covers (inflight e') (una + of_nat (seg_bytes p)) nxt \<and>
    (r = AckDone \<and> seg_bytes p = unat (ackno - una) \<or>
     r = AckPartial \<and> seg_bytes p < unat (ackno - una) \<and>
       (\<exists>s q. inflight e' = s # q \<and> unat (ackno - una) < seg_bytes p + unat (s_len s)))"
proof -
  obtain r e' where r: "ack_scan 16 ackno wnd e = (r, e')"
    by fastforce
  have "length (inflight e) \<le> 16"
    unfolding inflight_def by (metis length_segs_ring length_takeWhile_le)
  from ack_scan_acked [OF assms(1-4) this assms(5), of wnd] obtain p where p: "inflight e = p @ inflight e'" "ring_ok e'"
      "r = AckDone \<and> seg_bytes p = unat (ackno - una) \<or>
       r = AckPartial \<and> seg_bytes p < unat (ackno - una) \<and>
         (\<exists>s q. inflight e' = s # q \<and> unat (ackno - una) < seg_bytes p + unat (s_len s))"
    unfolding r acked_def prod.case by (elim exE conjE) (rule that)
  obtain mid where "covers p una mid" "covers (inflight e') mid nxt"
    using assms(2) unfolding p(1) covers_append by blast
  then show ?thesis
    using r p covers_mid [of p una mid] by auto
qed

definition sample_conn :: conn where
  "sample_conn = conn_init\<lparr>m_state := ESTABLISHED, m_segidx := 15, m_snd_nxt := 5, m_segments :=
     [\<lparr>s_len = 4, s_seq = 1, s_dat = Null\<rparr>] @ replicate 14 segment_empty @ [\<lparr>s_len = 5, s_seq = 0xFFFFFFFC, s_dat = Null\<rparr>]\<rparr>"

lemma sample_inflight:
  "inflight sample_conn = [\<lparr>s_len = 5, s_seq = 0xFFFFFFFC, s_dat = Null\<rparr>, \<lparr>s_len = 4, s_seq = 1, s_dat = Null\<rparr>]"
  "ring_ok sample_conn"
  by code_simp+

theorem ack_removes_acknowledged_witness:
  "\<exists>r e' p. ack_scan SEGMENT_COUNT 1 100 sample_conn = (r, e') \<and> inflight sample_conn = p @ inflight e' \<and>
    covers (inflight e') (0xFFFFFFFC + of_nat (seg_bytes p)) 5"
  using ack_removes_acknowledged [OF sample_inflight(2), where una = "0xFFFFFFFC" and nxt = 5 and ackno = 1 and wnd = 100] by (auto simp: sample_inflight(1))

text \<open>An acknowledgement of nothing new, while segments are outstanding, asks for a retransmission and leaves
  the segments in flight as they are.\<close>
theorem ack_duplicate:
  assumes "ring_ok e" and "covers (inflight e) una nxt" and "inflight e \<noteq> []"
  shows "\<exists>e'. ack_scan SEGMENT_COUNT una wnd e = (AckRexmit, e') \<and> inflight e' = inflight e \<and> m_snd_nxt e' = m_snd_nxt e"
proof -
  obtain s q where q: "inflight e = s # q"
    using assms(3) by (cases "inflight e") auto
  then have "s_seq (segment_cur e) = una"
    using inflight_pop(1) [OF assms(1) q] assms(2) by simp
  then show ?thesis
    using ack_scan_Suc [of 15 una wnd e] by (simp add: Let_def eval_nat_numeral)
qed

theorem ack_duplicate_witness:
  "\<exists>e'. ack_scan SEGMENT_COUNT 0xFFFFFFFC 100 sample_conn = (AckRexmit, e') \<and> inflight e' = inflight sample_conn"
  using ack_duplicate [OF sample_inflight(2), where una = "0xFFFFFFFC" and nxt = 5 and wnd = 100] by (auto simp: sample_inflight(1))

text \<open>C16: An acknowledgement number outside the bytes in flight, such as an old one that arrives late, is not
  rejected: it removes every segment in flight, although the peer acknowledged none of them.\<close>
theorem ack_outside_removes_all:
  assumes "ring_ok e" and "covers (inflight e) una nxt" and "seg_bytes (inflight e) < unat (ackno - una)"
  shows "inflight (snd (ack_scan SEGMENT_COUNT ackno wnd e)) = []"
proof -
  have "length (inflight e) \<le> 16"
    unfolding inflight_def by (metis length_segs_ring length_takeWhile_le)
  from ack_scan_beyond [OF assms this] show ?thesis
    by (metis prod.collapse)
qed

theorem ack_outside_removes_all_witness:
  "inflight (snd (ack_scan SEGMENT_COUNT 0xFFFFFFFB 100 sample_conn)) = [] \<and> inflight sample_conn \<noteq> []"
  using ack_outside_removes_all [OF sample_inflight(2), where una = "0xFFFFFFFC" and nxt = 5 and ackno = "0xFFFFFFFB" and wnd = 100] by (auto simp: sample_inflight(1) unsigned_minus_1_eq_mask mask_eq_exp_minus_1)

end
