(* ===== verification/Devices.thy ===== *)
theory Devices
  imports TcpRxSafe
begin

text \<open>
  The devices that are software only: \<^verbatim>\<open>src/transport/list\<close> hands packets over through a shared list,
  \<^verbatim>\<open>src/transport/erase\<close> and \<^verbatim>\<open>src/transport/check\<close> wrap another device to clear the buffers it hands out
  and to refuse empty frames. Their models are tables of operations as \<^verbatim>\<open>Net\<close> wants them; the list
  device and the wrapped devices satisfy its contracts.
\<close>

section \<open>The list device\<close>

text \<open>
  The two sides of a link share a heap and two lists of pointers to packets; what one side writes the other
  reads. A packet is a block: four bytes of length, then \<^verbatim>\<open>m_mtu\<close> bytes of data. It belongs to the reader once it
  is in the list: \<^verbatim>\<open>poll\<close> and \<^verbatim>\<open>drop\<close> release it. \<open>l_junk\<close> is what \<^verbatim>\<open>malloc\<close> leaves in a new block.
\<close>

record list_dev =
  l_mtu :: u32
  l_read :: "ptr list"
  l_write :: "ptr list"
  l_junk :: "nat \<Rightarrow> nat \<Rightarrow> u8"

text \<open>A released block has no bytes: no access to it is in bounds, nor is a second release. A pointer into the middle of a
  block cannot be released.\<close>

fun mem_free :: "ptr \<Rightarrow> mem \<Rightarrow> mem option" where
  "mem_free (Ptr b 0) m = (if b < length m \<and> m ! b \<noteq> [] then Some (m[b := []]) else None)"
| "mem_free p m = None"

definition packet_allocate :: "list_dev \<Rightarrow> mem \<Rightarrow> ptr \<times> mem" where
  "packet_allocate d m = (Ptr (length m) 0, m @ [map (l_junk d (length m)) [0..<4 + unat (l_mtu d)]])"

definition list_prepare :: "mem \<Rightarrow> list_dev \<Rightarrow> (status \<times> ptr \<times> mem \<times> list_dev) option" where
  "list_prepare m d = (let (packet, m) = packet_allocate d m in Some (Ok, ptr_add packet 4, m, d))"

definition list_commit :: "u32 \<Rightarrow> ptr \<Rightarrow> u16 \<Rightarrow> mem \<Rightarrow> list_dev \<Rightarrow> (status \<times> mem \<times> list_dev) option" where
  "list_commit len buf mss m d = do {
     packet \<leftarrow> ptr_sub buf 4;
     m \<leftarrow> st32 m packet 0 len;
     Some (Ok, m, d\<lparr>l_write := l_write d @ [packet]\<rparr>)
   }"

definition list_ops :: "list_dev device_ops" where
  "list_ops = \<lparr>d_mtu = (\<lambda>d. l_mtu d - 14), d_mss = l_mtu, d_rblog2 = (\<lambda>d. 10), d_rbavail = (\<lambda>d. 0xFFFF),
     d_listen = (\<lambda>port d. (Ok, d)), d_unlisten = (\<lambda>port d. d), d_prepare = list_prepare,
     d_commit = list_commit\<rparr>"

text \<open>
  \<^verbatim>\<open>poll\<close> and \<^verbatim>\<open>wait\<close> hand the oldest packet to a processor and release it afterwards. The state of the processor
  contains the device it sends on and the heap, reached through \<open>dev\<close>, \<open>set_dev\<close>, \<open>heap\<close> and \<open>set_heap\<close>; its length
  argument has 16 bits. \<open>packet_data\<close> is the length of a packet with the bytes that can be read from its data on.
  \<open>arrive\<close> is what the other side does while \<^verbatim>\<open>wait\<close> sleeps.
\<close>

fun packet_data :: "mem \<Rightarrow> ptr \<Rightarrow> (u32 \<times> u8 list) option" where
  "packet_data m Null = None"
| "packet_data m (Ptr b i) = (if b < length m then do { len \<leftarrow> rd32 (m ! b) i; Some (len, drop (i + 4) (m ! b)) } else None)"

definition list_poll :: "('s \<Rightarrow> list_dev) \<Rightarrow> (list_dev \<Rightarrow> 's \<Rightarrow> 's) \<Rightarrow> ('s \<Rightarrow> mem) \<Rightarrow> (mem \<Rightarrow> 's \<Rightarrow> 's) \<Rightarrow>
    (u16 \<Rightarrow> u8 list \<Rightarrow> 's \<Rightarrow> (status \<times> 's) option) \<Rightarrow> 's \<Rightarrow> (status \<times> 's) option" where
  "list_poll dev set_dev heap set_heap proc s = (case l_read (dev s) of
     [] \<Rightarrow> Some (NoDataAvailable, s)
   | packet # _ \<Rightarrow> do {
       (len, data) \<leftarrow> packet_data (heap s) packet;
       (ret, s) \<leftarrow> proc (ucast len) data s;
       let s = set_dev ((dev s)\<lparr>l_read := tl (l_read (dev s))\<rparr>) s;
       m \<leftarrow> mem_free packet (heap s);
       Some (ret, set_heap m s)
     })"

definition list_wait :: "('s \<Rightarrow> list_dev) \<Rightarrow> (list_dev \<Rightarrow> 's \<Rightarrow> 's) \<Rightarrow> ('s \<Rightarrow> mem) \<Rightarrow> (mem \<Rightarrow> 's \<Rightarrow> 's) \<Rightarrow>
    (u16 \<Rightarrow> u8 list \<Rightarrow> 's \<Rightarrow> (status \<times> 's) option) \<Rightarrow> ('s \<Rightarrow> 's) \<Rightarrow> 's \<Rightarrow> (status \<times> 's) option" where
  "list_wait dev set_dev heap set_heap proc arrive s =
     list_poll dev set_dev heap set_heap proc (if l_read (dev s) = [] then arrive s else s)"

definition list_drop :: "mem \<Rightarrow> list_dev \<Rightarrow> (status \<times> mem \<times> list_dev) option" where
  "list_drop m d = (case l_read d of
     [] \<Rightarrow> Some (NoDataAvailable, m, d)
   | packet # rest \<Rightarrow> do { m \<leftarrow> mem_free packet m; Some (Ok, m, d\<lparr>l_read := rest\<rparr>) })"

lemma list_poll_releases:
  assumes "list_poll dev set_dev heap set_heap proc s = Some (ret, s')" and "l_read (dev s) = packet # rest"
    and "\<And>m s. heap (set_heap m s) = m"
  shows "\<exists>b. packet = Ptr b 0 \<and> b < length (heap s') \<and> heap s' ! b = []"
  using assms by (auto simp: list_poll_def Some_eq_bind Let_def elim!: mem_free.elims split: if_splits)

text \<open>What the operations of one side ask of the device: their own heap never shrinks, since only the reader releases packets.\<close>

definition list_dinv :: "u32 \<Rightarrow> mem \<Rightarrow> list_dev \<Rightarrow> bool" where
  "list_dinv mtu m d \<longleftrightarrow> l_mtu d = mtu"

lemma valid_append: "valid m p n \<Longrightarrow> valid (m @ bs) p n"
  by (cases p) (auto simp: nth_append)

interpretation list_link: reliable_nic list_ops "list_dinv mtu" "unat mtu" 4 for mtu
proof
  fix m d assume d: "list_dinv mtu m d"
  show "runs (d_prepare list_ops m d) (\<lambda>(st, p, m', d'). mem_le m m' \<and> list_dinv mtu m' d' \<and>
      (st = Ok \<longrightarrow> frame_ok m' p 4 (unat mtu)))"
    using d by (auto simp: list_ops_def list_prepare_def packet_allocate_def list_dinv_def mem_le_def frame_ok_def
        valid_append nth_append intro!: exI [of _ "Ptr (length m) 0"])
  fix p len tso assume "frame_ok m p 4 (unat (len :: u32))" "unat len \<le> unat mtu"
  then obtain q where q: "ptr_sub p 4 = Some q" "p = ptr_add q 4" "valid m q 4"
    using frame_ok_sub [of m p 4 "unat len" 4] valid_less [OF frame_ok_valid, of m _ 0 "unat len + 4" 4] by auto
  then show "runs (d_commit list_ops len p tso m d) (\<lambda>(st, m', d'). mem_le m m' \<and> list_dinv mtu m' d')"
    using d st_valid(3) [OF q(3), of 0] by (simp add: list_ops_def list_commit_def list_dinv_def)
qed (auto simp: list_ops_def list_dinv_def list_prepare_def list_commit_def packet_allocate_def Some_eq_bind)

text \<open>
  A frame sent on the list device: the layers above write the header and the body into the fresh
  packet in any order, and the other side finds the length and exactly these bytes.
\<close>

definition eth_frame :: "mac \<Rightarrow> mac \<Rightarrow> u16 \<Rightarrow> u8 list \<Rightarrow> u8 list" where
  "eth_frame dest src type body = mac_bytes dest @ mac_bytes src @ bytes16 (htons type) @ body"

lemma length_eth_frame [simp]: "length (eth_frame d s ty body) = 14 + length body"
  by (simp add: eth_frame_def)

definition list_sent :: "u8 list \<Rightarrow> list_dev net \<Rightarrow> list_dev net \<Rightarrow> bool" where
  "list_sent bs n n' \<longleftrightarrow> take (length (n_mem n)) (n_mem n') = n_mem n \<and>
     l_write (n_dev n') = l_write (n_dev n) @ [Ptr (length (n_mem n)) 0] \<and>
     mem_read (n_mem n') (Ptr (length (n_mem n)) 0) (4 + length bs) = Some (bytes32 (of_nat (length bs)) @ bs)"

lemma patch_left': "k = i + length ys \<Longrightarrow> i + length ys + length zs \<le> length xs \<Longrightarrow> patch (patch xs k zs) i ys = patch xs i (ys @ zs)"
  using patch_left by blast

lemma patch_right': "k = i + length ys \<Longrightarrow> i + length ys + length zs \<le> length xs \<Longrightarrow> patch (patch xs i ys) k zs = patch xs i (ys @ zs)"
  using patch_right by blast

lemma last_block_write:
  "i + length bs \<le> length blk \<Longrightarrow> b = length m \<Longrightarrow> mem_write (m @ [blk]) (Ptr b i) bs = Some (m @ [patch blk i bs])"
  by (simp add: mem_write_def)

lemma list_eth_prepare:
  assumes "14 \<le> unat (l_mtu (n_dev n))"
  shows "\<exists>blk. length blk = 4 + unat (l_mtu (n_dev n)) \<and> eth_prepare list_ops n = Some (Ok, Ptr (length (n_mem n)) 18,
    n\<lparr>n_mem := n_mem n @ [patch blk 4 (eth_frame (eo_dest (n_eth n)) (eo_host (n_eth n)) (eo_type (n_eth n)) [])]\<rparr>)"
  using assms
  by (intro exI [of _ "map (l_junk (n_dev n) (length (n_mem n))) [0..<4 + unat (l_mtu (n_dev n))]"])
    (simp add: eth_prepare_def list_ops_def list_prepare_def packet_allocate_def st16_def last_block_write
      patch_left' patch_right' eth_frame_def)

lemma list_eth_commit:
  assumes "length blk \<ge> 4 + length bs" and "length bs < 2 ^ 32" and "length bs \<ge> 14" and "len + 14 = of_nat (length bs)"
    and "n_mem n' = n_mem n @ [patch blk 4 bs]" and "n_dev n' = n_dev n"
  shows "\<exists>n''. eth_commit list_ops len (Ptr (length (n_mem n)) 18) mss n' = Some (Ok, n'') \<and> list_sent bs n n'' \<and>
    l_mtu (n_dev n'') = l_mtu (n_dev n) \<and> n_eth n'' = n_eth n' \<and> n_ip n'' = n_ip n'"
proof -
  let ?blk = "patch blk 0 (bytes32 (of_nat (length bs)) @ bs)"
  have "take (4 + length bs) ?blk = bytes32 (of_nat (length bs)) @ bs"
    using assms(1) by (simp add: patch_def)
  then show ?thesis
    using assms by (simp add: eth_commit_def list_ops_def list_commit_def st32_def last_block_write patch_left'
        list_sent_def mem_read_def)
qed

text \<open>The same for the IPv4 producer: the header it prepared, completed with length and checksum.\<close>

definition ip_header :: "ip_producer \<Rightarrow> u16 \<Rightarrow> u8 list" where
  "ip_header p len = (let h = patch (ip_header_image p) 2 (bytes16 (htons len))
     in patch h 10 (bytes16 (NOT (the (ipv4_checksum h)))))"

lemma length_ip_header [simp]: "length (ip_header p len) = 20"
  by (simp add: ip_header_def Let_def)

lemma ip_header_verifies: "ipv4_checksum (ip_header p len) = Some 0xFFFF"
proof -
  let ?h = "patch (ip_header_image p) 2 (bytes16 (htons len))"
  have h: "?h = [0x45, 0] @ bytes16 (htons len) @ bytes16 (htons (io_id p)) @ [0, 0, 64, io_proto p] @ bytes16 0 @
      bytes32 (io_host p) @ bytes32 (io_dest p)"
    by (simp add: patch_def ip_header_image_def bytes16_def bytes32_def)
  have z: "?h ! 10 = 0" "?h ! 11 = 0" "?h ! 0 \<noteq> 0" "20 \<le> length ?h"
    unfolding h by (simp_all add: bytes16_def)
  obtain c where "ipv4_checksum ?h = Some c"
    by (simp add: ipv4_checksum_def checksum_def)
  then show ?thesis
    using ipv4_checksum_verifies [OF z(4,1-3)] by (simp add: ip_header_def Let_def)
qed

definition ip_next :: "'d net \<Rightarrow> ip_producer" where
  "ip_next n = (n_ip n)\<lparr>io_id := io_id (n_ip n) + 1\<rparr>"

lemma list_ip_prepare:
  assumes "34 \<le> unat (l_mtu (n_dev n))"
  shows "\<exists>blk. length blk = 4 + unat (l_mtu (n_dev n)) \<and> ip_prepare list_ops n = Some (Ok, Ptr (length (n_mem n)) 38,
    n\<lparr>n_mem := n_mem n @ [patch blk 4 (eth_frame (eo_dest (n_eth n)) (eo_host (n_eth n)) ETHTYPE_IP (ip_header_image (ip_next n)))],
      n_eth := (n_eth n)\<lparr>eo_type := ETHTYPE_IP\<rparr>, n_ip := ip_next n\<rparr>)"
proof -
  let ?n = "eth_setType ETHTYPE_IP n"
  obtain blk where blk: "length blk = 4 + unat (l_mtu (n_dev n))"
    and p: "eth_prepare list_ops ?n = Some (Ok, Ptr (length (n_mem n)) 18,
      ?n\<lparr>n_mem := n_mem n @ [patch blk 4 (eth_frame (eo_dest (n_eth n)) (eo_host (n_eth n)) ETHTYPE_IP [])]\<rparr>)"
    using list_eth_prepare [of ?n] assms by (auto simp: eth_setType_def)
  have "patch (patch blk 4 (eth_frame d s ty [])) 18 bs = patch blk 4 (eth_frame d s ty bs)" if "length bs = 20" for d s ty bs
    using blk assms that by (subst patch_right') (simp_all add: eth_frame_def)
  then show ?thesis
    using blk assms by (intro exI [of _ blk])
      (simp add: ip_prepare_def p Let_def last_block_write ip_next_def, simp add: eth_setType_def)
qed

lemma list_ip_commit:
  assumes blk: "length blk \<ge> 38 + length body" "34 + length body < 2 ^ 32" and len: "len = of_nat (length body)"
    and n': "n_mem n' = n_mem n @ [patch blk 4 (eth_frame d s ty (ip_header_image p @ body))]" "n_dev n' = n_dev n"
  shows "\<exists>n''. ip_commit list_ops len (Ptr (length (n_mem n)) 38) mss n' = Some (Ok, n'') \<and>
    list_sent (eth_frame d s ty (ip_header p (ucast (len + 20)) @ body)) n n'' \<and>
    l_mtu (n_dev n'') = l_mtu (n_dev n) \<and> n_eth n'' = n_eth n'"
proof -
  let ?f = "\<lambda>h. patch blk 4 (eth_frame d s ty (h @ body))"
  have inside: "patch (?f h) (18 + j) bs = ?f (patch h j bs)" if "length h = 20" "j + length bs \<le> 20" for h j bs
  proof -
    have "patch (?f h) (4 + (14 + j)) bs = patch blk 4 (patch (eth_frame d s ty (h @ body)) (14 + j) bs)"
      by (rule patch_inside) (use that blk in simp_all)
    also have "patch (eth_frame d s ty (h @ body)) (14 + j) bs = eth_frame d s ty (patch h j bs @ body)"
      using that by (simp add: eth_frame_def patch_def bytes16_def)
    finally show ?thesis
      by (simp add: add.assoc)
  qed
  have get: "take 20 (drop 18 (?f h)) = h" if "length h = 20" for h
  proof -
    have "drop 18 (?f h) = drop 14 (eth_frame d s ty (h @ body)) @ drop (4 + length (eth_frame d s ty (h @ body))) blk"
      using that blk by (simp add: patch_def)
    also have "drop 14 (eth_frame d s ty (h @ body)) = h @ body"
      by (simp add: eth_frame_def)
    finally show ?thesis
      using that by simp
  qed
  let ?h = "patch (ip_header_image p) 2 (bytes16 (htons (ucast (len + 20))))"
  have h: "length ?h = 20"
    by simp
  obtain c where c: "ipv4_checksum ?h = Some c"
    by (simp add: ipv4_checksum_def checksum_def)
  let ?n = "n'\<lparr>n_mem := n_mem n @ [?f (ip_header p (ucast (len + 20)))], n_ip := (n_ip n')\<lparr>io_sent := io_sent (n_ip n') + 1\<rparr>\<rparr>"
  have "ip_commit list_ops len (Ptr (length (n_mem n)) 38) mss n' = eth_commit list_ops (len + 20) (Ptr (length (n_mem n)) 18) mss ?n"
    using blk inside [of "ip_header_image p" 2] inside [OF h, of 10] get [OF h] c
    by (simp add: ip_commit_def n' st16_def last_block_write Let_def mem_read_def ip_header_def)
  moreover have "len + 20 + 14 = of_nat (length (eth_frame d s ty (ip_header p (ucast (len + 20)) @ body)))"
    by (simp add: len)
  ultimately show ?thesis
    using list_eth_commit [of "eth_frame d s ty (ip_header p (ucast (len + 20)) @ body)" blk "len + 20" ?n n mss] blk n'(2)
    by auto
qed

section \<open>The erasing device\<close>

definition erase_prepare :: "'d device_ops \<Rightarrow> mem \<Rightarrow> 'd \<Rightarrow> (status \<times> ptr \<times> mem \<times> 'd) option" where
  "erase_prepare ops m d = do {
     (ret, buf, m, d) \<leftarrow> d_prepare ops m d;
     if ret = Ok
     then do {
       m \<leftarrow> mem_write m buf (replicate (unat (d_mss ops d)) 0);
       Some (ret, buf, m, d)
     }
     else Some (ret, buf, m, d)
   }"

definition erase_ops :: "'d device_ops \<Rightarrow> 'd device_ops" where
  "erase_ops ops = \<lparr>d_mtu = d_mtu ops, d_mss = d_mss ops, d_rblog2 = d_rblog2 ops, d_rbavail = d_rbavail ops,
     d_listen = d_listen ops, d_unlisten = d_unlisten ops, d_prepare = erase_prepare ops, d_commit = d_commit ops\<rparr>"

context reliable_nic
begin

lemma erase_prepare_runs:
  assumes "dinv m d"
  shows "runs (erase_prepare ops m d) (\<lambda>(st, p, m', d'). st = Ok \<and> mem_le m m' \<and> dinv m' d' \<and> frame_ok m' p hr nmss)"
  unfolding erase_prepare_def runs_bind
proof (rule runs_mono [OF prepare_law [OF assms]], clarify)
  fix st p m' d' assume p: "d_prepare ops m d = Some (st, p, m', d')" "mem_le m m'" "dinv m' d'" "st = Ok \<longrightarrow> frame_ok m' p hr nmss"
  have st: "st = Ok"
    using prepare_Ok [OF assms p(1)] .
  show "runs (if st = Ok then mem_write m' p (replicate (unat (d_mss ops d')) 0) \<bind> (\<lambda>m. Some (st, p, m, d')) else Some (st, p, m', d'))
      (\<lambda>(st, p, m', d'). st = Ok \<and> mem_le m m' \<and> dinv m' d' \<and> frame_ok m' p hr nmss)"
    using st p(2-4) mem_write_valid(1) [OF frame_ok_valid, of m' p hr nmss "replicate (unat (d_mss ops d')) 0"] mss_const [OF p(3)]
    by (simp add: dinv_mem [OF p(3)])
qed

text \<open>The erasing wrapper of a device with the contract has the contract again.\<close>

lemma erase_reliable: "reliable_nic (erase_ops ops) dinv nmss hr"
proof
  fix m d assume d: "dinv m d"
  show "runs (d_prepare (erase_ops ops) m d) (\<lambda>(st, p, m', d'). mem_le m m' \<and> dinv m' d' \<and> (st = Ok \<longrightarrow> frame_ok m' p hr nmss))"
    using erase_prepare_runs [OF d] by (auto simp: erase_ops_def elim!: runs_mono)
  show "d_prepare (erase_ops ops) m d = Some (st, p, m', d') \<Longrightarrow> st = Ok" for st p m' d'
    using erase_prepare_runs [OF d] by (simp add: erase_ops_def)
qed (auto simp: erase_ops_def mss_const dinv_listen dinv_unlisten intro: dinv_mem commit_Ok commit_law)

end

interpretation erased_list: reliable_nic "erase_ops list_ops" "list_dinv mtu" "unat mtu" 4 for mtu
  by (rule list_link.erase_reliable)

section \<open>The checking device\<close>

text \<open>Its state adds the last buffer it handed out. A frame of zeros makes it throw (\<open>None\<close>).\<close>

definition check_data :: "u8 list \<Rightarrow> bool" where
  "check_data bs \<longleftrightarrow> list_ex (\<lambda>b. b \<noteq> 0) bs"

definition check_process :: "(u16 \<Rightarrow> u8 list \<Rightarrow> 's \<Rightarrow> (status \<times> 's) option) \<Rightarrow> u16 \<Rightarrow> u8 list \<Rightarrow> 's \<Rightarrow> (status \<times> 's) option" where
  "check_process proc len data s =
     (if unat len \<le> length data \<and> check_data (take (unat len) data) then proc len data s else None)"

definition check_prepare :: "'d device_ops \<Rightarrow> mem \<Rightarrow> 'd \<times> ptr \<Rightarrow> (status \<times> ptr \<times> mem \<times> 'd \<times> ptr) option" where
  "check_prepare ops m = (\<lambda>(d, buffer). do {
     (ret, buf, m, d) \<leftarrow> d_prepare ops m d;
     Some (ret, buf, m, d, buf)
   })"

definition check_commit :: "'d device_ops \<Rightarrow> u32 \<Rightarrow> ptr \<Rightarrow> u16 \<Rightarrow> mem \<Rightarrow> 'd \<times> ptr \<Rightarrow> (status \<times> mem \<times> 'd \<times> ptr) option" where
  "check_commit ops len buf mss m = (\<lambda>(d, buffer). do {
     bs \<leftarrow> mem_read m buffer (unat len);
     if check_data bs
     then do {
       (ret, m, d) \<leftarrow> d_commit ops len buf mss m d;
       Some (ret, m, d, buffer)
     }
     else None
   })"

definition check_ops :: "'d device_ops \<Rightarrow> ('d \<times> ptr) device_ops" where
  "check_ops ops = \<lparr>d_mtu = (\<lambda>(d, b). d_mtu ops d), d_mss = (\<lambda>(d, b). d_mss ops d),
     d_rblog2 = (\<lambda>(d, b). d_rblog2 ops d), d_rbavail = (\<lambda>(d, b). d_rbavail ops d),
     d_listen = (\<lambda>port (d, b). let (st, d) = d_listen ops port d in (st, d, b)),
     d_unlisten = (\<lambda>port (d, b). (d_unlisten ops port d, b)),
     d_prepare = check_prepare ops, d_commit = check_commit ops\<rparr>"

end
