(* ===== verification/Delegates.thy ===== *)
theory Delegates
  imports TcpStates Devices
begin

text \<open>
  What stands between the TCP processor and an application: the delegate interface of
  \<^verbatim>\<open>include/tulips/api/Interface.h\<close>, its default implementations (\<^verbatim>\<open>src/api/Defaults.cpp\<close>) and the event
  handlers of the client (\<^verbatim>\<open>src/api/Client.cpp\<close>) and of the server (\<^verbatim>\<open>src/api/Server.cpp\<close>), which
  translate the callbacks of the processor to those of a delegate.

  The client keeps a handle per connection and an index from the connections of the processor to its
  handles. A delegate that keeps its contract makes both event handlers keep the contract \<open>app\<close> of the
  processor.
\<close>

section \<open>Delegates\<close>

text \<open>As in \<open>handler_ops\<close>, a callback that may answer returns the bytes it wrote and the length it
  reported; reference arguments are returned with their new values.\<close>

record 'u delegate_ops =
  g_connected :: "u16 \<Rightarrow> u64 \<Rightarrow> u8 \<Rightarrow> 'u \<Rightarrow> (u64 \<times> u8 \<times> 'u) option"
  g_acked :: "u16 \<Rightarrow> u64 \<Rightarrow> 'u \<Rightarrow> (action \<times> 'u) option"
  g_acked_send :: "u16 \<Rightarrow> u64 \<Rightarrow> u32 \<Rightarrow> 'u \<Rightarrow> (action \<times> u8 list \<times> u32 \<times> 'u) option"
  g_newdata :: "u16 \<Rightarrow> u64 \<Rightarrow> u8 list \<Rightarrow> 'u \<Rightarrow> (action \<times> 'u) option"
  g_newdata_send :: "u16 \<Rightarrow> u64 \<Rightarrow> u8 list \<Rightarrow> u32 \<Rightarrow> 'u \<Rightarrow> (action \<times> u8 list \<times> u32 \<times> 'u) option"
  g_closed :: "u16 \<Rightarrow> u64 \<Rightarrow> 'u \<Rightarrow> 'u option"

text \<open>The default delegates of the client and of the server, which have the same bodies. The processor
  initialises the reported length to zero, so the default, which does not touch it, reports zero.\<close>

definition default_delegate :: "unit delegate_ops" where
  "default_delegate = \<lparr>
     g_connected = (\<lambda>i cookie opts u. Some (0, opts, u)),
     g_acked = (\<lambda>i cookie u. Some (Continue, u)),
     g_acked_send = (\<lambda>i cookie alen u. Some (Continue, [], 0, u)),
     g_newdata = (\<lambda>i cookie data u. Some (Continue, u)),
     g_newdata_send = (\<lambda>i cookie data alen u. Some (Continue, [], 0, u)),
     g_closed = (\<lambda>i cookie u. Some u)\<rparr>"

locale delegate =
  fixes g :: "'u delegate_ops" and ginv :: "'u \<Rightarrow> bool"
  assumes g_connected_law: "ginv u \<Longrightarrow> runs (g_connected g i c opts u) (\<lambda>(c', opts', u'). ginv u')"
    and g_acked_law: "ginv u \<Longrightarrow> runs (g_acked g i c u) (\<lambda>(a, u'). ginv u')"
    and g_acked_send_law: "ginv u \<Longrightarrow>
          runs (g_acked_send g i c alen u) (\<lambda>(a, out, rlen, u'). ginv u' \<and> length out \<le> unat alen)"
    and g_newdata_law: "ginv u \<Longrightarrow> runs (g_newdata g i c bs u) (\<lambda>(a, u'). ginv u')"
    and g_newdata_send_law: "ginv u \<Longrightarrow>
          runs (g_newdata_send g i c bs alen u) (\<lambda>(a, out, rlen, u'). ginv u' \<and> length out \<le> unat alen)"
    and g_closed_law: "ginv u \<Longrightarrow> runs (g_closed g i c u) ginv"

interpretation default: delegate default_delegate "\<lambda>u. True"
  by unfold_locales (simp_all add: default_delegate_def)

section \<open>The event handler of the client\<close>

datatype client_state = Closed | Opened | Resolving | Connecting | Connected

record client_conn =
  cc_state :: client_state
  cc_conn :: u16

text \<open>The members of the client that its callbacks use: the delegate, \<^verbatim>\<open>m_cns\<close> and \<^verbatim>\<open>m_idx\<close>.\<close>

record 'u client =
  cl_dlg :: 'u
  cl_cns :: "client_conn list"
  cl_idx :: "u16 \<rightharpoonup> u16"

definition client_conn_init :: client_conn where
  "client_conn_init = \<lparr>cc_state = Closed, cc_conn = - 1\<rparr>"

definition client_new :: "nat \<Rightarrow> 'u \<Rightarrow> 'u client" where
  "client_new nconn u = \<lparr>cl_dlg = u, cl_cns = replicate nconn client_conn_init, cl_idx = Map.empty\<rparr>"

text \<open>\<^verbatim>\<open>m_idx[c]\<close> inserts zero if there is no entry.\<close>

definition client_index :: "u16 \<Rightarrow> 'u client \<Rightarrow> u16 \<times> 'u client" where
  "client_index c cl = (case cl_idx cl c of
     None \<Rightarrow> (0, cl\<lparr>cl_idx := (cl_idx cl)(c \<mapsto> 0)\<rparr>)
   | Some i \<Rightarrow> (i, cl))"

text \<open>The common beginning of the callbacks: the handle, and whether it still belongs to the connection.\<close>

definition client_find :: "conn \<Rightarrow> 'u client \<Rightarrow> (u16 \<times> bool \<times> 'u client) option" where
  "client_find e cl = (let (i, cl) = client_index (m_id e) cl
     in if unat i < length (cl_cns cl) then Some (i, cc_conn (cl_cns cl ! unat i) = m_id e, cl) else None)"

definition client_set_state :: "u16 \<Rightarrow> client_state \<Rightarrow> 'u client \<Rightarrow> 'u client" where
  "client_set_state i s cl = cl\<lparr>cl_cns := (cl_cns cl)[unat i := (cl_cns cl ! unat i)\<lparr>cc_state := s\<rparr>]\<rparr>"

definition client_onConnected :: "'u delegate_ops \<Rightarrow> conn \<Rightarrow> 'u client \<Rightarrow> (u64 \<times> u64 \<times> 'u client) option" where
  "client_onConnected g e cl = do {
     (i, own, cl) \<leftarrow> client_find e cl;
     if \<not> own then Some (m_opts e, m_cookie e, cl)
     else do {
       let cl = client_set_state i Connected cl;
       (cookie, options, u) \<leftarrow> g_connected g i 0 0 (cl_dlg cl);
       Some (m_opts (setOptions options e), cookie, cl\<lparr>cl_dlg := u\<rparr>)
     }
   }"

text \<open>\<^verbatim>\<open>onAborted\<close>, \<^verbatim>\<open>onTimedOut\<close> and \<^verbatim>\<open>onClosed\<close> differ in what they log.\<close>

definition client_onClosed :: "'u delegate_ops \<Rightarrow> conn \<Rightarrow> 'u client \<Rightarrow> (u64 \<times> u64 \<times> 'u client) option" where
  "client_onClosed g e cl = do {
     (i, own, cl) \<leftarrow> client_find e cl;
     if \<not> own then Some (m_opts e, m_cookie e, cl)
     else do {
       let cl = client_set_state i Closed cl;
       u \<leftarrow> g_closed g i (m_cookie e) (cl_dlg cl);
       Some (m_opts e, 0, cl\<lparr>cl_dlg := u\<rparr>)
     }
   }"

definition client_ask :: "(u16 \<Rightarrow> u64 \<Rightarrow> 'u \<Rightarrow> (action \<times> 'u) option) \<Rightarrow> conn \<Rightarrow> 'u client \<Rightarrow>
    (action \<times> u64 \<times> u64 \<times> 'u client) option" where
  "client_ask f e cl = do {
     (i, own, cl) \<leftarrow> client_find e cl;
     if \<not> own then Some (Abort, m_opts e, m_cookie e, cl)
     else do {
       (a, u) \<leftarrow> f i (m_cookie e) (cl_dlg cl);
       Some (a, m_opts e, m_cookie e, cl\<lparr>cl_dlg := u\<rparr>)
     }
   }"

definition client_ask_send :: "(u16 \<Rightarrow> u64 \<Rightarrow> 'u \<Rightarrow> (action \<times> u8 list \<times> u32 \<times> 'u) option) \<Rightarrow> conn \<Rightarrow> 'u client \<Rightarrow>
    (action \<times> u8 list \<times> u32 \<times> u64 \<times> u64 \<times> 'u client) option" where
  "client_ask_send f e cl = do {
     (i, own, cl) \<leftarrow> client_find e cl;
     if \<not> own then Some (Abort, [], 0, m_opts e, m_cookie e, cl)
     else do {
       (a, out, rlen, u) \<leftarrow> f i (m_cookie e) (cl_dlg cl);
       Some (a, out, rlen, m_opts e, m_cookie e, cl\<lparr>cl_dlg := u\<rparr>)
     }
   }"

definition client_onAcked :: "'u delegate_ops \<Rightarrow> conn \<Rightarrow> 'u client \<Rightarrow> (action \<times> u64 \<times> u64 \<times> 'u client) option" where
  "client_onAcked g = client_ask (g_acked g)"

definition client_onAcked_send :: "'u delegate_ops \<Rightarrow> conn \<Rightarrow> u32 \<Rightarrow> 'u client \<Rightarrow>
    (action \<times> u8 list \<times> u32 \<times> u64 \<times> u64 \<times> 'u client) option" where
  "client_onAcked_send g e alen = client_ask_send (\<lambda>i c. g_acked_send g i c alen) e"

definition client_onNewData :: "'u delegate_ops \<Rightarrow> conn \<Rightarrow> u8 list \<Rightarrow> 'u client \<Rightarrow>
    (action \<times> u64 \<times> u64 \<times> 'u client) option" where
  "client_onNewData g e bs = client_ask (\<lambda>i c. g_newdata g i c bs) e"

definition client_onNewData_send :: "'u delegate_ops \<Rightarrow> conn \<Rightarrow> u8 list \<Rightarrow> u32 \<Rightarrow> 'u client \<Rightarrow>
    (action \<times> u8 list \<times> u32 \<times> u64 \<times> u64 \<times> 'u client) option" where
  "client_onNewData_send g e bs alen = client_ask_send (\<lambda>i c. g_newdata_send g i c bs alen) e"

definition client_events :: "'u delegate_ops \<Rightarrow> 'u client handler_ops" where
  "client_events g = \<lparr>h_connected = client_onConnected g, h_aborted = client_onClosed g,
     h_timedout = client_onClosed g, h_closed = client_onClosed g, h_acked = client_onAcked g,
     h_acked_send = client_onAcked_send g, h_newdata = client_onNewData g,
     h_newdata_send = client_onNewData_send g\<rparr>"

section \<open>The event handler of the server\<close>

text \<open>The delegate and \<^verbatim>\<open>m_cookies\<close>, keyed by the port in network byte order.\<close>

record 'u server =
  sv_dlg :: 'u
  sv_cookies :: "u16 \<rightharpoonup> u64"

definition server_onConnected :: "'u delegate_ops \<Rightarrow> conn \<Rightarrow> 'u server \<Rightarrow> (u64 \<times> u64 \<times> 'u server) option" where
  "server_onConnected g e sv = do {
     let srvdata = (case sv_cookies sv (m_lport e) of None \<Rightarrow> 0 | Some c \<Rightarrow> c);
     let sv = sv\<lparr>sv_cookies := (sv_cookies sv)(m_lport e \<mapsto> srvdata)\<rparr>;
     (appdata, opts, u) \<leftarrow> g_connected g (m_id e) srvdata 0 (sv_dlg sv);
     Some (m_opts (setOptions opts e), appdata, sv\<lparr>sv_dlg := u\<rparr>)
   }"

definition server_onClosed :: "'u delegate_ops \<Rightarrow> conn \<Rightarrow> 'u server \<Rightarrow> (u64 \<times> u64 \<times> 'u server) option" where
  "server_onClosed g e sv = do {
     u \<leftarrow> g_closed g (m_id e) (m_cookie e) (sv_dlg sv);
     Some (m_opts e, 0, sv\<lparr>sv_dlg := u\<rparr>)
   }"

definition server_onAcked :: "'u delegate_ops \<Rightarrow> conn \<Rightarrow> 'u server \<Rightarrow> (action \<times> u64 \<times> u64 \<times> 'u server) option" where
  "server_onAcked g e sv = do {
     (a, u) \<leftarrow> g_acked g (m_id e) (m_cookie e) (sv_dlg sv);
     Some (a, m_opts e, m_cookie e, sv\<lparr>sv_dlg := u\<rparr>)
   }"

definition server_onAcked_send :: "'u delegate_ops \<Rightarrow> conn \<Rightarrow> u32 \<Rightarrow> 'u server \<Rightarrow>
    (action \<times> u8 list \<times> u32 \<times> u64 \<times> u64 \<times> 'u server) option" where
  "server_onAcked_send g e alen sv = do {
     (a, out, rlen, u) \<leftarrow> g_acked_send g (m_id e) (m_cookie e) alen (sv_dlg sv);
     Some (a, out, rlen, m_opts e, m_cookie e, sv\<lparr>sv_dlg := u\<rparr>)
   }"

definition server_onNewData :: "'u delegate_ops \<Rightarrow> conn \<Rightarrow> u8 list \<Rightarrow> 'u server \<Rightarrow>
    (action \<times> u64 \<times> u64 \<times> 'u server) option" where
  "server_onNewData g e bs sv = do {
     (a, u) \<leftarrow> g_newdata g (m_id e) (m_cookie e) bs (sv_dlg sv);
     Some (a, m_opts e, m_cookie e, sv\<lparr>sv_dlg := u\<rparr>)
   }"

definition server_onNewData_send :: "'u delegate_ops \<Rightarrow> conn \<Rightarrow> u8 list \<Rightarrow> u32 \<Rightarrow> 'u server \<Rightarrow>
    (action \<times> u8 list \<times> u32 \<times> u64 \<times> u64 \<times> 'u server) option" where
  "server_onNewData_send g e bs alen sv = do {
     (a, out, rlen, u) \<leftarrow> g_newdata_send g (m_id e) (m_cookie e) bs alen (sv_dlg sv);
     Some (a, out, rlen, m_opts e, m_cookie e, sv\<lparr>sv_dlg := u\<rparr>)
   }"

definition server_events :: "'u delegate_ops \<Rightarrow> 'u server handler_ops" where
  "server_events g = \<lparr>h_connected = server_onConnected g, h_aborted = server_onClosed g,
     h_timedout = server_onClosed g, h_closed = server_onClosed g, h_acked = server_onAcked g,
     h_acked_send = server_onAcked_send g, h_newdata = server_onNewData g,
     h_newdata_send = server_onNewData_send g\<rparr>"

section \<open>Both keep the contract of the processor\<close>

definition client_ok :: "('u \<Rightarrow> bool) \<Rightarrow> 'u client \<Rightarrow> bool" where
  "client_ok ginv cl \<longleftrightarrow> ginv (cl_dlg cl) \<and> cl_cns cl \<noteq> [] \<and>
     (\<forall>c i. cl_idx cl c = Some i \<longrightarrow> unat i < length (cl_cns cl))"

lemma client_new_ok: "0 < nconn \<Longrightarrow> ginv u \<Longrightarrow> client_ok ginv (client_new nconn u)"
  by (auto simp: client_ok_def client_new_def)

lemma client_find_ok:
  assumes "client_ok ginv cl"
  shows "runs (client_find e cl) (\<lambda>(i, own, cl'). client_ok ginv cl' \<and> unat i < length (cl_cns cl'))"
  using assms by (auto simp: client_find_def client_index_def client_ok_def split: option.split)

lemma client_set_state_ok: "client_ok ginv cl \<Longrightarrow> client_ok ginv (client_set_state i s cl)"
  by (simp add: client_ok_def client_set_state_def)

lemma client_ok_dlg: "client_ok ginv cl \<Longrightarrow> ginv (cl_dlg cl)" "client_ok ginv cl \<Longrightarrow> ginv u \<Longrightarrow> client_ok ginv (cl\<lparr>cl_dlg := u\<rparr>)"
  by (simp_all add: client_ok_def)

context delegate
begin

lemma client_onConnected_ok: "client_ok ginv cl \<Longrightarrow> runs (client_onConnected g e cl) (\<lambda>(opts, c, cl'). client_ok ginv cl')"
  unfolding client_onConnected_def runs_bind
  by (erule runs_mono [OF client_find_ok])
    (auto simp: wp Let_def client_ok_dlg client_set_state_ok intro!: runs_mono [OF g_connected_law])

lemma client_onClosed_ok: "client_ok ginv cl \<Longrightarrow> runs (client_onClosed g e cl) (\<lambda>(opts, c, cl'). client_ok ginv cl')"
  unfolding client_onClosed_def runs_bind
  by (erule runs_mono [OF client_find_ok])
    (auto simp: wp Let_def client_ok_dlg client_set_state_ok intro!: runs_mono [OF g_closed_law])

lemma client_ask_ok:
  assumes "client_ok ginv cl" and "\<And>i c u. ginv u \<Longrightarrow> runs (f i c u) (\<lambda>(a, u'). ginv u')"
  shows "runs (client_ask f e cl) (\<lambda>(a, opts, c, cl'). client_ok ginv cl')"
  unfolding client_ask_def runs_bind
  by (rule runs_mono [OF client_find_ok [OF assms(1)]]) (auto simp: wp client_ok_dlg intro!: runs_mono [OF assms(2)])

lemma client_ask_send_ok:
  assumes "client_ok ginv cl" and "\<And>i c u. ginv u \<Longrightarrow> runs (f i c u) (\<lambda>(a, out, rlen, u'). ginv u' \<and> length out \<le> n)"
  shows "runs (client_ask_send f e cl) (\<lambda>(a, out, rlen, opts, c, cl'). client_ok ginv cl' \<and> length out \<le> n)"
  unfolding client_ask_send_def runs_bind
  by (rule runs_mono [OF client_find_ok [OF assms(1)]]) (auto simp: wp client_ok_dlg intro!: runs_mono [OF assms(2)])

lemma client_app: "app (client_events g) (client_ok ginv)"
  by unfold_locales
    (auto simp: client_events_def client_onAcked_def client_onAcked_send_def client_onNewData_def client_onNewData_send_def
      intro: client_onConnected_ok client_onClosed_ok client_ask_ok client_ask_send_ok
        g_acked_law g_acked_send_law g_newdata_law g_newdata_send_law)

lemma server_app: "app (server_events g) (\<lambda>sv. ginv (sv_dlg sv))"
  by unfold_locales
    (auto simp: server_events_def server_onConnected_def server_onClosed_def server_onAcked_def server_onAcked_send_def
      server_onNewData_def server_onNewData_send_def wp Let_def
      intro!: runs_mono [OF g_connected_law] runs_mono [OF g_closed_law] runs_mono [OF g_acked_law]
        runs_mono [OF g_acked_send_law] runs_mono [OF g_newdata_law] runs_mono [OF g_newdata_send_law])

end

end
