(* ===== verification/TcpSystem.thy ===== *)
theory TcpSystem
  imports Delegates
begin

text \<open>
  A TCP processor between its device and an application, as a system that reacts to events: segments,
  timer ticks and the calls of the user. Whatever the order of the events, as long as each is
  admissible when it happens, the processor handles it within its buffers and keeps its invariant;
  and every connection changes its state only along the edges of the state machine.
\<close>

section \<open>Admissible events\<close>

text \<open>
  What the code takes for granted: an incoming segment has consistent lengths, a connection record
  that may be taken into use has a free segment, the clock eventually yields a free port, an
  aborted connection is not closed already, and the data sent is there and its length does not come
  within \<open>2 ^ 24\<close> of the end of the 32-bit range.
\<close>

fun admissible :: "tcp_event \<Rightarrow> ('d, 'h) tcp \<Rightarrow> bool" where
  "admissible (Segment rx len data) t \<longleftrightarrow> unat len \<le> length data \<and> reusable (t_conns t) \<and>
     (case read_header data of None \<Rightarrow> False | Some h \<Rightarrow> segment_wf h len data)"
| "admissible (Connect hw ip rport readings) t \<longleftrightarrow>
     reusable (t_conns t) \<and> choose_port (t_conns t) readings \<noteq> None"
| "admissible (AbortConn cid) t \<longleftrightarrow>
     length (t_conns t) \<le> unat cid \<or> m_state (t_conns t ! unat cid) \<noteq> CLOSED"
| "admissible (SendData cid len data off) t \<longleftrightarrow> unat len + 2 ^ 24 \<le> 2 ^ 32 \<and>
     (case data of None \<Rightarrow> True | Some bs \<Rightarrow> unat len \<le> length bs)"
| "admissible (Tick now now') t \<longleftrightarrow> True"
| "admissible (CloseConn cid) t \<longleftrightarrow> True"
| "admissible (Listen port) t \<longleftrightarrow> True"
| "admissible (Unlisten port) t \<longleftrightarrow> True"

text \<open>Handling a list of events, and whether each is admissible when it is its turn.\<close>

fun tcp_play :: "'d device_ops \<Rightarrow> 'h handler_ops \<Rightarrow> tcp_event list \<Rightarrow> ('d, 'h) tcp \<Rightarrow> ('d, 'h) tcp option" where
  "tcp_play ops ev [] t = Some t"
| "tcp_play ops ev (x # xs) t = do { t \<leftarrow> tcp_handle ops ev x t; tcp_play ops ev xs t }"

fun all_admissible :: "'d device_ops \<Rightarrow> 'h handler_ops \<Rightarrow> tcp_event list \<Rightarrow> ('d, 'h) tcp \<Rightarrow> bool" where
  "all_admissible ops ev [] t \<longleftrightarrow> True"
| "all_admissible ops ev (x # xs) t \<longleftrightarrow> admissible x t \<and>
     (case tcp_handle ops ev x t of None \<Rightarrow> True | Some t \<Rightarrow> all_admissible ops ev xs t)"

lemma play_reaches:
  "tcp_play ops ev xs t = Some t' \<Longrightarrow> tcp_reaches ops ev t0 t \<Longrightarrow> tcp_reaches ops ev t0 t'"
  by (induction xs arbitrary: t) (auto simp: Some_eq_bind intro: tcp_reaches.event)

context tcp_app
begin

lemma listen_inv: "tcp_inv t \<Longrightarrow> tcp_inv (tcp_listen ops port t)"
proof -
  assume t: "tcp_inv t"
  obtain st d where d: "d_listen ops port (t_dev t) = (st, d)"
    by fastforce
  have n: "net_only t (on_net (\<lambda>n. n\<lparr>n_dev := d\<rparr>) t)"
    by (simp add: net_only_def on_net_def)
  have "tcp_inv (on_net (\<lambda>n. n\<lparr>n_dev := d\<rparr>) t)"
    by (rule inv_net [OF t n]) (use t dinv_listen [of "t_mem t" "t_dev t" port] d in \<open>simp add: tcp_inv_def on_net_def\<close>)
  then show ?thesis
    using d by (auto simp: tcp_listen_def Let_def tcp_inv_def tcp_ok_def)
qed

lemma unlisten_inv: "tcp_inv t \<Longrightarrow> tcp_inv (tcp_unlisten ops port t)"
proof -
  assume t: "tcp_inv t"
  have n: "net_only t (t_unlisten ops port t)"
    by (simp add: net_only_def t_unlisten_def on_net_def)
  have "tcp_inv (t_unlisten ops port t)"
    by (rule inv_net [OF t n]) (use t dinv_unlisten [of "t_mem t" "t_dev t" port] in \<open>simp add: tcp_inv_def t_unlisten_def on_net_def\<close>)
  then show ?thesis
    by (auto simp: tcp_unlisten_def Let_def tcp_inv_def tcp_ok_def)
qed

lemma event_safe:
  assumes inv: "tcp_inv t" and a: "admissible x t"
  shows "runs (tcp_handle ops ev x t) tcp_inv"
proof (cases x)
  case (Segment rx len data)
  then obtain h where "read_header data = Some h" "segment_wf h len data" "unat len \<le> length data" "reusable (t_conns t)"
    using a by (auto split: option.splits)
  from tcp_process_inv [OF inv this(3,1,2,4), of rx] show ?thesis
    using Segment by (auto simp: runs_iff drop_result_def)
next
  case (Tick now now')
  then show ?thesis
    using tcp_run_inv [OF inv, of now now'] by (auto simp: runs_iff drop_result_def)
next
  case (Connect hw ip rport readings)
  then show ?thesis
    using tcp_connect_inv [OF inv, of readings hw ip rport] a by (auto simp: runs_iff)
next
  case (AbortConn cid)
  then show ?thesis
    using tcp_abort_inv [OF inv, of cid] a by (auto simp: runs_iff drop_result_def)
next
  case (CloseConn cid)
  then show ?thesis
    using tcp_close_inv [OF inv, of cid] by (auto simp: runs_iff drop_result_def)
next
  case (SendData cid len data off)
  then show ?thesis
    using tcp_send_inv [OF inv, of len data cid off] a by (auto simp: runs_iff split: option.splits)
qed (auto intro: listen_inv unlisten_inv inv)

lemma play_safe: "tcp_inv t \<Longrightarrow> all_admissible ops ev xs t \<Longrightarrow> runs (tcp_play ops ev xs t) tcp_inv"
proof (induction xs arbitrary: t)
  case (Cons x xs)
  then obtain t1 where "tcp_handle ops ev x t = Some t1" "tcp_inv t1"
    using event_safe [of t x] by (auto simp: runs_iff)
  then show ?case
    using Cons by simp
qed simp

lemma create_inv:
  assumes "tcp_create ops n h nconn now cps = Some t0" and "dinv (n_mem n) (n_dev n)" and "hinv h"
  shows "tcp_inv t0"
proof -
  have "unat (ip_mss ops n - 20) = nmss - 54"
    using mss_const [OF assms(2)] nmss_lo
    by (simp add: ip_mss_def eth_mss_def unat_sub word_le_nat_alt)
  moreover have "conn_ok hr nmss m (conn_init\<lparr>m_id := i\<rparr>)" for m i
    by (auto simp: list_all_iff conn_ok_def segs_ok_def conn_init_def seg_ok_def segment_empty_def)
  ultimately show ?thesis
    using assms(2,3) tcp_create_conns [OF assms(1)] by (auto simp: tcp_inv_def tcp_ok_def list_all_length)
qed

end

text \<open>The hypotheses of the lemmas on a whole processor: a device that takes every frame and never releases a buffer
  it has lent, frames of a size in the range of the contract, and an application that keeps its own.\<close>

lemma tcp_appI:
  "reliable_nic ops dinv nmss hr \<Longrightarrow> 62 \<le> nmss \<Longrightarrow> nmss < 2 ^ 24 \<Longrightarrow> app ev hinv \<Longrightarrow> tcp_app ops dinv nmss hr ev hinv"
  by (simp add: tcp_app.intro tcp_link_def tcp_link_axioms_def)

lemma processor_play:
  assumes "reliable_nic ops dinv nmss hr" and "62 \<le> nmss" and "nmss < 2 ^ 24" and "app ev hinv" and "hinv h"
    and "dinv (n_mem n) (n_dev n)" and "tcp_create ops n h nconn now cps = Some t0" and "all_admissible ops ev events t0"
  shows "\<exists>t. tcp_play ops ev events t0 = Some t \<and> dinv (t_mem t) (t_dev t) \<and> hinv (t_handler t) \<and> tcp_ok hr nmss t"
proof -
  note app = tcp_appI [OF assms(1-4)]
  have "tcp_app.tcp_inv dinv nmss hr hinv t0"
    by (rule tcp_app.create_inv [OF app assms(7,6,5)])
  from tcp_app.play_safe [OF app this assms(8)] show ?thesis
    by (auto simp: runs_iff tcp_app.tcp_inv_def [OF app])
qed

section \<open>The list device and the delegates of the library\<close>

text \<open>Any MTU in the range of the contract, 1514 for those outside.\<close>

definition link_mtu :: "u32 \<Rightarrow> u32" where
  "link_mtu m = (if 62 \<le> m \<and> m < 2 ^ 24 then m else 1514)"

lemma link_mtu_range: "62 \<le> unat (link_mtu m)" "unat (link_mtu m) < 2 ^ 24"
proof -
  have "62 \<le> link_mtu m" "link_mtu m < 2 ^ 24"
    by (auto simp: link_mtu_def)
  moreover have "unat (62 :: u32) = 62" "unat (2 ^ 24 :: u32) = 2 ^ 24"
    by simp_all
  ultimately show "62 \<le> unat (link_mtu m)" "unat (link_mtu m) < 2 ^ 24"
    unfolding word_le_nat_alt word_less_nat_alt by metis+
qed

interpretation list_tcp: tcp_link list_ops "list_dinv (link_mtu m)" "unat (link_mtu m)" 4 for m
  by unfold_locales (rule link_mtu_range)+

interpretation default_client: app "client_events default_delegate" "client_ok (\<lambda>u. True)"
  by (rule default.client_app)

interpretation default_server: app "server_events default_delegate" "\<lambda>sv. True"
  by (rule default.server_app)

interpretation client_tcp: tcp_app list_ops "list_dinv (link_mtu m)" "unat (link_mtu m)" 4
    "client_events default_delegate" "client_ok (\<lambda>u. True)" for m
  by unfold_locales

interpretation server_tcp: tcp_app list_ops "list_dinv (link_mtu m)" "unat (link_mtu m)" 4
    "server_events default_delegate" "\<lambda>sv. True" for m
  by unfold_locales

lemma list_tcp_client:
  assumes "62 \<le> unat m" and "unat m < 2 ^ 24" and "delegate g ginv"
  shows "tcp_app list_ops (list_dinv m) (unat m) 4 (client_events g) (client_ok ginv)"
proof -
  have "link_mtu m = m"
    using assms(1,2) by (simp add: link_mtu_def word_le_nat_alt word_less_nat_alt)
  then have "tcp_link list_ops (list_dinv m) (unat m) 4"
    using list_tcp.tcp_link_axioms [of m] by simp
  then show ?thesis
    using delegate.client_app [OF assms(3)] by (intro tcp_app.intro)
qed

text \<open>The invariant in terms of the state: the device keeps its size, the client its index, and every
  connection its buffers.\<close>

definition tcp_wf :: "u32 \<Rightarrow> ('u \<Rightarrow> bool) \<Rightarrow> (list_dev, 'u client) tcp \<Rightarrow> bool" where
  "tcp_wf m ginv t \<longleftrightarrow> l_mtu (t_dev t) = m \<and> client_ok ginv (t_handler t) \<and> tcp_ok 4 (unat m) t"

section \<open>A sample run\<close>

definition sample_link :: "list_dev net" where
  "sample_link = \<lparr>n_mem = [], n_dev = \<lparr>l_mtu = 94, l_read = [], l_write = [], l_junk = (\<lambda>b i. 0)\<rparr>,
     n_eth = eth_producer_init (Mac 16 0 0 0 0 1), n_ip = ip_producer_init (ip4_make 10 1 0 1)\<rparr>"

definition sample_tcp :: "(list_dev, unit client) tcp" where
  "sample_tcp = \<lparr>t_net = sample_link, t_handler = client_new 1 (), t_iss = 0, t_mss = 40, t_ports = {},
     t_conns = [conn_init\<lparr>m_id := 0\<rparr>], t_stats = tcp_stats_zero, t_timer = timer_set 0 100\<rparr>"

definition sample_events :: "tcp_event list" where
  "sample_events = [Connect (Mac 16 0 0 0 0 2) (ip4_make 10 1 0 2) 80 [5000], Tick 1000 1000]"

lemma sample_create: "tcp_create list_ops sample_link (client_new 1 ()) 1 0 100 = Some sample_tcp"
  by (simp add: sample_tcp_def tcp_create_def assign_ids.simps ip_mss_def eth_mss_def list_ops_def sample_link_def)

lemma sample_admissible: "all_admissible list_ops (client_events default_delegate) sample_events sample_tcp"
  by code_simp

lemma sample_connect:
  "\<exists>t. tcp_handle list_ops (client_events default_delegate) (hd sample_events) sample_tcp = Some t \<and>
     map m_state (t_conns t) = [SYN_SENT]"
proof -
  have "map_option (\<lambda>t. map m_state (t_conns t))
     (tcp_handle list_ops (client_events default_delegate) (hd sample_events) sample_tcp) = Some [SYN_SENT]"
    by code_simp
  then show ?thesis
    by (simp only: map_option_eq_Some)
qed

section \<open>Properties\<close>

text \<open>C8: One event moves every connection along at most one edge of the TCP state machine, and no event
  adds or removes connections.\<close>
theorem tcp_event_steps:
  assumes "tcp_handle ops ev x t = Some t'"
  shows "list_all2 (\<lambda>c c'. tcp_step (m_state c) (m_state c')) (t_conns t) (t_conns t')"
  using tcp_handle_evolves [OF assms] by (simp add: evolves_def)

theorem tcp_event_steps_witness:
  "\<exists>t :: (list_dev, unit client) tcp. list_all2 (\<lambda>c c'. tcp_step (m_state c) (m_state c')) (t_conns sample_tcp) (t_conns t) \<and>
     map m_state (t_conns t) = [SYN_SENT]"
proof -
  obtain t where "tcp_handle list_ops (client_events default_delegate) (hd sample_events) sample_tcp = Some t"
      "map m_state (t_conns t) = [SYN_SENT]"
    using sample_connect by (elim exE conjE)
  then show ?thesis
    by (intro exI [of _ t] conjI tcp_event_steps)
qed

text \<open>In a processor that was constructed and then handled any sequence of events, no connection is ever
  in the state STOPPED, for which the code has special cases, and the number of connections is that
  of the construction.\<close>
theorem tcp_never_stopped:
  assumes "tcp_create ops n h nconn now cps = Some t0" and "tcp_reaches ops ev t0 t"
  shows "list_all (\<lambda>c. m_state c \<noteq> STOPPED) (t_conns t) \<and> length (t_conns t) = unat nconn"
  using reaches_no_stopped [OF assms(2)] tcp_create_sel [OF assms(1)] by (simp add: no_stopped_def)

theorem tcp_never_stopped_witness:
  "\<exists>t :: (list_dev, unit client) tcp. list_all (\<lambda>c. m_state c \<noteq> STOPPED) (t_conns t) \<and> map m_state (t_conns t) = [SYN_SENT]"
proof -
  obtain t where t: "tcp_handle list_ops (client_events default_delegate) (hd sample_events) sample_tcp = Some t"
      "map m_state (t_conns t) = [SYN_SENT]"
    using sample_connect by (elim exE conjE)
  note never = tcp_never_stopped [OF sample_create tcp_reaches.event [OF tcp_reaches.start t(1)]]
  show ?thesis
    by (intro exI [of _ t] conjI never [THEN conjunct1] t(2))
qed

end
