(* ===== verification/TcpImage.thy ===== *)
theory TcpImage
  imports TcpProcess
begin

text \<open>
  The bytes of a TCP segment as they travel: the 20 bytes of the header with a correct checksum,
  followed by the options and the data. Reading the header of an image gives back its fields, and the
  check of the receiver accepts it.
\<close>

definition tcp_raw :: "tcp_header \<Rightarrow> u16 \<Rightarrow> u8 list" where
  "tcp_raw h csum = bytes16 (hd_src h) @ bytes16 (hd_dst h) @ bytes32 (htonl (hd_seq h)) @ bytes32 (htonl (hd_ack h)) @
     [push_bit 4 (hd_off h), hd_flags h] @ bytes16 (htons (hd_wnd h)) @ bytes16 csum @ bytes16 (htons (hd_urgp h))"

definition tcp_sum :: "ip4 \<Rightarrow> ip4 \<Rightarrow> u8 list \<Rightarrow> u16" where
  "tcp_sum src dst seg = the (tcpv4_checksum src dst (of_nat (length seg)) seg)"

definition tcp_image :: "ip4 \<Rightarrow> ip4 \<Rightarrow> tcp_header \<Rightarrow> u8 list \<Rightarrow> u8 list" where
  "tcp_image src dst h rest = tcp_raw h (NOT (tcp_sum src dst (tcp_raw h 0 @ rest))) @ rest"

lemma length_tcp_raw [simp]: "length (tcp_raw h c) = 20"
  by (simp add: tcp_raw_def)

lemma length_tcp_image [simp]: "length (tcp_image src dst h rest) = 20 + length rest"
  by (simp add: tcp_image_def)

lemma drop_tcp_image [simp]: "drop 20 (tcp_image src dst h rest) = rest"
  by (simp add: tcp_image_def)

lemma push_drop_nibble: "k < 16 \<Longrightarrow> drop_bit 4 (push_bit 4 (k :: u8)) = k"
proof -
  assume "k < 16"
  then have k: "unat k < 16"
    by (simp add: word_less_nat_alt)
  have "unat (drop_bit 4 (push_bit 4 k)) = unat k * 16 mod 256 div 16"
    by (simp only: unsigned_drop_bit_eq unsigned_push_bit_eq) (simp add: take_bit_eq_mod push_bit_eq_mult drop_bit_eq_div)
  also have "\<dots> = unat k"
    using k by simp
  finally show ?thesis
    by (simp only: word_unat_eq_iff)
qed

lemma read_header_raw:
  assumes "hd_off h < 16"
  shows "read_header (tcp_raw h c @ rest) = Some h"
  using assms
  by (simp add: read_header_def rd16_def rd32_def rd8_def tcp_raw_def bytes16_def bytes32_def push_drop_nibble)

lemma tcp_raw_patch: "patch (tcp_raw h 0 @ rest) 16 (bytes16 c) = tcp_raw h c @ rest"
  by (simp add: patch_def tcp_raw_def bytes16_def bytes32_def)

lemma tcp_image_verifies:
  assumes "20 + length rest < 65530"
  shows "tcpv4_checksum src dst (of_nat (20 + length rest)) (tcp_image src dst h rest) = Some 0xFFFF"
proof -
  let ?seg = "tcp_raw h 0 @ rest" and ?len = "of_nat (20 + length rest) :: u16"
  have len: "unat ?len = 20 + length rest"
    using assms by (simp only: unat_of_nat) simp
  obtain c where c: "tcpv4_checksum src dst ?len ?seg = Some c"
    using len by (simp add: tcpv4_checksum_def checksum_def)
  have "unat (?len + 6) = 26 + length rest"
    using len assms by (simp only: unat_plus_if_size) (simp add: word_size)
  then have "?len + 6 \<noteq> 0"
    by (metis add_is_0 unat_0 zero_neq_numeral)
  then have "tcpv4_checksum src dst ?len (patch ?seg 16 (bytes16 (NOT c))) = Some 0xFFFF"
    using len c by (intro tcpv4_checksum_verifies) (simp_all add: tcp_raw_def bytes16_def bytes32_def)
  moreover have "tcp_sum src dst ?seg = c"
    using c by (simp add: tcp_sum_def)
  ultimately show ?thesis
    by (simp add: tcp_image_def tcp_raw_patch)
qed

lemma tcp_image_header: "hd_off h < 16 \<Longrightarrow> read_header (tcp_image src dst h rest) = Some h"
  by (simp add: tcp_image_def read_header_raw)

end
