(* ===== verification/TcpFrame.thy ===== *)
theory TcpFrame
  imports TcpStates
begin

text \<open>
  What no segment and no timer changes: the identifier, the ports, the remote address and the number
  of segments of a connection, the other connections of the processor, and whatever the callbacks for
  a connection leave alone in the state of the application. The last part is the parameter of the
  locale \<open>app_frame\<close>: a predicate that the callbacks for the connection with a given identifier keep.
\<close>

section \<open>The identity of a connection\<close>

definition addr :: "conn \<Rightarrow> u16 \<times> u16 \<times> ip4" where
  "addr e = (m_lport e, m_rport e, m_ripaddr e)"

definition ident :: "conn \<Rightarrow> u16 \<times> (u16 \<times> u16 \<times> ip4) \<times> nat" where
  "ident e = (m_id e, addr e, length (m_segments e))"

lemma ident_eq: "ident e' = ident e \<longleftrightarrow> m_id e' = m_id e \<and> addr e' = addr e \<and> length (m_segments e') = length (m_segments e)"
  by (auto simp: ident_def)

lemma fst_ident: "fst (ident e) = m_id e"
  by (simp add: ident_def)

lemma core_ident: "core e' = core e \<Longrightarrow> ident e' = ident e"
  using core_sel [of e' e] by (simp add: ident_def addr_def)

lemma ident_upd [simp]:
  "ident (e\<lparr>m_state := s\<rparr>) = ident e" "ident (e\<lparr>m_rcv_nxt := n\<rparr>) = ident e" "ident (e\<lparr>m_window := w\<rparr>) = ident e"
  "ident (e\<lparr>m_newdata := b\<rparr>) = ident e" "ident (e\<lparr>m_pshdata := b\<rparr>) = ident e" "ident (e\<lparr>m_timer := k\<rparr>) = ident e"
  "ident (e\<lparr>m_slen := l\<rparr>) = ident e" "ident (e\<lparr>m_mss := u\<rparr>) = ident e" "ident (app_view opts cookie e) = ident e"
  "ident (take_data plen e) = ident e" "ident (flag_data h plen e) = ident e" "ident (clear_data_state e) = ident e"
  "ident (peer_window wnd e) = ident e" "ident (upd_seg i sg e) = ident e" "ident (backoff e) = ident e"
  by (simp_all add: ident_def addr_def app_view_def take_data_def flag_data_def clear_data_state_def peer_window_def Let_def
      upd_seg_def backoff_def)

lemma m_id_app_view [simp]: "m_id (app_view opts cookie e) = m_id e"
  by (simp add: app_view_def)

lemma claim_ident: "claim_segment len e = Some (i, e') \<Longrightarrow> ident e' = ident e"
  using core_ident [OF claim_segment_tx] .

lemma parse_options_ident: "parse_options e h data = Some e' \<Longrightarrow> ident e' = ident e"
proof -
  have "same_but_mss_window e e' \<Longrightarrow> ident e' = ident e"
    by (cases e; cases e') (simp add: same_but_mss_window_def ident_def addr_def)
  then show "parse_options e h data = Some e' \<Longrightarrow> ident e' = ident e"
    by (auto simp: parse_options_def split: if_splits dest: options_parse_same)
qed

lemma ack_ident [simp]:
  "ident (pop_segment e) = ident e" "ident (first_ack e) = ident e" "ident (window_update wnd e) = ident e"
  by (simp_all add: ident_def addr_def pop_segment_def first_ack_def window_update_def updateRttEstimation_def restart_timer_def
      upd_seg_def Let_def)

lemma ack_scan_ident: "ack_scan n ackno wnd e = (a, e') \<Longrightarrow> ident e' = ident e"
  by (induction n ackno wnd e rule: ack_scan.induct) (auto simp: Let_def split: if_splits)

section \<open>The parts of \<open>in_established\<close>\<close>

text \<open>What follows the callback about acknowledged data.\<close>

definition est_rest :: "'d device_ops \<Rightarrow> 'h handler_ops \<Rightarrow> u8 list \<Rightarrow> nat \<Rightarrow> u16 \<Rightarrow> bool \<Rightarrow> conn \<Rightarrow> ('d, 'h) tcp \<Rightarrow>
    (status \<times> conn \<times> ('d, 'h) tcp) option" where
  "est_rest ops ev data off n can e t =
     (if m_newdata e
      then do {
        bs \<leftarrow> payload data off n;
        established_newdata ops ev bs can e t (established_flush ops can)
      }
      else established_flush ops can e t)"

definition est_urg :: "tcp_header \<Rightarrow> u16" where
  "est_urg h = (if hd_has h TCP_URG then hd_urgp h else 0)"

definition est_start :: "tcp_header \<Rightarrow> u16 \<Rightarrow> conn \<Rightarrow> conn" where
  "est_start h plen e = peer_window (hd_wnd h) (if plen - est_urg h > 0 then flag_data h (plen - est_urg h) e else e)"

lemma in_established_split:
  "in_established ops ev h data plen e t =
     (if hd_has h TCP_FIN then established_fin ops ev h data plen e t
      else if m_ackdata (est_start h plen e) \<or> m_newdata (est_start h plen e)
      then established_acked ops ev (est_start h plen e) t
        (est_rest ops ev data (unat (hd_len h) + unat (est_urg h)) (plen - est_urg h))
      else Some (Ok, est_start h plen e, t))"
  unfolding in_established_def est_rest_def est_start_def est_urg_def Let_def by (rule refl)

section \<open>The ways through \<open>run_conn\<close>\<close>

lemma run_conn_cases:
  assumes "run_conn ops ev e t = Some (r, e', t')" and "run_waiting ops e t = (b, e1, t1)" and "m_state e \<noteq> CLOSED"
  obtains (nothing_due) "e' = e1" "t' = t1" "r = None" "b \<or> \<not> hasOutstandingSegments e1"
    | (counting) "\<not> b" "hasOutstandingSegments e1" "e' = e1\<lparr>m_timer := m_timer e1 - 1\<rparr>" "t' = t1" "r = None" "m_timer e1 - 1 > 0"
    | (giving_up) e2 t2 st where "\<not> b" "hasOutstandingSegments e1" "m_timer e1 - 1 = 0" "m_nrtx e1 = MAXRTX" "r = Some st"
        "notify (h_timedout ev) (e1\<lparr>m_timer := m_timer e1 - 1\<rparr>) t1 = Some (e2, t2)" "sendAbort ops e2 t2 = Some (st, e', t')"
    | (again) st where "\<not> b" "hasOutstandingSegments e1" "m_timer e1 - 1 = 0" "m_nrtx e1 \<noteq> MAXRTX" "r = Some st"
        "rexmit ops (backoff (e1\<lparr>m_timer := m_timer e1 - 1\<rparr>)) t1 = Some (st, e', t')"
proof -
  let ?e = "e1\<lparr>m_timer := m_timer e1 - 1\<rparr>"
  have p: "(if b then Some (None, e1, t1) else if \<not> hasOutstandingSegments e1 then Some (None, e1, t1)
      else if m_timer ?e > 0 then Some (None, ?e, t1)
      else if m_nrtx ?e = MAXRTX \<or> (m_state ?e = SYN_SENT \<or> m_state ?e = SYN_RCVD) \<and> m_nrtx ?e = MAXRTX
      then do { (e, t) \<leftarrow> notify (h_timedout ev) ?e t1; (st, e, t) \<leftarrow> sendAbort ops e t; Some (Some st, e, t) }
      else do { (st, e, t) \<leftarrow> rexmit ops (backoff ?e) t1; Some (Some st, e, t) }) = Some (r, e', t')"
    using assms by (simp only: run_conn_def Let_def prod.case if_False)
  show ?thesis
  proof (cases "b \<or> \<not> hasOutstandingSegments e1")
    case True
    then show ?thesis
      using p by (intro nothing_due) (auto split: if_splits)
  next
    case due: False
    show ?thesis
    proof (cases "m_timer ?e > 0")
      case True
      then show ?thesis
        using p due by (intro counting) auto
    next
      case zero: False
      then have z: "m_timer e1 - 1 = 0"
        by (simp add: word_gt_0)
      show ?thesis
      proof (cases "m_nrtx e1 = MAXRTX")
        case True
        then have "do { (e, t) \<leftarrow> notify (h_timedout ev) ?e t1; (st, e, t) \<leftarrow> sendAbort ops e t; Some (Some st, e, t) } = Some (r, e', t')"
          using p due zero by simp
        then obtain e2 t2 st where "notify (h_timedout ev) ?e t1 = Some (e2, t2)" "sendAbort ops e2 t2 = Some (st, e', t')" "r = Some st"
          by (auto simp: Some_eq_bind)
        then show ?thesis
          using giving_up due z True by blast
      next
        case False
        then have "do { (st, e, t) \<leftarrow> rexmit ops (backoff ?e) t1; Some (Some st, e, t) } = Some (r, e', t')"
          using p due zero by simp
        then obtain st where "rexmit ops (backoff ?e) t1 = Some (st, e', t')" "r = Some st"
          by (auto simp: Some_eq_bind)
        then show ?thesis
          using again due z False by blast
      qed
    qed
  qed
qed

lemma run_waiting_sel:
  assumes "run_waiting ops e t = (b, e1, t1)"
  shows "t_handler t1 = t_handler t" "t_conns t1 = t_conns t" "m_rcv_nxt e1 = m_rcv_nxt e" "m_segments e1 = m_segments e"
    "m_nrtx e1 = m_nrtx e" "b \<longrightarrow> m_state e1 = CLOSED" "\<not> b \<longrightarrow> m_state e1 = m_state e"
    "m_state e \<notin> {TIME_WAIT, FIN_WAIT_2} \<Longrightarrow> \<not> b \<and> e1 = e \<and> t1 = t"
  using assms by (auto simp: run_waiting_def Let_def t_unlisten_def on_net_def split: if_splits)

section \<open>The frame of the callbacks\<close>

definition kept :: "(u16 \<Rightarrow> 'h \<Rightarrow> bool) \<Rightarrow> conn \<Rightarrow> ('d, 'h) tcp \<Rightarrow> conn \<Rightarrow> ('d, 'h) tcp \<Rightarrow> bool" where
  "kept Q e t e' t' \<longleftrightarrow> ident e' = ident e \<and> t_conns t' = t_conns t \<and>
     (Q (fst (ident e)) (t_handler t) \<longrightarrow> Q (fst (ident e)) (t_handler t'))"

definition same_id :: "(u16 \<Rightarrow> 'h \<Rightarrow> bool) \<Rightarrow> conn \<Rightarrow> ('d, 'h) tcp \<Rightarrow> status \<times> conn \<times> ('d, 'h) tcp \<Rightarrow> bool" where
  "same_id Q e t = (\<lambda>(st, e', t'). kept Q e t e' t')"

lemma same_id_Some [simp]: "same_id Q e t (st, e', t') \<longleftrightarrow> kept Q e t e' t'"
  by (simp add: same_id_def)

lemma kept_refl [simp]: "kept Q e t e t"
  by (simp add: kept_def)

lemma kept_trans [trans]: "kept Q a t b t' \<Longrightarrow> kept Q b t' c t'' \<Longrightarrow> kept Q a t c t''"
  by (simp add: kept_def)

lemma kept_ident: "ident e' = ident e \<Longrightarrow> t_conns t' = t_conns t \<Longrightarrow> t_handler t' = t_handler t \<Longrightarrow> kept Q e t e' t'"
  by (simp add: kept_def)

lemma same_id_trans: "kept Q a t b t' \<Longrightarrow> same_id Q b t' r \<Longrightarrow> same_id Q a t r"
  by (cases r) (auto intro: kept_trans)

lemma tx_same_id: "tx e t r \<Longrightarrow> same_id Q e t r"
  by (cases r) (auto simp: kept_def dest: core_ident tcore_sel)

lemma tx_ident:
  "sendAck ops e t = Some r \<Longrightarrow> same_id Q e t r" "sendAbort ops e t = Some r \<Longrightarrow> same_id Q e t r"
  "sendClose ops e t = Some r \<Longrightarrow> same_id Q e t r" "sendFinAck ops e i t = Some r \<Longrightarrow> same_id Q e t r"
  "sendNoDelay ops e f t = Some r \<Longrightarrow> same_id Q e t r" "rexmit ops e t = Some r \<Longrightarrow> same_id Q e t r"
  by ((drule sendAck_tx sendAbort_tx sendClose_tx sendFinAck_tx sendNoDelay_tx rexmit_tx, drule tx_same_id [where Q = Q],
      auto simp: same_id_def kept_def split: if_splits)[])+

lemma notify_kept:
  assumes "notify f e t = Some (e', t')"
    and "\<And>opts c h'. Q (m_id e) (t_handler t) \<Longrightarrow> f e (t_handler t) = Some (opts, c, h') \<Longrightarrow> Q (m_id e) h'"
  shows "kept Q e t e' t'"
  using assms by (auto simp: notify_def Some_eq_bind kept_def fst_ident)

lemma ask_kept:
  assumes "ask f e t = Some (a, e', t')"
    and "\<And>a opts c h'. Q (m_id e) (t_handler t) \<Longrightarrow> f e (t_handler t) = Some (a, opts, c, h') \<Longrightarrow> Q (m_id e) h'"
  shows "kept Q e t e' t'"
  using assms by (auto simp: ask_def Some_eq_bind kept_def fst_ident)

lemma ask_send_kept:
  assumes "ask_send f e t = Some (a, rlen, e', t')"
    and "\<And>a bs rlen opts c h'. Q (m_id e) (t_handler t) \<Longrightarrow> f e (t_handler t) = Some (a, bs, rlen, opts, c, h') \<Longrightarrow> Q (m_id e) h'"
  shows "kept Q e t e' t'"
  using assms by (auto simp: ask_send_def Some_eq_bind kept_def fst_ident)

locale app_frame =
  fixes ev :: "'h handler_ops" and Q :: "u16 \<Rightarrow> 'h \<Rightarrow> bool"
  assumes connected_frame: "Q (m_id e) h \<Longrightarrow> h_connected ev e h = Some (opts, c, h') \<Longrightarrow> Q (m_id e) h'"
    and aborted_frame: "Q (m_id e) h \<Longrightarrow> h_aborted ev e h = Some (opts, c, h') \<Longrightarrow> Q (m_id e) h'"
    and timedout_frame: "Q (m_id e) h \<Longrightarrow> h_timedout ev e h = Some (opts, c, h') \<Longrightarrow> Q (m_id e) h'"
    and closed_frame: "Q (m_id e) h \<Longrightarrow> h_closed ev e h = Some (opts, c, h') \<Longrightarrow> Q (m_id e) h'"
    and acked_frame: "Q (m_id e) h \<Longrightarrow> h_acked ev e h = Some (a, opts, c, h') \<Longrightarrow> Q (m_id e) h'"
    and acked_send_frame: "Q (m_id e) h \<Longrightarrow> h_acked_send ev e alen h = Some (a, out, rlen, opts, c, h') \<Longrightarrow> Q (m_id e) h'"
    and newdata_frame: "Q (m_id e) h \<Longrightarrow> h_newdata ev e bs h = Some (a, opts, c, h') \<Longrightarrow> Q (m_id e) h'"
    and newdata_send_frame: "Q (m_id e) h \<Longrightarrow> h_newdata_send ev e bs alen h = Some (a, out, rlen, opts, c, h') \<Longrightarrow> Q (m_id e) h'"
begin

lemma app_kept:
  "notify (h_connected ev) e t = Some (e', t') \<Longrightarrow> kept Q e t e' t'"
  "notify (h_aborted ev) e t = Some (e', t') \<Longrightarrow> kept Q e t e' t'"
  "notify (h_timedout ev) e t = Some (e', t') \<Longrightarrow> kept Q e t e' t'"
  "notify (h_closed ev) e t = Some (e', t') \<Longrightarrow> kept Q e t e' t'"
  "ask (h_acked ev) e t = Some (a, e', t') \<Longrightarrow> kept Q e t e' t'"
  "ask (\<lambda>e. h_newdata ev e bs) e t = Some (a, e', t') \<Longrightarrow> kept Q e t e' t'"
  "ask_send (\<lambda>e. h_acked_send ev e alen) e t = Some (a, rlen, e', t') \<Longrightarrow> kept Q e t e' t'"
  "ask_send (\<lambda>e. h_newdata_send ev e bs alen) e t = Some (a, rlen, e', t') \<Longrightarrow> kept Q e t e' t'"
  by (erule notify_kept ask_kept ask_send_kept; erule (1) connected_frame aborted_frame timedout_frame closed_frame
      acked_frame acked_send_frame newdata_frame newdata_send_frame)+

lemmas frame_dest = app_kept tx_ident [where Q = Q] claim_ident parse_options_ident

lemma obey_id:
  assumes "obey ops a e t k = Some r" and "\<And>r. k e t = Some r \<Longrightarrow> same_id Q e t r"
  shows "same_id Q e t r"
  using assms by (cases a) (auto simp: obey_def dest: tx_ident)

lemma offer_id:
  assumes "offer ops f e t k = Some r" and "\<And>e' t' r. k e' t' = Some r \<Longrightarrow> same_id Q e' t' r"
    and f: "\<And>alen a rlen e' t'. ask_send (f alen) e t = Some (a, rlen, e', t') \<Longrightarrow> kept Q e t e' t'"
  shows "same_id Q e t r"
proof -
  obtain a rlen e1 t1 where 1: "ask_send (f (send_bound e t - ucast (m_slen e))) e t = Some (a, rlen, e1, t1)"
    and r: "obey ops a e1 t1 (\<lambda>e' t'. let r = if rlen > send_bound e t - ucast (m_slen e) then send_bound e t - ucast (m_slen e) else rlen
        in k (e'\<lparr>m_slen := m_slen e' + ucast r\<rparr>) t') = Some r"
    using assms(1) by (auto simp: offer_def Let_def Some_eq_bind)
  have "same_id Q e1 t1 r"
  proof (rule obey_id [OF r])
    fix r' assume "(let r = if rlen > send_bound e t - ucast (m_slen e) then send_bound e t - ucast (m_slen e) else rlen
        in k (e1\<lparr>m_slen := m_slen e1 + ucast r\<rparr>) t1) = Some r'"
    then have k: "k (e1\<lparr>m_slen := m_slen e1 + ucast (if rlen > send_bound e t - ucast (m_slen e)
        then send_bound e t - ucast (m_slen e) else rlen)\<rparr>) t1 = Some r'"
      by (simp only: Let_def)
    show "same_id Q e1 t1 r'"
      by (rule same_id_trans [OF kept_ident assms(2) [OF k]]) simp_all
  qed
  then show ?thesis
    by (rule same_id_trans [OF f [OF 1]])
qed

lemma ask_obey_id:
  assumes "ask f e t \<bind> (\<lambda>(a, e, t). obey ops a e t k) = Some r" and "\<And>e' t' r. k e' t' = Some r \<Longrightarrow> same_id Q e' t' r"
    and f: "\<And>a e' t'. ask f e t = Some (a, e', t') \<Longrightarrow> kept Q e t e' t'"
  shows "same_id Q e t r"
proof -
  obtain a e1 t1 where 1: "ask f e t = Some (a, e1, t1)" "obey ops a e1 t1 k = Some r"
    using assms(1) by (auto simp: Some_eq_bind)
  show ?thesis
    by (rule same_id_trans [OF f [OF 1(1)] obey_id [OF 1(2) assms(2)]])
qed

lemma established_acked_id:
  assumes "established_acked ops ev e t k = Some r" and k: "\<And>can e' t' r. k can e' t' = Some r \<Longrightarrow> same_id Q e' t' r"
  shows "same_id Q e t r"
proof (cases "m_ackdata e")
  case True
  show ?thesis
  proof (cases "can_send e")
    case c: True
    have "offer ops (\<lambda>alen e. h_acked_send ev e alen) e t (\<lambda>e t. k (can_send e) e t) = Some r"
      using assms(1) True c by (simp add: established_acked_def)
    then show ?thesis
      by (rule offer_id) (rule k app_kept, assumption)+
  next
    case False
    have "ask (h_acked ev) e t \<bind> (\<lambda>(a, e, t). obey ops a e t (k False)) = Some r"
      using assms(1) True False by (simp add: established_acked_def)
    then show ?thesis
      by (rule ask_obey_id) (rule k app_kept, assumption)+
  qed
qed (use assms in \<open>auto simp: established_acked_def\<close>)

lemma established_flush_id: "established_flush ops can e t = Some r \<Longrightarrow> same_id Q e t r"
  by (auto simp: established_flush_def split: if_splits dest: tx_ident)

lemma established_newdata_id:
  assumes "established_newdata ops ev bs can e t (established_flush ops can) = Some r"
  shows "same_id Q e t r"
proof -
  obtain res e1 t1 where 1: "(if \<not> has_delayed_ack e then sendAck ops e t else Some (Ok, e, t)) = Some (res, e1, t1)"
    and r: "(if res \<noteq> Ok then Some (res, e1, t1)
      else if can then offer ops (\<lambda>alen e. h_newdata_send ev e bs alen) e1 t1 (established_flush ops can)
      else ask (\<lambda>e. h_newdata ev e bs) e1 t1 \<bind> (\<lambda>(a, e, t). obey ops a e t (established_flush ops can))) = Some r"
    using assms(1) by (simp only: established_newdata_def Some_eq_bind prod.case) auto
  have "same_id Q e t (res, e1, t1)"
    using 1 by (auto split: if_splits dest: tx_ident [where Q = Q])
  moreover have "same_id Q e1 t1 r"
  proof (cases "res \<noteq> Ok")
    case False
    show ?thesis
    proof (cases can)
      case True
      then have "offer ops (\<lambda>alen e. h_newdata_send ev e bs alen) e1 t1 (established_flush ops can) = Some r"
        using r False by simp
      then show ?thesis
        by (rule offer_id) (rule established_flush_id app_kept, assumption)+
    next
      case c: False
      then have "ask (\<lambda>e. h_newdata ev e bs) e1 t1 \<bind> (\<lambda>(a, e, t). obey ops a e t (established_flush ops can)) = Some r"
        using r False by simp
      then show ?thesis
        by (rule ask_obey_id) (rule established_flush_id app_kept, assumption)+
    qed
  qed (use r in auto)
  ultimately show ?thesis
    by (auto intro: same_id_trans)
qed

lemma est_rest_id: "est_rest ops ev data off n can e t = Some r \<Longrightarrow> same_id Q e t r"
  by (auto simp: est_rest_def Some_eq_bind split: if_splits dest: established_newdata_id established_flush_id)

lemma est_start_ident [simp]: "ident (est_start h plen e) = ident e"
  by (simp add: est_start_def)

lemma established_fin_id: "established_fin ops ev h data plen e t = Some r \<Longrightarrow> same_id Q e t r"
  by (cases r) (auto simp: established_fin_def Let_def Some_eq_bind kept_def split: if_splits
      dest!: frame_dest [unfolded same_id_def kept_def])

lemma in_established_id:
  assumes "in_established ops ev h data plen e t = Some r"
  shows "same_id Q e t r"
proof (cases "hd_has h TCP_FIN")
  case True
  then show ?thesis
    using assms by (intro established_fin_id) (simp add: in_established_split)
next
  case False
  have start: "kept Q e t (est_start h plen e) t"
    by (rule kept_ident) simp_all
  show ?thesis
  proof (cases "m_ackdata (est_start h plen e) \<or> m_newdata (est_start h plen e)")
    case True
    show ?thesis
      by (rule same_id_trans [OF start], rule established_acked_id [OF _ est_rest_id])
        (use assms False True in \<open>simp_all add: in_established_split\<close>)
  qed (use assms False start in \<open>auto simp: in_established_split\<close>)
qed


lemma in_syn_rcvd_id:
  assumes "in_syn_rcvd ops ev h data plen e t = Some r"
  shows "same_id Q e t r"
proof (cases "m_ackdata e")
  case True
  obtain e1 t1 where n: "notify (h_connected ev) (e\<lparr>m_state := ESTABLISHED\<rparr>) t = Some (e1, t1)"
    using assms True by (auto simp: in_syn_rcvd_def Some_eq_bind)
  have 1: "kept Q e t e1 t1"
    using app_kept(1) [OF n] by (simp add: kept_def)
  show ?thesis
  proof (cases "plen > 0")
    case plen: True
    then obtain bs a e2 t2 where a: "ask (\<lambda>e. h_newdata ev e bs) (flag_data h plen e1) t1 = Some (a, e2, t2)" "sendAck ops e2 t2 = Some r"
      using assms True n by (auto simp: in_syn_rcvd_def Some_eq_bind Let_def)
    have "kept Q e1 t1 e2 t2"
      using app_kept(6) [OF a(1)] by (simp add: kept_def)
    from kept_trans [OF 1 this] tx_ident(1) [OF a(2)] show ?thesis
      by (rule same_id_trans)
  qed (use assms True n 1 in \<open>auto simp: in_syn_rcvd_def\<close>)
qed (use assms in \<open>auto simp: in_syn_rcvd_def\<close>)

lemma process_state_id:
  assumes "process_state ops ev h data plen e t = Some r"
  shows "same_id Q e t r"
proof (cases "m_state e")
  case SYN_RCVD
  then show ?thesis
    using assms by (simp add: process_state_def in_syn_rcvd_id)
next
  case SYN_SENT
  then show ?thesis
    using assms by (cases r) (auto simp: process_state_def in_syn_sent_def Let_def Some_eq_bind kept_def split: if_splits
      dest!: frame_dest [unfolded same_id_def kept_def])
next
  case ESTABLISHED
  then show ?thesis
    using assms by (auto simp: process_state_def dest: in_established_id)
next
  case LAST_ACK
  then show ?thesis
    using assms by (cases r) (auto simp: process_state_def in_last_ack_def Let_def Some_eq_bind kept_def t_unlisten_def on_net_def
      split: if_splits dest!: frame_dest [unfolded same_id_def kept_def])
next
  case FIN_WAIT_1
  then show ?thesis
    using assms by (cases r) (auto simp: process_state_def in_fin_wait_1_def Let_def Some_eq_bind kept_def split: if_splits
      dest!: frame_dest [unfolded same_id_def kept_def])
next
  case FIN_WAIT_2
  then show ?thesis
    using assms by (cases r) (auto simp: process_state_def in_fin_wait_2_def Let_def Some_eq_bind kept_def split: if_splits
      dest!: frame_dest [unfolded same_id_def kept_def])
next
  case CLOSE
  then show ?thesis
    using assms by (cases r) (auto simp: process_state_def in_close_def Let_def Some_eq_bind kept_def split: if_splits
      dest!: frame_dest [unfolded same_id_def kept_def])
qed (use assms in \<open>auto simp: process_state_def in_closing_def kept_def dest: tx_ident\<close>)

lemma process_conn_id:
  assumes "process_conn ops ev h len data e t = Some r"
  shows "same_id Q e t r"
proof (cases "hd_has h TCP_RST")
  case True
  then show ?thesis
    using assms by (cases r) (auto simp: process_conn_def Let_def Some_eq_bind kept_def t_unlisten_def on_net_def
      dest!: app_kept [unfolded kept_def])
next
  case False
  let ?e = "clear_data_state e" and ?plen = "len - hd_len h"
  note p = assms [unfolded process_conn_def Let_def, simplified False if_False]
  have "same_id Q ?e t r"
  proof (cases "out_of_sequence h ?plen ?e \<or> \<not> (hd_has h TCP_ACK \<and> hasOutstandingSegments ?e)")
    case True
    then show ?thesis
      using p by (auto split: if_splits dest: process_state_id tx_ident)
  next
    case scan: False
    obtain a e' where a: "ack_scan SEGMENT_COUNT (hd_ack h) (hd_wnd h) ?e = (a, e')"
      by fastforce
    have p': "(case (a, e') of (AckRexmit, e) \<Rightarrow> rexmit ops e t
        | (AckPartial, e) \<Rightarrow> process_state ops ev h data ?plen e (count_ackerr t)
        | (AckDone, e) \<Rightarrow> process_state ops ev h data ?plen e t) = Some r"
      using p scan a by simp
    have c: "kept Q e' t e' (count_ackerr t)"
      by (rule kept_ident) (simp_all add: count_ackerr_def on_stats_def)
    have "same_id Q e' t r"
      using p' by (cases a) (auto dest: process_state_id tx_ident intro: same_id_trans [OF c])
    then show ?thesis
      by (rule same_id_trans [rotated]) (rule kept_ident, simp_all add: ack_scan_ident [OF a])
  qed
  then show ?thesis
    by (rule same_id_trans [rotated]) (rule kept_ident, simp_all)
qed

lemma run_conn_id:
  assumes "run_conn ops ev e t = Some (st, e', t')"
  shows "kept Q e t e' t'"
proof -
  obtain b e1 t1 where w: "run_waiting ops e t = (b, e1, t1)"
    by (metis prod_cases3)
  then have s: "kept Q e t e1 t1"
    by (auto simp: run_waiting_def Let_def kept_def t_unlisten_def on_net_def split: if_splits)
  show ?thesis
    using assms w s
    by (auto simp: run_conn_def Let_def Some_eq_bind kept_def split: if_splits dest!: frame_dest [unfolded same_id_def kept_def])
qed

end

text \<open>Any application keeps what is not about the application.\<close>

interpretation any_app: app_frame ev "\<lambda>i h. True" for ev
  by unfold_locales simp_all

end
