(* ===== verification/TcpDemux.thy ===== *)
theory TcpDemux
  imports TcpSystem TcpImage TcpFrame
begin

text \<open>
  Which connection a segment reaches. A segment that arrives changes at most one connection: the one
  of its addresses and ports, or, for a SYN to a port we listen on, one that was free. The rest of the
  theory is about the choice of a connection and of a local port for a new connection, and about the
  segments that belong to no connection.
\<close>

section \<open>The ways through \<open>tcp_process\<close>\<close>

lemma tcp_process_cases:
  assumes "tcp_process ops ev rx len data t = Some (st, t')"
  obtains (dropped) "tcore t' = tcore t" "t_net t' = t_net t"
    | (matched) h k e t0 t1 where "read_header data = Some h" "first_index (matches rx h) (t_conns t) = Some k"
        "tcore t0 = tcore t" "t_net t0 = t_net t"
        "process_conn ops ev h len data (t_conns t ! k) t0 = Some (st, e, t1)" "t' = set_conn k e t1"
    | (reset) h t0 where "read_header data = Some h" "first_index (matches rx h) (t_conns t) = None"
        "tcore t0 = tcore t" "t_net t0 = t_net t" "tcp_reset ops rx h t0 = Some (st, t')"
    | (accepted) h k t0 where "read_header data = Some h" "first_index (matches rx h) (t_conns t) = None"
        "hd_flags h AND TCP_CTL = TCP_SYN" "hd_dst h \<in> t_ports t" "alloc_process (t_conns t) = Some k"
        "tcore t0 = tcore t" "t_net t0 = t_net t" "tcp_accept ops rx h data k t0 = Some (st, t')"
proof -
  let ?t = "on_stats (\<lambda>s. s\<lparr>st_recv := st_recv s + 1\<rparr>) t"
  have same: "tcore (on_stats f t0) = tcore t0" "t_net (on_stats f t0) = t_net t0" "t_conns (on_stats f t0) = t_conns t0"
    "t_ports (on_stats f t0) = t_ports t0" for f and t0 :: "('a, 'b) tcp"
    by (simp_all add: on_stats_def tcore_def)
  show ?thesis
  proof (cases "tcpv4_checksum (rx_src rx) (rx_dst rx) len data = Some 0xFFFF")
    case False
    then show ?thesis
      using assms same by (intro dropped) (auto simp: tcp_process_def Let_def Some_eq_bind)
  next
    case True
    then obtain h where h: "read_header data = Some h"
      using assms by (auto simp: tcp_process_def Let_def Some_eq_bind)
    show ?thesis
    proof (cases "first_index (matches rx h) (t_conns t)")
      case (Some k)
      then obtain e t1 where "process_conn ops ev h len data (t_conns t ! k) ?t = Some (st, e, t1)" "t' = set_conn k e t1"
        using assms True h by (auto simp: tcp_process_def Let_def Some_eq_bind)
      then show ?thesis
        using same by (intro matched [OF h Some, of ?t e t1]) simp_all
    next
      case None
      note p = assms [unfolded tcp_process_def Let_def True h Option.bind.simps, simplified None same option.case]
      show ?thesis
      proof (cases "hd_flags h AND TCP_CTL = TCP_SYN \<and> hd_dst h \<in> t_ports t")
        case False
        then consider "tcp_reset ops rx h ?t = Some (st, t')"
          | "tcp_reset ops rx h (on_stats (\<lambda>s. s\<lparr>st_synrst := st_synrst s + 1\<rparr>) ?t) = Some (st, t')"
          using p by (auto split: if_splits)
        then show ?thesis
          by cases (rule reset [OF h None, rotated 2], assumption, simp_all add: same)+
      next
        case True
        show ?thesis
        proof (cases "alloc_process (t_conns t)")
          case None
          then show ?thesis
            using p True same by (intro dropped) auto
        next
          case (Some k)
          then show ?thesis
            using p True same by (intro accepted [OF h \<open>first_index _ _ = None\<close> _ _ Some, of ?t]) auto
        qed
      qed
    qed
  qed
qed

section \<open>No two connections share addresses and ports\<close>

definition unique :: "conn list \<Rightarrow> bool" where
  "unique cs \<longleftrightarrow> (\<forall>i < length cs. \<forall>j < length cs. m_state (cs ! i) \<noteq> CLOSED \<longrightarrow> m_state (cs ! j) \<noteq> CLOSED \<longrightarrow>
     addr (cs ! i) = addr (cs ! j) \<longrightarrow> i = j)"

lemma uniqueI:
  assumes "\<And>i j. i < length cs \<Longrightarrow> j < length cs \<Longrightarrow> m_state (cs ! i) \<noteq> CLOSED \<Longrightarrow> m_state (cs ! j) \<noteq> CLOSED \<Longrightarrow>
    addr (cs ! i) = addr (cs ! j) \<Longrightarrow> i = j"
  shows "unique cs"
  using assms unfolding unique_def by blast

lemma uniqueD:
  "unique cs \<Longrightarrow> i < length cs \<Longrightarrow> j < length cs \<Longrightarrow> m_state (cs ! i) \<noteq> CLOSED \<Longrightarrow> m_state (cs ! j) \<noteq> CLOSED \<Longrightarrow>
   addr (cs ! i) = addr (cs ! j) \<Longrightarrow> i = j"
  unfolding unique_def by blast

lemma unique_open:
  assumes "unique cs"
    and new: "\<And>j. j < length cs \<Longrightarrow> j \<noteq> k \<Longrightarrow> m_state (cs ! j) \<noteq> CLOSED \<Longrightarrow> addr (cs ! j) \<noteq> addr e"
  shows "unique (cs[k := e])"
proof (rule uniqueI)
  fix i j assume "i < length (cs[k := e])" "j < length (cs[k := e])" and st: "m_state (cs[k := e] ! i) \<noteq> CLOSED"
    "m_state (cs[k := e] ! j) \<noteq> CLOSED" and eq: "addr (cs[k := e] ! i) = addr (cs[k := e] ! j)"
  then have l: "i < length cs" "j < length cs"
    by simp_all
  show "i = j"
  proof (cases "i = k \<or> j = k")
    case True
    then show ?thesis
      using new [OF l(1)] new [OF l(2)] st eq l by (cases "i = k"; cases "j = k") simp_all
  next
    case False
    then show ?thesis
      using uniqueD [OF assms(1) l] st eq by simp
  qed
qed

lemma unique_all2:
  assumes "unique cs" and "list_all2 (\<lambda>c c'. ident c' = ident c \<and> (m_state c = CLOSED \<longrightarrow> m_state c' = CLOSED)) cs cs'"
  shows "unique cs'"
proof (rule uniqueI)
  fix i j assume a: "i < length cs'" "j < length cs'" "m_state (cs' ! i) \<noteq> CLOSED" "m_state (cs' ! j) \<noteq> CLOSED"
    "addr (cs' ! i) = addr (cs' ! j)"
  have l: "length cs = length cs'"
    using assms(2) by (simp add: list_all2_conv_all_nth)
  note n = list_all2_nthD [OF assms(2)]
  show "i = j"
    using uniqueD [OF assms(1), of i j] n [of i] n [of j] a l by (auto simp: ident_eq)
qed

lemma unique_keep:
  assumes "unique cs" and "ident e = ident (cs ! k)" and "m_state (cs ! k) = CLOSED \<Longrightarrow> m_state e = CLOSED"
  shows "unique (cs[k := e])"
  by (rule unique_all2 [OF assms(1)])
    (use assms(2,3) in \<open>auto simp: list_all2_conv_all_nth nth_list_update_if split: if_splits\<close>)

lemma matches_ident: "matches rx h e \<longleftrightarrow> m_state e \<noteq> CLOSED \<and> addr e = (hd_dst h, hd_src h, rx_src rx)"
  by (auto simp: matches_def addr_def)

lemma tcp_reset_core: "tcp_reset ops rx h t = Some (st, t') \<Longrightarrow> tcore t' = tcore t"
  by (auto simp: tcp_reset_def Let_def Some_eq_bind split: if_splits dest!: tst_core flags_core send_raw_core)

lemma tcp_accept_opens:
  assumes "tcp_accept ops rx h data k t = Some (st, t')"
  shows "t_handler t' = t_handler t \<and> (t_conns t' = t_conns t \<or>
    (\<exists>e. t_conns t' = (t_conns t)[k := e] \<and> addr e = (hd_dst h, hd_src h, rx_src rx) \<and> m_state e = SYN_RCVD \<and>
      m_id e = m_id (t_conns t ! k)))"
proof -
  let ?t = "address_peer (rx_eth rx) (rx_src rx) t"
  obtain ret p n where p: "ip_prepare ops (t_net ?t) = Some (ret, p, n)"
    using assms by (auto simp: tcp_accept_def Let_def Some_eq_bind)
  show ?thesis
  proof (cases "ret = Ok")
    case True
    let ?e = "accept_conn rx h (t_iss t) (ucast (d_mtu ops (n_dev n) - HEADER_OVERHEAD)) (t_conns t ! k)"
    have t: "t_iss ?t = t_iss t" "t_conns ?t = t_conns t" "t_handler ?t = t_handler t"
      by (simp_all add: address_peer_def on_net_def)
    obtain i e1 e2 t2 where e: "parse_options (upd_seg i (segment_set 1 (m_snd_nxt ?e) p) ?e) h data = Some e1"
        "sendSynAck ops e1 i (?t\<lparr>t_net := n\<rparr>) = Some (st, e2, t2)" "t' = set_conn k e2 t2"
      using assms p True t by (auto simp: tcp_accept_def Let_def Some_eq_bind)
    have "core e2 = core e1 \<and> tcore t2 = tcore ?t"
      using sendSynAck_tx [OF e(2)] by simp
    then have s: "ident e2 = ident e1" "m_state e2 = m_state e1" "t_conns t2 = t_conns t" "t_handler t2 = t_handler t"
      using core_ident [of e2 e1] core_sel(1) [of e2 e1] tcore_sel(1,2) [of t2 ?t] t by simp_all
    have "addr e2 = (hd_dst h, hd_src h, rx_src rx)" "m_state e2 = SYN_RCVD" "m_id e2 = m_id (t_conns t ! k)"
      using parse_options_ident [OF e(1)] parse_options_state [OF e(1)] s by (simp_all add: ident_eq addr_def accept_conn_def upd_seg_def)
    then show ?thesis
      using e(3) s(3,4) by (auto simp: set_conn_def)
  qed (use assms p in \<open>auto simp: tcp_accept_def Let_def address_peer_def on_net_def\<close>)
qed

text \<open>One call of each operation, on the connections.\<close>

lemma tcp_process_one:
  assumes "tcp_process ops ev rx len data t = Some (st, t')"
  shows "t_conns t' = t_conns t \<and> t_handler t' = t_handler t \<or> (\<exists>h k e. read_header data = Some h \<and> k < length (t_conns t) \<and> t_conns t' = (t_conns t)[k := e] \<and>
    (first_index (matches rx h) (t_conns t) = Some k \<and> ident e = ident (t_conns t ! k) \<or>
     first_index (matches rx h) (t_conns t) = None \<and> addr e = (hd_dst h, hd_src h, rx_src rx) \<and>
     m_id e = m_id (t_conns t ! k) \<and> t_handler t' = t_handler t \<and> hd_flags h AND TCP_CTL = TCP_SYN \<and> hd_dst h \<in> t_ports t \<and> alloc_process (t_conns t) = Some k))"
  using assms
proof (cases rule: tcp_process_cases)
  case dropped
  then show ?thesis
    by (auto dest: tcore_sel)
next
  case (matched h k e t0 t1)
  then show ?thesis
    using any_app.process_conn_id [OF matched(5)] first_index_Some [OF matched(2)] tcore_sel(1) [OF matched(3)]
    by (intro disjI2 exI [of _ h] exI [of _ k] exI [of _ e]) (simp add: set_conn_def kept_def)
next
  case (reset h t0)
  then show ?thesis
    using tcore_sel(1,2) [OF tcp_reset_core [OF reset(5)]] tcore_sel(1,2) [OF reset(3)] by simp
next
  case (accepted h k t0)
  have "t_conns t0 = t_conns t" "t_handler t0 = t_handler t"
    using tcore_sel(1,2) [OF accepted(6)] by simp_all
  moreover have "k < length (t_conns t)"
    using alloc_process_Some [OF accepted(5)] by simp
  ultimately show ?thesis
    using tcp_accept_opens [OF accepted(8)] accepted by auto
qed

lemma run_scan_ident:
  assumes "run_scan ops ev is t = Some (st, t')" and "distinct is"
  shows "list_all2 (\<lambda>c c'. ident c' = ident c) (t_conns t) (t_conns t')"
  using assms
proof (induction "is" arbitrary: t)
  case (Cons i "is")
  obtain r e t1 where r: "run_conn ops ev (t_conns t ! i) t = Some (r, e, t1)"
    and k: "(case r of None \<Rightarrow> run_scan ops ev is (set_conn i e t1) | Some st \<Rightarrow> Some (st, set_conn i e t1)) = Some (st, t')"
    using Cons.prems by (auto simp: Some_eq_bind Let_def)
  have one: "list_all2 (\<lambda>c c'. ident c' = ident c) (t_conns t) (t_conns (set_conn i e t1))"
    using any_app.run_conn_id [OF r, unfolded kept_def] by (auto simp: set_conn_def list_all2_conv_all_nth nth_list_update_if)
  show ?case
  proof (cases r)
    case None
    then have "list_all2 (\<lambda>c c'. ident c' = ident c) (t_conns (set_conn i e t1)) (t_conns t')"
      using Cons.IH [of "set_conn i e t1"] Cons.prems(2) k by simp
    from list_all2_trans [OF _ one this] show ?thesis
      by simp
  qed (use k one in simp)
qed (simp add: list_all2_conv_all_nth)

lemma run_conn_closed: "run_conn ops ev e t = Some (r, e', t') \<Longrightarrow> m_state e = CLOSED \<Longrightarrow> e' = e"
  by (simp add: run_conn_def)

lemma run_scan_closed:
  assumes "run_scan ops ev is t = Some (st, t')" and "distinct is" and "i < length (t_conns t)" and "m_state (t_conns t ! i) = CLOSED"
  shows "m_state (t_conns t' ! i) = CLOSED"
  using assms
proof (induction "is" arbitrary: t)
  case (Cons j "is")
  obtain r e t1 where r: "run_conn ops ev (t_conns t ! j) t = Some (r, e, t1)"
    and k: "(case r of None \<Rightarrow> run_scan ops ev is (set_conn j e t1) | Some st \<Rightarrow> Some (st, set_conn j e t1)) = Some (st, t')"
    using Cons.prems by (auto simp: Some_eq_bind Let_def)
  have t1: "t_conns t1 = t_conns t"
    using any_app.run_conn_id [OF r, unfolded kept_def] by simp
  then have c: "m_state (t_conns (set_conn j e t1) ! i) = CLOSED"
    using run_conn_closed [OF r] Cons.prems(3,4) by (cases "i = j") (simp_all add: set_conn_def)
  show ?case
  proof (cases r)
    case None
    then have "run_scan ops ev is (set_conn j e t1) = Some (st, t')"
      using k by simp
    from Cons.IH [OF this _ _ c] show ?thesis
      using Cons.prems(2,3) t1 by (simp add: set_conn_def)
  qed (use k c in simp)
qed simp

lemma tcp_run_unique:
  assumes "tcp_run ops ev now now' t = Some (st, t')" and "unique (t_conns t)"
  shows "unique (t_conns t')"
proof (cases "timer_expired now (t_timer t)")
  case True
  let ?t = "t\<lparr>t_timer := timer_reset now' (t_timer t), t_iss := t_iss t + 1\<rparr>"
  have r: "run_scan ops ev [0..<length (t_conns t)] ?t = Some (st, t')"
    using assms True by (simp add: tcp_run_def)
  have "list_all2 (\<lambda>c c'. ident c' = ident c \<and> (m_state c = CLOSED \<longrightarrow> m_state c' = CLOSED)) (t_conns ?t) (t_conns t')"
    using run_scan_ident [OF r] run_scan_closed [OF r] by (simp add: list_all2_conv_all_nth)
  from unique_all2 [OF _ this] show ?thesis
    using assms(2) by simp
qed (use assms in \<open>simp add: tcp_run_def\<close>)

lemma tcp_connect_one:
  assumes "tcp_connect ops hw ip rport readings t = Some (st, cid, t')"
  shows "t_handler t' = t_handler t \<and> (t_conns t' = t_conns t \<or> (\<exists>k e lport. t_conns t' = (t_conns t)[k := e] \<and>
    choose_port (t_conns t) readings = Some lport \<and> alloc_connect (t_conns t) [0..<length (t_conns t)] None = Some k \<and>
    m_lport e = htons lport \<and> m_id e = m_id (t_conns t ! k)))"
proof -
  let ?t = "address_peer hw ip t"
  have t: "t_iss ?t = t_iss t" "t_conns ?t = t_conns t" "t_handler ?t = t_handler t"
    by (simp_all add: address_peer_def on_net_def)
  obtain ret p n where p: "ip_prepare ops (t_net ?t) = Some (ret, p, n)"
    using assms by (auto simp: tcp_connect_def Let_def Some_eq_bind)
  show ?thesis
  proof (cases "\<exists>lport k d. ret = Ok \<and> choose_port (t_conns t) readings = Some lport \<and>
      alloc_connect (t_conns t) [0..<length (t_conns t)] None = Some k \<and> d_listen ops lport (n_dev n) = (Ok, d)")
    case True
    then obtain lport k d where k: "ret = Ok" "choose_port (t_conns t) readings = Some lport"
        "alloc_connect (t_conns t) [0..<length (t_conns t)] None = Some k" "d_listen ops lport (n_dev n) = (Ok, d)"
      by blast
    let ?e = "connect_conn hw ip lport rport (t_iss t) (ucast (d_mtu ops d - HEADER_OVERHEAD)) (t_conns t ! k)"
    obtain i t1 st2 e2 t2 where s: "set_flags p 0 (on_net (\<lambda>n. n\<lparr>n_dev := d\<rparr>) (?t\<lparr>t_net := n\<rparr>)) = Some t1"
      "sendSyn ops (upd_seg i (segment_set 1 (m_snd_nxt ?e) p) ?e) i t1 = Some (st2, e2, t2)"
      "t_conns t' = (t_conns t2)[k := if st2 = Ok then e2 else e2\<lparr>m_state := CLOSED\<rparr>]" "t_handler t' = t_handler t2"
      using assms p k t by (auto simp: tcp_connect_def Let_def Some_eq_bind on_net_def set_conn_def t_unlisten_def split: if_splits)
    have c: "core e2 = core (upd_seg i (segment_set 1 (m_snd_nxt ?e) p) ?e)" "tcore t2 = tcore ?t"
      using sendSyn_tx [OF s(2)] flags_core(1) [OF s(1)] by simp_all
    have "m_lport e2 = htons lport" "m_id e2 = m_id (t_conns t ! k)"
      using core_sel(8,14) [OF c(1)] by (simp_all add: upd_seg_def connect_conn_def)
    moreover have "t_conns t2 = t_conns t" "t_handler t2 = t_handler t"
      using tcore_sel(1,2) [OF c(2)] t by simp_all
    ultimately show ?thesis
      using k s(3,4) by (intro conjI disjI2 exI [of _ k] exI [of _ "if st2 = Ok then e2 else e2\<lparr>m_state := CLOSED\<rparr>"] exI [of _ lport]) simp_all
  next
    case False
    show ?thesis
    proof (cases "ret = Ok \<and> alloc_connect (t_conns t) [0..<length (t_conns t)] None \<noteq> None")
      case True
      then obtain lport k where k: "choose_port (t_conns t) readings = Some lport"
          "alloc_connect (t_conns t) [0..<length (t_conns t)] None = Some k"
        using assms p t by (cases "choose_port (t_conns t) readings") (auto simp: tcp_connect_def Let_def)
      obtain ret2 d where d: "d_listen ops lport (n_dev n) = (ret2, d)"
        by fastforce
      then have "ret2 \<noteq> Ok"
        using False True k by blast
      then show ?thesis
        using assms p t k d True by (auto simp: tcp_connect_def Let_def on_net_def)
    qed (use assms p t in \<open>auto simp: tcp_connect_def Let_def Some_eq_bind split: if_splits\<close>)
  qed
qed

lemma choose_port_free: "choose_port conns readings = Some lport \<Longrightarrow> \<not> port_in_use conns lport \<and> 4096 \<le> lport"
  by (induction conns readings rule: choose_port.induct) (auto simp: Let_def split: if_splits)

text \<open>The operations on one connection: abort, close and send.\<close>

definition touches :: "u16 \<Rightarrow> ('d, 'h) tcp \<Rightarrow> ('d, 'h) tcp \<Rightarrow> bool" where
  "touches cid t t' \<longleftrightarrow> t_conns t' = t_conns t \<or>
     (\<exists>e. t_conns t' = (t_conns t)[unat cid := e] \<and> ident e = ident (t_conns t ! unat cid) \<and>
       (m_state (t_conns t ! unat cid) = CLOSED \<longrightarrow> m_state e = CLOSED))"

lemma touchesI:
  "t_conns t' = (t_conns t)[unat cid := e] \<Longrightarrow> ident e = ident (t_conns t ! unat cid) \<Longrightarrow>
   m_state (t_conns t ! unat cid) \<noteq> CLOSED \<or> m_state e = CLOSED \<Longrightarrow> touches cid t t'"
  by (auto simp: touches_def)

lemma touches_same: "t_conns t' = t_conns t \<Longrightarrow> touches cid t t'"
  by (simp add: touches_def)

lemma touches_unique: "touches cid t t' \<Longrightarrow> unique (t_conns t) \<Longrightarrow> unique (t_conns t')"
  by (auto simp: touches_def intro: unique_keep)

lemma tcp_abort_touches:
  assumes "tcp_abort ops ev cid t = Some (st, t')"
  shows "touches cid t t'"
proof (cases "length (t_conns t) \<le> unat cid")
  case False
  let ?c = "t_conns t ! unat cid"
  obtain c1 t1 t2 c2 t3 where s: "notify (h_aborted ev) (?c\<lparr>m_state := CLOSED\<rparr>) (t_unlisten ops (m_lport ?c) t) = Some (c1, t1)"
      "set_flags (m_sdat c1) 0 t1 = Some t2" "sendAbort ops c1 t2 = Some (st, c2, t3)" "t' = set_conn (unat cid) c2 t3"
    using assms False by (auto simp: tcp_abort_def Let_def Some_eq_bind)
  have "t_conns t3 = t_conns t" "ident c2 = ident ?c"
    using any_app.app_kept(2) [OF s(1)] any_app.frame_dest(10) [OF s(3)] tst_conns(4) [OF s(2)] by (simp_all add: kept_def)
  moreover have "m_state c2 = CLOSED"
    using sendAbort_tx [OF s(3)] core_sel(1) [of c2 "c1\<lparr>m_state := CLOSED\<rparr>"] by simp
  ultimately show ?thesis
    using s(4) by (intro touchesI [of _ _ _ c2]) (simp_all add: set_conn_def)
qed (use assms in \<open>simp add: tcp_abort_def touches_same\<close>)

lemma tcp_close_touches:
  assumes "tcp_close ops cid t = Some (st, t')"
  shows "touches cid t t'"
proof (cases "unat cid < length (t_conns t) \<and> m_state (t_conns t ! unat cid) = ESTABLISHED")
  case True
  let ?c = "t_conns t ! unat cid"
  show ?thesis
  proof (cases "hasOutstandingSegments ?c")
    case out: True
    then show ?thesis
      using assms True by (intro touchesI [of _ _ _ "?c\<lparr>m_state := CLOSE\<rparr>"]) (auto simp: tcp_close_def Let_def set_conn_def)
  next
    case False
    then obtain t1 c2 t2 where s: "set_flags (m_sdat ?c) 0 t = Some t1" "sendClose ops ?c t1 = Some (st, c2, t2)"
        "t' = set_conn (unat cid) c2 t2"
      using assms True by (auto simp: tcp_close_def Let_def Some_eq_bind)
    have "t_conns t2 = t_conns t" "ident c2 = ident ?c"
      using any_app.frame_dest(11) [OF s(2)] tst_conns(4) [OF s(1)] by (simp_all add: kept_def)
    then show ?thesis
      using s(3) True by (intro touchesI [of _ _ _ c2]) (simp_all add: set_conn_def)
  qed
qed (use assms in \<open>auto simp: tcp_close_def Let_def touches_same split: if_splits\<close>)

lemma tcp_send_touches:
  assumes "tcp_send ops cid len data off t = Some (st, off', t')"
  shows "touches cid t t'"
proof (cases "t' = t")
  case False
  let ?c = "t_conns t ! unat cid"
  obtain bs c1 t1 c2 t2 st' where r: "m_state ?c = ESTABLISHED"
      "send_copy ?c bs off (send_size ?c (send_bound ?c t) (len - off)) t = Some (off', c1, t1)"
      "t' = set_conn (unat cid) c2 t2" "tx c1 t1 (st', c2, t2)"
    using tcp_send_cases [OF assms False] by metis
  have "ident c1 = ident ?c" "t_conns t1 = t_conns t"
    using r(2) by (auto simp: send_copy_def Some_eq_bind t_set_mem_def on_net_def split: if_splits)
  then show ?thesis
    using r(1,3,4) core_ident [of c2 c1] tcore_sel(1) [of t2 t1] by (intro touchesI [of _ _ _ c2]) (simp_all add: set_conn_def)
qed (simp add: touches_same)

lemma tcp_handle_unique:
  assumes "tcp_handle ops ev x t = Some t'" and u: "unique (t_conns t)"
  shows "unique (t_conns t')"
proof (cases x)
  case (Segment rx len data)
  then obtain st where "tcp_process ops ev rx len data t = Some (st, t')"
    using assms by (auto simp: drop_result_def)
  from tcp_process_one [OF this] show ?thesis
  proof (elim disjE exE conjE)
    fix h k e assume c: "t_conns t' = (t_conns t)[k := e]" "first_index (matches rx h) (t_conns t) = Some k"
      "ident e = ident (t_conns t ! k)"
    have "m_state (t_conns t ! k) \<noteq> CLOSED"
      using first_index_Some [OF c(2)] by (simp add: matches_def)
    then show ?thesis
      unfolding c(1) by (intro unique_keep [OF u c(3)]) simp
  next
    fix h k e assume c: "t_conns t' = (t_conns t)[k := e]" "first_index (matches rx h) (t_conns t) = None"
      "addr e = (hd_dst h, hd_src h, rx_src rx)"
    show ?thesis
      unfolding c(1) by (rule unique_open [OF u]) (use c(2,3) in \<open>auto simp: first_index_None list_all_length matches_ident\<close>)
  qed (use u in simp)
next
  case (Tick now now')
  then show ?thesis
    using assms tcp_run_unique by (auto simp: drop_result_def)
next
  case (Connect hw ip rport readings)
  then obtain st cid where "tcp_connect ops hw ip rport readings t = Some (st, cid, t')"
    using assms by auto
  from tcp_connect_one [OF this] show ?thesis
  proof (elim disjE exE conjE)
    fix k e lport assume c: "t_conns t' = (t_conns t)[k := e]" "choose_port (t_conns t) readings = Some lport" "m_lport e = htons lport"
    have "m_lport (t_conns t ! j) \<noteq> m_lport e" if "j < length (t_conns t)" "m_state (t_conns t ! j) \<noteq> CLOSED" for j
      using choose_port_free [OF c(2)] c(3) that by (auto simp: port_in_use_def list_ex_iff)
    then show ?thesis
      unfolding c(1) by (intro unique_open [OF u]) (auto simp: addr_def)
  qed (use u in simp)
next
  case (AbortConn cid)
  then show ?thesis
    using assms by (auto simp: drop_result_def intro: touches_unique tcp_abort_touches)
next
  case (CloseConn cid)
  then show ?thesis
    using assms by (auto simp: drop_result_def intro: touches_unique tcp_close_touches)
next
  case (SendData cid len data off)
  then show ?thesis
    using assms by (auto intro: touches_unique tcp_send_touches)
qed (use assms in auto)

lemma reaches_unique: "tcp_reaches ops ev t0 t \<Longrightarrow> unique (t_conns t0) \<Longrightarrow> unique (t_conns t)"
  by (induction rule: tcp_reaches.induct) (auto intro: tcp_handle_unique)

lemma create_unique: "tcp_create ops n h nconn now cps = Some t0 \<Longrightarrow> unique (t_conns t0)"
  using tcp_create_conns [of ops n h nconn now cps t0] by (auto simp: unique_def conn_init_def)

section \<open>The identifiers stay\<close>

lemma ids_set: "m_id e = m_id (cs ! k) \<Longrightarrow> map m_id (cs[k := e]) = map m_id cs"
  by (cases "k < length cs") (simp_all add: map_update list_update_same_conv list_update_beyond)

lemma tcp_handle_ids:
  assumes "tcp_handle ops ev x t = Some t'"
  shows "map m_id (t_conns t') = map m_id (t_conns t)"
proof (cases x)
  case (Segment rx len data)
  then show ?thesis
    using assms by (auto simp: drop_result_def ident_eq dest!: tcp_process_one intro!: ids_set)
next
  case (Tick now now')
  then obtain st where r: "tcp_run ops ev now now' t = Some (st, t')"
    using assms by (auto simp: drop_result_def)
  show ?thesis
  proof (cases "timer_expired now (t_timer t)")
    case True
    then have "run_scan ops ev [0..<length (t_conns t)] (t\<lparr>t_timer := timer_reset now' (t_timer t), t_iss := t_iss t + 1\<rparr>) = Some (st, t')"
      using r by (simp add: tcp_run_def)
    from run_scan_ident [OF this] show ?thesis
      by (auto simp: list_all2_conv_all_nth ident_eq intro!: nth_equalityI)
  qed (use r in \<open>simp add: tcp_run_def\<close>)
next
  case (Connect hw ip rport readings)
  then show ?thesis
    using assms by (auto dest!: tcp_connect_one intro!: ids_set)
next
  case (AbortConn cid)
  then show ?thesis
    using assms by (auto simp: drop_result_def touches_def ident_eq dest!: tcp_abort_touches intro!: ids_set)
next
  case (CloseConn cid)
  then show ?thesis
    using assms by (auto simp: drop_result_def touches_def ident_eq dest!: tcp_close_touches intro!: ids_set)
next
  case (SendData cid len data off)
  then show ?thesis
    using assms by (auto simp: touches_def ident_eq dest!: tcp_send_touches intro!: ids_set)
qed (use assms in auto)

lemma tcp_handle_ident:
  assumes "tcp_handle ops ev x t = Some t'" and st: "m_state (t_conns t ! k) \<notin> {CLOSED, TIME_WAIT}" and k: "k < length (t_conns t)"
  shows "ident (t_conns t' ! k) = ident (t_conns t ! k)"
proof -
  have upd: "ident ((t_conns t)[j := e] ! k) = ident (t_conns t ! k)"
    if "j = k \<Longrightarrow> ident e = ident (t_conns t ! j)" for j e
    using that by (cases "j = k"; cases "k < length (t_conns t)") (simp_all add: list_update_beyond)
  show ?thesis
  proof (cases x)
    case (Segment rx len data)
    then obtain s where "tcp_process ops ev rx len data t = Some (s, t')"
      using assms by (auto simp: drop_result_def)
    from tcp_process_one [OF this] show ?thesis
    proof (elim disjE exE conjE)
      fix h j e assume c: "t_conns t' = (t_conns t)[j := e]" "alloc_process (t_conns t) = Some j"
      have "j \<noteq> k"
        using alloc_process_state [OF c(2)] st by auto
      then show ?thesis
        unfolding c(1) by (intro upd) simp
    qed (auto intro: upd)
  next
    case (Tick now now')
    then obtain s where r: "tcp_run ops ev now now' t = Some (s, t')"
      using assms by (auto simp: drop_result_def)
    show ?thesis
    proof (cases "timer_expired now (t_timer t)")
      case True
      then have "run_scan ops ev [0..<length (t_conns t)] (t\<lparr>t_timer := timer_reset now' (t_timer t), t_iss := t_iss t + 1\<rparr>) = Some (s, t')"
        using r by (simp add: tcp_run_def)
      from run_scan_ident [OF this] show ?thesis
        using k by (simp add: list_all2_conv_all_nth)
    qed (use r in \<open>simp add: tcp_run_def\<close>)
  next
    case (Connect hw ip rport readings)
    then obtain s cid where c: "tcp_connect ops hw ip rport readings t = Some (s, cid, t')"
      using assms by auto
    show ?thesis
    proof (cases "t_conns t' = t_conns t")
      case False
      then obtain j e where j: "t_conns t' = (t_conns t)[j := e]" "alloc_connect (t_conns t) [0..<length (t_conns t)] None = Some j"
        using tcp_connect_one [OF c] by blast
      have "j \<noteq> k"
        using alloc_connect_Some [OF j(2)] st by auto
      then show ?thesis
        unfolding j(1) by (intro upd) simp
    qed simp
  next
    case (AbortConn cid)
    then show ?thesis
      using assms by (auto simp: drop_result_def touches_def dest!: tcp_abort_touches intro!: upd)
  next
    case (CloseConn cid)
    then show ?thesis
      using assms by (auto simp: drop_result_def touches_def dest!: tcp_close_touches intro!: upd)
  next
    case (SendData cid len data off)
    then show ?thesis
      using assms by (auto simp: touches_def dest!: tcp_send_touches intro!: upd)
  qed (use assms in auto)
qed

section \<open>Choosing a connection and a port\<close>

text \<open>The scan for a connection to reuse keeps the best so far.\<close>

definition best_of :: "conn list \<Rightarrow> nat set \<Rightarrow> nat option \<Rightarrow> bool" where
  "best_of conns S best \<longleftrightarrow> (case best of None \<Rightarrow> S = {}
   | Some b \<Rightarrow> b \<in> S \<and> (\<forall>i\<in>S. m_timer (conns ! i) \<le> m_timer (conns ! b)))"

lemma oldest_waiting_best:
  assumes "best_of conns S best"
  shows "best_of conns (S \<union> {i \<in> set is. m_state (conns ! i) = TIME_WAIT}) (oldest_waiting conns is best)"
  using assms
proof (induction "is" arbitrary: S best)
  case (Cons i "is")
  show ?case
  proof (cases "m_state (conns ! i) = TIME_WAIT")
    case False
    then have "{j \<in> set (i # is). m_state (conns ! j) = TIME_WAIT} = {j \<in> set is. m_state (conns ! j) = TIME_WAIT}"
      by auto
    then show ?thesis
      using Cons.IH [OF Cons.prems] False by (simp add: Let_def)
  next
    case True
    have b: "best_of conns (insert i S) (if older conns (conns ! i) best then Some i else best)"
      using Cons.prems by (cases best) (auto simp: best_of_def older_def not_less)
    have "oldest_waiting conns (i # is) best = oldest_waiting conns is (if older conns (conns ! i) best then Some i else best)"
      using True by (simp add: Let_def)
    moreover have "S \<union> {j \<in> set (i # is). m_state (conns ! j) = TIME_WAIT} =
        insert i S \<union> {j \<in> set is. m_state (conns ! j) = TIME_WAIT}"
      using True by auto
    ultimately show ?thesis
      using Cons.IH [OF b] by (simp only:)
  qed
qed simp

lemma alloc_connect_closed:
  assumes "i \<in> set is" and "m_state (conns ! i) = CLOSED"
  shows "\<exists>j pre post. is = pre @ j # post \<and> m_state (conns ! j) = CLOSED \<and> (\<forall>k\<in>set pre. m_state (conns ! k) \<noteq> CLOSED) \<and>
    alloc_connect conns is best = Some j"
  using assms
proof (induction "is" arbitrary: best)
  case (Cons a "is")
  show ?case
  proof (cases "m_state (conns ! a) = CLOSED")
    case True
    then show ?thesis
      by (intro exI [of _ a] exI [of _ "[]"] exI [of _ "is"]) simp
  next
    case False
    then have "i \<in> set is"
      using Cons.prems by auto
    from Cons.IH [OF this Cons.prems(2), of "if m_state (conns ! a) = TIME_WAIT \<and> older conns (conns ! a) best then Some a else best"]
    obtain j pre post where "is = pre @ j # post" "m_state (conns ! j) = CLOSED" "\<forall>k\<in>set pre. m_state (conns ! k) \<noteq> CLOSED"
      "alloc_connect conns is (if m_state (conns ! a) = TIME_WAIT \<and> older conns (conns ! a) best then Some a else best) = Some j"
      by blast
    then show ?thesis
      using False by (intro exI [of _ j] exI [of _ "a # pre"] exI [of _ post]) (auto simp: Let_def)
  qed
qed simp

lemma alloc_connect_open:
  "\<forall>i\<in>set is. m_state (conns ! i) \<noteq> CLOSED \<Longrightarrow> alloc_connect conns is best = oldest_waiting conns is best"
  by (induction "is" arbitrary: best) (auto simp: Let_def)


section \<open>Sample segments\<close>

text \<open>The sample processor listens on port 80 and gets a SYN for it, or a reset.\<close>

definition sample_rx :: rx_info where
  "sample_rx = \<lparr>rx_eth = Mac 16 0 0 0 0 2, rx_src = ip4_make 10 1 0 2, rx_dst = ip4_make 10 1 0 1\<rparr>"

definition sample_header :: "u8 \<Rightarrow> tcp_header" where
  "sample_header flags = \<lparr>hd_src = htons 4000, hd_dst = htons 80, hd_seq = 7000, hd_ack = 0, hd_off = 5,
     hd_flags = flags, hd_wnd = 1000, hd_urgp = 0\<rparr>"

definition sample_segment :: "u8 \<Rightarrow> u8 list" where
  "sample_segment flags = tcp_image (ip4_make 10 1 0 2) (ip4_make 10 1 0 1) (sample_header flags) []"

lemma sample_segment_header: "read_header (sample_segment flags) = Some (sample_header flags)"
  by (simp add: sample_segment_def tcp_image_header sample_header_def)

definition sample_listening :: "(list_dev, unit client) tcp" where
  "sample_listening = tcp_listen list_ops 80 sample_tcp"

lemma sample_syn:
  "\<exists>st t'. tcp_process list_ops (client_events default_delegate) sample_rx 20 (sample_segment TCP_SYN) sample_listening = Some (st, t') \<and>
     map m_state (t_conns t') = [SYN_RCVD]"
proof -
  let ?t = "on_stats (\<lambda>s. s\<lparr>st_recv := st_recv s + 1\<rparr>) sample_listening"
  have "map_option (\<lambda>(st, t). map m_state (t_conns t))
     (tcp_accept list_ops sample_rx (sample_header TCP_SYN) (sample_segment TCP_SYN) 0 ?t) = Some [SYN_RCVD]"
    by code_simp
  moreover have "first_index (matches sample_rx (sample_header TCP_SYN)) (t_conns ?t) = None" "alloc_process (t_conns ?t) = Some 0"
    "hd_dst (sample_header TCP_SYN) \<in> t_ports ?t" "hd_flags (sample_header TCP_SYN) AND TCP_CTL = TCP_SYN"
    by code_simp+
  moreover have "tcpv4_checksum (rx_src sample_rx) (rx_dst sample_rx) 20 (sample_segment TCP_SYN) = Some 0xFFFF"
    using tcp_image_verifies [of "[]" "ip4_make 10 1 0 2" "ip4_make 10 1 0 1" "sample_header TCP_SYN"]
    by (simp add: sample_rx_def sample_segment_def)
  ultimately show ?thesis
    by (auto simp: tcp_process_def sample_segment_header Let_def)
qed

section \<open>Properties\<close>

text \<open>C11: A segment changes at most one connection: the first whose ports and remote address are those of the
  segment, or, if there is none and the segment is a SYN for a port we listen on, one that is closed or
  waits in TIME_WAIT. Connections are neither added nor removed.\<close>
theorem segment_isolation:
  assumes "tcp_process ops ev rx len data t = Some (st, t')"
  shows "length (t_conns t') = length (t_conns t) \<and> (t_conns t' = t_conns t \<or>
    (\<exists>h k e. read_header data = Some h \<and> t_conns t' = (t_conns t)[k := e] \<and>
      (first_index (matches rx h) (t_conns t) = Some k \<or>
       first_index (matches rx h) (t_conns t) = None \<and> hd_flags h AND TCP_CTL = TCP_SYN \<and> hd_dst h \<in> t_ports t \<and>
       m_state (t_conns t ! k) \<in> {CLOSED, TIME_WAIT})))"
  using tcp_process_one [OF assms] alloc_process_state [of "t_conns t"] by auto

theorem segment_isolation_witness:
  "\<exists>t' :: (list_dev, unit client) tcp. length (t_conns t') = length (t_conns sample_listening) \<and> map m_state (t_conns t') = [SYN_RCVD]"
proof -
  obtain st t' where s: "tcp_process list_ops (client_events default_delegate) sample_rx 20 (sample_segment TCP_SYN) sample_listening = Some (st, t')"
      "map m_state (t_conns t') = [SYN_RCVD]"
    using sample_syn by (elim exE conjE)
  show ?thesis
    by (intro exI [of _ t'] conjI segment_isolation [OF s(1), THEN conjunct1] s(2))
qed

text \<open>C12: In a processor that was constructed and then handled any events, no two connections in use have the
  same ports and remote address, so that a segment matches at most one connection.\<close>
theorem segment_match_unique:
  assumes "tcp_create ops n h0 nconn now cps = Some t0" and "tcp_reaches ops ev t0 t"
    and "i < length (t_conns t)" and "j < length (t_conns t)"
    and "matches rx h (t_conns t ! i)" and "matches rx h (t_conns t ! j)"
  shows "i = j"
  using uniqueD [OF reaches_unique [OF assms(2) create_unique [OF assms(1)]] assms(3,4)] assms(5,6)
  by (simp add: matches_ident)

theorem segment_match_unique_witness:
  "\<exists>t. tcp_reaches list_ops (client_events default_delegate) sample_tcp t \<and> map m_state (t_conns t) = [SYN_RCVD] \<and>
     (\<forall>i < length (t_conns t). matches sample_rx (sample_header TCP_ACK) (t_conns t ! i) \<longrightarrow> i = 0)"
proof -
  let ?ev = "client_events default_delegate"
  obtain st t where s: "tcp_process list_ops ?ev sample_rx 20 (sample_segment TCP_SYN) sample_listening = Some (st, t)"
      "map m_state (t_conns t) = [SYN_RCVD]"
    using sample_syn by (elim exE conjE)
  have r: "tcp_reaches list_ops ?ev sample_tcp sample_listening"
    by (rule tcp_reaches.event [OF tcp_reaches.start, where x = "Listen 80"]) (simp add: sample_listening_def)
  have r: "tcp_reaches list_ops ?ev sample_tcp t"
    by (rule tcp_reaches.event [OF r, where x = "Segment sample_rx 20 (sample_segment TCP_SYN)"]) (simp add: drop_result_def s(1))
  have "i = 0" if "i < length (t_conns t)" "matches sample_rx (sample_header TCP_ACK) (t_conns t ! i)" for i
  proof (cases "matches sample_rx (sample_header TCP_ACK) (t_conns t ! 0)")
    case True
    then show ?thesis
      using that by (intro segment_match_unique [OF sample_create r that(1) _ that(2)]) auto
  next
    case False
    then show ?thesis
      using that arg_cong [OF s(2), of length] by auto
  qed
  then show ?thesis
    by (intro exI [of _ t] conjI r s(2)) blast
qed

text \<open>The port chosen for an active open is that of the first reading of the clock whose low 16 bits are
  at least 4096 and which no connection in use has as its local port.\<close>
theorem choose_port_first:
  "choose_port conns readings = List.find (\<lambda>p. 4096 \<le> p \<and> \<not> list_ex (\<lambda>c. m_state c \<noteq> CLOSED \<and> m_lport c = htons p) conns)
     (List.map (\<lambda>r. ucast (r AND 0xFFFF)) readings)"
  by (induction readings) (auto simp: Let_def port_in_use_def list_ex_iff not_less)

text \<open>C13: The two searches for a free connection, in \<^verbatim>\<open>connect\<close> and in the passive open, which are written
  differently, choose the same connection: the first closed one, and only if there is none a connection
  in TIME_WAIT whose timer no other connection in TIME_WAIT exceeds.\<close>
theorem alloc_agree:
  "alloc_connect conns [0..<length conns] None = alloc_process conns \<and>
   alloc_process conns = (case first_index (\<lambda>c. m_state c = CLOSED) conns of
     Some i \<Rightarrow> Some i
   | None \<Rightarrow> oldest_waiting conns [0..<length conns] None) \<and>
   best_of conns {i. i < length conns \<and> m_state (conns ! i) = TIME_WAIT} (oldest_waiting conns [0..<length conns] None)"
proof -
  have "best_of conns {i. i < length conns \<and> m_state (conns ! i) = TIME_WAIT} (oldest_waiting conns [0..<length conns] None)"
    using oldest_waiting_best [of conns "{}" None "[0..<length conns]"] by (simp add: best_of_def)
  moreover have "alloc_connect conns [0..<length conns] None = alloc_process conns"
  proof (cases "first_index (\<lambda>c. m_state c = CLOSED) conns")
    case None
    then have "\<forall>i\<in>set [0..<length conns]. m_state (conns ! i) \<noteq> CLOSED"
      by (simp add: first_index_None list_all_length)
    then show ?thesis
      using None by (simp add: alloc_process_def alloc_connect_open)
  next
    case (Some i)
    then have i: "i < length conns" "m_state (conns ! i) = CLOSED" "\<And>j. j < i \<Longrightarrow> m_state (conns ! j) \<noteq> CLOSED"
      by (auto dest: first_index_Some)
    then obtain j pre post where j: "[0..<length conns] = pre @ j # post" "m_state (conns ! j) = CLOSED"
        "\<forall>k\<in>set pre. m_state (conns ! k) \<noteq> CLOSED" "alloc_connect conns [0..<length conns] None = Some j"
      using alloc_connect_closed [of i "[0..<length conns]" conns None] by auto
    have l: "length pre < length conns"
      using arg_cong [OF j(1), of length] by simp
    then have jl: "j = length pre"
      using arg_cong [OF j(1), of "\<lambda>xs. xs ! length pre"] by simp
    moreover have "pre = [0..<length pre]"
      using arg_cong [OF j(1), of "take (length pre)"] l by simp
    ultimately have "pre = [0..<j]" "j < length conns"
      using l by simp_all
    then have "j = i"
      using i j(2,3) by (metis atLeastLessThan_iff linorder_neqE_nat set_upt zero_le)
    then show ?thesis
      using j(4) Some by (simp add: alloc_process_def)
  qed
  ultimately show ?thesis
    by (simp add: alloc_process_def)
qed


text \<open>C14: A segment with the RST flag is never answered: no frame is sent, whether it belongs to a connection or
  not. If its checksum is right and it matches a connection, that connection is closed, whatever the
  sequence number of the segment is.\<close>
theorem reset_not_answered:
  assumes "tcp_process list_ops ev rx len data t = Some (st, t')" and "read_header data = Some h" and "hd_has h TCP_RST"
  shows "l_write (t_dev t') = l_write (t_dev t) \<and> (tcpv4_checksum (rx_src rx) (rx_dst rx) len data \<noteq> Some 0xFFFF \<or>
    (case first_index (matches rx h) (t_conns t) of None \<Rightarrow> True | Some k \<Rightarrow> m_state (t_conns t' ! k) = CLOSED))"
proof -
  have "l_write (t_dev t') = l_write (t_dev t)"
    using assms(1)
  proof (cases rule: tcp_process_cases)
    case (matched h' k e t0 t1)
    then have "process_conn list_ops ev h len data (t_conns t ! k) t0 = Some (st, e, t1)"
      using assms(2) by simp
    then show ?thesis
      using assms(3) matched(4,6) by (auto simp: process_conn_def Let_def Some_eq_bind notify_def set_conn_def t_unlisten_def
          on_net_def list_ops_def)
  next
    case (reset h' t0)
    have "l_write (n_dev n') = l_write (n_dev n)" if "ip_prepare list_ops n = Some (ret, p, n')" for ret p n n'
      using that by (auto simp: ip_prepare_def eth_prepare_def list_ops_def list_prepare_def packet_allocate_def eth_setType_def
          Let_def Some_eq_bind split: if_splits)
    then show ?thesis
      using reset(1,4,5) assms(2,3) by (auto simp: tcp_reset_def Let_def Some_eq_bind address_peer_def on_net_def eth_setDest_def
          ip_setDest_def ip_setProtocol_def split: if_splits)
  next
    case (accepted h' k t0)
    have "hd_flags h AND TCP_RST = (hd_flags h AND TCP_CTL) AND TCP_RST"
      by (simp add: and.assoc)
    then show ?thesis
      using accepted(1,3) assms(2,3) by simp
  qed simp
  moreover have "m_state (t_conns t' ! k) = CLOSED"
    if "tcpv4_checksum (rx_src rx) (rx_dst rx) len data = Some 0xFFFF" "first_index (matches rx h) (t_conns t) = Some k" for k
    using assms that first_index_Some [OF that(2)]
    by (auto simp: tcp_process_def Let_def process_conn_def Some_eq_bind set_conn_def notify_def)
  ultimately show ?thesis
    by (auto split: option.split)
qed

theorem reset_not_answered_witness:
  "\<exists>st t'. tcp_process list_ops (client_events default_delegate) sample_rx 20 (sample_segment TCP_RST) sample_tcp = Some (st, t') \<and>
     l_write (t_dev t') = []"
proof -
  let ?t = "on_stats (\<lambda>s. s\<lparr>st_recv := st_recv s + 1\<rparr>) sample_tcp"
  have "map_option (\<lambda>(st, t). st) (tcp_reset list_ops sample_rx (sample_header TCP_RST) ?t) = Some Ok"
    by code_simp
  moreover have "first_index (matches sample_rx (sample_header TCP_RST)) (t_conns ?t) = None"
    "hd_flags (sample_header TCP_RST) AND TCP_CTL \<noteq> TCP_SYN"
    by code_simp+
  moreover have "tcpv4_checksum (rx_src sample_rx) (rx_dst sample_rx) 20 (sample_segment TCP_RST) = Some 0xFFFF"
    using tcp_image_verifies [of "[]" "ip4_make 10 1 0 2" "ip4_make 10 1 0 1" "sample_header TCP_RST"]
    by (simp add: sample_rx_def sample_segment_def)
  ultimately obtain st t' where
    s: "tcp_process list_ops (client_events default_delegate) sample_rx 20 (sample_segment TCP_RST) sample_tcp = Some (st, t')"
    by (auto simp: tcp_process_def sample_segment_header Let_def)
  have "l_write (t_dev t') = l_write (t_dev sample_tcp)"
    by (rule reset_not_answered [OF s sample_segment_header, THEN conjunct1]) (simp add: sample_header_def)
  then show ?thesis
    using s by (intro exI [of _ st] exI [of _ t'] conjI) (simp_all add: sample_tcp_def sample_link_def)
qed

end
