(* ===== verification/TcpStream.thy ===== *)
theory TcpStream
  imports TcpDemux TcpAck
begin

text \<open>
  In-order delivery: what the application gets on an established connection is the stream of bytes
  the peer sent, from the point reached, without loss, repetition or reordering, whatever happens to
  the segments on the way. The deliveries are observed by an instrumented application that records
  the bytes of every callback with new data, for each connection, and is otherwise arbitrary.
\<close>

section \<open>The recording application\<close>

definition taped :: "'h handler_ops \<Rightarrow> ('h \<times> (u16 \<Rightarrow> u8 list)) handler_ops" where
  "taped ev = \<lparr>
     h_connected = (\<lambda>e (h, tape). map_option (\<lambda>(opts, c, h). (opts, c, h, tape)) (h_connected ev e h)),
     h_aborted = (\<lambda>e (h, tape). map_option (\<lambda>(opts, c, h). (opts, c, h, tape)) (h_aborted ev e h)),
     h_timedout = (\<lambda>e (h, tape). map_option (\<lambda>(opts, c, h). (opts, c, h, tape)) (h_timedout ev e h)),
     h_closed = (\<lambda>e (h, tape). map_option (\<lambda>(opts, c, h). (opts, c, h, tape)) (h_closed ev e h)),
     h_acked = (\<lambda>e (h, tape). map_option (\<lambda>(a, opts, c, h). (a, opts, c, h, tape)) (h_acked ev e h)),
     h_acked_send = (\<lambda>e alen (h, tape).
       map_option (\<lambda>(a, out, n, opts, c, h). (a, out, n, opts, c, h, tape)) (h_acked_send ev e alen h)),
     h_newdata = (\<lambda>e bs (h, tape).
       map_option (\<lambda>(a, opts, c, h). (a, opts, c, h, tape(m_id e := tape (m_id e) @ bs))) (h_newdata ev e bs h)),
     h_newdata_send = (\<lambda>e bs alen (h, tape).
       map_option (\<lambda>(a, out, n, opts, c, h). (a, out, n, opts, c, h, tape(m_id e := tape (m_id e) @ bs)))
         (h_newdata_send ev e bs alen h))\<rparr>"

definition tape :: "('d, 'h \<times> (u16 \<Rightarrow> u8 list)) tcp \<Rightarrow> u16 \<Rightarrow> u8 list" where
  "tape t = snd (t_handler t)"

text \<open>The callbacks for one connection leave the tapes of the others alone.\<close>

interpretation other_tapes: app_frame "taped ev" "\<lambda>i h. \<forall>c. c \<noteq> i \<longrightarrow> snd h c = T c" for ev T
  by unfold_locales (auto simp: taped_def)

lemma notify_tape:
  "notify (h_connected (taped ev)) e t = Some (e', t') \<Longrightarrow> tape t' = tape t"
  "notify (h_aborted (taped ev)) e t = Some (e', t') \<Longrightarrow> tape t' = tape t"
  "notify (h_timedout (taped ev)) e t = Some (e', t') \<Longrightarrow> tape t' = tape t"
  "notify (h_closed (taped ev)) e t = Some (e', t') \<Longrightarrow> tape t' = tape t"
  by (auto simp: notify_def Some_eq_bind taped_def tape_def split: prod.splits)

lemma acked_tape:
  "ask (h_acked (taped ev)) e t = Some (a, e', t') \<Longrightarrow> tape t' = tape t \<and> m_rcv_nxt e' = m_rcv_nxt e \<and>
     m_newdata e' = m_newdata e \<and> m_id e' = m_id e \<and> m_segments e' = m_segments e"
  "ask_send (\<lambda>e. h_acked_send (taped ev) e alen) e t = Some (a, n, e', t') \<Longrightarrow> tape t' = tape t \<and>
     m_rcv_nxt e' = m_rcv_nxt e \<and> m_newdata e' = m_newdata e \<and> m_id e' = m_id e \<and> m_segments e' = m_segments e"
  by (auto simp: ask_def ask_send_def Some_eq_bind taped_def tape_def split: prod.splits)

lemma newdata_tape:
  "ask (\<lambda>e. h_newdata (taped ev) e bs) e t = Some (a, e', t') \<Longrightarrow>
     tape t' = (tape t)(m_id e := tape t (m_id e) @ bs) \<and> m_rcv_nxt e' = m_rcv_nxt e"
  "ask_send (\<lambda>e. h_newdata_send (taped ev) e bs alen) e t = Some (a, n, e', t') \<Longrightarrow>
     tape t' = (tape t)(m_id e := tape t (m_id e) @ bs) \<and> m_rcv_nxt e' = m_rcv_nxt e"
  by (auto simp: ask_def ask_send_def Some_eq_bind taped_def tape_def split: prod.splits)

lemma tcore_tape: "tcore t' = tcore t \<Longrightarrow> tape t' = tape t"
  using tcore_sel(2) [of t' t] by (simp add: tape_def)

section \<open>A segment on an established connection\<close>

text \<open>If the connection stays established, it expects \<open>n\<close> next and the tapes are \<open>T\<close>.\<close>

definition reads :: "(u16 \<Rightarrow> u8 list) \<Rightarrow> u32 \<Rightarrow> status \<times> conn \<times> ('d, 'h \<times> (u16 \<Rightarrow> u8 list)) tcp \<Rightarrow> bool" where
  "reads T n = (\<lambda>(st, e', t'). m_state e' = ESTABLISHED \<longrightarrow> m_rcv_nxt e' = n \<and> tape t' = T)"

lemma reads_Some [simp]: "reads T n (st, e', t') \<longleftrightarrow> (m_state e' = ESTABLISHED \<longrightarrow> m_rcv_nxt e' = n \<and> tape t' = T)"
  by (simp add: reads_def)

lemma tx_reads: "tx e t r \<Longrightarrow> m_rcv_nxt e = n \<Longrightarrow> tape t = T \<Longrightarrow> reads T n r"
  by (cases r) (auto dest: core_sel tcore_tape)

lemma sendAbort_reads: "sendAbort ops e t = Some r \<Longrightarrow> reads T n r"
  by (cases r) (auto dest!: sendAbort_tx core_sel(1))

lemma sendClose_reads: "sendClose ops e t = Some r \<Longrightarrow> hasAvailableSegments e \<Longrightarrow> reads T n r"
  by (cases r) (auto dest!: sendClose_tx core_sel(1))

lemma sendClose_reads_same: "sendClose ops e t = Some r \<Longrightarrow> m_rcv_nxt e = n \<Longrightarrow> tape t = T \<Longrightarrow> reads T n r"
  by (drule sendClose_tx) (auto intro: tx_reads split: if_splits)

lemma flush_reads: "established_flush ops can e t = Some r \<Longrightarrow> m_rcv_nxt e = n \<Longrightarrow> tape t = T \<Longrightarrow> reads T n r"
  by (auto simp: established_flush_def split: if_splits intro: tx_reads dest: sendNoDelay_tx sendAck_tx)

lemma obey_reads:
  assumes "obey ops a e t k = Some r" and "hasAvailableSegments e \<or> m_rcv_nxt e = n \<and> tape t = T"
    and "\<And>r. k e t = Some r \<Longrightarrow> reads T n r"
  shows "reads T n r"
  using assms by (cases a) (auto simp: obey_def intro: sendAbort_reads sendClose_reads sendClose_reads_same)

lemma offer_reads:
  assumes "offer ops f e t k = Some r"
    and f: "\<And>alen a rlen e' t'. ask_send (f alen) e t = Some (a, rlen, e', t') \<Longrightarrow>
        (hasAvailableSegments e' \<or> m_rcv_nxt e' = n \<and> tape t' = T) \<and>
        (\<forall>l r. k (e'\<lparr>m_slen := l\<rparr>) t' = Some r \<longrightarrow> reads T n r)"
  shows "reads T n r"
proof -
  obtain a rlen e1 t1 where 1: "ask_send (f (send_bound e t - ucast (m_slen e))) e t = Some (a, rlen, e1, t1)"
    and r: "obey ops a e1 t1 (\<lambda>e' t'. let r = if rlen > send_bound e t - ucast (m_slen e) then send_bound e t - ucast (m_slen e) else rlen
        in k (e'\<lparr>m_slen := m_slen e' + ucast r\<rparr>) t') = Some r"
    using assms(1) by (auto simp: offer_def Let_def Some_eq_bind)
  note f = f [OF 1]
  show ?thesis
    by (rule obey_reads [OF r f [THEN conjunct1]]) (use f in \<open>auto simp only: Let_def\<close>)
qed

lemma ask_obey_reads:
  assumes "ask f e t \<bind> (\<lambda>(a, e, t). obey ops a e t k) = Some r"
    and f: "\<And>a e' t'. ask f e t = Some (a, e', t') \<Longrightarrow> (hasAvailableSegments e' \<or> m_rcv_nxt e' = n \<and> tape t' = T) \<and>
        (\<forall>r. k e' t' = Some r \<longrightarrow> reads T n r)"
  shows "reads T n r"
proof -
  obtain a e1 t1 where 1: "ask f e t = Some (a, e1, t1)" "obey ops a e1 t1 k = Some r"
    using assms(1) by (auto simp: Some_eq_bind)
  show ?thesis
    by (rule obey_reads [OF 1(2)]) (use f [OF 1(1)] in auto)
qed

text \<open>
  A device that answers Ok whenever it answers. This matters: the next expected sequence number is advanced before the
  acknowledgement is sent, and if sending it fails the data is not delivered.
\<close>

locale accepting =
  fixes ops :: "'d device_ops"
  assumes prepare_accepts: "d_prepare ops m d = Some (st, p, m', d') \<Longrightarrow> st = Ok"
    and commit_accepts: "d_commit ops len p tso m d = Some (st, m', d') \<Longrightarrow> st = Ok"

interpretation list_accepts: accepting list_ops
  by unfold_locales (auto simp: list_ops_def list_prepare_def list_commit_def packet_allocate_def Some_eq_bind)

context accepting
begin

lemma ip_prepare_accepts: "ip_prepare ops n = Some (st, p, n') \<Longrightarrow> st = Ok"
  by (auto simp: ip_prepare_def eth_prepare_def Let_def Some_eq_bind split: if_splits dest: prepare_accepts)

lemma ip_commit_accepts: "ip_commit ops len p mss n = Some (st, n') \<Longrightarrow> st = Ok"
  by (auto simp: ip_commit_def eth_commit_def Let_def Some_eq_bind split: if_splits dest: commit_accepts)

lemma send_ctl_accepts: "send_ctl ops e t = Some (st, r) \<Longrightarrow> st = Ok"
  by (auto simp: send_ctl_def send_raw_def next_buffer_def Some_eq_bind Let_def split: if_splits
      dest!: ip_prepare_accepts ip_commit_accepts)

lemma sendAck_accepts: "sendAck ops e t = Some (st, r) \<Longrightarrow> st = Ok"
  by (auto simp: sendAck_def Some_eq_bind split: if_splits dest!: send_ctl_accepts ip_prepare_accepts prepare_accepts)

lemma established_newdata_reads:
  assumes "established_newdata ops (taped ev) bs can e t (established_flush ops can) = Some r"
  shows "reads ((tape t)(m_id e := tape t (m_id e) @ bs)) (m_rcv_nxt e) r"
proof -
  obtain res e1 t1 where 1: "(if \<not> has_delayed_ack e then sendAck ops e t else Some (Ok, e, t)) = Some (res, e1, t1)"
    and r: "(if res \<noteq> Ok then Some (res, e1, t1)
      else if can then offer ops (\<lambda>alen e. h_newdata_send (taped ev) e bs alen) e1 t1 (established_flush ops can)
      else ask (\<lambda>e. h_newdata (taped ev) e bs) e1 t1 \<bind> (\<lambda>(a, e, t). obey ops a e t (established_flush ops can))) = Some r"
    using assms(1) by (simp only: established_newdata_def Some_eq_bind prod.case) auto
  have "res = Ok"
    using 1 by (auto split: if_splits dest: sendAck_accepts)
  moreover have "core e1 = core e \<and> tcore t1 = tcore t"
    using 1 by (auto split: if_splits dest!: sendAck_tx)
  ultimately have res: "res = Ok" "core e1 = core e" "tape t1 = tape t"
    by (auto dest: tcore_tape)
  then have s: "m_rcv_nxt e1 = m_rcv_nxt e" "m_id e1 = m_id e"
    using core_sel(2,14) [of e1 e] by simp_all
  show ?thesis
  proof (cases can)
    case True
    then have "offer ops (\<lambda>alen e. h_newdata_send (taped ev) e bs alen) e1 t1 (established_flush ops can) = Some r"
      using r res by simp
    then show ?thesis
      by (rule offer_reads) (auto dest!: newdata_tape(2) simp: res s simp del: reads_Some split_paired_All intro: flush_reads)
  next
    case False
    then have "ask (\<lambda>e. h_newdata (taped ev) e bs) e1 t1 \<bind> (\<lambda>(a, e, t). obey ops a e t (established_flush ops can)) = Some r"
      using r res by simp
    then show ?thesis
      by (rule ask_obey_reads) (auto dest!: newdata_tape(1) simp: res s simp del: reads_Some split_paired_All intro: flush_reads)
  qed
qed

lemma available_segments: "m_segments e' = m_segments e \<Longrightarrow> hasAvailableSegments e' = hasAvailableSegments e"
  by (simp add: hasAvailableSegments_def)

lemma est_rest_reads:
  assumes "est_rest ops (taped ev) data off n can e t = Some r"
  shows "if m_newdata e then \<exists>bs. payload data off n = Some bs \<and>
      reads ((tape t)(m_id e := tape t (m_id e) @ bs)) (m_rcv_nxt e) r
    else reads (tape t) (m_rcv_nxt e) r"
  using assms by (auto simp: est_rest_def Some_eq_bind split: if_splits intro: established_newdata_reads flush_reads)

lemma established_acked_reads:
  assumes "established_acked ops (taped ev) e t k = Some r" and seg: "m_ackdata e \<Longrightarrow> hasAvailableSegments e"
    and k: "\<And>can e' t' r. m_rcv_nxt e' = m_rcv_nxt e \<Longrightarrow> m_newdata e' = m_newdata e \<Longrightarrow> m_id e' = m_id e \<Longrightarrow>
        tape t' = tape t \<Longrightarrow> k can e' t' = Some r \<Longrightarrow> reads T n r"
  shows "reads T n r"
proof (cases "m_ackdata e")
  case True
  show ?thesis
  proof (cases "can_send e")
    case c: True
    have "offer ops (\<lambda>alen e. h_acked_send (taped ev) e alen) e t (\<lambda>e t. k (can_send e) e t) = Some r"
      using assms(1) True c by (simp add: established_acked_def)
    then show ?thesis
    proof (rule offer_reads)
      fix alen a rlen e' t' assume "ask_send (\<lambda>e. h_acked_send (taped ev) e alen) e t = Some (a, rlen, e', t')"
      note s = acked_tape(2) [OF this]
      have "reads T n r'" if "k (can_send (e'\<lparr>m_slen := l\<rparr>)) (e'\<lparr>m_slen := l\<rparr>) t' = Some r'" for l r'
        by (rule k [OF _ _ _ _ that]) (use s in simp_all)
      then show "(hasAvailableSegments e' \<or> m_rcv_nxt e' = n \<and> tape t' = T) \<and>
          (\<forall>l r. k (can_send (e'\<lparr>m_slen := l\<rparr>)) (e'\<lparr>m_slen := l\<rparr>) t' = Some r \<longrightarrow> reads T n r)"
        using seg [OF True] s available_segments [of e' e] by blast
    qed
  next
    case False
    have "ask (h_acked (taped ev)) e t \<bind> (\<lambda>(a, e, t). obey ops a e t (k False)) = Some r"
      using assms(1) True False by (simp add: established_acked_def)
    then show ?thesis
    proof (rule ask_obey_reads)
      fix a e' t' assume "ask (h_acked (taped ev)) e t = Some (a, e', t')"
      note s = acked_tape(1) [OF this]
      have "reads T n r'" if "k False e' t' = Some r'" for r'
        by (rule k [OF _ _ _ _ that]) (use s in simp_all)
      then show "(hasAvailableSegments e' \<or> m_rcv_nxt e' = n \<and> tape t' = T) \<and> (\<forall>r. k False e' t' = Some r \<longrightarrow> reads T n r)"
        using seg [OF True] s available_segments [of e' e] by blast
    qed
  qed
qed (use assms in \<open>auto simp: established_acked_def\<close>)

text \<open>An acknowledgement that frees a segment leaves one available.\<close>

lemma pop_available: "length (m_segments e) = 16 \<Longrightarrow> hasAvailableSegments (pop_segment e)"
proof -
  assume l: "length (m_segments e) = 16"
  have "segment_clear (segment_cur e) \<in> set (m_segments (pop_segment e))"
    using l unat_lt4 [of "m_segidx e"] by (simp add: pop_segment_def upd_seg_def set_update_memI)
  then show ?thesis
    by (auto simp: hasAvailableSegments_def list_ex_iff segment_clear_def intro!: bexI [of _ "segment_clear (segment_cur e)"])
qed

lemma ack_scan_available:
  "ack_scan n ackno wnd e = (a, e') \<Longrightarrow> length (m_segments e) = 16 \<Longrightarrow> (m_ackdata e \<longrightarrow> hasAvailableSegments e) \<Longrightarrow>
   m_ackdata e' \<longrightarrow> hasAvailableSegments e'"
proof (induction n arbitrary: e)
  case (Suc n)
  let ?e = "pop_segment (if \<not> m_ackdata e then first_ack e else e)"
  have l: "length (m_segments ?e) = 16"
    using Suc.prems(2) by (simp add: pop_segment_def upd_seg_def)
  have pop: "hasAvailableSegments ?e"
    by (rule pop_available) (use Suc.prems(2) in simp)
  show ?case
    using Suc.prems(1,3) Suc.IH [OF _ l] pop unfolding ack_scan_Suc Let_def
    by (auto simp: hasAvailableSegments_def split: if_splits)
qed simp

lemma established_fin_reads:
  assumes "established_fin ops ev h data plen e t = Some r"
  shows "reads (tape t) (m_rcv_nxt e) r"
proof (cases "hasOutstandingSegments e")
  case False
  then have "moves {LAST_ACK} t r"
    using assms by (cases r) (auto simp: established_fin_def Let_def Some_eq_bind split: if_splits
      dest!: app_dest claim_segment_state sendFinAck_moves [where S = "{LAST_ACK}"])
  then show ?thesis
    by (cases r) auto
qed (use assms in \<open>auto simp: established_fin_def\<close>)

lemma in_established_reads:
  assumes r: "in_established ops (taped ev) h data plen e t = Some r" and urg: "\<not> hd_has h TCP_URG"
    and e: "\<not> m_newdata e" "m_ackdata e \<longrightarrow> hasAvailableSegments e"
  shows "reads (tape t) (m_rcv_nxt e) r \<or> (plen > 0 \<and> (\<exists>bs. payload data (unat (hd_len h)) plen = Some bs \<and>
    reads ((tape t)(m_id e := tape t (m_id e) @ bs)) (m_rcv_nxt e + ucast plen) r))"
proof (cases "hd_has h TCP_FIN")
  case True
  then show ?thesis
    using r by (simp add: in_established_split established_fin_reads)
next
  case False
  let ?s = "est_start h plen e"
  have u: "est_urg h = 0"
    using urg by (simp add: est_urg_def)
  have s: "m_newdata ?s \<longleftrightarrow> plen > 0" "m_rcv_nxt ?s = m_rcv_nxt e + ucast plen" "m_id ?s = m_id e"
      "m_ackdata ?s = m_ackdata e" "m_segments ?s = m_segments e"
    using e u by (auto simp: est_start_def peer_window_def flag_data_def Let_def word_gt_0)
  show ?thesis
  proof (cases "m_ackdata ?s \<or> m_newdata ?s")
    case True
    have a: "established_acked ops (taped ev) ?s t (est_rest ops (taped ev) data (unat (hd_len h)) plen) = Some r"
      using r False True u by (simp add: in_established_split)
    have av: "m_ackdata ?s \<Longrightarrow> hasAvailableSegments ?s"
      using e s available_segments [of ?s e] by simp
    show ?thesis
    proof (cases "plen > 0 \<and> payload data (unat (hd_len h)) plen \<noteq> None")
      case True
      then obtain bs where bs: "payload data (unat (hd_len h)) plen = Some bs"
        by blast
      have "reads ((tape t)(m_id e := tape t (m_id e) @ bs)) (m_rcv_nxt e + ucast plen) r"
        by (rule established_acked_reads [OF a av]) (use True bs s in \<open>auto dest!: est_rest_reads\<close>)
      then show ?thesis
        using True bs by blast
    next
      case False
      have "reads (tape t) (m_rcv_nxt e) r"
        by (rule established_acked_reads [OF a av]) (use False s in \<open>auto simp: word_gt_0 dest!: est_rest_reads split: if_splits\<close>)
      then show ?thesis ..
    qed
  next
    case idle: False
    have "plen = 0"
      using idle s(1) by (simp add: word_gt_0)
    moreover have "r = (Ok, ?s, t)"
      using r False idle u by (simp only: in_established_split if_False) simp
    ultimately show ?thesis
      using s(2) by simp
  qed
qed

text \<open>One segment: either nothing is read, or the segment starts at the byte expected next and its data is
  delivered and counted.\<close>

lemma process_conn_reads:
  assumes r: "process_conn ops (taped ev) h len data e t = Some r" and st: "m_state e = ESTABLISHED"
    and seg: "length (m_segments e) = 16" and urg: "\<not> hd_has h TCP_URG"
  shows "reads (tape t) (m_rcv_nxt e) r \<or> (\<exists>bs. hd_seq h = m_rcv_nxt e \<and> payload data (unat (hd_len h)) (len - hd_len h) = Some bs \<and>
    reads ((tape t)(m_id e := tape t (m_id e) @ bs)) (m_rcv_nxt e + ucast (len - hd_len h)) r)"
proof (cases "hd_has h TCP_RST")
  case True
  then show ?thesis
    using r by (cases r) (auto simp: process_conn_def Let_def Some_eq_bind notify_def app_view_def)
next
  case False
  let ?e = "clear_data_state e" and ?plen = "len - hd_len h"
  have e: "m_rcv_nxt ?e = m_rcv_nxt e" "m_id ?e = m_id e" "m_segments ?e = m_segments e" "\<not> m_ackdata ?e" "\<not> m_newdata ?e"
      "m_state ?e = ESTABLISHED"
    using st by (simp_all add: clear_data_state_def)
  note p = r [unfolded process_conn_def Let_def, simplified False if_False]
  have state: ?thesis
    if s: "process_state ops (taped ev) h data ?plen e1 t1 = Some r" and t1: "tape t1 = tape t" and
      e1: "m_rcv_nxt e1 = m_rcv_nxt e" "m_id e1 = m_id e" "\<not> m_newdata e1" "m_state e1 = ESTABLISHED"
        "m_ackdata e1 \<longrightarrow> hasAvailableSegments e1"
      and seq: "\<not> out_of_sequence h ?plen ?e" for e1 t1
  proof -
    have i: "in_established ops (taped ev) h data ?plen e1 t1 = Some r"
      using s e1(4) by (simp add: process_state_def)
    show ?thesis
      using in_established_reads [OF i urg e1(3,5)] seq e(1,6) e1(1,2) t1 by (auto simp: out_of_sequence_def)
  qed
  show ?thesis
  proof (cases "out_of_sequence h ?plen ?e")
    case True
    then show ?thesis
      using p e by (auto intro: tx_reads dest: sendAck_tx)
  next
    case seq: False
    show ?thesis
    proof (cases "hd_has h TCP_ACK \<and> hasOutstandingSegments ?e")
      case True
      obtain a e' where a: "ack_scan SEGMENT_COUNT (hd_ack h) (hd_wnd h) ?e = (a, e')"
        by fastforce
      have p': "(case (a, e') of (AckRexmit, e) \<Rightarrow> rexmit ops e t
          | (AckPartial, e) \<Rightarrow> process_state ops (taped ev) h data ?plen e (count_ackerr t)
          | (AckDone, e) \<Rightarrow> process_state ops (taped ev) h data ?plen e t) = Some r"
        using p True seq a by simp
      have e': "m_rcv_nxt e' = m_rcv_nxt e" "m_newdata e' = m_newdata ?e" "m_state e' = m_state ?e" "m_id e' = m_id e"
        using ack_scan_keeps [OF a] ack_scan_ident [OF a] e by (auto simp: ident_eq)
      have av: "m_ackdata e' \<longrightarrow> hasAvailableSegments e'"
        by (rule ack_scan_available [OF a]) (use e seg in simp_all)
      show ?thesis
      proof (cases a)
        case AckRexmit
        then have "rexmit ops e' t = Some r"
          using p' by simp
        then show ?thesis
          using e' by (intro disjI1) (drule rexmit_tx, erule tx_reads, simp_all)
      next
        case AckPartial
        have "tape (count_ackerr t) = tape t"
          by (simp add: count_ackerr_def on_stats_def tape_def)
        then show ?thesis
          using p' AckPartial e' e av seq by (intro state [of e' "count_ackerr t"]) simp_all
      next
        case AckDone
        then show ?thesis
          using p' e' e av seq by (intro state [of e' t]) simp_all
      qed
    next
      case False
      then show ?thesis
        using p seq e by (intro state [of ?e t]) (auto split: if_splits)
    qed
  qed
qed

end

section \<open>The other events\<close>

text \<open>What delivers nothing: the tapes stay, and a connection that is still established expects the same byte.\<close>

definition quiet :: "nat \<Rightarrow> ('d, 'h \<times> (u16 \<Rightarrow> u8 list)) tcp \<Rightarrow> ('d, 'h \<times> (u16 \<Rightarrow> u8 list)) tcp \<Rightarrow> bool" where
  "quiet k t t' \<longleftrightarrow> tape t' = tape t \<and>
     (m_state (t_conns t' ! k) = ESTABLISHED \<longrightarrow> m_rcv_nxt (t_conns t' ! k) = m_rcv_nxt (t_conns t ! k))"

lemma quiet_same: "t_conns t' = t_conns t \<Longrightarrow> t_handler t' = t_handler t \<Longrightarrow> quiet k t t'"
  by (simp add: quiet_def tape_def)

lemma quiet_set:
  assumes "tape t1 = tape t" and "t_conns t1 = t_conns t"
    and "i = k \<Longrightarrow> m_state e = ESTABLISHED \<Longrightarrow> m_rcv_nxt e = m_rcv_nxt (t_conns t ! k)"
  shows "quiet k t (set_conn i e t1)"
  using assms by (cases "i = k"; cases "k < length (t_conns t)") (auto simp: quiet_def set_conn_def tape_def list_update_beyond)

lemma set_conn_tape [simp]: "tape (set_conn i e t) = tape t" "tape (t_unlisten ops port t) = tape t"
    "tape (on_net f t) = tape t" "tape (t\<lparr>t_net := n\<rparr>) = tape t" "tape (address_peer hw ip t) = tape t"
    "tape (on_stats g t) = tape t"
  by (simp_all add: tape_def set_conn_def t_unlisten_def on_net_def address_peer_def on_stats_def)

lemma run_conn_quiet:
  assumes "run_conn ops (taped ev) e t = Some (r, e', t')"
  shows "tape t' = tape t \<and> (m_state e' = ESTABLISHED \<longrightarrow> m_rcv_nxt e' = m_rcv_nxt e)"
proof (cases "m_state e = CLOSED")
  case False
  obtain b e1 t1 where w: "run_waiting ops e t = (b, e1, t1)"
    by (metis prod_cases3)
  have s: "tape t1 = tape t" "m_rcv_nxt e1 = m_rcv_nxt e"
    using run_waiting_sel [OF w] by (simp_all add: tape_def)
  show ?thesis
    using assms w False
  proof (cases rule: run_conn_cases)
    case (giving_up e2 t2 st)
    then show ?thesis
      using s notify_tape(3) [OF giving_up(6)] sendAbort_tx [OF giving_up(7)] core_sel(1) [of e' "e2\<lparr>m_state := CLOSED\<rparr>"]
        tcore_tape [of t' t2] by simp
  next
    case (again st)
    then show ?thesis
      using s rexmit_tx [OF again(6)] core_sel(2) [of e' "backoff (e1\<lparr>m_timer := m_timer e1 - 1\<rparr>)"] tcore_tape [of t' t1]
      by (simp add: backoff_def)
  qed (use s in simp_all)
qed (use assms in \<open>simp add: run_conn_def\<close>)

lemma run_scan_quiet:
  assumes "run_scan ops (taped ev) is t = Some (st, t')" and "distinct is"
  shows "quiet k t t'"
  using assms
proof (induction "is" arbitrary: t)
  case (Cons i "is")
  obtain r e t1 where r: "run_conn ops (taped ev) (t_conns t ! i) t = Some (r, e, t1)"
    and n: "(case r of None \<Rightarrow> run_scan ops (taped ev) is (set_conn i e t1) | Some st \<Rightarrow> Some (st, set_conn i e t1)) = Some (st, t')"
    using Cons.prems by (auto simp: Some_eq_bind Let_def)
  have t1: "t_conns t1 = t_conns t"
    using any_app.run_conn_id [OF r] by (simp add: kept_def)
  have one: "quiet k t (set_conn i e t1)"
    by (rule quiet_set) (use run_conn_quiet [OF r] t1 in auto)
  show ?case
  proof (cases r)
    case None
    then have s: "run_scan ops (taped ev) is (set_conn i e t1) = Some (st, t')"
      using n by simp
    note IH = Cons.IH [OF s]
    have same: "t_conns t' ! k = t_conns (set_conn i e t1) ! k" if "i = k" "k < length (t_conns t)"
      using run_scan_steps [OF s] Cons.prems(2) that t1 by (simp add: set_conn_def)
    have len: "length (t_conns t') = length (t_conns t)"
      using run_scan_steps [OF s] Cons.prems(2) t1 by (simp add: set_conn_def)
    show ?thesis
    proof (cases "i = k \<and> k < length (t_conns t)")
      case True
      then show ?thesis
        using IH Cons.prems(2) one same by (simp add: quiet_def)
    next
      case False
      then have "t_conns (set_conn i e t1) ! k = t_conns t ! k"
        using t1 by (cases "i = k") (auto simp: set_conn_def list_update_beyond)
      then show ?thesis
        using IH Cons.prems(2) one by (simp add: quiet_def)
    qed
  qed (use n one in simp)
qed (simp add: quiet_def)

lemma tcp_connect_quiet:
  assumes "tcp_connect ops hw ip rport readings t = Some (st, cid, t')" and "m_state (t_conns t ! k) = ESTABLISHED"
  shows "quiet k t t'"
proof (cases "t_conns t' = t_conns t")
  case False
  then obtain j e where j: "t_conns t' = (t_conns t)[j := e]" "alloc_connect (t_conns t) [0..<length (t_conns t)] None = Some j"
    using tcp_connect_one [OF assms(1)] by blast
  have "j \<noteq> k"
    using alloc_connect_Some [OF j(2)] assms(2) by auto
  then show ?thesis
    using tcp_connect_one [OF assms(1)] j(1) by (simp add: quiet_def tape_def)
qed (use tcp_connect_one [OF assms(1)] in \<open>simp add: quiet_same\<close>)

lemma tcp_abort_quiet:
  assumes "tcp_abort ops (taped ev) cid t = Some (st, t')"
  shows "quiet k t t'"
proof (cases "length (t_conns t) \<le> unat cid")
  case False
  let ?c = "t_conns t ! unat cid"
  obtain c1 t1 t2 c2 t3 where s: "notify (h_aborted (taped ev)) (?c\<lparr>m_state := CLOSED\<rparr>) (t_unlisten ops (m_lport ?c) t) = Some (c1, t1)"
      "set_flags (m_sdat c1) 0 t1 = Some t2" "sendAbort ops c1 t2 = Some (st, c2, t3)" "t' = set_conn (unat cid) c2 t3"
    using assms False by (auto simp: tcp_abort_def Let_def Some_eq_bind)
  have 3: "core c2 = core (c1\<lparr>m_state := CLOSED\<rparr>)" "tcore t3 = tcore t2"
    using sendAbort_tx [OF s(3)] by simp_all
  have "tape t3 = tape t" "t_conns t3 = t_conns t"
    using notify_tape(2) [OF s(1)] notify_state [OF s(1)] tcore_tape [OF flags_core(1) [OF s(2)]] tst_conns(4) [OF s(2)]
      tcore_tape [OF 3(2)] tcore_sel(1) [OF 3(2)] by simp_all
  then show ?thesis
    unfolding s(4) by (rule quiet_set) (use core_sel(1) [OF 3(1)] in simp)
qed (use assms in \<open>simp add: tcp_abort_def quiet_same\<close>)

lemma tcp_close_quiet:
  assumes "tcp_close ops cid t = Some (st, t')"
  shows "quiet k t t'"
proof (cases "unat cid < length (t_conns t) \<and> m_state (t_conns t ! unat cid) = ESTABLISHED")
  case True
  let ?c = "t_conns t ! unat cid"
  show ?thesis
  proof (cases "hasOutstandingSegments ?c")
    case out: True
    then have "t' = set_conn (unat cid) (?c\<lparr>m_state := CLOSE\<rparr>) t"
      using assms True by (auto simp: tcp_close_def Let_def)
    then show ?thesis
      by (simp only:) (rule quiet_set, simp_all)
  next
    case False
    then obtain t1 c2 t2 where s: "set_flags (m_sdat ?c) 0 t = Some t1" "sendClose ops ?c t1 = Some (st, c2, t2)"
        "t' = set_conn (unat cid) c2 t2"
      using assms True by (auto simp: tcp_close_def Let_def Some_eq_bind)
    have "tcore t2 = tcore t1" "m_rcv_nxt c2 = m_rcv_nxt ?c"
      using sendClose_tx [OF s(2)] core_sel(2) [of c2 "?c\<lparr>m_state := FIN_WAIT_1\<rparr>"] core_sel(2) [of c2 ?c]
      by (auto split: if_splits)
    then have "tape t2 = tape t" "t_conns t2 = t_conns t" "m_rcv_nxt c2 = m_rcv_nxt ?c"
      using tcore_tape [of t2 t1] tcore_tape [OF flags_core(1) [OF s(1)]] tcore_sel(1) [of t2 t1] tst_conns(4) [OF s(1)]
      by simp_all
    then show ?thesis
      unfolding s(3) by (intro quiet_set) auto
  qed
qed (use assms in \<open>auto simp: tcp_close_def Let_def quiet_same split: if_splits\<close>)

lemma tcp_send_quiet:
  assumes "tcp_send ops cid len data off t = Some (st, off', t')"
  shows "quiet k t t'"
proof (cases "t' = t")
  case False
  let ?c = "t_conns t ! unat cid"
  obtain bs c1 t1 c2 t2 st' where r: "send_copy ?c bs off (send_size ?c (send_bound ?c t) (len - off)) t = Some (off', c1, t1)"
      "t' = set_conn (unat cid) c2 t2" "tx c1 t1 (st', c2, t2)"
    using tcp_send_cases [OF assms False] by metis
  have "m_rcv_nxt c1 = m_rcv_nxt ?c" "t_conns t1 = t_conns t" "tape t1 = tape t"
    using r(1) by (auto simp: send_copy_def Some_eq_bind t_set_mem_def split: if_splits) (simp add: on_net_def)+
  then have "m_rcv_nxt c2 = m_rcv_nxt ?c" "t_conns t2 = t_conns t" "tape t2 = tape t"
    using r(3) core_sel(2) [of c2 c1] tcore_sel(1) [of t2 t1] tcore_tape [of t2 t1] by simp_all
  then show ?thesis
    unfolding r(2) by (intro quiet_set) auto
qed (simp add: quiet_same)

lemma tcp_run_quiet:
  assumes "tcp_run ops (taped ev) now now' t = Some (st, t')"
  shows "quiet k t t'"
proof (cases "timer_expired now (t_timer t)")
  case True
  then have "run_scan ops (taped ev) [0..<length (t_conns t)] (t\<lparr>t_timer := timer_reset now' (t_timer t), t_iss := t_iss t + 1\<rparr>) = Some (st, t')"
    using assms by (simp add: tcp_run_def)
  from run_scan_quiet [OF this, of k] show ?thesis
    by (simp add: quiet_def tape_def)
qed (use assms in \<open>simp add: tcp_run_def quiet_same\<close>)

section \<open>Any sequence of events\<close>

text \<open>\<open>carries S irs c x\<close>: if the event \<open>x\<close> is a segment for the connection \<open>c\<close>, it has no urgent data and its
  payload is the part of the stream \<open>S\<close> its sequence number says, \<open>irs\<close> being that of the first byte.\<close>

fun carries :: "u8 list \<Rightarrow> u32 \<Rightarrow> conn \<Rightarrow> tcp_event \<Rightarrow> bool" where
  "carries S irs c (Segment rx len data) \<longleftrightarrow> (case read_header data of None \<Rightarrow> True | Some h \<Rightarrow>
     \<not> matches rx h c \<or>
     (let off = unat (hd_seq h - irs); plen = len - hd_len h
      in \<not> hd_has h TCP_URG \<and> (plen = 0 \<or>
         off + unat plen \<le> length S \<and> payload data (unat (hd_len h)) plen = Some (take (unat plen) (drop off S)))))"
| "carries S irs c _ \<longleftrightarrow> True"

text \<open>The connection \<open>k\<close> is established before and after every event.\<close>

fun stays_established :: "'d device_ops \<Rightarrow> 'h handler_ops \<Rightarrow> nat \<Rightarrow> tcp_event list \<Rightarrow> ('d, 'h) tcp \<Rightarrow> bool" where
  "stays_established ops ev k [] t \<longleftrightarrow> m_state (t_conns t ! k) = ESTABLISHED"
| "stays_established ops ev k (x # xs) t \<longleftrightarrow> m_state (t_conns t ! k) = ESTABLISHED \<and>
     (case tcp_handle ops ev x t of None \<Rightarrow> True | Some t \<Rightarrow> stays_established ops ev k xs t)"

text \<open>What one event does to the connection \<open>k\<close>, which is established before and after it.\<close>

definition advances :: "u8 list \<Rightarrow> nat \<Rightarrow> ('d, 'h \<times> (u16 \<Rightarrow> u8 list)) tcp \<Rightarrow> ('d, 'h \<times> (u16 \<Rightarrow> u8 list)) tcp \<Rightarrow> bool" where
  "advances bs k t t' \<longleftrightarrow> (let c = t_conns t ! k; c' = t_conns t' ! k
     in ident c' = ident c \<and> tape t' (m_id c) = tape t (m_id c) @ bs \<and> m_rcv_nxt c' = m_rcv_nxt c + of_nat (length bs))"

context accepting
begin

lemma segment_advances:
  assumes p: "tcp_process ops (taped ev) rx len data t = Some (st, t')"
    and k: "k < length (t_conns t)" and ids: "distinct (map m_id (t_conns t))"
    and est: "m_state (t_conns t ! k) = ESTABLISHED" "m_state (t_conns t' ! k) = ESTABLISHED"
    and seg: "length (m_segments (t_conns t ! k)) = 16"
    and c: "carries S irs (t_conns t ! k) (Segment rx len data)"
  shows "advances [] k t t' \<or> (\<exists>n. unat (m_rcv_nxt (t_conns t ! k) - irs) + n \<le> length S \<and>
    advances (take n (drop (unat (m_rcv_nxt (t_conns t ! k) - irs)) S)) k t t')"
proof -
  let ?c = "t_conns t ! k"
  have idle: "advances [] k t t'" if "t_conns t' ! k = ?c" "tape t' (m_id ?c) = tape t (m_id ?c)"
    using that by (simp add: advances_def Let_def)
  have tape0: "tape t0 = tape t" if "tcore t0 = tcore t" for t0 :: "('d, 'a \<times> (u16 \<Rightarrow> u8 list)) tcp"
    using tcore_tape [OF that] .
  from p show ?thesis
  proof (cases rule: tcp_process_cases)
    case dropped
    then show ?thesis
      using tcore_sel(1) [OF dropped(1)] tape0 [OF dropped(1)] by (intro disjI1 idle) simp_all
  next
    case (reset h t0)
    then show ?thesis
      using tcore_sel(1) [OF tcp_reset_core [OF reset(5)]] tcore_sel(1) [OF reset(3)] tcore_tape [OF tcp_reset_core [OF reset(5)]]
        tape0 [OF reset(3)] by (intro disjI1 idle) simp_all
  next
    case (accepted h j t0)
    have "j \<noteq> k"
      using alloc_process_state [OF accepted(5)] est(1) by auto
    then show ?thesis
      using tcp_accept_opens [OF accepted(8)] tcore_sel(1,2) [OF accepted(6)] by (intro disjI1 idle) (auto simp: tape_def)
  next
    case (matched h j e t0 t1)
    have t0: "t_conns t0 = t_conns t" "tape t0 = tape t"
      using tcore_sel(1) [OF matched(3)] tape0 [OF matched(3)] by simp_all
    note j = first_index_Some [OF matched(2)]
    have id: "ident e = ident (t_conns t ! j)" "t_conns t1 = t_conns t"
      using any_app.process_conn_id [OF matched(5)] t0 by (simp_all add: kept_def)
    show ?thesis
    proof (cases "j = k")
      case False
      have "m_id (t_conns t ! j) \<noteq> m_id ?c"
        using ids j k False by (simp add: distinct_conv_nth)
      then have "tape t1 (m_id ?c) = tape t (m_id ?c)"
        using other_tapes.process_conn_id [OF matched(5), of "tape t0"] t0 by (simp add: kept_def tape_def fst_ident)
      then show ?thesis
        using False matched(6) id(2) by (intro disjI1 idle) (simp_all add: set_conn_def tape_def)
    next
      case True
      have e: "t_conns t' ! k = e" "m_state e = ESTABLISHED" "tape t' = tape t1"
        using True matched(6) id(2) j est(2) by (simp_all add: set_conn_def tape_def)
      let ?off = "unat (hd_seq h - irs)" and ?plen = "len - hd_len h"
      have c: "\<not> hd_has h TCP_URG" "?plen = 0 \<or> ?off + unat ?plen \<le> length S \<and>
          payload data (unat (hd_len h)) ?plen = Some (take (unat ?plen) (drop ?off S))"
        using assms(7) matched(1) j True by (auto simp: Let_def)
      have pc: "process_conn ops (taped ev) h len data ?c t0 = Some (st, e, t1)"
        using matched(5) True by simp
      from process_conn_reads [OF pc est(1) seg c(1)] show ?thesis
      proof (elim disjE exE conjE)
        assume "reads (tape t0) (m_rcv_nxt ?c) (st, e, t1)"
        then show ?thesis
          using e id(1) True t0 by (auto simp: advances_def)
      next
        fix bs assume s: "hd_seq h = m_rcv_nxt ?c" and bs: "payload data (unat (hd_len h)) ?plen = Some bs"
          and "reads ((tape t0)(m_id ?c := tape t0 (m_id ?c) @ bs)) (m_rcv_nxt ?c + ucast ?plen) (st, e, t1)"
        then have r: "m_rcv_nxt e = m_rcv_nxt ?c + ucast ?plen" "tape t' (m_id ?c) = tape t (m_id ?c) @ bs"
          using e t0 by simp_all
        have len: "length bs = unat ?plen"
          using bs by (auto simp: payload_def split: if_splits)
        then have adv: "advances bs k t t'"
          using r id(1) e True by (simp add: advances_def)
        show ?thesis
        proof (cases "?plen = 0")
          case True
          then show ?thesis
            using adv len by simp
        next
          case False
          then have "?off + unat ?plen \<le> length S" "bs = take (unat ?plen) (drop ?off S)"
            using c(2) bs by simp_all
          then show ?thesis
            using adv s by (intro disjI2 exI [of _ "unat ?plen"]) simp
        qed
      qed
    qed
  qed
qed

lemma event_advances:
  assumes h: "tcp_handle ops (taped ev) x t = Some t'"
    and k: "k < length (t_conns t)" and ids: "distinct (map m_id (t_conns t))"
    and est: "m_state (t_conns t ! k) = ESTABLISHED" "m_state (t_conns t' ! k) = ESTABLISHED"
    and seg: "length (m_segments (t_conns t ! k)) = 16"
    and c: "carries S irs (t_conns t ! k) x"
  shows "advances [] k t t' \<or> (\<exists>n. unat (m_rcv_nxt (t_conns t ! k) - irs) + n \<le> length S \<and>
    advances (take n (drop (unat (m_rcv_nxt (t_conns t ! k) - irs)) S)) k t t')"
proof -
  have idle: "advances [] k t t'" if "quiet k t t'"
    using that tcp_handle_ident [OF h _ k] est by (simp add: advances_def quiet_def)
  show ?thesis
  proof (cases x)
    case (Segment rx len data)
    then obtain st where "tcp_process ops (taped ev) rx len data t = Some (st, t')"
      using h by (auto simp: drop_result_def)
    from segment_advances [OF this k ids est seg] show ?thesis
      using c Segment by blast
  next
    case (Tick now now')
    then show ?thesis
      using h by (auto simp: drop_result_def intro: idle tcp_run_quiet)
  next
    case (Connect hw ip rport readings)
    then show ?thesis
      using h est(1) by (auto intro: idle tcp_connect_quiet)
  next
    case (AbortConn cid)
    then show ?thesis
      using h by (auto simp: drop_result_def intro: idle tcp_abort_quiet)
  next
    case (CloseConn cid)
    then show ?thesis
      using h by (auto simp: drop_result_def intro: idle tcp_close_quiet)
  next
    case (SendData cid len data off)
    then show ?thesis
      using h by (auto intro: idle tcp_send_quiet)
  next
    case (Listen port)
    then have "t' = tcp_listen ops port t"
      using h by simp
    then have "quiet k t t'"
      by (intro quiet_same) (auto simp: tcp_listen_def Let_def on_net_def split: prod.split)
    then show ?thesis
      by (intro disjI1 idle)
  next
    case (Unlisten port)
    then have "t' = tcp_unlisten ops port t"
      using h by simp
    then have "quiet k t t'"
      by (intro quiet_same) (auto simp: tcp_unlisten_def Let_def t_unlisten_def on_net_def)
    then show ?thesis
      by (intro disjI1 idle)
  qed
qed

lemma carries_ident: "addr c' = addr c \<Longrightarrow> m_state c' = m_state c \<Longrightarrow> carries S irs c' x = carries S irs c x"
  by (cases x) (auto simp: matches_ident split: option.split)

lemma play_advances:
  assumes "tcp_play ops (taped ev) xs t = Some t'" and "stays_established ops (taped ev) k xs t"
    and "k < length (t_conns t)" and "distinct (map m_id (t_conns t))" and "length (m_segments (t_conns t ! k)) = 16"
    and "list_all (carries S irs (t_conns t ! k)) xs" and "m_rcv_nxt (t_conns t ! k) = irs + of_nat d" and "d \<le> length S"
    and S: "length S < 2 ^ 32"
  shows "\<exists>d'. d \<le> d' \<and> d' \<le> length S \<and> m_rcv_nxt (t_conns t' ! k) = irs + of_nat d' \<and>
    tape t' (m_id (t_conns t ! k)) = tape t (m_id (t_conns t ! k)) @ take (d' - d) (drop d S)"
  using assms(1-8)
proof (induction xs arbitrary: t d)
  case Nil
  then show ?case
    by (intro exI [of _ d]) auto
next
  case (Cons x xs)
  obtain t1 where x: "tcp_handle ops (taped ev) x t = Some t1" and xs: "tcp_play ops (taped ev) xs t1 = Some t'"
    using Cons.prems(1) by (auto simp: Some_eq_bind)
  have est: "m_state (t_conns t ! k) = ESTABLISHED" "stays_established ops (taped ev) k xs t1"
    using Cons.prems(2) x by simp_all
  then have est1: "m_state (t_conns t1 ! k) = ESTABLISHED"
    by (cases xs) auto
  have ids: "map m_id (t_conns t1) = map m_id (t_conns t)"
    using tcp_handle_ids [OF x] .
  then have len: "k < length (t_conns t1)"
    using Cons.prems(3) by (metis length_map)
  have id: "ident (t_conns t1 ! k) = ident (t_conns t ! k)"
    using tcp_handle_ident [OF x _ Cons.prems(3)] est(1) by simp
  have seg: "length (m_segments (t_conns t1 ! k)) = 16"
    using id Cons.prems(5) by (simp add: ident_eq)
  have car: "list_all (carries S irs (t_conns t1 ! k)) xs"
    using Cons.prems(6) carries_ident [of "t_conns t1 ! k" "t_conns t ! k"] id est(1) est1
    by (simp add: ident_eq list.pred_set)
  have "d < 2 ^ 32"
    using Cons.prems(8) S by simp
  then have off: "unat (m_rcv_nxt (t_conns t ! k) - irs) = d"
    unfolding Cons.prems(7) by (simp add: unat_of_nat)
  have "carries S irs (t_conns t ! k) x"
    using Cons.prems(6) by simp
  from event_advances [OF x Cons.prems(3,4) est(1) est1 Cons.prems(5) this]
  have "\<exists>n. d + n \<le> length S \<and> advances (take n (drop d S)) k t t1"
    unfolding off
  proof
    assume "advances [] k t t1"
    then show ?thesis
      using Cons.prems(8) by (intro exI [of _ 0]) simp
  qed
  then obtain n where n: "d + n \<le> length S" "advances (take n (drop d S)) k t t1"
    by blast
  then have l: "length (take n (drop d S)) = n"
    by simp
  have adv: "tape t1 (m_id (t_conns t ! k)) = tape t (m_id (t_conns t ! k)) @ take n (drop d S)"
      "m_rcv_nxt (t_conns t1 ! k) = irs + of_nat (d + n)" "m_id (t_conns t1 ! k) = m_id (t_conns t ! k)"
    using n(2) Cons.prems(7) id unfolding advances_def Let_def l by (simp_all add: ident_eq algebra_simps)
  obtain d' where d': "d + n \<le> d'" "d' \<le> length S" "m_rcv_nxt (t_conns t' ! k) = irs + of_nat d'"
      "tape t' (m_id (t_conns t1 ! k)) = tape t1 (m_id (t_conns t1 ! k)) @ take (d' - (d + n)) (drop (d + n) S)"
    using Cons.IH [OF xs est(2) len _ seg car adv(2) n(1)] ids Cons.prems(4) by auto
  have "take n (drop d S) @ take (d' - (d + n)) (drop (d + n) S) = take (d' - d) (drop d S)"
    using d'(1) take_add [of n "d' - (d + n)" "drop d S"] by (simp add: add.commute)
  then show ?case
    using d' adv by (intro exI [of _ d']) simp
qed

end

section \<open>A sample connection\<close>

text \<open>An established connection with an empty send buffer, and three bytes for it.\<close>

definition sample_established :: "conn list \<Rightarrow> (list_dev, unit client \<times> (u16 \<Rightarrow> u8 list)) tcp" where
  "sample_established cs = \<lparr>t_net = sample_link\<lparr>n_mem := [replicate 98 0]\<rparr>,
     t_handler = (\<lparr>cl_dlg = (), cl_cns = [\<lparr>cc_state = Connected, cc_conn = 0\<rparr>], cl_idx = Map.empty\<rparr>, \<lambda>c. []),
     t_iss = 0, t_mss = 40, t_ports = {}, t_conns = cs, t_stats = tcp_stats_zero, t_timer = timer_set 0 100\<rparr>"

definition sample_peer :: conn where
  "sample_peer = conn_init\<lparr>m_id := 0, m_state := ESTABLISHED, m_rethaddr := Mac 16 0 0 0 0 2, m_ripaddr := ip4_make 10 1 0 2,
     m_lport := htons 80, m_rport := htons 4000, m_rcv_nxt := 7000, m_snd_nxt := 1, m_mss := 40, m_initialmss := 40,
     m_window := 1000, m_sdat := Ptr 0 38\<rparr>"

definition sample_data :: "u8 list" where
  "sample_data = tcp_image (ip4_make 10 1 0 2) (ip4_make 10 1 0 1) (sample_header TCP_ACK) [65, 66, 67]"

lemma sample_delivery:
  "\<exists>t'. tcp_handle list_ops (taped (client_events default_delegate)) (Segment sample_rx 23 sample_data) (sample_established [sample_peer]) = Some t' \<and>
     m_state (t_conns t' ! 0) = ESTABLISHED \<and> m_rcv_nxt (t_conns t' ! 0) = 7003"
proof -
  let ?t = "on_stats (\<lambda>s. s\<lparr>st_recv := st_recv s + 1\<rparr>) (sample_established [sample_peer])"
  have "map_option (\<lambda>(st, e, t). (m_state e, m_rcv_nxt e, length (t_conns t)))
     (process_conn list_ops (taped (client_events default_delegate)) (sample_header TCP_ACK) 23 sample_data sample_peer ?t) =
     Some (ESTABLISHED, 7003, 1)"
    by code_simp
  then obtain st e t1 where "process_conn list_ops (taped (client_events default_delegate)) (sample_header TCP_ACK) 23 sample_data sample_peer ?t =
      Some (st, e, t1)" "m_state e = ESTABLISHED" "m_rcv_nxt e = 7003" "length (t_conns t1) = 1"
    by (auto simp only: map_option_eq_Some split_paired_Ex prod.case prod.inject)
  moreover have "t_conns ?t = [sample_peer]"
    by (simp add: sample_established_def on_stats_def)
  moreover have "matches sample_rx (sample_header TCP_ACK) sample_peer"
    by (simp add: matches_def sample_rx_def sample_header_def sample_peer_def)
  moreover have "read_header sample_data = Some (sample_header TCP_ACK)"
    by (simp add: sample_data_def tcp_image_header sample_header_def)
  moreover have "tcpv4_checksum (rx_src sample_rx) (rx_dst sample_rx) 23 sample_data = Some 0xFFFF"
    using tcp_image_verifies [of "[65, 66, 67]" "ip4_make 10 1 0 2" "ip4_make 10 1 0 1" "sample_header TCP_ACK"]
    by (simp add: sample_rx_def sample_data_def)
  ultimately show ?thesis
    by (simp add: drop_result_def tcp_process_def Let_def set_conn_def)
qed

section \<open>Properties\<close>

text \<open>C3: In-order delivery, on a device that accepts every frame. Take a connection that is established and has delivered the
  first \<open>d\<close> bytes of the stream \<open>S\<close> of its peer, the byte with sequence number \<open>irs\<close> being the first. Let every
  segment for it carry part of the stream at the place its sequence number says, and no urgent data. While the connection stays
  established, whatever events are handled, in whatever order these segments arrive, repeated, late or not at all, and
  whatever the application answers, the application gets the next bytes of the stream in order: none is lost,
  repeated or altered, and the next expected sequence number is always that of the first byte not delivered.\<close>
theorem in_order_delivery:
  assumes "accepting ops" and "tcp_play ops (taped ev) xs t = Some t'" and "stays_established ops (taped ev) k xs t"
    and "k < length (t_conns t)" and "distinct (map m_id (t_conns t))" and "length (m_segments (t_conns t ! k)) = 16"
    and "list_all (carries S irs (t_conns t ! k)) xs" and "m_rcv_nxt (t_conns t ! k) = irs + of_nat d" and "d \<le> length S"
    and "length S < 2 ^ 32"
  shows "\<exists>d'. d \<le> d' \<and> d' \<le> length S \<and> m_rcv_nxt (t_conns t' ! k) = irs + of_nat d' \<and>
    tape t' (m_id (t_conns t ! k)) = tape t (m_id (t_conns t ! k)) @ take (d' - d) (drop d S)"
  using assms by (rule accepting.play_advances)

theorem in_order_delivery_witness:
  "\<exists>t'. tcp_play list_ops (taped (client_events default_delegate)) [Segment sample_rx 23 sample_data] (sample_established [sample_peer]) = Some t' \<and>
     m_rcv_nxt (t_conns t' ! 0) = 7003 \<and> tape t' 0 = [65, 66, 67]"
proof -
  let ?ev = "taped (client_events default_delegate)" and ?x = "Segment sample_rx 23 sample_data" and ?t = "sample_established [sample_peer]"
  obtain t' where t': "tcp_handle list_ops ?ev ?x ?t = Some t'" "m_state (t_conns t' ! 0) = ESTABLISHED"
      "m_rcv_nxt (t_conns t' ! 0) = 7003"
    using sample_delivery by (elim exE conjE)
  have c: "t_conns ?t ! 0 = sample_peer" "length (t_conns ?t) = 1" "map m_id (t_conns ?t) = [0]" "tape ?t = (\<lambda>c. [])"
      "m_state sample_peer = ESTABLISHED" "m_id sample_peer = 0" "length (m_segments sample_peer) = 16" "m_rcv_nxt sample_peer = 7000"
    by (simp_all add: sample_established_def sample_peer_def tape_def conn_init_def)
  have p: "tcp_play list_ops ?ev [?x] ?t = Some t'" "stays_established list_ops ?ev 0 [?x] ?t"
    using t' c by simp_all
  have h: "read_header sample_data = Some (sample_header TCP_ACK)" "drop 20 sample_data = [65, 66, 67]" "length sample_data = 23"
    by (simp_all add: sample_data_def tcp_image_header sample_header_def)
  have "hd_len (sample_header TCP_ACK) = 20" "hd_seq (sample_header TCP_ACK) = 7000" "\<not> hd_has (sample_header TCP_ACK) TCP_URG"
    by (simp_all add: hd_len_def sample_header_def)
  then have car: "list_all (carries [65, 66, 67] 7000 sample_peer) [?x]"
    using h by (simp add: payload_def)
  have "\<exists>d'. 0 \<le> d' \<and> d' \<le> length [65, 66, 67 :: u8] \<and> m_rcv_nxt (t_conns t' ! 0) = 7000 + of_nat d' \<and>
      tape t' (m_id (t_conns ?t ! 0)) = tape ?t (m_id (t_conns ?t ! 0)) @ take (d' - 0) (drop 0 [65, 66, 67])"
    by (rule in_order_delivery [OF list_accepts.accepting_axioms p]) (use c car in simp_all)
  then obtain d' where "d' \<le> length [65, 66, 67 :: u8]" "m_rcv_nxt (t_conns t' ! 0) = 7000 + of_nat d'"
      "tape t' (m_id (t_conns ?t ! 0)) = tape ?t (m_id (t_conns ?t ! 0)) @ take (d' - 0) (drop 0 [65, 66, 67])"
    by blast
  then have d': "d' < 4" "(of_nat d' :: u32) = 3" "tape t' 0 = take d' [65, 66, 67]"
    using t'(3) c by simp_all
  then have "d' = 3"
    by (cases "d' = 0 \<or> d' = 1 \<or> d' = 2") auto
  then show ?thesis
    using p(1) t'(3) d'(3) by (intro exI [of _ t'] conjI) simp_all
qed

end
