(* ===== verification/Arp.thy ===== *)
theory Arp
  imports Devices
begin

text \<open>
  Address resolution, \<^verbatim>\<open>src/stack/arp/Processor.cpp\<close>: the table of 32 translations with its ageing, the
  answers to requests and the search for unknown addresses. The laws of the table are those a cache
  owes its users: a lookup after an update finds it, no address has two entries, entries leave the
  table only by age or to make room.
\<close>

section \<open>The table\<close>

record arp_entry =
  ae_ip :: ip4
  ae_eth :: mac
  ae_time :: u8

record arp =
  ar_table :: "arp_entry list"
  ar_time :: u8
  ar_timer :: timer

abbreviation (input) "ARP_TABLE_SIZE \<equiv> (32 :: nat)"
abbreviation (input) "ARP_MAX_AGE \<equiv> (120 :: int)"

definition arp_entry_init :: arp_entry where
  "arp_entry_init = \<lparr>ae_ip = 0, ae_eth = mac_empty, ae_time = 0\<rparr>"

definition arp_init :: "u64 \<Rightarrow> u64 \<Rightarrow> arp" where
  "arp_init now cps = \<lparr>ar_table = replicate ARP_TABLE_SIZE arp_entry_init, ar_time = 0,
     ar_timer = timer_set now (cps * 10)\<rparr>"

text \<open>The two times are promoted to \<^verbatim>\<open>int\<close> before the subtraction.\<close>

definition arp_expire :: "u8 \<Rightarrow> arp_entry \<Rightarrow> arp_entry" where
  "arp_expire now e =
     (if ip4_empty (ae_ip e) then e
      else if int (unat now) - int (unat (ae_time e)) \<ge> ARP_MAX_AGE then e\<lparr>ae_ip := 0\<rparr>
      else e)"

definition arp_run :: "u64 \<Rightarrow> u64 \<Rightarrow> arp \<Rightarrow> status \<times> arp" where
  "arp_run now now' a =
     (if timer_expired now (ar_timer a)
      then let a = a\<lparr>ar_timer := timer_reset now' (ar_timer a), ar_time := ar_time a + 1\<rparr>
           in (Ok, a\<lparr>ar_table := List.map (arp_expire (ar_time a)) (ar_table a)\<rparr>)
      else (Ok, a))"

text \<open>The entry \<^verbatim>\<open>update\<close> writes if the address has none: a free one, else the first whose time is
  that of the last entry. An empty table has none, which the code does not check.\<close>

definition arp_victim :: "arp_entry list \<Rightarrow> nat option" where
  "arp_victim table = (case first_index (\<lambda>e. ip4_empty (ae_ip e)) table of
     Some i \<Rightarrow> Some i
   | None \<Rightarrow> (if table = [] then None else first_index (\<lambda>e. ae_time e = ae_time (last table)) table))"

definition arp_update :: "ip4 \<Rightarrow> mac \<Rightarrow> arp \<Rightarrow> arp option" where
  "arp_update ip hw a = (
     case first_index (\<lambda>e. \<not> ip4_empty (ae_ip e) \<and> ip = ae_ip e) (ar_table a) of
       Some i \<Rightarrow> Some (a\<lparr>ar_table := (ar_table a)[i := (ar_table a ! i)\<lparr>ae_eth := hw, ae_time := ar_time a\<rparr>]\<rparr>)
     | None \<Rightarrow> do {
         i \<leftarrow> arp_victim (ar_table a);
         Some (a\<lparr>ar_table := (ar_table a)[i := \<lparr>ae_ip = ip, ae_eth = hw, ae_time = ar_time a\<rparr>]\<rparr>)
       })"

definition arp_hop :: "ip_producer \<Rightarrow> ip4 \<Rightarrow> ip4" where
  "arp_hop p ip = (if \<not> ip_isLocal p ip then io_router p else ip)"

definition arp_lookup :: "arp_entry list \<Rightarrow> ip4 \<Rightarrow> mac option" where
  "arp_lookup table ip = map_option (\<lambda>i. ae_eth (table ! i)) (first_index (\<lambda>e. ae_ip e = ip) table)"

definition arp_query :: "ip_producer \<Rightarrow> arp \<Rightarrow> ip4 \<Rightarrow> mac option" where
  "arp_query p a dest =
     (if dest = ip4_broadcast then Some mac_broadcast else arp_lookup (ar_table a) (arp_hop p dest))"

definition arp_has :: "ip_producer \<Rightarrow> arp \<Rightarrow> ip4 \<Rightarrow> bool" where
  "arp_has p a dest \<longleftrightarrow> arp_query p a dest \<noteq> None"

section \<open>Messages\<close>

text \<open>The 28 bytes of a message.\<close>

definition arp_image :: "u16 \<Rightarrow> mac \<Rightarrow> ip4 \<Rightarrow> mac \<Rightarrow> ip4 \<Rightarrow> u8 list" where
  "arp_image opcode shw sip dhw dip = bytes16 (htons 1) @ bytes16 (htons ETHTYPE_IP) @ [6, 4] @
     bytes16 (htons opcode) @ mac_bytes shw @ bytes32 sip @ mac_bytes dhw @ bytes32 dip"

definition arp_process :: "'d device_ops \<Rightarrow> u16 \<Rightarrow> u8 list \<Rightarrow> 'd net \<Rightarrow> arp \<Rightarrow> (status \<times> 'd net \<times> arp) option" where
  "arp_process ops len data n a =
     (if unat len < 28 then Some (IncompleteData, n, a)
      else do {
        opcode \<leftarrow> rd16 data 6;
        if ntohs opcode = 1
        then do {
          dip \<leftarrow> rd32 data 24;
          if dip \<noteq> io_host (n_ip n) then Some (Ok, n, a)
          else do {
            shw \<leftarrow> mac_of data 8;
            sip \<leftarrow> rd32 data 14;
            let n = eth_setDest shw (eth_setType ETHTYPE_ARP n);
            (ret, outdata, n) \<leftarrow> eth_prepare ops n;
            if ret \<noteq> Ok then Some (ret, n, a)
            else do {
              a \<leftarrow> arp_update sip shw a;
              m \<leftarrow> mem_write (n_mem n) outdata (arp_image 2 (eo_host (n_eth n)) (io_host (n_ip n)) shw sip);
              (st, n) \<leftarrow> eth_commit ops 28 outdata 0 (n\<lparr>n_mem := m\<rparr>);
              Some (Ok, n, a)
            }
          }
        }
        else if ntohs opcode = 2
        then do {
          dip \<leftarrow> rd32 data 24;
          if dip \<noteq> io_host (n_ip n) then Some (Ok, n, a)
          else do {
            shw \<leftarrow> mac_of data 8;
            sip \<leftarrow> rd32 data 14;
            a \<leftarrow> arp_update sip shw a;
            Some (Ok, n, a)
          }
        }
        else Some (Ok, n, a)
      })"

definition arp_discover :: "'d device_ops \<Rightarrow> ip4 \<Rightarrow> 'd net \<Rightarrow> arp \<Rightarrow> (status \<times> 'd net) option" where
  "arp_discover ops dest n a =
     (if arp_has (n_ip n) a dest then Some (Ok, n)
      else do {
        let ip = arp_hop (n_ip n) dest;
        let n = eth_setDest mac_broadcast (eth_setType ETHTYPE_ARP n);
        (ret, outdata, n) \<leftarrow> eth_prepare ops n;
        if ret \<noteq> Ok then Some (ret, n)
        else do {
          m \<leftarrow> mem_write (n_mem n) outdata (arp_image 1 (eo_host (n_eth n)) (io_host (n_ip n)) mac_empty ip);
          eth_commit ops 28 outdata 0 (n\<lparr>n_mem := m\<rparr>)
        }
      })"

section \<open>Laws of the table\<close>

definition in_use :: "arp_entry \<Rightarrow> bool" where
  "in_use e \<longleftrightarrow> ae_ip e \<noteq> 0"

text \<open>No address has two entries.\<close>

definition arp_wf :: "arp_entry list \<Rightarrow> bool" where
  "arp_wf table \<longleftrightarrow> length table = ARP_TABLE_SIZE \<and> distinct (List.map ae_ip (filter in_use table))"

lemma distinct_in_use:
  "distinct (List.map ae_ip (filter in_use es)) \<longleftrightarrow>
   (\<forall>i < length es. \<forall>j < length es. in_use (es ! i) \<longrightarrow> ae_ip (es ! i) = ae_ip (es ! j) \<longrightarrow> i = j)"
proof (induction es)
  case (Cons e es)
  have "ae_ip e \<in> ae_ip ` {x \<in> set es. in_use x} \<longleftrightarrow> (\<exists>j < length es. in_use (es ! j) \<and> ae_ip (es ! j) = ae_ip e)"
    unfolding image_iff Bex_def by (auto simp: in_set_conv_nth)
  then show ?case
    using Cons by (auto simp: All_less_Suc2 in_use_def)
qed simp

lemma arp_wf_def2:
  "arp_wf table \<longleftrightarrow> length table = ARP_TABLE_SIZE \<and>
   (\<forall>i < length table. \<forall>j < length table. in_use (table ! i) \<longrightarrow> ae_ip (table ! i) = ae_ip (table ! j) \<longrightarrow> i = j)"
  by (simp add: arp_wf_def distinct_in_use)

lemma arp_wf_unique:
  "arp_wf table \<Longrightarrow> i < length table \<Longrightarrow> j < length table \<Longrightarrow> ae_ip (table ! i) \<noteq> 0 \<Longrightarrow>
   ae_ip (table ! i) = ae_ip (table ! j) \<Longrightarrow> i = j"
  by (auto simp: arp_wf_def2 in_use_def)

lemma arp_victim_Some: "table \<noteq> [] \<Longrightarrow> \<exists>i. arp_victim table = Some i \<and> i < length table"
  using first_index_ex [of "length table - 1" table "\<lambda>e. ae_time e = ae_time (last table)"]
  by (auto simp: arp_victim_def last_conv_nth split: option.split dest: first_index_Some)

lemma arp_entry_upd: "e\<lparr>ae_eth := hw, ae_time := now\<rparr> = \<lparr>ae_ip = ae_ip e, ae_eth = hw, ae_time = now\<rparr>"
  by (cases e) simp

text \<open>What an update does, by cases: it overwrites one entry, which is the address's own if it has one.\<close>

lemma arp_update_ex:
  assumes "ar_table a \<noteq> []"
  shows "\<exists>i < length (ar_table a).
    arp_update ip hw a = Some (a\<lparr>ar_table := (ar_table a)[i := \<lparr>ae_ip = ip, ae_eth = hw, ae_time = ar_time a\<rparr>]\<rparr>) \<and>
    (\<forall>j < length (ar_table a). ip \<noteq> 0 \<longrightarrow> ae_ip (ar_table a ! j) = ip \<longrightarrow> ae_ip (ar_table a ! i) = ip \<and> i \<le> j)"
proof (cases "first_index (\<lambda>e. \<not> ip4_empty (ae_ip e) \<and> ip = ae_ip e) (ar_table a)")
  case (Some i)
  from first_index_Some [OF this] show ?thesis
    by (intro exI [of _ i]) (use Some in \<open>auto simp: arp_update_def arp_entry_upd not_less [symmetric]\<close>)
next
  case None
  obtain i where i: "arp_victim (ar_table a) = Some i" "i < length (ar_table a)"
    using arp_victim_Some [OF assms] by blast
  have "arp_update ip hw a = Some (a\<lparr>ar_table := (ar_table a)[i := \<lparr>ae_ip = ip, ae_eth = hw, ae_time = ar_time a\<rparr>]\<rparr>)"
    unfolding arp_update_def None by (simp add: i)
  then show ?thesis
    using i None by (intro exI [of _ i]) (auto simp: first_index_None list_all_length ip4_empty_def)
qed

lemma arp_update_wf:
  assumes wf: "arp_wf (ar_table a)"
  shows "runs (arp_update ip hw a) (\<lambda>a'. arp_wf (ar_table a') \<and> ar_time a' = ar_time a \<and> ar_timer a' = ar_timer a)"
proof -
  have "ar_table a \<noteq> []"
    using wf by (auto simp: arp_wf_def)
  then obtain i where i: "i < length (ar_table a)"
    and u: "arp_update ip hw a = Some (a\<lparr>ar_table := (ar_table a)[i := \<lparr>ae_ip = ip, ae_eth = hw, ae_time = ar_time a\<rparr>]\<rparr>)"
    and own: "\<And>j. j < length (ar_table a) \<Longrightarrow> ip \<noteq> 0 \<Longrightarrow> ae_ip (ar_table a ! j) = ip \<Longrightarrow>
          ae_ip (ar_table a ! i) = ip \<and> i \<le> j"
    using arp_update_ex [of a ip hw] by blast
  have "arp_wf ((ar_table a)[i := \<lparr>ae_ip = ip, ae_eth = hw, ae_time = ar_time a\<rparr>])"
    using wf i own unfolding arp_wf_def2 by (auto simp: nth_list_update in_use_def)
  then show ?thesis
    by (simp add: u)
qed

lemma arp_lookup_Some: "arp_lookup table ip = Some hw \<longleftrightarrow>
   (\<exists>i < length table. ae_ip (table ! i) = ip \<and> ae_eth (table ! i) = hw \<and> (\<forall>j < i. ae_ip (table ! j) \<noteq> ip))"
proof
  assume "arp_lookup table ip = Some hw"
  then show "\<exists>i < length table. ae_ip (table ! i) = ip \<and> ae_eth (table ! i) = hw \<and> (\<forall>j < i. ae_ip (table ! j) \<noteq> ip)"
    by (auto simp: arp_lookup_def dest: first_index_Some)
next
  assume "\<exists>i < length table. ae_ip (table ! i) = ip \<and> ae_eth (table ! i) = hw \<and> (\<forall>j < i. ae_ip (table ! j) \<noteq> ip)"
  then obtain i where "i < length table" "ae_eth (table ! i) = hw" "first_index (\<lambda>e. ae_ip e = ip) table = Some i"
    by (metis (mono_tags, lifting) first_index_eqI)
  then show "arp_lookup table ip = Some hw"
    by (simp add: arp_lookup_def)
qed

lemma arp_lookup_update:
  assumes wf: "arp_wf (ar_table a)" and ip: "ip \<noteq> 0"
  shows "runs (arp_update ip hw a) (\<lambda>a'. arp_lookup (ar_table a') ip = Some hw)"
proof -
  have "ar_table a \<noteq> []"
    using wf by (auto simp: arp_wf_def)
  then obtain i where i: "i < length (ar_table a)"
    and u: "arp_update ip hw a = Some (a\<lparr>ar_table := (ar_table a)[i := \<lparr>ae_ip = ip, ae_eth = hw, ae_time = ar_time a\<rparr>]\<rparr>)"
    and own: "\<And>j. j < length (ar_table a) \<Longrightarrow> ip \<noteq> 0 \<Longrightarrow> ae_ip (ar_table a ! j) = ip \<Longrightarrow>
          ae_ip (ar_table a ! i) = ip \<and> i \<le> j"
    using arp_update_ex [of a ip hw] by blast
  show ?thesis
    unfolding u using i ip own by (auto simp: arp_lookup_Some nth_list_update intro!: exI [of _ i]) (metis leD less_trans)
qed

text \<open>Every other address keeps its translation, unless the update took its entry.\<close>

lemma arp_lookup_other:
  assumes wf: "arp_wf (ar_table a)" and ne: "ip' \<noteq> ip" "ip' \<noteq> 0"
  shows "runs (arp_update ip hw a) (\<lambda>a'. arp_lookup (ar_table a') ip' = arp_lookup (ar_table a) ip' \<or>
    arp_lookup (ar_table a') ip' = None)"
proof -
  have "ar_table a \<noteq> []"
    using wf by (auto simp: arp_wf_def)
  then obtain i where i: "i < length (ar_table a)"
    and u: "arp_update ip hw a = Some (a\<lparr>ar_table := (ar_table a)[i := \<lparr>ae_ip = ip, ae_eth = hw, ae_time = ar_time a\<rparr>]\<rparr>)"
    using arp_update_ex [of a ip hw] by blast
  let ?t = "(ar_table a)[i := \<lparr>ae_ip = ip, ae_eth = hw, ae_time = ar_time a\<rparr>]"
  have "arp_lookup ?t ip' = arp_lookup (ar_table a) ip'" if f: "arp_lookup ?t ip' = Some hw'" for hw'
  proof -
    obtain j where j: "j < length (ar_table a)" "ae_ip (?t ! j) = ip'" "ae_eth (?t ! j) = hw'"
      using f by (auto simp: arp_lookup_Some)
    then have ji: "j \<noteq> i" and j': "ae_ip (ar_table a ! j) = ip'" "ae_eth (ar_table a ! j) = hw'"
      using ne i by (auto simp: nth_list_update)
    have "ae_ip (ar_table a ! k) \<noteq> ip'" if "k < j" for k
      using arp_wf_unique [OF wf j(1), of k] j'(1) ne(2) j(1) that by auto
    then have "arp_lookup (ar_table a) ip' = Some hw'"
      using j(1) j' by (auto simp: arp_lookup_Some)
    then show ?thesis
      using f by simp
  qed
  then show ?thesis
    by (auto simp: u)
qed

lemma arp_run_wf: "arp_wf (ar_table a) \<Longrightarrow> arp_run now now' a = (st, a') \<Longrightarrow> arp_wf (ar_table a')"
  by (auto simp: arp_run_def Let_def arp_wf_def2 arp_expire_def in_use_def split: if_splits)

lemma arp_init_wf: "arp_wf (ar_table (arp_init now cps))"
  by (simp add: arp_wf_def arp_init_def arp_entry_init_def in_use_def)

section \<open>Laws of the messages\<close>

lemma length_arp_image [simp]: "length (arp_image op a b c d) = 28"
  by (simp add: arp_image_def)

lemma rd_in [simp]:
  "i < length xs \<Longrightarrow> rd8 xs i = Some (xs ! i)"
  "i + 1 < length xs \<Longrightarrow> rd16 xs i = Some (le16 (xs ! i) (xs ! (i + 1)))"
  "i + 3 < length xs \<Longrightarrow> rd32 xs i = Some (le32 (xs ! i) (xs ! (i + 1)) (xs ! (i + 2)) (xs ! (i + 3)))"
  "i + 5 < length xs \<Longrightarrow> mac_of xs i = Some (Mac (xs ! i) (xs ! (i + 1)) (xs ! (i + 2)) (xs ! (i + 3)) (xs ! (i + 4)) (xs ! (i + 5)))"
  by (simp_all add: rd8_def rd16_def rd32_def)

text \<open>What a message says, for one of at least 28 bytes.\<close>

definition arp_opcode :: "u8 list \<Rightarrow> u16" where
  "arp_opcode data = ntohs (le16 (data ! 6) (data ! 7))"

definition arp_sender :: "u8 list \<Rightarrow> mac \<times> ip4" where
  "arp_sender data = (Mac (data ! 8) (data ! 9) (data ! 10) (data ! 11) (data ! 12) (data ! 13),
     le32 (data ! 14) (data ! 15) (data ! 16) (data ! 17))"

definition arp_target :: "u8 list \<Rightarrow> ip4" where
  "arp_target data = le32 (data ! 24) (data ! 25) (data ! 26) (data ! 27)"

lemma arp_image_fields:
  assumes "take 28 data = arp_image op shw sip dhw dip"
  shows "arp_opcode data = op" "arp_sender data = (shw, sip)" "arp_target data = dip"
proof -
  have n: "data ! i = arp_image op shw sip dhw dip ! i" if "i < 28" for i
    using that by (subst assms [symmetric]) simp
  show "arp_opcode data = op" "arp_sender data = (shw, sip)" "arp_target data = dip"
    by (cases shw; cases dhw; simp add: arp_opcode_def arp_sender_def arp_target_def n; simp add: arp_image_def bytes16_def bytes32_def)+
qed

lemma arp_process_eq:
  assumes "28 \<le> unat len" and "unat len \<le> length data"
  shows "arp_process ops len data n a =
    (if arp_target data \<noteq> io_host (n_ip n) \<or> arp_opcode data \<noteq> 1 \<and> arp_opcode data \<noteq> 2 then Some (Ok, n, a)
     else if arp_opcode data = 1
     then do {
       let n = eth_setDest (fst (arp_sender data)) (eth_setType ETHTYPE_ARP n);
       (ret, outdata, n) \<leftarrow> eth_prepare ops n;
       if ret \<noteq> Ok then Some (ret, n, a)
       else do {
         a \<leftarrow> arp_update (snd (arp_sender data)) (fst (arp_sender data)) a;
         m \<leftarrow> mem_write (n_mem n) outdata
           (arp_image 2 (eo_host (n_eth n)) (io_host (n_ip n)) (fst (arp_sender data)) (snd (arp_sender data)));
         (st, n) \<leftarrow> eth_commit ops 28 outdata 0 (n\<lparr>n_mem := m\<rparr>);
         Some (Ok, n, a)
       }
     }
     else do {
       a \<leftarrow> arp_update (snd (arp_sender data)) (fst (arp_sender data)) a;
       Some (Ok, n, a)
     })"
  unfolding arp_sender_def fst_conv snd_conv
  using assms by (simp add: arp_process_def arp_opcode_def arp_target_def Let_def)

lemma arp_send_list:
  assumes mtu: "42 \<le> unat (l_mtu (n_dev n))" and len: "length body = 28"
  shows "\<exists>n' n'' p. eth_prepare list_ops n = Some (Ok, p, n') \<and> n_eth n' = n_eth n \<and> n_ip n' = n_ip n \<and>
    (\<exists>m. mem_write (n_mem n') p body = Some m \<and> eth_commit list_ops 28 p 0 (n'\<lparr>n_mem := m\<rparr>) = Some (Ok, n'')) \<and>
    list_sent (eth_frame (eo_dest (n_eth n)) (eo_host (n_eth n)) (eo_type (n_eth n)) body) n n'' \<and>
    n_eth n'' = n_eth n \<and> n_ip n'' = n_ip n"
proof -
  let ?h = "eth_frame (eo_dest (n_eth n)) (eo_host (n_eth n)) (eo_type (n_eth n))"
  obtain blk where blk: "length blk = 4 + unat (l_mtu (n_dev n))"
    and p: "eth_prepare list_ops n = Some (Ok, Ptr (length (n_mem n)) 18, n\<lparr>n_mem := n_mem n @ [patch blk 4 (?h [])]\<rparr>)"
    using list_eth_prepare [of n] mtu by auto
  have w: "mem_write (n_mem n @ [patch blk 4 (?h [])]) (Ptr (length (n_mem n)) 18) body =
      Some (n_mem n @ [patch blk 4 (?h body)])"
    using blk mtu len by (simp add: last_block_write patch_right') (simp add: eth_frame_def)
  show ?thesis
    using list_eth_commit [of "?h body" blk 28 "n\<lparr>n_mem := n_mem n @ [patch blk 4 (?h body)]\<rparr>" n 0] blk mtu len p w
    by auto
qed

context reliable_nic
begin

lemma eth_send_runs:
  assumes "dinv (n_mem n) (n_dev n)" and "14 + length body \<le> nmss" and "unat len = length body"
    and k: "\<And>n'. n_eth n' = n_eth n \<Longrightarrow> n_ip n' = n_ip n \<Longrightarrow> mem_le (n_mem n) (n_mem n') \<Longrightarrow> dinv (n_mem n') (n_dev n') \<Longrightarrow> Q n'"
  shows "runs (eth_prepare ops n) (\<lambda>(st, p, n'). st = Ok \<and> n_eth n' = n_eth n \<and> n_ip n' = n_ip n \<and>
    runs (mem_write (n_mem n') p body) (\<lambda>m. runs (eth_commit ops len p 0 (n'\<lparr>n_mem := m\<rparr>)) (\<lambda>(st, n''). st = Ok \<and> Q n'')))"
proof (rule runs_mono [OF eth_prepare_runs [OF assms(1)]], goal_cases)
  case (2 r)
  obtain st p n' where r: "r = (st, p, n')" by (cases r)
  have st: "st = Ok"
    using 2(1) r eth_prepare_Ok [OF assms(1)] by simp
  have f: "frame_ok (n_mem n') p (hr + 14) (nmss - 14)" and d: "dinv (n_mem n') (n_dev n')" "mem_le (n_mem n) (n_mem n')"
      "n_eth n' = n_eth n" "n_ip n' = n_ip n"
    using 2(2) r st by auto
  let ?m = "mem_upd (n_mem n') p body"
  have "runs (eth_commit ops len p 0 (n'\<lparr>n_mem := ?m\<rparr>)) (\<lambda>(st, n''). st = Ok \<and> Q n'')"
  proof (rule runs_mono [OF eth_commit_runs [of _ _ "length body"]], goal_cases)
    case 2
    show ?case using f assms(2) by (auto intro: frame_ok_less)
  next
    case (5 s)
    then show ?case
      using d assms(2) eth_commit_Ok [of "n'\<lparr>n_mem := ?m\<rparr>"] by (auto intro!: k intro: mem_le_trans)
  qed (use d assms in auto)
  then show ?case
    using r st d mem_write_valid(1) [OF frame_ok_valid [OF f], of body] assms(2) by simp
qed (use assms(2) in simp)

text \<open>On a link that accepts frames, handling any message that is all there returns and keeps the table well-formed.\<close>

lemma arp_process_runs:
  assumes "dinv (n_mem n) (n_dev n)" and "42 \<le> nmss" and "unat len \<le> length data" and wf: "arp_wf (ar_table a)"
  shows "runs (arp_process ops len data n a) (\<lambda>(st, n', a'). mem_le (n_mem n) (n_mem n') \<and> dinv (n_mem n') (n_dev n') \<and>
    arp_wf (ar_table a') \<and> n_ip n' = n_ip n \<and> eo_host (n_eth n') = eo_host (n_eth n))"
proof (cases "unat len < 28")
  case True
  then show ?thesis
    using assms by (simp add: arp_process_def)
next
  case False
  let ?n = "eth_setDest (fst (arp_sender data)) (eth_setType ETHTYPE_ARP n)"
  have n: "n_mem ?n = n_mem n" "n_dev ?n = n_dev n" "n_ip ?n = n_ip n" "eo_host (n_eth ?n) = eo_host (n_eth n)"
    by (simp_all add: eth_setDest_def eth_setType_def)
  obtain a' where a': "arp_update (snd (arp_sender data)) (fst (arp_sender data)) a = Some a'" "arp_wf (ar_table a')"
    using arp_update_wf [OF wf] by (auto simp: runs_iff)
  show ?thesis
    unfolding arp_process_eq [OF _ assms(3)]
    using False a' assms wf n
    by (auto simp: arp_process_eq Let_def wp intro!: runs_mono [OF eth_send_runs [of ?n "arp_image 2 (eo_host (n_eth n)) (io_host (n_ip n)) (fst (arp_sender data)) (snd (arp_sender data))" 28
          "\<lambda>n'. mem_le (n_mem n) (n_mem n') \<and> dinv (n_mem n') (n_dev n') \<and> n_ip n' = n_ip n \<and>
             eo_host (n_eth n') = eo_host (n_eth n)"]] elim!: runs_mono)
qed

end

section \<open>Properties\<close>

text \<open>C32: In a well-formed ARP table, recording the translation of a local address always succeeds; a query
  for it then returns the recorded hardware address, the table stays well-formed, and every other
  address keeps its translation or, if its entry was taken over, has none: the update never makes
  another address resolve differently.\<close>
theorem arp_update_query:
  assumes "arp_wf (ar_table a)" and "ip \<noteq> 0" and "ip \<noteq> ip4_broadcast" and "ip_isLocal p ip"
  shows "\<exists>a'. arp_update ip hw a = Some a' \<and> arp_query p a' ip = Some hw \<and> arp_wf (ar_table a') \<and>
    (\<forall>ip'. ip' \<noteq> ip \<longrightarrow> ip' \<noteq> 0 \<longrightarrow> arp_lookup (ar_table a') ip' = arp_lookup (ar_table a) ip' \<or>
       arp_lookup (ar_table a') ip' = None)"
  using arp_update_wf [OF assms(1), of ip hw] arp_lookup_update [OF assms(1,2), of hw]
    arp_lookup_other [OF assms(1), of _ ip hw] assms(3,4)
  by (auto simp: runs_iff arp_query_def arp_hop_def)

definition sample_host :: ip_producer where
  "sample_host = (ip_producer_init (ip4_make 10 1 0 1))\<lparr>io_mask := ip4_make 255 255 255 0, io_router := ip4_make 10 1 0 254\<rparr>"

theorem arp_update_query_witness:
  "let ip = ip4_make 10 1 0 2; hw = Mac 1 2 3 4 5 6; a = arp_init 0 1000
   in \<exists>a'. arp_update ip hw a = Some a' \<and> arp_query sample_host a' ip = Some hw \<and> arp_wf (ar_table a')"
  using arp_update_query [of "arp_init 0 1000" "ip4_make 10 1 0 2" sample_host "Mac 1 2 3 4 5 6", OF arp_init_wf]
  by (auto simp: ip4_make_def le32_def ip4_broadcast_def ip_isLocal_def sample_host_def ip_producer_init_def)

text \<open>C33: A request for our address that arrives on a host with a list device is answered by exactly one
  frame, to the hardware address the sender named, with the reply that gives our hardware address; the
  sender's translation is recorded.\<close>
theorem arp_request_answered:
  assumes "28 \<le> unat len" and "unat len \<le> length data" and "arp_opcode data = 1" and "arp_sender data = (shw, sip)"
    and "arp_target data = io_host (n_ip n)" and "42 \<le> unat (l_mtu (n_dev n))" and "arp_wf (ar_table a)" and "sip \<noteq> 0"
  shows "\<exists>n' a'. arp_process list_ops len data n a = Some (Ok, n', a') \<and> arp_lookup (ar_table a') sip = Some shw \<and>
    list_sent (eth_frame shw (eo_host (n_eth n)) ETHTYPE_ARP
      (arp_image 2 (eo_host (n_eth n)) (io_host (n_ip n)) shw sip)) n n'"
proof -
  let ?n = "eth_setDest shw (eth_setType ETHTYPE_ARP n)"
  have s: "n_dev ?n = n_dev n" "n_mem ?n = n_mem n" "eo_dest (n_eth ?n) = shw" "eo_host (n_eth ?n) = eo_host (n_eth n)"
    "eo_type (n_eth ?n) = ETHTYPE_ARP" "n_ip ?n = n_ip n" "list_sent bs ?n n' = list_sent bs n n'" for bs n'
    by (simp_all add: eth_setDest_def eth_setType_def list_sent_def)
  obtain a' where a': "arp_update sip shw a = Some a'" "arp_lookup (ar_table a') sip = Some shw"
    using arp_lookup_update [OF assms(7,8)] by (auto simp: runs_iff)
  show ?thesis
    using arp_send_list [of ?n "arp_image 2 (eo_host (n_eth n)) (io_host (n_ip n)) shw sip"] a' assms
    by (auto simp: arp_process_eq Let_def s)
qed

definition sample_net :: "list_dev net" where
  "sample_net = \<lparr>n_mem = [], n_dev = \<lparr>l_mtu = 1514, l_read = [], l_write = [], l_junk = (\<lambda>b i. 0)\<rparr>,
     n_eth = eth_producer_init (Mac 16 0 0 0 0 1), n_ip = sample_host\<rparr>"

theorem arp_request_answered_witness:
  "let data = arp_image 1 (Mac 16 0 0 0 0 2) (ip4_make 10 1 0 2) mac_empty (ip4_make 10 1 0 1); a = arp_init 0 1000
   in \<exists>n' a'. arp_process list_ops 28 data sample_net a = Some (Ok, n', a') \<and>
     list_sent (eth_frame (Mac 16 0 0 0 0 2) (Mac 16 0 0 0 0 1) ETHTYPE_ARP
       (arp_image 2 (Mac 16 0 0 0 0 1) (ip4_make 10 1 0 1) (Mac 16 0 0 0 0 2) (ip4_make 10 1 0 2))) sample_net n'"
  using arp_request_answered [of 28 "arp_image 1 (Mac 16 0 0 0 0 2) (ip4_make 10 1 0 2) mac_empty (ip4_make 10 1 0 1)"
      "Mac 16 0 0 0 0 2" "ip4_make 10 1 0 2" sample_net "arp_init 0 1000", OF _ _ _ _ _ _ arp_init_wf]
    arp_image_fields [of "arp_image 1 (Mac 16 0 0 0 0 2) (ip4_make 10 1 0 2) mac_empty (ip4_make 10 1 0 1)" 1 "Mac 16 0 0 0 0 2"
      "ip4_make 10 1 0 2" mac_empty "ip4_make 10 1 0 1"]
  by (auto simp: sample_net_def sample_host_def ip_producer_init_def eth_producer_init_def) (simp add: ip4_make_def le32_def, blast)

text \<open>C34: The ageing of an entry whose translation was recorded at tick 136 or later never removes it,
  whatever the current tick: the 8-bit ticks are subtracted as signed integers, so the age of such an
  entry never reaches 120. Before tick 136 it works as meant: the entry goes at the first of the ticks
  from 120 after its own.\<close>
theorem arp_ageing:
  "arp_expire now e = (if ip4_empty (ae_ip e) \<or> ae_time e \<ge> 136 \<or> unat now < unat (ae_time e) + 120
     then e else e\<lparr>ae_ip := 0\<rparr>)"
proof -
  have "ae_time e \<ge> 136 \<longleftrightarrow> unat (ae_time e) \<ge> 136"
    by (simp add: word_le_nat_alt)
  moreover have "int (unat now) - int (unat (ae_time e)) \<ge> ARP_MAX_AGE \<longleftrightarrow> unat now \<ge> unat (ae_time e) + 120"
    by linarith
  ultimately show ?thesis
    using unat_lt8 [of now] unfolding arp_expire_def by auto
qed

text \<open>In a full table of entries recorded one tick after the other, the entry that makes room for a new
  address is the most recent one, while the code means to evict the oldest: the loop that looks for the
  oldest time keeps the time of the last entry.\<close>
theorem arp_evicts_newest:
  "let table = List.map (\<lambda>i. \<lparr>ae_ip = of_nat i + 1, ae_eth = mac_empty, ae_time = of_nat i\<rparr>) [0..<ARP_TABLE_SIZE]
   in arp_wf table \<and> arp_victim table = Some 31 \<and> ae_time (table ! 31) = 31 \<and> ae_time (table ! 0) = 0"
  unfolding Let_def by code_simp

end
