(* ===== verification/Icmp.thy ===== *)
theory Icmp
  imports Arp
begin

text \<open>
  ICMP echo, \<^verbatim>\<open>src/stack/icmpv4/Processor.cpp\<close> and \<^verbatim>\<open>Request.cpp\<close>: the answer to a ping, and the requests
  a host attaches to the processor to ping others.

  A \<^verbatim>\<open>Request\<close> object is a cell of a heap; its address is the index. Deleting it leaves the cell empty.
  All requests of a processor send through the same producers.
\<close>

section \<open>State\<close>

datatype req_state = IDLE | REQUEST | RESPONSE

record icmp_req =
  rq_id :: u16
  rq_state :: req_state
  rq_seq :: u16

record icmp =
  ic_recv :: u64
  ic_sent :: u64
  ic_arp :: bool
  ic_heap :: "icmp_req option list"
  ic_reqs :: "u16 \<rightharpoonup> nat"
  ic_ids :: u16

abbreviation (input) "ECHO_REPLY \<equiv> (0 :: u8)"
abbreviation (input) "ECHO \<equiv> (8 :: u8)"

text \<open>\<open>ic_arp\<close>: whether \<^verbatim>\<open>setARPProcessor\<close> has been called; the pointer is null before.\<close>

definition icmp_init :: icmp where
  "icmp_init = \<lparr>ic_recv = 0, ic_sent = 0, ic_arp = False, ic_heap = [], ic_reqs = Map.empty, ic_ids = 0\<rparr>"

definition icmp_setARPProcessor :: "icmp \<Rightarrow> icmp" where
  "icmp_setARPProcessor ic = ic\<lparr>ic_arp := True\<rparr>"

definition request_new :: "u16 \<Rightarrow> icmp_req" where
  "request_new i = \<lparr>rq_id = i, rq_state = IDLE, rq_seq = 1\<rparr>"

section \<open>Attaching and detaching requests\<close>

definition icmp_attach :: "icmp \<Rightarrow> (nat \<times> icmp) option" where
  "icmp_attach ic =
     (if \<not> ic_arp ic then None
      else let nid = ic_ids ic + 1; r = length (ic_heap ic)
           in Some (r, ic\<lparr>ic_heap := ic_heap ic @ [Some (request_new nid)], ic_reqs := (ic_reqs ic)(nid \<mapsto> r)\<rparr>))"

definition get_req :: "icmp \<Rightarrow> nat \<Rightarrow> icmp_req option" where
  "get_req ic r = (if r < length (ic_heap ic) then ic_heap ic ! r else None)"

definition set_req :: "nat \<Rightarrow> icmp_req option \<Rightarrow> icmp \<Rightarrow> icmp" where
  "set_req r q ic = ic\<lparr>ic_heap := (ic_heap ic)[r := q]\<rparr>"

definition icmp_detach :: "nat \<Rightarrow> icmp \<Rightarrow> icmp option" where
  "icmp_detach r ic = do {
     q \<leftarrow> get_req ic r;
     Some (set_req r None (ic\<lparr>ic_reqs := (ic_reqs ic)(rq_id q := None)\<rparr>))
   }"

section \<open>Processing a message\<close>

text \<open>The reply: the first eight bytes of the request, with the type and the checksum adjusted.\<close>

definition icmp_reply_checksum :: "u16 \<Rightarrow> u16" where
  "icmp_reply_checksum c =
     (if c \<ge> htons (0xFFFF - push_bit 8 (ucast ECHO)) then c + (htons (push_bit 8 (ucast ECHO)) + 1)
      else c + htons (push_bit 8 (ucast ECHO)))"

definition icmp_reply :: "u8 list \<Rightarrow> u8 list" where
  "icmp_reply data = [ECHO_REPLY, data ! 1] @ bytes16 (icmp_reply_checksum (le16 (data ! 2) (data ! 3))) @
     take 4 (drop 4 data)"

text \<open>\<open>hw\<close> and \<open>ip\<close> are the source addresses that the lower processors read; only the 8 bytes of the
  header are looked at.\<close>

definition icmp_process :: "'d device_ops \<Rightarrow> mac \<Rightarrow> ip4 \<Rightarrow> u8 list \<Rightarrow> 'd net \<Rightarrow> icmp \<Rightarrow>
    (status \<times> 'd net \<times> icmp) option" where
  "icmp_process ops hw ip data n ic = do {
     let ic = ic\<lparr>ic_recv := ic_recv ic + 1\<rparr>;
     type \<leftarrow> rd8 data 0;
     if type \<noteq> ECHO \<and> type \<noteq> ECHO_REPLY then Some (ProtocolError, n, ic)
     else if type = ECHO_REPLY
     then do {
       rid \<leftarrow> rd16 data 4;
       case ic_reqs ic rid of
         None \<Rightarrow> Some (ProtocolError, n, ic)
       | Some r \<Rightarrow> do {
           q \<leftarrow> get_req ic r;
           if rq_state q \<noteq> REQUEST then Some (ProtocolError, n, ic)
           else Some (Ok, n, set_req r (Some (q\<lparr>rq_state := RESPONSE\<rparr>)) ic)
         }
     }
     else do {
       let n = eth_setDest hw (ip_setDest ip (ip_setProtocol PROTO_ICMP n));
       (ret, outdata, n) \<leftarrow> ip_prepare ops n;
       if ret \<noteq> Ok then Some (ret, n, ic)
       else if length data < 8 then None
       else do {
         m \<leftarrow> mem_write (n_mem n) outdata (icmp_reply data);
         (st, n) \<leftarrow> ip_commit ops 8 outdata 0 (n\<lparr>n_mem := m\<rparr>);
         Some (st, n, ic\<lparr>ic_sent := ic_sent ic + 1\<rparr>)
       }
     }
   }"

section \<open>Sending a request\<close>

text \<open>The message before its checksum.\<close>

definition icmp_request_image :: "icmp_req \<Rightarrow> u8 list" where
  "icmp_request_image q = [ECHO, 0] @ bytes16 0 @ bytes16 (rq_id q) @ bytes16 (rq_seq q)"

definition icmp_request :: "'d device_ops \<Rightarrow> ip4 \<Rightarrow> nat \<Rightarrow> 'd net \<Rightarrow> arp \<Rightarrow> icmp \<Rightarrow> (status \<times> 'd net \<times> icmp) option" where
  "icmp_request ops dst r n a ic = do {
     q \<leftarrow> get_req ic r;
     if rq_state q = REQUEST then Some (OperationInProgress, n, ic)
     else if rq_state q = RESPONSE
     then Some (OperationCompleted, n, set_req r (Some (q\<lparr>rq_state := IDLE, rq_seq := rq_seq q + 1\<rparr>)) ic)
     else case arp_query (n_ip n) a dst of
         None \<Rightarrow> Some (HardwareTranslationMissing, n, ic)
       | Some deth \<Rightarrow> do {
           let n = ip_setProtocol PROTO_ICMP (ip_setDest dst n);
           (ret, data, n) \<leftarrow> ip_prepare ops n;
           if ret \<noteq> Ok then Some (ret, n, ic)
           else do {
             m \<leftarrow> mem_write (n_mem n) data (icmp_request_image q);
             hdr \<leftarrow> mem_read m data 8;
             c \<leftarrow> icmpv4_checksum hdr;
             m \<leftarrow> st16 m data 2 (NOT c);
             (st, n) \<leftarrow> ip_commit ops 8 data 0 (n\<lparr>n_mem := m\<rparr>);
             Some (st, n, set_req r (Some (q\<lparr>rq_state := REQUEST\<rparr>)) ic)
           }
         }
   }"

section \<open>The checksum of a reply\<close>

lemma length_icmp_reply [simp]: "8 \<le> length data \<Longrightarrow> length (icmp_reply data) = 8"
  by (simp add: icmp_reply_def)

lemma words_sum_bytes16: "words_sum (bytes16 w @ xs) = unat (htons w) + words_sum xs"
  by (simp add: bytes16_def flip: unat_be16 be16_bytes16)

lemma bytes16_le16: "bytes16 (le16 a b) = [a, b]"
  by (auto simp: bytes16_def le16_def intro!: bit_word_eqI simp: bit_simps)
    (drule bit_imp_le_length, simp)

lemma icmp_reply_checksum_mod:
  "unat (icmp_reply_checksum c) mod 65535 = (unat c + 8) mod 65535"
proof -
  have h: "htons 63487 = 0xFFF7" "htons 2048 = 8"
    by (simp_all add: htons_def)
  show ?thesis
  proof (cases "c \<ge> 0xFFF7")
    case True
    then have c: "65527 \<le> unat c" "unat c < 65536"
      using unat_lt16 [of c] by (simp_all add: word_le_nat_alt)
    have "unat (c + 9) = unat c + 9 - 65536"
      using c by (simp add: unat_word_ariths mod_if)
    then have "unat (c + 9) + 65535 = unat c + 8"
      using c by linarith
    then have "unat (c + 9) mod 65535 = (unat c + 8) mod 65535"
      by (metis mod_add_self2)
    then show ?thesis
      using True by (simp add: icmp_reply_checksum_def h)
  next
    case False
    then have "unat c < 65527"
      by (simp add: word_le_nat_alt not_le)
    then have "unat (c + 8) = unat c + 8"
      by (simp add: unat_word_ariths)
    then show ?thesis
      using False by (simp add: icmp_reply_checksum_def h)
  qed
qed

text \<open>Of any message, however long, whose first eight bytes are those of an echo request: with the reply
  in their place the sum is the same.\<close>

lemma words_sum_reply:
  assumes "8 \<le> length data" and "data ! 0 = ECHO"
  shows "words_sum (icmp_reply data @ drop 8 data) mod 65535 = words_sum data mod 65535"
proof -
  obtain b c d rest where data: "data = [ECHO, b, c, d] @ rest" and r: "4 \<le> length rest"
    using assms by (cases data; cases "tl data"; cases "tl (tl data)"; cases "tl (tl (tl data))") auto
  let ?c = "le16 c d"
  have cd: "[c, d] = bytes16 ?c"
    by (simp add: bytes16_le16)
  have reply: "icmp_reply data @ drop 8 data = [ECHO_REPLY, b] @ bytes16 (icmp_reply_checksum ?c) @ rest"
    using r by (simp add: icmp_reply_def data)
  have "words_sum data = 2048 + unat b + (unat (htons ?c) + words_sum rest)"
    unfolding data using words_sum_bytes16 [of ?c rest] by (simp add: bytes16_le16)
  moreover have "words_sum (icmp_reply data @ drop 8 data) = unat b + (unat (htons (icmp_reply_checksum ?c)) + words_sum rest)"
    unfolding reply using words_sum_bytes16 [of "icmp_reply_checksum ?c" rest] by simp
  moreover have "unat (htons (icmp_reply_checksum ?c)) mod 65535 = (2048 + unat (htons ?c)) mod 65535"
  proof -
    have "unat (htons (icmp_reply_checksum ?c)) mod 65535 = 256 * (unat (icmp_reply_checksum ?c) mod 65535) mod 65535"
      by (simp add: htons_mod mod_mult_right_eq)
    also have "\<dots> = (2048 + 256 * unat ?c) mod 65535"
      by (simp add: icmp_reply_checksum_mod mod_mult_right_eq add.commute)
    also have "\<dots> = (2048 + unat (htons ?c)) mod 65535"
      by (metis htons_mod mod_add_right_eq)
    finally show ?thesis .
  qed
  then have "(unat (htons (icmp_reply_checksum ?c)) + (unat b + words_sum rest)) mod 65535 =
      ((2048 + unat (htons ?c)) + (unat b + words_sum rest)) mod 65535"
    by (rule mod_add_cong) simp
  ultimately show ?thesis
    by (simp only: ac_simps)
qed

lemma icmpv4_checksum_eq: "8 \<le> length data \<Longrightarrow> icmpv4_checksum data = Some (csum_result (csum_loop 0 (take 8 data)))"
  by (simp add: icmpv4_checksum_def checksum_def)

lemma csum_result_ok: "csum_result (csum_loop 0 xs) = 0xFFFF \<longleftrightarrow> words_sum xs mod 65535 = 0"
proof -
  have "csum_result s = 0xFFFF \<longleftrightarrow> unat s = 0 \<or> unat s = 65535" for s
  proof -
    have "htons s = 0xFFFF \<longleftrightarrow> s = 0xFFFF"
    proof -
      have "htons 0xFFFF = 0xFFFF"
        by code_simp
      then show ?thesis
        by (metis htons_eq_iff)
    qed
    then show ?thesis
      by (simp add: csum_result_def word_unat_eq_iff)
  qed
  moreover have "unat (csum_loop 0 xs) = oc (words_sum xs)"
    by (simp add: unat_csum_loop)
  moreover have "oc n = 0 \<or> oc n = 65535 \<longleftrightarrow> n mod 65535 = 0" for n
    by (cases n) (auto simp: oc_def mod_Suc)
  ultimately show ?thesis
    by simp
qed

section \<open>Properties\<close>

lemma icmp_send_list:
  assumes mtu: "42 \<le> unat (l_mtu (n_dev n))" and len: "length body = 8"
  shows "\<exists>p n' n''. ip_prepare list_ops n = Some (Ok, p, n') \<and>
    (\<exists>m. mem_write (n_mem n') p body = Some m \<and> ip_commit list_ops 8 p 0 (n'\<lparr>n_mem := m\<rparr>) = Some (Ok, n'')) \<and>
    list_sent (eth_frame (eo_dest (n_eth n)) (eo_host (n_eth n)) ETHTYPE_IP (ip_header (ip_next n) 28 @ body)) n n''"
proof -
  let ?h = "eth_frame (eo_dest (n_eth n)) (eo_host (n_eth n)) ETHTYPE_IP"
  obtain blk where blk: "length blk = 4 + unat (l_mtu (n_dev n))"
    and p: "ip_prepare list_ops n = Some (Ok, Ptr (length (n_mem n)) 38, n\<lparr>n_mem := n_mem n @ [patch blk 4 (?h (ip_header_image (ip_next n)))],
      n_eth := (n_eth n)\<lparr>eo_type := ETHTYPE_IP\<rparr>, n_ip := ip_next n\<rparr>)"
    using list_ip_prepare [of n] mtu by auto
  have "patch (patch blk 4 (?h (ip_header_image (ip_next n)))) 38 body = patch blk 4 (?h (ip_header_image (ip_next n)) @ body)"
    by (rule patch_right') (use blk mtu len in simp_all)
  then have w: "mem_write (n_mem n @ [patch blk 4 (?h (ip_header_image (ip_next n)))]) (Ptr (length (n_mem n)) 38) body =
      Some (n_mem n @ [patch blk 4 (?h (ip_header_image (ip_next n) @ body))])"
    using blk mtu len by (simp add: last_block_write eth_frame_def)
  show ?thesis
    using list_ip_commit [of body blk 8 "n\<lparr>n_eth := (n_eth n)\<lparr>eo_type := ETHTYPE_IP\<rparr>, n_ip := ip_next n,
        n_mem := n_mem n @ [patch blk 4 (?h (ip_header_image (ip_next n) @ body))]\<rparr>" n "eo_dest (n_eth n)" "eo_host (n_eth n)" ETHTYPE_IP "ip_next n" 0]
      blk mtu len p w by auto
qed

text \<open>C35: A host with a list device answers an echo request with exactly one frame, to the addresses the
  request came from, whose IP header has a checksum that verifies and whose ICMP message repeats the
  header of the request as an echo reply; if the checksum of the request header verifies, so does that
  of the reply.\<close>
theorem icmp_echo_answered:
  assumes "8 \<le> length data" and "data ! 0 = ECHO" and "42 \<le> unat (l_mtu (n_dev n))"
  shows "\<exists>n' ic' hdr. icmp_process list_ops hw ip data n ic = Some (Ok, n', ic') \<and>
    ic_sent ic' = ic_sent ic + 1 \<and> ic_recv ic' = ic_recv ic + 1 \<and> ic_heap ic' = ic_heap ic \<and>
    list_sent (eth_frame hw (eo_host (n_eth n)) ETHTYPE_IP (hdr @ icmp_reply data)) n n' \<and>
    ipv4_checksum hdr = Some 0xFFFF \<and> icmp_reply data ! 0 = ECHO_REPLY \<and> drop 4 (icmp_reply data) = take 4 (drop 4 data) \<and>
    (icmpv4_checksum data = Some 0xFFFF \<longrightarrow> icmpv4_checksum (icmp_reply data) = Some 0xFFFF)"
proof -
  let ?n = "eth_setDest hw (ip_setDest ip (ip_setProtocol PROTO_ICMP n))"
  have s: "n_dev ?n = n_dev n" "n_mem ?n = n_mem n" "eo_dest (n_eth ?n) = hw" "eo_host (n_eth ?n) = eo_host (n_eth n)"
    "list_sent bs ?n n' = list_sent bs n n'" for bs n'
    by (simp_all add: eth_setDest_def ip_setDest_def ip_setProtocol_def list_sent_def)
  have "words_sum (icmp_reply (take 8 data) @ drop 8 (take 8 data)) mod 65535 = words_sum (take 8 data) mod 65535"
    using assms by (intro words_sum_reply) simp_all
  moreover have "icmp_reply (take 8 data) = icmp_reply data"
    using assms(1) by (simp add: icmp_reply_def take_drop min_def)
  ultimately have "icmpv4_checksum data = Some 0xFFFF \<longrightarrow> icmpv4_checksum (icmp_reply data) = Some 0xFFFF"
    using assms(1) by (simp add: icmpv4_checksum_eq csum_result_ok)
  then show ?thesis
    using icmp_send_list [of ?n "icmp_reply data"] assms ip_header_verifies [of "ip_next ?n" 28]
    by (auto simp: icmp_process_def Let_def s icmp_reply_def rd8_def)
qed

theorem icmp_echo_answered_witness:
  "let data = [ECHO, 0, 0xF7, 0xFF, 0, 0, 0, 0]
   in \<exists>n' ic' hdr. icmp_process list_ops (Mac 16 0 0 0 0 2) (ip4_make 10 1 0 2) data sample_net icmp_init = Some (Ok, n', ic') \<and>
     list_sent (eth_frame (Mac 16 0 0 0 0 2) (Mac 16 0 0 0 0 1) ETHTYPE_IP (hdr @ [0, 0, 0, 0, 0, 0, 0, 0])) sample_net n'"
proof -
  have "icmp_reply [ECHO, 0, 0xF7, 0xFF, 0, 0, 0, 0] = [0, 0, 0, 0, 0, 0, 0, 0]"
    by code_simp
  moreover have "eo_host (n_eth sample_net) = Mac 16 0 0 0 0 1"
    by (simp add: sample_net_def eth_producer_init_def)
  ultimately show ?thesis
    using icmp_echo_answered [of "[ECHO, 0, 0xF7, 0xFF, 0, 0, 0, 0]" sample_net "Mac 16 0 0 0 0 2" "ip4_make 10 1 0 2" icmp_init]
    by (auto simp: sample_net_def)
qed

text \<open>The reply to a ping that carries data does not have the data, while its checksum is adjusted as if it
  had: the whole request verifies, and what is sent in reply does not.\<close>
theorem icmp_reply_loses_data:
  "let ping = [ECHO, 0, 0xF7, 0xFE, 0, 0, 0, 0, 0, 1]
   in words_sum ping mod 65535 = 0 \<and> words_sum (icmp_reply ping) mod 65535 \<noteq> 0 \<and>
      words_sum (icmp_reply ping @ drop 8 ping) mod 65535 = 0"
  by (simp add: icmp_reply_def icmp_reply_checksum_def le16_def htons_def bytes16_def)

text \<open>Sending a ping: an idle request whose destination has a translation sends one frame, whose message
  carries the identifier and sequence number of the request and verifies, and waits for the reply. The
  frame goes to the hardware address of the previous frame, not to the translation of the
  destination, which is looked up and then not used.\<close>
theorem icmp_request_sends:
  assumes "get_req ic r = Some q" and "rq_state q = IDLE" and "arp_query (n_ip n) a dst = Some deth"
    and "42 \<le> unat (l_mtu (n_dev n))"
  shows "\<exists>n' ic' hdr msg. icmp_request list_ops dst r n a ic = Some (Ok, n', ic') \<and>
    get_req ic' r = Some (q\<lparr>rq_state := REQUEST\<rparr>) \<and>
    list_sent (eth_frame (eo_dest (n_eth n)) (eo_host (n_eth n)) ETHTYPE_IP (hdr @ msg)) n n' \<and>
    length msg = 8 \<and> ipv4_checksum hdr = Some 0xFFFF \<and> icmpv4_checksum msg = Some 0xFFFF \<and>
    msg ! 0 = ECHO \<and> drop 4 msg = bytes16 (rq_id q) @ bytes16 (rq_seq q)"
proof -
  let ?n = "ip_setProtocol PROTO_ICMP (ip_setDest dst n)" and ?i = "icmp_request_image q"
  let ?msg = "patch ?i 2 (bytes16 (NOT (csum_result (csum_loop 0 ?i))))"
  have i: "length ?i = 8" "?i ! 2 = 0" "?i ! 3 = 0" "words_sum ?i > 0"
    by (simp_all add: icmp_request_image_def bytes16_def)
  have verifies: "icmpv4_checksum ?msg = Some 0xFFFF"
    using csum_complement [of 2 ?i 0] i by (simp add: icmpv4_checksum_eq csum_result_def htons_def)
  have fields: "?msg ! 0 = ECHO" "drop 4 ?msg = bytes16 (rq_id q) @ bytes16 (rq_seq q)"
    by (simp_all add: icmp_request_image_def patch_def bytes16_def)
  have s: "n_dev ?n = n_dev n" "n_mem ?n = n_mem n" "n_eth ?n = n_eth n" "list_sent bs ?n n' = list_sent bs n n'" for bs n'
    by (simp_all add: ip_setDest_def ip_setProtocol_def list_sent_def)
  obtain p n' n'' m where p: "ip_prepare list_ops ?n = Some (Ok, p, n')" "mem_write (n_mem n') p ?msg = Some m"
    and c: "ip_commit list_ops 8 p 0 (n'\<lparr>n_mem := m\<rparr>) = Some (Ok, n'')"
    and sent: "list_sent (eth_frame (eo_dest (n_eth n)) (eo_host (n_eth n)) ETHTYPE_IP (ip_header (ip_next ?n) 28 @ ?msg)) n n''"
    using icmp_send_list [of ?n ?msg] assms(4) i(1) by (auto simp: s)
  have v: "valid (n_mem n') p 8" and m: "m = mem_upd (n_mem n') p ?msg"
    using p(2) i(1) by (auto simp: mem_write_def split: if_splits)
  have w: "mem_write (n_mem n') p ?i = Some (mem_upd (n_mem n') p ?i)"
      "st16 (mem_upd (n_mem n') p ?i) p 2 (NOT (csum_result (csum_loop 0 ?i))) = Some m"
    using v i(1) st_valid(2) [of "mem_upd (n_mem n') p ?i" p 8 2] upd_inside [of "n_mem n'" p ?i 2]
    by (simp_all add: mem_write_def m)
  have r: "r < length (ic_heap ic)"
    using assms(1) by (auto simp: get_req_def split: if_splits)
  have "icmp_request list_ops dst r n a ic = Some (Ok, n'', set_req r (Some (q\<lparr>rq_state := REQUEST\<rparr>)) ic)"
    using assms p w c i(1) v by (simp add: icmp_request_def Let_def icmpv4_checksum_eq mem_read_def)
  then show ?thesis
    using verifies fields sent ip_header_verifies [of "ip_next ?n" 28] r i(1)
    by (intro exI [of _ n''] exI [of _ "set_req r (Some (q\<lparr>rq_state := REQUEST\<rparr>)) ic"] exI [of _ "ip_header (ip_next ?n) 28"] exI [of _ ?msg])
      (simp add: get_req_def set_req_def)
qed

theorem icmp_request_sends_witness:
  "let ic = set_req 0 (Some (request_new 1)) (icmp_init\<lparr>ic_heap := [None]\<rparr>)
   in \<exists>n' ic'. icmp_request list_ops ip4_broadcast 0 sample_net (arp_init 0 1000) ic = Some (Ok, n', ic') \<and>
     get_req ic' 0 = Some ((request_new 1)\<lparr>rq_state := REQUEST\<rparr>)"
proof -
  let ?ic = "set_req 0 (Some (request_new 1)) (icmp_init\<lparr>ic_heap := [None]\<rparr>)"
  have "get_req ?ic 0 = Some (request_new 1)" "rq_state (request_new 1) = IDLE"
      "arp_query (n_ip sample_net) (arp_init 0 1000) ip4_broadcast = Some mac_broadcast" "42 \<le> unat (l_mtu (n_dev sample_net))"
    by (simp_all add: get_req_def set_req_def icmp_init_def request_new_def arp_query_def sample_net_def)
  from icmp_request_sends [OF this] show ?thesis
    unfolding Let_def by blast
qed

text \<open>Two requests attached to the same processor get the same identifier, and a reply completes only the
  one attached last; detaching the first then leaves replies to the second unrecognised.\<close>
theorem icmp_attach_shares_id:
  "\<exists>ic1 ic2 ic3 q1 q2. icmp_attach (icmp_setARPProcessor icmp_init) = Some (0, ic1) \<and> icmp_attach ic1 = Some (1, ic2) \<and>
     get_req ic2 0 = Some q1 \<and> get_req ic2 1 = Some q2 \<and> rq_id q1 = rq_id q2 \<and> ic_reqs ic2 (rq_id q1) = Some 1 \<and>
     icmp_detach 0 ic2 = Some ic3 \<and> get_req ic3 1 = Some q2 \<and> ic_reqs ic3 (rq_id q2) = None"
  by (simp add: icmp_attach_def icmp_setARPProcessor_def icmp_init_def get_req_def request_new_def icmp_detach_def set_req_def Let_def)

end
