(* ===== verification/Stack.thy ===== *)
theory Stack
  imports TcpSystem Arp Icmp
begin

text \<open>
  The receiving half below the transport protocols (\<^verbatim>\<open>stack/ethernet/Processor.cpp\<close>,
  \<^verbatim>\<open>stack/ipv4/Processor.cpp\<close>) and the whole stack as the client and the server wire it: the Ethernet
  processor over ARP and IPv4, the IPv4 processor over TCP and ICMP, all of them sending through the
  producers in \<open>t_net\<close> of the TCP processor. The raw processors of client and server answer \<^verbatim>\<open>Ok\<close>.
\<close>

section \<open>State\<close>

record eth_processor =
  ep_host :: mac
  ep_srce :: mac
  ep_dest :: mac
  ep_type :: u16

record ip_stats =
  is_drop :: u64
  is_recv :: u64
  is_vhlerr :: u64
  is_lenerr :: u64
  is_frgerr :: u64
  is_chkerr :: u64

record ip_processor =
  ip_host :: ip4
  ip_srce :: ip4
  ip_dest :: ip4
  ip_proto :: u8
  ip_stats :: ip_stats

record ('d, 'h) stack =
  k_ethfrom :: eth_processor
  k_ip4from :: ip_processor
  k_arp :: arp
  k_icmp :: icmp
  k_tcp :: "('d, 'h) tcp"

definition eth_processor_init :: "mac \<Rightarrow> eth_processor" where
  "eth_processor_init ha = \<lparr>ep_host = ha, ep_srce = mac_empty, ep_dest = mac_empty, ep_type = 0\<rparr>"

definition ip_processor_init :: "ip4 \<Rightarrow> ip_processor" where
  "ip_processor_init ha = \<lparr>ip_host = ha, ip_srce = 0, ip_dest = 0, ip_proto = 0,
     ip_stats = \<lparr>is_drop = 0, is_recv = 0, is_vhlerr = 0, is_lenerr = 0, is_frgerr = 0, is_chkerr = 0\<rparr>\<rparr>"

definition on_ip_stats :: "(ip_stats \<Rightarrow> ip_stats) \<Rightarrow> ('d, 'h) stack \<Rightarrow> ('d, 'h) stack" where
  "on_ip_stats f k = k\<lparr>k_ip4from := (k_ip4from k)\<lparr>ip_stats := f (ip_stats (k_ip4from k))\<rparr>\<rparr>"

abbreviation (input) k_net :: "('d, 'h) stack \<Rightarrow> 'd net" where
  "k_net k \<equiv> t_net (k_tcp k)"

text \<open>A sub-processor that uses the shared producers.\<close>

definition k_set_net :: "'d net \<Rightarrow> ('d, 'h) stack \<Rightarrow> ('d, 'h) stack" where
  "k_set_net n k = k\<lparr>k_tcp := (k_tcp k)\<lparr>t_net := n\<rparr>\<rparr>"

text \<open>What the TCP and ICMP processors ask the lower ones for.\<close>

definition k_rx :: "('d, 'h) stack \<Rightarrow> rx_info" where
  "k_rx k = \<lparr>rx_eth = ep_srce (k_ethfrom k), rx_src = ip_srce (k_ip4from k), rx_dst = ip_dest (k_ip4from k)\<rparr>"

section \<open>Construction\<close>

text \<open>The common part of the constructors of the client and of the server: the producers, the processors
  and their wiring. The default router and the network mask are set after TCP has been constructed.\<close>

definition stack_new :: "'d device_ops \<Rightarrow> mac \<Rightarrow> ip4 \<Rightarrow> ip4 \<Rightarrow> ip4 \<Rightarrow> mem \<Rightarrow> 'd \<Rightarrow> 'h \<Rightarrow> u64 \<Rightarrow> u64 \<Rightarrow> u64 \<Rightarrow> u64 \<Rightarrow>
    ('d, 'h) stack option" where
  "stack_new ops hw ip gateway netmask m d h nconn now now' cps = do {
     let n = \<lparr>n_mem = m, n_dev = d, n_eth = eth_producer_init hw, n_ip = ip_producer_init ip\<rparr>;
     let arp = arp_init now cps;
     t \<leftarrow> tcp_create ops n h nconn now' cps;
     let t = on_net (\<lambda>n. ip_setNetMask netmask (ip_setRouter gateway n)) t;
     Some \<lparr>k_ethfrom = eth_processor_init hw, k_ip4from = ip_processor_init ip, k_arp = arp, k_icmp = icmp_init, k_tcp = t\<rparr>
   }"

section \<open>IPv4\<close>

definition ip_process :: "'d device_ops \<Rightarrow> 'h handler_ops \<Rightarrow> u16 \<Rightarrow> u8 list \<Rightarrow> ('d, 'h) stack \<Rightarrow>
    (status \<times> ('d, 'h) stack) option" where
  "ip_process ops ev len data k = do {
     let k = on_ip_stats (\<lambda>s. s\<lparr>is_recv := is_recv s + 1\<rparr>) k;
     vhl \<leftarrow> rd8 data 0;
     if vhl \<noteq> 0x45
     then Some (ProtocolError, on_ip_stats (\<lambda>s. s\<lparr>is_drop := is_drop s + 1, is_vhlerr := is_vhlerr s + 1\<rparr>) k)
     else do {
       off0 \<leftarrow> rd8 data 6;
       off1 \<leftarrow> rd8 data 7;
       if off0 AND 0x3F \<noteq> 0 \<or> off1 \<noteq> 0
       then Some (ProtocolError, on_ip_stats (\<lambda>s. s\<lparr>is_drop := is_drop s + 1, is_frgerr := is_frgerr s + 1\<rparr>) k)
       else do {
         dest \<leftarrow> rd32 data 16;
         if dest \<noteq> ip_host (k_ip4from k)
         then Some (ProtocolError, on_ip_stats (\<lambda>s. s\<lparr>is_drop := is_drop s + 1\<rparr>) k)
         else do {
           sum \<leftarrow> ipv4_checksum data;
           if sum \<noteq> 0xFFFF
           then Some (CorruptedData, on_ip_stats (\<lambda>s. s\<lparr>is_drop := is_drop s + 1, is_chkerr := is_chkerr s + 1\<rparr>) k)
           else do {
             tot \<leftarrow> rd16 data 2;
             let iplen = ntohs tot - 20;
             srce \<leftarrow> rd32 data 12;
             proto \<leftarrow> rd8 data 9;
             let k = k\<lparr>k_ip4from := (k_ip4from k)\<lparr>ip_srce := srce, ip_dest := dest, ip_proto := proto\<rparr>\<rparr>;
             if proto = PROTO_TCP
             then do {
               (ret, t) \<leftarrow> tcp_process ops ev (k_rx k) iplen (drop 20 data) (k_tcp k);
               Some (ret, k\<lparr>k_tcp := t\<rparr>)
             }
             else if proto = PROTO_ICMP
             then do {
               (ret, n, ic) \<leftarrow> icmp_process ops (rx_eth (k_rx k)) (rx_src (k_rx k)) (drop 20 data) (k_net k) (k_icmp k);
               Some (ret, k_set_net n (k\<lparr>k_icmp := ic\<rparr>))
             }
             else if proto = PROTO_TEST then Some (Ok, k)
             else Some (UnsupportedProtocol, k)
           }
         }
       }
     }
   }"

text \<open>The ICMP and the raw processor have nothing to do in \<^verbatim>\<open>run\<close>.\<close>

definition ip_run :: "'d device_ops \<Rightarrow> 'h handler_ops \<Rightarrow> u64 \<Rightarrow> u64 \<Rightarrow> ('d, 'h) stack \<Rightarrow> (status \<times> ('d, 'h) stack) option" where
  "ip_run ops ev now now' k = do {
     (ret, t) \<leftarrow> tcp_run ops ev now now' (k_tcp k);
     Some (ret, k\<lparr>k_tcp := t\<rparr>)
   }"

section \<open>Ethernet\<close>

definition eth_process :: "'d device_ops \<Rightarrow> 'h handler_ops \<Rightarrow> u16 \<Rightarrow> u8 list \<Rightarrow> ('d, 'h) stack \<Rightarrow>
    (status \<times> ('d, 'h) stack) option" where
  "eth_process ops ev len data k = do {
     srce \<leftarrow> mac_of data 6;
     dest \<leftarrow> mac_of data 0;
     type \<leftarrow> rd16 data 12;
     let k = k\<lparr>k_ethfrom := (k_ethfrom k)\<lparr>ep_srce := srce, ep_dest := dest, ep_type := ntohs type\<rparr>\<rparr>;
     if ntohs type = ETHTYPE_ARP
     then do {
       (ret, n, a) \<leftarrow> arp_process ops (len - 14) (drop 14 data) (k_net k) (k_arp k);
       Some (ret, k_set_net n (k\<lparr>k_arp := a\<rparr>))
     }
     else if ntohs type = ETHTYPE_IP then ip_process ops ev (len - 14) (drop 14 data) k
     else if ntohs type \<le> 1500 then Some (Ok, k)
     else Some (UnsupportedProtocol, k)
   }"

definition eth_run :: "'d device_ops \<Rightarrow> 'h handler_ops \<Rightarrow> u64 \<times> u64 \<Rightarrow> u64 \<times> u64 \<Rightarrow> ('d, 'h) stack \<Rightarrow>
    (status \<times> ('d, 'h) stack) option" where
  "eth_run ops ev anow tnow k = do {
     let k = k\<lparr>k_ethfrom := (k_ethfrom k)\<lparr>ep_srce := mac_empty, ep_dest := mac_empty, ep_type := 0\<rparr>\<rparr>;
     let (ret, a) = arp_run (fst anow) (snd anow) (k_arp k);
     let k = k\<lparr>k_arp := a\<rparr>;
     if ret \<noteq> Ok then Some (ret, k) else ip_run ops ev (fst tnow) (snd tnow) k
   }"

section \<open>Which packets the IPv4 processor accepts\<close>

definition ip_valid :: "ip4 \<Rightarrow> u8 list \<Rightarrow> bool" where
  "ip_valid host data \<longleftrightarrow> data ! 0 = 0x45 \<and> (data ! 6) AND 0x3F = 0 \<and> data ! 7 = 0 \<and>
     le32 (data ! 16) (data ! 17) (data ! 18) (data ! 19) = host \<and> ipv4_checksum data = Some 0xFFFF"

definition ip_source :: "u8 list \<Rightarrow> ip4" where
  "ip_source data = le32 (data ! 12) (data ! 13) (data ! 14) (data ! 15)"

definition ip_length :: "u8 list \<Rightarrow> u16" where
  "ip_length data = ntohs (le16 (data ! 2) (data ! 3)) - 20"

definition frame_type :: "u8 list \<Rightarrow> u16" where
  "frame_type data = ntohs (le16 (data ! 12) (data ! 13))"

definition frame_source :: "u8 list \<Rightarrow> mac" where
  "frame_source data = Mac (data ! 6) (data ! 7) (data ! 8) (data ! 9) (data ! 10) (data ! 11)"

definition frame_dest :: "u8 list \<Rightarrow> mac" where
  "frame_dest data = Mac (data ! 0) (data ! 1) (data ! 2) (data ! 3) (data ! 4) (data ! 5)"

text \<open>The state in which a protocol sees its packet.\<close>

definition k_heard :: "mac \<Rightarrow> mac \<Rightarrow> u16 \<Rightarrow> ('d, 'h) stack \<Rightarrow> ('d, 'h) stack" where
  "k_heard srce dest type k = k\<lparr>k_ethfrom := (k_ethfrom k)\<lparr>ep_srce := srce, ep_dest := dest, ep_type := type\<rparr>\<rparr>"

definition k_taken :: "u8 list \<Rightarrow> ('d, 'h) stack \<Rightarrow> ('d, 'h) stack" where
  "k_taken data k = (let k = on_ip_stats (\<lambda>s. s\<lparr>is_recv := is_recv s + 1\<rparr>) k
     in k\<lparr>k_ip4from := (k_ip4from k)\<lparr>ip_srce := ip_source data, ip_dest := ip_host (k_ip4from k), ip_proto := data ! 9\<rparr>\<rparr>)"

lemma k_heard_sel [simp]:
  "k_ip4from (k_heard a b c k) = k_ip4from k" "k_arp (k_heard a b c k) = k_arp k" "k_icmp (k_heard a b c k) = k_icmp k"
  "k_tcp (k_heard a b c k) = k_tcp k" "ep_srce (k_ethfrom (k_heard a b c k)) = a"
  by (simp_all add: k_heard_def)

lemma k_set_net_sel [simp]:
  "k_ip4from (k_set_net n k) = k_ip4from k" "k_arp (k_set_net n k) = k_arp k" "k_icmp (k_set_net n k) = k_icmp k"
  "k_tcp (k_set_net n k) = (k_tcp k)\<lparr>t_net := n\<rparr>" "k_ethfrom (k_set_net n k) = k_ethfrom k"
  by (simp_all add: k_set_net_def)

lemma on_ip_stats_sel [simp]:
  "k_arp (on_ip_stats f k) = k_arp k" "k_icmp (on_ip_stats f k) = k_icmp k" "k_tcp (on_ip_stats f k) = k_tcp k"
  "k_ethfrom (on_ip_stats f k) = k_ethfrom k" "ip_host (k_ip4from (on_ip_stats f k)) = ip_host (k_ip4from k)"
  by (simp_all add: on_ip_stats_def)

lemma k_taken_sel [simp]:
  "k_arp (k_taken data k) = k_arp k" "k_icmp (k_taken data k) = k_icmp k" "k_tcp (k_taken data k) = k_tcp k"
  "k_ethfrom (k_taken data k) = k_ethfrom k" "ip_host (k_ip4from (k_taken data k)) = ip_host (k_ip4from k)"
  "ip_srce (k_ip4from (k_taken data k)) = ip_source data" "ip_dest (k_ip4from (k_taken data k)) = ip_host (k_ip4from k)"
  "ip_proto (k_ip4from (k_taken data k)) = data ! 9"
  by (simp_all add: k_taken_def Let_def)

lemma mac_of_in: "i + 6 \<le> length xs \<Longrightarrow> mac_of xs i = Some (Mac (xs ! i) (xs ! (i + 1)) (xs ! (i + 2)) (xs ! (i + 3)) (xs ! (i + 4)) (xs ! (i + 5)))"
  by (simp add: rd8_def)

lemma ip_reads:
  assumes "20 \<le> length data"
  shows "rd8 data 0 = Some (data ! 0)" "rd8 data 6 = Some (data ! 6)" "rd8 data 7 = Some (data ! 7)"
    "rd8 data 9 = Some (data ! 9)" "rd16 data 2 = Some (le16 (data ! 2) (data ! 3))"
    "rd32 data 12 = Some (ip_source data)" "rd32 data 16 = Some (le32 (data ! 16) (data ! 17) (data ! 18) (data ! 19))"
proof -
  have "0 < length data"
    using assms by linarith
  then show "rd8 data 0 = Some (data ! 0)" "rd8 data 6 = Some (data ! 6)" "rd8 data 7 = Some (data ! 7)"
    "rd8 data 9 = Some (data ! 9)" "rd16 data 2 = Some (le16 (data ! 2) (data ! 3))"
    "rd32 data 12 = Some (ip_source data)" "rd32 data 16 = Some (le32 (data ! 16) (data ! 17) (data ! 18) (data ! 19))"
    using assms by (simp_all add: rd8_def rd16_def rd32_def ip_source_def)
qed

text \<open>A packet that is rejected changes the counters only.\<close>

lemma ip_process_rejects:
  assumes "20 \<le> length data" and "\<not> ip_valid (ip_host (k_ip4from k)) data"
  shows "\<exists>st f. st \<in> {ProtocolError, CorruptedData} \<and> ip_process ops ev len data k = Some (st, on_ip_stats f k)"
proof -
  obtain c where c: "ipv4_checksum data = Some c"
    using assms(1) by (simp add: ipv4_checksum_def checksum_def)
  have step: "on_ip_stats g (on_ip_stats f k) = on_ip_stats (\<lambda>s. g (f s)) k" for g f and k :: "('a, 'b) stack"
    by (simp add: on_ip_stats_def)
  show ?thesis
    using assms(2) c
    by (auto simp: ip_process_def ip_valid_def Let_def ip_reads [OF assms(1)] step)
qed

lemma ip_process_accepts:
  assumes "20 \<le> length data" and "ip_valid (ip_host (k_ip4from k)) data"
  shows "ip_process ops ev len data k = (let k' = k_taken data k in
    if data ! 9 = PROTO_TCP
    then map_option (\<lambda>(st, t). (st, k'\<lparr>k_tcp := t\<rparr>)) (tcp_process ops ev (k_rx k') (ip_length data) (drop 20 data) (k_tcp k))
    else if data ! 9 = PROTO_ICMP
    then map_option (\<lambda>(st, n, ic). (st, k_set_net n (k'\<lparr>k_icmp := ic\<rparr>)))
      (icmp_process ops (ep_srce (k_ethfrom k)) (ip_source data) (drop 20 data) (k_net k) (k_icmp k))
    else Some (if data ! 9 = PROTO_TEST then Ok else UnsupportedProtocol, k'))"
  using assms(2)
  by (simp add: ip_process_def ip_valid_def Let_def k_taken_def k_rx_def ip_length_def ip_reads [OF assms(1)]
      map_option_case on_ip_stats_def split: option.split)

lemma eth_process_eq:
  assumes "14 \<le> length data"
  shows "eth_process ops ev len data k = (let k' = k_heard (frame_source data) (frame_dest data) (frame_type data) k in
    if frame_type data = ETHTYPE_ARP
    then map_option (\<lambda>(st, n, a). (st, k_set_net n (k'\<lparr>k_arp := a\<rparr>))) (arp_process ops (len - 14) (drop 14 data) (k_net k) (k_arp k))
    else if frame_type data = ETHTYPE_IP then ip_process ops ev (len - 14) (drop 14 data) k'
    else Some (if frame_type data \<le> 1500 then Ok else UnsupportedProtocol, k'))"
  using assms
  by (simp add: eth_process_def mac_of_in Let_def k_heard_def frame_source_def frame_dest_def frame_type_def
      map_option_case numeral_2_eq_2 del: mac_of.simps split: option.split)

section \<open>Every frame and every tick is handled\<close>

text \<open>What the stack takes for granted of an incoming frame: it is all there, an accepted TCP packet carries an
  admissible segment, and an accepted ICMP packet an ICMP header.\<close>

definition ip_wf :: "u8 list \<Rightarrow> ('d, 'h) stack \<Rightarrow> bool" where
  "ip_wf data k \<longleftrightarrow> 20 \<le> length data \<and> (ip_valid (ip_host (k_ip4from k)) data \<longrightarrow>
     (if data ! 9 = PROTO_TCP then admissible (Segment (k_rx k) (ip_length data) (drop 20 data)) (k_tcp k)
      else data ! 9 = PROTO_ICMP \<longrightarrow> 28 \<le> length data))"

definition frame_wf :: "u16 \<Rightarrow> u8 list \<Rightarrow> ('d, 'h) stack \<Rightarrow> bool" where
  "frame_wf len data k \<longleftrightarrow> 14 \<le> unat len \<and> unat len \<le> length data \<and>
     (if frame_type data = ETHTYPE_IP then ip_wf (drop 14 data) k else True)"

definition icmp_ok :: "icmp \<Rightarrow> bool" where
  "icmp_ok ic \<longleftrightarrow> (\<forall>rid \<in> dom (ic_reqs ic). get_req ic (the (ic_reqs ic rid)) \<noteq> None)"

lemma icmp_okD: "icmp_ok ic \<Longrightarrow> ic_reqs ic rid = Some r \<Longrightarrow> \<exists>q. get_req ic r = Some q"
  by (auto simp: icmp_ok_def dom_def)

lemma get_req_set: "get_req ic r' \<noteq> None \<Longrightarrow> get_req (set_req r (Some q) ic) r' \<noteq> None"
  by (cases "r = r'") (auto simp: set_req_def get_req_def split: if_splits)

lemma icmp_ok_set: "icmp_ok ic \<Longrightarrow> icmp_ok (set_req r (Some q) ic)"
  using get_req_set [of ic _ r q] by (auto simp: icmp_ok_def set_req_def)

lemma icmp_ok_upd [simp]: "icmp_ok (ic\<lparr>ic_recv := a\<rparr>) = icmp_ok ic" "icmp_ok (ic\<lparr>ic_sent := a\<rparr>) = icmp_ok ic"
  by (simp_all add: icmp_ok_def get_req_def)

lemma get_req_upd [simp]: "get_req (ic\<lparr>ic_recv := a\<rparr>) = get_req ic"
  by (auto simp: get_req_def fun_eq_iff)

lemma icmp_init_ok: "icmp_ok icmp_init"
  by (simp add: icmp_ok_def icmp_init_def)

context reliable_nic
begin

lemma icmp_process_runs:
  assumes "dinv (n_mem n) (n_dev n)" and "42 \<le> nmss" and "8 \<le> length data" and "icmp_ok ic"
  shows "runs (icmp_process ops hw ip data n ic) (\<lambda>(st, n', ic'). mem_le (n_mem n) (n_mem n') \<and>
    dinv (n_mem n') (n_dev n') \<and> icmp_ok ic')"
proof -
  let ?n = "eth_setDest hw (ip_setDest ip (ip_setProtocol PROTO_ICMP n))"
  have n: "n_mem ?n = n_mem n" "n_dev ?n = n_dev n"
    by (simp_all add: eth_setDest_def ip_setDest_def ip_setProtocol_def)
  have "runs (ip_prepare ops ?n) (\<lambda>(st, p, n'). st = Ok \<and> runs (mem_write (n_mem n') p (icmp_reply data)) (\<lambda>m.
      runs (ip_commit ops 8 p 0 (n'\<lparr>n_mem := m\<rparr>)) (\<lambda>(st, n''). mem_le (n_mem n) (n_mem n'') \<and> dinv (n_mem n'') (n_dev n''))))"
  proof (rule runs_mono [OF ip_prepare_total], goal_cases)
    case (3 r)
    obtain st p n' where r: "r = (st, p, n')" by (cases r)
    note f = 3(2) [unfolded r, simplified]
    have w: "mem_write (n_mem n') p (icmp_reply data) = Some (mem_upd (n_mem n') p (icmp_reply data))"
      using f assms(2,3) by (intro mem_write_valid(1) [OF frame_ok_valid [of _ _ "hr + 34" "nmss - 34"]]) auto
    have "runs (ip_commit ops 8 p 0 (n'\<lparr>n_mem := mem_upd (n_mem n') p (icmp_reply data)\<rparr>))
        (\<lambda>(st, n''). mem_le (n_mem n) (n_mem n'') \<and> dinv (n_mem n'') (n_dev n''))"
      by (rule runs_mono [OF ip_commit_total [of _ _ "nmss - 34"]])
        (use f assms(2) n in \<open>auto intro: mem_le_trans [of "n_mem n" "n_mem n'"] mem_le_trans\<close>)
    then show ?case
      using r f w by simp
  qed (use assms n in auto)
  moreover have "rd8 data 0 = Some (data ! 0)"
    using assms(3) by (auto simp: rd8_def)
  moreover have "rd16 data 4 = Some (le16 (data ! 4) (data ! 5))"
    using assms(3) by (simp add: rd16_def rd8_def)
  ultimately show ?thesis
    using assms
    by (auto simp: icmp_process_def Let_def runs_bind icmp_ok_set split: option.split dest: icmp_okD elim!: runs_mono)
qed

end

context tcp_app
begin

definition stack_inv :: "('d, 'h) stack \<Rightarrow> bool" where
  "stack_inv k \<longleftrightarrow> tcp_inv (k_tcp k) \<and> arp_wf (ar_table (k_arp k)) \<and> icmp_ok (k_icmp k)"

lemma set_net_inv:
  assumes "tcp_inv t" and "mem_le (t_mem t) (n_mem n)" and "dinv (n_mem n) (n_dev n)"
  shows "tcp_inv (t\<lparr>t_net := n\<rparr>)"
  by (rule inv_net [OF assms(1)]) (use assms in \<open>simp_all add: net_only_def\<close>)

lemma ip_process_inv:
  assumes "stack_inv k" and "ip_wf data k"
  shows "runs (ip_process ops ev len data k) (\<lambda>(st, k'). stack_inv k')"
proof (cases "ip_valid (ip_host (k_ip4from k)) data")
  case False
  then show ?thesis
    using assms ip_process_rejects [of data k ops ev len] by (auto simp: ip_wf_def stack_inv_def runs_iff)
next
  case True
  have len: "20 \<le> length data"
    using assms(2) by (simp add: ip_wf_def)
  have d: "dinv (n_mem (k_net k)) (n_dev (k_net k))" "42 \<le> nmss"
    using assms(1) nmss_lo by (auto simp: stack_inv_def tcp_inv_def)
  consider "data ! 9 = PROTO_TCP" | "data ! 9 = PROTO_ICMP" | "data ! 9 \<noteq> PROTO_TCP" "data ! 9 \<noteq> PROTO_ICMP"
    by blast
  then show ?thesis
  proof cases
    case 1
    have "runs (tcp_process ops ev (k_rx (k_taken data k)) (ip_length data) (drop 20 data) (k_tcp k)) (\<lambda>(st, t'). tcp_inv t')"
      using assms True 1 by (auto simp: stack_inv_def ip_wf_def split: option.splits intro: tcp_process_inv)
    then show ?thesis
      using 1 assms(1) by (auto simp: ip_process_accepts [OF len True] Let_def runs_iff stack_inv_def)
  next
    case 2
    then have "runs (icmp_process ops (ep_srce (k_ethfrom k)) (ip_source data) (drop 20 data) (k_net k) (k_icmp k))
        (\<lambda>(st, n', ic'). mem_le (n_mem (k_net k)) (n_mem n') \<and> dinv (n_mem n') (n_dev n') \<and> icmp_ok ic')"
      using assms True d by (intro icmp_process_runs) (auto simp: stack_inv_def ip_wf_def)
    then show ?thesis
      using 2 assms(1) by (auto simp: ip_process_accepts [OF len True] Let_def runs_iff stack_inv_def intro: set_net_inv)
  qed (use assms(1) in \<open>simp add: ip_process_accepts [OF len True] Let_def stack_inv_def\<close>)
qed

lemma eth_process_inv:
  assumes "stack_inv k" and "frame_wf len data k"
  shows "runs (eth_process ops ev len data k) (\<lambda>(st, k'). stack_inv k')"
proof -
  have len: "14 \<le> length data" "unat (len - 14) \<le> length (drop 14 data)"
    using assms(2) by (auto simp: frame_wf_def unat_sub word_le_nat_alt)
  let ?k = "k_heard (frame_source data) (frame_dest data) (frame_type data) k"
  have k: "stack_inv ?k" "ip_wf d ?k = ip_wf d k" for d
    using assms(1) by (auto simp: stack_inv_def ip_wf_def)
  have d: "dinv (n_mem (k_net k)) (n_dev (k_net k))" "42 \<le> nmss"
    using assms(1) nmss_lo by (auto simp: stack_inv_def tcp_inv_def)
  have "runs (arp_process ops (len - 14) (drop 14 data) (k_net k) (k_arp k)) (\<lambda>(st, n', a').
      mem_le (n_mem (k_net k)) (n_mem n') \<and> dinv (n_mem n') (n_dev n') \<and> arp_wf (ar_table a'))"
    by (rule runs_mono [OF arp_process_runs]) (use d len assms(1) in \<open>auto simp: stack_inv_def\<close>)
  moreover have "frame_type data = ETHTYPE_IP \<Longrightarrow> ip_wf (drop 14 data) ?k"
    using assms(2) k(2) by (simp add: frame_wf_def)
  ultimately show ?thesis
    using assms(1) k(1) ip_process_inv [of ?k "drop 14 data" "len - 14"]
    by (auto simp: eth_process_eq [OF len(1)] Let_def runs_iff stack_inv_def intro: set_net_inv)
qed

lemma eth_run_inv:
  assumes "stack_inv k"
  shows "runs (eth_run ops ev anow tnow k) (\<lambda>(st, k'). stack_inv k')"
proof -
  obtain st a where a: "arp_run (fst anow) (snd anow) (k_arp k) = (st, a)"
    by fastforce
  have "arp_wf (ar_table a)"
    using arp_run_wf [OF _ a] assms by (simp add: stack_inv_def)
  then show ?thesis
    using assms tcp_run_inv [of "k_tcp k" "fst tnow" "snd tnow"] a
    by (auto simp: eth_run_def ip_run_def Let_def runs_iff stack_inv_def)
qed

lemma stack_new_inv:
  assumes "stack_new ops hw ip gateway netmask m d h nconn now now' cps = Some k" and "dinv m d" and "hinv h"
  shows "stack_inv k"
proof -
  obtain t where t: "tcp_create ops \<lparr>n_mem = m, n_dev = d, n_eth = eth_producer_init hw, n_ip = ip_producer_init ip\<rparr> h nconn now' cps = Some t"
      "k_tcp k = on_net (\<lambda>n. ip_setNetMask netmask (ip_setRouter gateway n)) t" "k_arp k = arp_init now cps" "k_icmp k = icmp_init"
    using assms(1) by (auto simp: stack_new_def Let_def Some_eq_bind)
  have "tcp_inv t"
    by (rule create_inv [OF t(1)]) (use assms in simp_all)
  then have "tcp_inv (k_tcp k)"
    unfolding t(2)
    by (rule inv_net) (use \<open>tcp_inv t\<close> in \<open>auto simp: net_only_def on_net_def ip_setNetMask_def ip_setRouter_def tcp_inv_def\<close>)
  then show ?thesis
    using t(3,4) by (simp add: stack_inv_def arp_init_wf icmp_init_ok)
qed

end

section \<open>Properties\<close>

text \<open>C17: A frame that is neither an ARP message nor an IPv4 packet with the expected version and header
  length, unfragmented, for our address and with a correct header checksum, reaches no protocol: the
  TCP processor with its connections, memory and device, the ARP table and the ICMP state are as
  before. The answer is an error, but for frames whose type field is a length, which the raw processor
  takes.\<close>
theorem frame_rejected_inert:
  assumes "34 \<le> length data" and "frame_type data \<noteq> ETHTYPE_ARP"
    and "frame_type data \<noteq> ETHTYPE_IP \<or> \<not> ip_valid (ip_host (k_ip4from k)) (drop 14 data)"
  shows "\<exists>st k'. eth_process ops ev len data k = Some (st, k') \<and> k_tcp k' = k_tcp k \<and> k_arp k' = k_arp k \<and>
    k_icmp k' = k_icmp k \<and> ip_host (k_ip4from k') = ip_host (k_ip4from k) \<and> (st = Ok \<longleftrightarrow> frame_type data \<le> 1500)"
proof (cases "frame_type data = ETHTYPE_IP")
  case True
  let ?k = "k_heard (frame_source data) (frame_dest data) (frame_type data) k"
  have len: "20 \<le> length (drop 14 data)" and acc: "\<not> ip_valid (ip_host (k_ip4from ?k)) (drop 14 data)"
    using assms True by auto
  obtain st f where "st \<in> {ProtocolError, CorruptedData}" "ip_process ops ev (len - 14) (drop 14 data) ?k = Some (st, on_ip_stats f ?k)"
    using ip_process_rejects [of "drop 14 data" ?k ops ev "len - 14", OF len acc] by blast
  then show ?thesis
    using True assms(1) by (auto simp: eth_process_eq Let_def)
next
  case False
  then show ?thesis
    using assms by (simp add: eth_process_eq Let_def)
qed

definition sample_stack :: "(list_dev, unit client) stack" where
  "sample_stack = \<lparr>k_ethfrom = eth_processor_init (Mac 16 0 0 0 0 1), k_ip4from = ip_processor_init (ip4_make 10 1 0 1),
     k_arp = arp_init 0 100, k_icmp = icmp_init, k_tcp = on_net (\<lambda>n. ip_setNetMask (ip4_make 255 255 255 0)
       (ip_setRouter (ip4_make 10 1 0 254) n)) sample_tcp\<rparr>"

theorem frame_rejected_inert_witness:
  "\<exists>st k'. eth_process list_ops (client_events default_delegate) 34 (replicate 12 0 @ [8, 0, 0x46] @ replicate 19 0) sample_stack = Some (st, k') \<and>
     k_tcp k' = k_tcp sample_stack \<and> st \<noteq> Ok"
proof -
  let ?data = "replicate 12 0 @ [8, 0, 0x46] @ replicate 19 0 :: u8 list"
  have t: "frame_type ?data = ETHTYPE_IP"
    by code_simp
  have "\<not> ip_valid (ip_host (k_ip4from sample_stack)) (drop 14 ?data)"
    by (simp add: ip_valid_def)
  with t have "\<exists>st k'. eth_process list_ops (client_events default_delegate) 34 ?data sample_stack = Some (st, k') \<and>
      k_tcp k' = k_tcp sample_stack \<and> k_arp k' = k_arp sample_stack \<and> k_icmp k' = k_icmp sample_stack \<and>
      ip_host (k_ip4from k') = ip_host (k_ip4from sample_stack) \<and> (st = Ok \<longleftrightarrow> frame_type ?data \<le> 1500)"
    by (intro frame_rejected_inert) simp_all
  then show ?thesis
    using t by (auto simp: sample_stack_def)
qed

end
