(* ===== verification/Api.thy ===== *)
theory Api
  imports Stack TcpDemux
begin

text \<open>
  The interface of the library: the client (\<^verbatim>\<open>api/Client.cpp\<close>) and the server (\<^verbatim>\<open>api/Server.cpp\<close>) over
  the stack they construct. A client is a stack whose event handler is the client itself, so that its
  own members are the handler of the TCP processor; the same holds for the server. Handles are indices
  into \<open>cl_cns\<close>, whose length is \<^verbatim>\<open>m_nconn\<close>.
\<close>

section \<open>The client\<close>

definition client_create :: "'d device_ops \<Rightarrow> mac \<Rightarrow> ip4 \<Rightarrow> ip4 \<Rightarrow> ip4 \<Rightarrow> mem \<Rightarrow> 'd \<Rightarrow> 'u \<Rightarrow> u64 \<Rightarrow> u64 \<Rightarrow> u64 \<Rightarrow> u64 \<Rightarrow>
    ('d, 'u client) stack option" where
  "client_create ops hw ip gateway netmask m d u nconn now now' cps =
     stack_new ops hw ip gateway netmask m d (client_new (unat nconn) u) nconn now now' cps"

abbreviation (input) k_client :: "('d, 'u client) stack \<Rightarrow> 'u client" where
  "k_client k \<equiv> t_handler (k_tcp k)"

definition k_set_client :: "'u client \<Rightarrow> ('d, 'u client) stack \<Rightarrow> ('d, 'u client) stack" where
  "k_set_client cl k = k\<lparr>k_tcp := (k_tcp k)\<lparr>t_handler := cl\<rparr>\<rparr>"

abbreviation (input) k_handle :: "('d, 'u client) stack \<Rightarrow> u16 \<Rightarrow> client_conn" where
  "k_handle k i \<equiv> cl_cns (k_client k) ! unat i"

abbreviation (input) k_valid :: "('d, 'u client) stack \<Rightarrow> u16 \<Rightarrow> bool" where
  "k_valid k i \<equiv> unat i < length (cl_cns (k_client k))"

definition client_open :: "('d, 'u client) stack \<Rightarrow> status \<times> u16 option \<times> ('d, 'u client) stack" where
  "client_open k = (case first_index (\<lambda>c. cc_state c = Closed) (cl_cns (k_client k)) of
     Some i \<Rightarrow> (Ok, Some (of_nat i), k_set_client (client_set_state (of_nat i) Opened (k_client k)) k)
   | None \<Rightarrow> (NoMoreResources, None, k))"

text \<open>The part of \<^verbatim>\<open>connect\<close> that both \<^verbatim>\<open>Opened\<close> and \<^verbatim>\<open>Resolving\<close> end with. If \<^verbatim>\<open>connect\<close> of the TCP processor
  stores no identifier, \<^verbatim>\<open>c.conn\<close> keeps its value.\<close>

definition client_start :: "'d device_ops \<Rightarrow> u16 \<Rightarrow> mac \<Rightarrow> ip4 \<Rightarrow> u16 \<Rightarrow> u64 list \<Rightarrow> ('d, 'u client) stack \<Rightarrow>
    (status \<times> ('d, 'u client) stack) option" where
  "client_start ops i rhwaddr ripaddr rport readings k = do {
     (ret, cid, t) \<leftarrow> tcp_connect ops rhwaddr ripaddr rport readings (k_tcp k);
     let k = k\<lparr>k_tcp := t\<rparr>;
     let c = (case cid of None \<Rightarrow> k_handle k i | Some n \<Rightarrow> (k_handle k i)\<lparr>cc_conn := n\<rparr>);
     if ret \<noteq> Ok then Some (ret, k)
     else Some (OperationInProgress, k_set_client ((k_client k)\<lparr>
       cl_cns := (cl_cns (k_client k))[unat i := c\<lparr>cc_state := Connecting\<rparr>],
       cl_idx := (cl_idx (k_client k))(cc_conn c \<mapsto> i)\<rparr>) k)
   }"

definition client_connect :: "'d device_ops \<Rightarrow> u16 \<Rightarrow> ip4 \<Rightarrow> u16 \<Rightarrow> u64 list \<Rightarrow> ('d, 'u client) stack \<Rightarrow>
    (status \<times> ('d, 'u client) stack) option" where
  "client_connect ops i ripaddr rport readings k =
     (if \<not> k_valid k i then Some (InvalidConnection, k)
      else case cc_state (k_handle k i) of
        Closed \<Rightarrow> Some (InvalidConnection, k)
      | Opened \<Rightarrow> (case arp_query (n_ip (k_net k)) (k_arp k) ripaddr of
          None \<Rightarrow> do {
            (ret, n) \<leftarrow> arp_discover ops ripaddr (k_net k) (k_arp k);
            let k = k_set_net n k;
            if ret = Ok then Some (OperationInProgress, k_set_client (client_set_state i Resolving (k_client k)) k)
            else Some (ret, k)
          }
        | Some rhwaddr \<Rightarrow> client_start ops i rhwaddr ripaddr rport readings k)
      | Resolving \<Rightarrow> (case arp_query (n_ip (k_net k)) (k_arp k) ripaddr of
          None \<Rightarrow> Some (OperationInProgress, k)
        | Some rhwaddr \<Rightarrow> client_start ops i rhwaddr ripaddr rport readings k)
      | Connecting \<Rightarrow> Some (OperationInProgress, k)
      | Connected \<Rightarrow> Some (Ok, k))"

definition client_abort :: "'d device_ops \<Rightarrow> 'u delegate_ops \<Rightarrow> u16 \<Rightarrow> ('d, 'u client) stack \<Rightarrow>
    (status \<times> ('d, 'u client) stack) option" where
  "client_abort ops g i k =
     (if \<not> k_valid k i then Some (InvalidConnection, k)
      else if cc_state (k_handle k i) \<noteq> Connected then Some (NotConnected, k)
      else do {
        (ret, t) \<leftarrow> tcp_abort ops (client_events g) (cc_conn (k_handle k i)) (k_tcp k);
        Some (ret, k\<lparr>k_tcp := t\<rparr>)
      })"

definition client_close :: "'d device_ops \<Rightarrow> u16 \<Rightarrow> ('d, 'u client) stack \<Rightarrow> (status \<times> ('d, 'u client) stack) option" where
  "client_close ops i k =
     (if \<not> k_valid k i then Some (InvalidConnection, k)
      else if cc_state (k_handle k i) \<noteq> Connected then Some (NotConnected, k)
      else do {
        (ret, t) \<leftarrow> tcp_close ops (cc_conn (k_handle k i)) (k_tcp k);
        Some (ret, k\<lparr>k_tcp := t\<rparr>)
      })"

definition client_isClosed :: "u16 \<Rightarrow> ('d, 'u client) stack \<Rightarrow> bool" where
  "client_isClosed i k \<longleftrightarrow> (if \<not> k_valid k i then True else cc_state (k_handle k i) = Closed)"

definition client_send :: "'d device_ops \<Rightarrow> u16 \<Rightarrow> u32 \<Rightarrow> u8 list option \<Rightarrow> u32 \<Rightarrow> ('d, 'u client) stack \<Rightarrow>
    (status \<times> u32 \<times> ('d, 'u client) stack) option" where
  "client_send ops i len data off k =
     (if \<not> k_valid k i then Some (InvalidConnection, off, k)
      else do {
        (ret, off, t) \<leftarrow> tcp_send ops (cc_conn (k_handle k i)) len data off (k_tcp k);
        Some (ret, off, k\<lparr>k_tcp := t\<rparr>)
      })"

definition client_get :: "u16 \<Rightarrow> ('d, 'u client) stack \<Rightarrow> status \<times> (ip4 \<times> u16 \<times> u16) option" where
  "client_get i k =
     (if \<not> k_valid k i then (InvalidConnection, None) else tcp_get (cc_conn (k_handle k i)) (k_tcp k))"

text \<open>Without the latency monitor there is nothing to average.\<close>

definition client_averageLatency :: "u16 \<Rightarrow> ('d, 'u client) stack \<Rightarrow> u64" where
  "client_averageLatency i k = 0"

definition client_cookie :: "u16 \<Rightarrow> ('d, 'u client) stack \<Rightarrow> u64" where
  "client_cookie i k = (if \<not> k_valid k i then 0 else tcp_cookie (cc_conn (k_handle k i)) (k_tcp k))"

definition client_process :: "'d device_ops \<Rightarrow> 'u delegate_ops \<Rightarrow> u16 \<Rightarrow> u8 list \<Rightarrow> ('d, 'u client) stack \<Rightarrow>
    (status \<times> ('d, 'u client) stack) option" where
  "client_process ops g = eth_process ops (client_events g)"

definition client_run :: "'d device_ops \<Rightarrow> 'u delegate_ops \<Rightarrow> u64 \<times> u64 \<Rightarrow> u64 \<times> u64 \<Rightarrow> ('d, 'u client) stack \<Rightarrow>
    (status \<times> ('d, 'u client) stack) option" where
  "client_run ops g = eth_run ops (client_events g)"

section \<open>The server\<close>

definition server_create :: "'d device_ops \<Rightarrow> mac \<Rightarrow> ip4 \<Rightarrow> ip4 \<Rightarrow> ip4 \<Rightarrow> mem \<Rightarrow> 'd \<Rightarrow> 'u \<Rightarrow> u64 \<Rightarrow> u64 \<Rightarrow> u64 \<Rightarrow> u64 \<Rightarrow>
    ('d, 'u server) stack option" where
  "server_create ops hw ip gateway netmask m d u nconn now now' cps =
     stack_new ops hw ip gateway netmask m d \<lparr>sv_dlg = u, sv_cookies = Map.empty\<rparr> nconn now now' cps"

definition on_server :: "('u server \<Rightarrow> 'u server) \<Rightarrow> ('d, 'u server) stack \<Rightarrow> ('d, 'u server) stack" where
  "on_server f k = k\<lparr>k_tcp := (k_tcp k)\<lparr>t_handler := f (t_handler (k_tcp k))\<rparr>\<rparr>"

definition server_listen :: "'d device_ops \<Rightarrow> u16 \<Rightarrow> u64 \<Rightarrow> ('d, 'u server) stack \<Rightarrow> ('d, 'u server) stack" where
  "server_listen ops port cookie k =
     on_server (\<lambda>sv. sv\<lparr>sv_cookies := (sv_cookies sv)(htons port \<mapsto> cookie)\<rparr>) (k\<lparr>k_tcp := tcp_listen ops port (k_tcp k)\<rparr>)"

definition server_unlisten :: "'d device_ops \<Rightarrow> u16 \<Rightarrow> ('d, 'u server) stack \<Rightarrow> ('d, 'u server) stack" where
  "server_unlisten ops port k =
     on_server (\<lambda>sv. sv\<lparr>sv_cookies := (sv_cookies sv)(htons port := None)\<rparr>) (k\<lparr>k_tcp := tcp_unlisten ops port (k_tcp k)\<rparr>)"

definition server_close :: "'d device_ops \<Rightarrow> u16 \<Rightarrow> ('d, 'u server) stack \<Rightarrow> (status \<times> ('d, 'u server) stack) option" where
  "server_close ops i k = do {
     (ret, t) \<leftarrow> tcp_close ops i (k_tcp k);
     Some (ret, k\<lparr>k_tcp := t\<rparr>)
   }"

definition server_isClosed :: "u16 \<Rightarrow> ('d, 'u server) stack \<Rightarrow> bool" where
  "server_isClosed i k = tcp_isClosed i (k_tcp k)"

definition server_send :: "'d device_ops \<Rightarrow> u16 \<Rightarrow> u32 \<Rightarrow> u8 list option \<Rightarrow> u32 \<Rightarrow> ('d, 'u server) stack \<Rightarrow>
    (status \<times> u32 \<times> ('d, 'u server) stack) option" where
  "server_send ops i len data off k = do {
     (ret, off, t) \<leftarrow> tcp_send ops i len data off (k_tcp k);
     Some (ret, off, k\<lparr>k_tcp := t\<rparr>)
   }"

definition server_cookie :: "u16 \<Rightarrow> ('d, 'u server) stack \<Rightarrow> u64" where
  "server_cookie i k = tcp_cookie i (k_tcp k)"

definition server_process :: "'d device_ops \<Rightarrow> 'u delegate_ops \<Rightarrow> u16 \<Rightarrow> u8 list \<Rightarrow> ('d, 'u server) stack \<Rightarrow>
    (status \<times> ('d, 'u server) stack) option" where
  "server_process ops g = eth_process ops (server_events g)"

definition server_run :: "'d device_ops \<Rightarrow> 'u delegate_ops \<Rightarrow> u64 \<times> u64 \<Rightarrow> u64 \<times> u64 \<Rightarrow> ('d, 'u server) stack \<Rightarrow>
    (status \<times> ('d, 'u server) stack) option" where
  "server_run ops g = eth_run ops (server_events g)"

section \<open>Hosts as systems of events\<close>

text \<open>The calls of the application, the frames that arrive and the periodic \<^verbatim>\<open>run\<close>, with the clock readings.\<close>

datatype client_event =
    ClientOpen
  | ClientConnect u16 ip4 u16 "u64 list"
  | ClientAbort u16
  | ClientClose u16
  | ClientSend u16 u32 "u8 list option" u32
  | ClientFrame u16 "u8 list"
  | ClientRun "u64 \<times> u64" "u64 \<times> u64"

fun client_handle :: "'d device_ops \<Rightarrow> 'u delegate_ops \<Rightarrow> client_event \<Rightarrow> ('d, 'u client) stack \<Rightarrow>
    ('d, 'u client) stack option" where
  "client_handle ops g ClientOpen k = Some (snd (snd (client_open k)))"
| "client_handle ops g (ClientConnect i ip port rs) k = map_option snd (client_connect ops i ip port rs k)"
| "client_handle ops g (ClientAbort i) k = map_option snd (client_abort ops g i k)"
| "client_handle ops g (ClientClose i) k = map_option snd (client_close ops i k)"
| "client_handle ops g (ClientSend i len data off) k = map_option (\<lambda>(st, off, k). k) (client_send ops i len data off k)"
| "client_handle ops g (ClientFrame len data) k = map_option snd (client_process ops g len data k)"
| "client_handle ops g (ClientRun anow tnow) k = map_option snd (client_run ops g anow tnow k)"

fun client_admissible :: "client_event \<Rightarrow> ('d, 'u client) stack \<Rightarrow> bool" where
  "client_admissible ClientOpen k \<longleftrightarrow> True"
| "client_admissible (ClientConnect i ip port rs) k \<longleftrightarrow> admissible (Connect mac_empty ip port rs) (k_tcp k)"
| "client_admissible (ClientAbort i) k \<longleftrightarrow>
     (if k_valid k i \<and> cc_state (k_handle k i) = Connected then admissible (AbortConn (cc_conn (k_handle k i))) (k_tcp k) else True)"
| "client_admissible (ClientClose i) k \<longleftrightarrow> True"
| "client_admissible (ClientSend i len data off) k \<longleftrightarrow> admissible (SendData i len data off) (k_tcp k)"
| "client_admissible (ClientFrame len data) k \<longleftrightarrow> frame_wf len data k"
| "client_admissible (ClientRun anow tnow) k \<longleftrightarrow> True"

fun client_play :: "'d device_ops \<Rightarrow> 'u delegate_ops \<Rightarrow> client_event list \<Rightarrow> ('d, 'u client) stack \<Rightarrow>
    ('d, 'u client) stack option" where
  "client_play ops g [] k = Some k"
| "client_play ops g (x # xs) k = do { k \<leftarrow> client_handle ops g x k; client_play ops g xs k }"

fun client_all_admissible :: "'d device_ops \<Rightarrow> 'u delegate_ops \<Rightarrow> client_event list \<Rightarrow> ('d, 'u client) stack \<Rightarrow> bool" where
  "client_all_admissible ops g [] k \<longleftrightarrow> True"
| "client_all_admissible ops g (x # xs) k \<longleftrightarrow> client_admissible x k \<and>
     (case client_handle ops g x k of None \<Rightarrow> True | Some k \<Rightarrow> client_all_admissible ops g xs k)"

section \<open>Admissible events never fail\<close>

lemma k_set_client_sel [simp]:
  "k_tcp (k_set_client cl k) = (k_tcp k)\<lparr>t_handler := cl\<rparr>" "k_arp (k_set_client cl k) = k_arp k"
  "k_icmp (k_set_client cl k) = k_icmp k"
  by (simp_all add: k_set_client_def)

lemma client_ok_start:
  "client_ok ginv cl \<Longrightarrow> unat i < length (cl_cns cl) \<Longrightarrow>
   client_ok ginv (cl\<lparr>cl_cns := (cl_cns cl)[unat i := c], cl_idx := (cl_idx cl)(n \<mapsto> i)\<rparr>)"
  by (auto simp: client_ok_def)

context reliable_nic
begin

lemma arp_discover_runs:
  assumes "dinv (n_mem n) (n_dev n)" and "42 \<le> nmss"
  shows "runs (arp_discover ops ip n a) (\<lambda>(st, n'). mem_le (n_mem n) (n_mem n') \<and> dinv (n_mem n') (n_dev n'))"
proof -
  let ?n = "eth_setDest mac_broadcast (eth_setType ETHTYPE_ARP n)"
    and ?body = "arp_image 1 (eo_host (n_eth n)) (io_host (n_ip n)) mac_empty (arp_hop (n_ip n) ip)"
  have n: "n_mem ?n = n_mem n" "n_dev ?n = n_dev n" "n_ip ?n = n_ip n" "eo_host (n_eth ?n) = eo_host (n_eth n)"
    by (simp_all add: eth_setDest_def eth_setType_def)
  have "runs (eth_prepare ops ?n) (\<lambda>(st, p, n'). st = Ok \<and> n_eth n' = n_eth ?n \<and> n_ip n' = n_ip ?n \<and>
      runs (mem_write (n_mem n') p ?body) (\<lambda>m. runs (eth_commit ops 28 p 0 (n'\<lparr>n_mem := m\<rparr>))
        (\<lambda>(st, n''). st = Ok \<and> mem_le (n_mem n) (n_mem n'') \<and> dinv (n_mem n'') (n_dev n''))))"
    by (rule eth_send_runs) (use assms n in simp_all)
  then show ?thesis
    using assms(1) n
    by (auto simp: arp_discover_def Let_def runs_bind elim!: runs_mono)
qed

end

context tcp_app
begin

lemma stack_inv_tcp: "stack_inv k \<Longrightarrow> tcp_inv t \<Longrightarrow> stack_inv (k\<lparr>k_tcp := t\<rparr>)"
  by (simp add: stack_inv_def)

lemma handler_inv: "tcp_inv t \<Longrightarrow> hinv h \<Longrightarrow> tcp_inv (t\<lparr>t_handler := h\<rparr>)"
  by (simp add: tcp_inv_def tcp_ok_def)

end

locale client_host = tcp_app ops dinv nmss hr "client_events g" "client_ok ginv"
  for ops :: "'d device_ops" and dinv nmss hr and g :: "'u delegate_ops" and ginv :: "'u \<Rightarrow> bool"
begin

lemma set_client_inv: "stack_inv k \<Longrightarrow> client_ok ginv cl \<Longrightarrow> stack_inv (k_set_client cl k)"
  by (simp add: stack_inv_def handler_inv)

lemma client_inv: "stack_inv k \<Longrightarrow> client_ok ginv (k_client k)"
  by (simp add: stack_inv_def tcp_inv_def)

lemma client_start_inv:
  assumes inv: "stack_inv k" and v: "k_valid k i" and a: "admissible (Connect mac_empty ip port rs) (k_tcp k)"
  shows "runs (client_start ops i hw ip port rs k) (\<lambda>(st, k'). stack_inv k')"
proof -
  have t: "tcp_inv (k_tcp k)"
    using inv by (simp add: stack_inv_def)
  have "runs (tcp_connect ops hw ip port rs (k_tcp k)) (\<lambda>(st, cid, t'). tcp_inv t' \<and> t_handler t' = k_client k)"
    using tcp_connect_inv [OF t, of rs hw ip port] a by (auto simp: runs_iff dest: tcp_connect_one)
  then show ?thesis
    using inv v client_inv [OF inv]
    by (auto simp: client_start_def Let_def runs_bind stack_inv_tcp intro!: set_client_inv client_ok_start elim!: runs_mono)
qed

lemma client_connect_inv:
  assumes inv: "stack_inv k" and a: "admissible (Connect mac_empty ip port rs) (k_tcp k)"
  shows "runs (client_connect ops i ip port rs k) (\<lambda>(st, k'). stack_inv k')"
proof -
  have d: "dinv (n_mem (k_net k)) (n_dev (k_net k))" "42 \<le> nmss"
    using inv nmss_lo by (auto simp: stack_inv_def tcp_inv_def)
  have "runs (arp_discover ops ip (k_net k) (k_arp k)) (\<lambda>(st, n). stack_inv (k_set_net n k) \<and> client_ok ginv (k_client (k_set_net n k)))"
    using inv client_inv [OF inv]
    by (auto intro!: runs_mono [OF arp_discover_runs [OF d]] simp: stack_inv_def intro: set_net_inv)
  then show ?thesis
    using inv client_start_inv [OF inv _ a]
    by (auto simp: client_connect_def Let_def wp split: client_state.split option.split
        intro!: set_client_inv client_set_state_ok elim!: runs_mono)
qed

lemma client_event_inv:
  assumes inv: "stack_inv k" and a: "client_admissible x k"
  shows "runs (client_handle ops g x k) stack_inv"
proof -
  have t: "tcp_inv (k_tcp k)"
    using inv by (simp add: stack_inv_def)
  show ?thesis
  proof (cases x)
    case ClientOpen
    then show ?thesis
      using inv client_inv [OF inv]
      by (auto simp: client_open_def split: option.split intro!: set_client_inv client_set_state_ok)
  next
    case (ClientConnect i ip port rs)
    then show ?thesis
      using client_connect_inv [OF inv, of ip port rs i] a by (auto simp: runs_iff)
  next
    case (ClientAbort i)
    then show ?thesis
      using inv tcp_abort_inv [OF t, of "cc_conn (k_handle k i)"] a
      by (auto simp: client_abort_def runs_iff stack_inv_def split: if_splits)
  next
    case (ClientClose i)
    then show ?thesis
      using inv tcp_close_inv [OF t, of "cc_conn (k_handle k i)"]
      by (auto simp: client_close_def runs_iff intro: stack_inv_tcp)
  next
    case (ClientSend i len data off)
    then show ?thesis
      using inv tcp_send_inv [OF t, of len data "cc_conn (k_handle k i)" off] a
      by (auto simp: client_send_def runs_iff intro: stack_inv_tcp split: option.splits)
  next
    case (ClientFrame len data)
    then show ?thesis
      using eth_process_inv [OF inv, of len data] a by (auto simp: client_process_def runs_iff)
  next
    case (ClientRun anow tnow)
    then show ?thesis
      using eth_run_inv [OF inv, of anow tnow] by (auto simp: client_run_def runs_iff)
  qed
qed

lemma client_play_inv: "stack_inv k \<Longrightarrow> client_all_admissible ops g xs k \<Longrightarrow> runs (client_play ops g xs k) stack_inv"
proof (induction xs arbitrary: k)
  case (Cons x xs)
  then obtain k1 where "client_handle ops g x k = Some k1" "stack_inv k1"
    using client_event_inv [of k x] by (auto simp: runs_iff)
  then show ?case
    using Cons by simp
qed simp

end

interpretation default_client_host: client_host list_ops "list_dinv (link_mtu m)" "unat (link_mtu m)" 4 default_delegate "\<lambda>u. True" for m
  by unfold_locales

text \<open>A client over any device that takes every frame and never releases a buffer it has lent.\<close>

lemma client_play_safe:
  assumes "reliable_nic ops dinv nmss hr" and "62 \<le> nmss" and "nmss < 2 ^ 24" and "delegate g ginv" and "ginv u" and "0 < nconn"
    and "dinv mem d" and "client_create ops hw ip gateway netmask mem d u nconn now now' cps = Some k0"
    and "client_all_admissible ops g events k0"
  shows "\<exists>k. client_play ops g events k0 = Some k \<and> dinv (t_mem (k_tcp k)) (t_dev (k_tcp k)) \<and> client_ok ginv (k_client k) \<and>
    tcp_ok hr nmss (k_tcp k) \<and> arp_wf (ar_table (k_arp k)) \<and> icmp_ok (k_icmp k)"
proof -
  have "tcp_link ops dinv nmss hr"
    using assms(1-3) by (simp add: tcp_link_def tcp_link_axioms_def)
  then have app: "tcp_app ops dinv nmss hr (client_events g) (client_ok ginv)"
    using delegate.client_app [OF assms(4)] by (intro tcp_app.intro)
  then have host: "client_host ops dinv nmss hr g ginv"
    by (intro client_host.intro assms(4))
  have "0 < unat nconn"
    using assms(6) by (simp add: word_less_nat_alt)
  then have "tcp_app.stack_inv dinv nmss hr (client_ok ginv) k0"
    using assms by (intro tcp_app.stack_new_inv [OF app assms(8) [unfolded client_create_def]]) (auto simp: client_new_ok)
  from client_host.client_play_inv [OF host this assms(9)] show ?thesis
    by (auto simp: runs_iff tcp_app.stack_inv_def [OF app] tcp_app.tcp_inv_def [OF app])
qed

section \<open>Resolving the address of the peer\<close>

lemma client_set_state_sel [simp]:
  "unat i < length (cl_cns cl) \<Longrightarrow> cl_cns (client_set_state i s cl) ! unat i = (cl_cns cl ! unat i)\<lparr>cc_state := s\<rparr>"
  "length (cl_cns (client_set_state i s cl)) = length (cl_cns cl)"
  by (simp_all add: client_set_state_def)

lemma arp_discover_list:
  assumes "42 \<le> unat (l_mtu (n_dev n))" and "arp_query (n_ip n) a ip = None"
  shows "\<exists>n'. arp_discover list_ops ip n a = Some (Ok, n') \<and> n_ip n' = n_ip n \<and>
    list_sent (eth_frame mac_broadcast (eo_host (n_eth n)) ETHTYPE_ARP
      (arp_image 1 (eo_host (n_eth n)) (io_host (n_ip n)) mac_empty (arp_hop (n_ip n) ip))) n n'"
proof -
  let ?n = "eth_setDest mac_broadcast (eth_setType ETHTYPE_ARP n)"
  have s: "n_dev ?n = n_dev n" "n_mem ?n = n_mem n" "eo_dest (n_eth ?n) = mac_broadcast" "eo_host (n_eth ?n) = eo_host (n_eth n)"
    "eo_type (n_eth ?n) = ETHTYPE_ARP" "n_ip ?n = n_ip n" "list_sent bs ?n n' = list_sent bs n n'" for bs n'
    by (simp_all add: eth_setDest_def eth_setType_def list_sent_def)
  show ?thesis
    using arp_send_list [of ?n "arp_image 1 (eo_host (n_eth n)) (io_host (n_ip n)) mac_empty (arp_hop (n_ip n) ip)"] assms
    by (auto simp: arp_discover_def arp_has_def Let_def s)
qed

text \<open>An ARP reply to us, whatever Ethernet addresses it is sent from and to.\<close>

lemma eth_process_arp_reply:
  assumes "arp_wf (ar_table (k_arp k))" and "sip \<noteq> 0"
  shows "\<exists>k'. eth_process ops ev 42 (eth_frame d s ETHTYPE_ARP (arp_image 2 hw sip dhw (io_host (n_ip (k_net k))))) k = Some (Ok, k') \<and>
    k_tcp k' = k_tcp k \<and> arp_lookup (ar_table (k_arp k')) sip = Some hw"
proof -
  let ?b = "arp_image 2 hw sip dhw (io_host (n_ip (k_net k)))"
  let ?data = "eth_frame d s ETHTYPE_ARP ?b"
  obtain a' where a': "arp_update sip hw (k_arp k) = Some a'" "arp_lookup (ar_table a') sip = Some hw"
    using arp_lookup_update [OF assms] by (auto simp: runs_iff)
  have t: "frame_type ?data = ETHTYPE_ARP"
    by (cases d; cases s; simp add: frame_type_def eth_frame_def bytes16_def)
  have d: "drop 14 ?data = ?b"
    by (simp add: eth_frame_def)
  have "arp_process ops 28 ?b (k_net k) (k_arp k) = Some (Ok, k_net k, a')"
    using a'(1) by (simp add: arp_process_eq arp_image_fields [of ?b 2 hw sip dhw])
  then show ?thesis
    using a'(2) by (simp add: eth_process_eq t d Let_def k_set_net_def)
qed

section \<open>A sample run\<close>

text \<open>A handle is opened, its peer resolved with one ARP exchange, and the connection requested.\<close>

definition sample_reply :: "u8 list" where
  "sample_reply = eth_frame (Mac 16 0 0 0 0 1) (Mac 16 0 0 0 0 2) ETHTYPE_ARP
     (arp_image 2 (Mac 16 0 0 0 0 2) (ip4_make 10 1 0 2) (Mac 16 0 0 0 0 1) (ip4_make 10 1 0 1))"

definition sample_calls :: "client_event list" where
  "sample_calls = [ClientOpen, ClientConnect 0 (ip4_make 10 1 0 2) 80 [5000], ClientFrame 42 sample_reply,
     ClientConnect 0 (ip4_make 10 1 0 2) 80 [5000]]"

lemma sample_client_create:
  "client_create list_ops (Mac 16 0 0 0 0 1) (ip4_make 10 1 0 1) (ip4_make 10 1 0 254) (ip4_make 255 255 255 0) []
     (n_dev sample_link) () 1 0 0 100 = Some sample_stack"
  by (simp add: client_create_def stack_new_def sample_stack_def sample_tcp_def tcp_create_def assign_ids.simps ip_mss_def
      eth_mss_def list_ops_def sample_link_def Let_def on_net_def ip_setNetMask_def ip_setRouter_def ip_producer_init_def)

lemma sample_calls_admissible: "client_all_admissible list_ops default_delegate sample_calls sample_stack"
  by code_simp

lemma sample_calls_run:
  "map_option (\<lambda>k. List.map cc_state (cl_cns (k_client k))) (client_play list_ops default_delegate sample_calls sample_stack) = Some [Connecting]"
  by code_simp

section \<open>Properties\<close>

text \<open>C10: Connecting to a peer whose hardware address is not known. On a list device, \<^verbatim>\<open>connect\<close> on an opened
  handle broadcasts exactly one ARP request, for the peer or for the default router, and answers that
  the operation is in progress. While there is no reply, calling it again changes nothing. When the
  reply arrives, the next call opens the TCP connection to the hardware address in the reply.\<close>
theorem client_connect_resolves:
  assumes "k_valid k i" and "cc_state (k_handle k i) = Opened" and "arp_query (n_ip (k_net k)) (k_arp k) ip = None"
    and "42 \<le> unat (l_mtu (n_dev (k_net k)))" and "arp_wf (ar_table (k_arp k))" and "arp_hop (n_ip (k_net k)) ip \<noteq> 0"
  shows "\<exists>k1. client_connect list_ops i ip port rs k = Some (OperationInProgress, k1) \<and>
    list_sent (eth_frame mac_broadcast (eo_host (n_eth (k_net k))) ETHTYPE_ARP
      (arp_image 1 (eo_host (n_eth (k_net k))) (io_host (n_ip (k_net k))) mac_empty (arp_hop (n_ip (k_net k)) ip))) (k_net k) (k_net k1) \<and>
    client_connect list_ops i ip port rs1 k1 = Some (OperationInProgress, k1) \<and>
    (\<exists>k2. client_process list_ops g 42 (eth_frame dst src ETHTYPE_ARP
        (arp_image 2 hw (arp_hop (n_ip (k_net k)) ip) dhw (io_host (n_ip (k_net k))))) k1 = Some (Ok, k2) \<and>
      client_connect list_ops i ip port rs2 k2 = client_start list_ops i hw ip port rs2 k2)"
proof -
  obtain n where n: "arp_discover list_ops ip (k_net k) (k_arp k) = Some (Ok, n)" "n_ip n = n_ip (k_net k)"
      "list_sent (eth_frame mac_broadcast (eo_host (n_eth (k_net k))) ETHTYPE_ARP
        (arp_image 1 (eo_host (n_eth (k_net k))) (io_host (n_ip (k_net k))) mac_empty (arp_hop (n_ip (k_net k)) ip))) (k_net k) n"
    using arp_discover_list [OF assms(4,3)] by blast
  let ?k1 = "k_set_client (client_set_state i Resolving (k_client k)) (k_set_net n k)"
  have k1: "client_connect list_ops i ip port rs k = Some (OperationInProgress, ?k1)"
    using assms(1-3) n(1) by (simp add: client_connect_def Let_def)
  obtain k2 where k2: "eth_process list_ops (client_events g) 42 (eth_frame dst src ETHTYPE_ARP
        (arp_image 2 hw (arp_hop (n_ip (k_net k)) ip) dhw (io_host (n_ip (k_net ?k1))))) ?k1 = Some (Ok, k2)"
      "k_tcp k2 = k_tcp ?k1" "arp_lookup (ar_table (k_arp k2)) (arp_hop (n_ip (k_net k)) ip) = Some hw"
    using eth_process_arp_reply [of ?k1 "arp_hop (n_ip (k_net k)) ip" list_ops "client_events g" dst src hw dhw] assms(5,6) by auto
  have b: "ip \<noteq> ip4_broadcast"
    using assms(3) by (auto simp: arp_query_def)
  have "client_connect list_ops i ip port rs1 ?k1 = Some (OperationInProgress, ?k1)"
    using assms(1,3) n(2) by (simp add: client_connect_def arp_query_def)
  moreover have "client_connect list_ops i ip port rs2 k2 = client_start list_ops i hw ip port rs2 k2"
    using assms(1) k2(2,3) n(2) b by (simp add: client_connect_def arp_query_def)
  ultimately show ?thesis
    using k1 k2(1) n(2,3) by (auto simp: client_process_def)
qed

definition sample_opened :: "(list_dev, unit client) stack" where
  "sample_opened = k_set_client (client_set_state 0 Opened (client_new 1 ())) sample_stack"

theorem client_connect_resolves_witness:
  "\<exists>k1. client_connect list_ops 0 (ip4_make 10 1 0 2) 80 [] sample_opened = Some (OperationInProgress, k1) \<and>
    list_sent (eth_frame mac_broadcast (Mac 16 0 0 0 0 1) ETHTYPE_ARP
      (arp_image 1 (Mac 16 0 0 0 0 1) (ip4_make 10 1 0 1) mac_empty (ip4_make 10 1 0 2))) (k_net sample_opened) (k_net k1)"
proof -
  have hop: "arp_hop (n_ip (k_net sample_opened)) (ip4_make 10 1 0 2) = ip4_make 10 1 0 2"
    by code_simp
  have "arp_query (n_ip (k_net sample_opened)) (k_arp sample_opened) (ip4_make 10 1 0 2) = None"
    by code_simp
  moreover have "k_valid sample_opened 0" "cc_state (k_handle sample_opened 0) = Opened"
    "42 \<le> unat (l_mtu (n_dev (k_net sample_opened)))"
    "eo_host (n_eth (k_net sample_opened)) = Mac 16 0 0 0 0 1" "io_host (n_ip (k_net sample_opened)) = ip4_make 10 1 0 1"
    by (simp_all add: sample_opened_def sample_stack_def sample_tcp_def client_new_def client_set_state_def sample_link_def on_net_def
        ip_setNetMask_def ip_setRouter_def eth_producer_init_def ip_producer_init_def)
  moreover have "arp_wf (ar_table (k_arp sample_opened))"
    by (simp add: sample_opened_def sample_stack_def arp_init_wf)
  moreover have "ip4_make 10 1 0 2 \<noteq> 0"
    by code_simp
  ultimately show ?thesis
    using client_connect_resolves [of 0 sample_opened "ip4_make 10 1 0 2" 80 "[]" "[]" default_delegate mac_empty mac_empty
        mac_empty mac_empty "[]"] hop by auto
qed

end
