(* ===== verification/Text.thy ===== *)
theory Text
  imports Net
begin

text \<open>
  Text: splitting and joining strings (\<^verbatim>\<open>system/Utils.cpp\<close>) and the textual forms of Ethernet and IPv4
  addresses (\<^verbatim>\<open>stack/Ethernet.cpp\<close>, \<^verbatim>\<open>stack/IPv4.cpp\<close>). A constructor that throws is \<open>Inl\<close>; a byte that is
  assigned from a variable the stream never wrote is \<open>None\<close>.
\<close>

section \<open>Splitting and joining\<close>

text \<open>The loop of \<^verbatim>\<open>split\<close>, with the buffer and the result so far. Empty parts are skipped, but the last one
  is always added.\<close>

fun split_loop :: "char \<Rightarrow> string \<Rightarrow> string \<Rightarrow> string list \<Rightarrow> string list" where
  "split_loop d [] buffer r = r @ [buffer]"
| "split_loop d (c # cs) buffer r =
     (if c = d then (if buffer \<noteq> [] then split_loop d cs [] (r @ [buffer]) else split_loop d cs buffer r)
      else split_loop d cs (buffer @ [c]) r)"

definition split :: "string \<Rightarrow> char \<Rightarrow> string list" where
  "split s d = (if s = [] then [] else split_loop d s [] [])"

text \<open>Joining dereferences the begin of the vector, which must not be empty.\<close>

fun join :: "string list \<Rightarrow> char \<Rightarrow> string option" where
  "join [] d = None"
| "join [x] d = Some x"
| "join (x # y # xs) d = map_option (\<lambda>s. x @ d # s) (join (y # xs) d)"

section \<open>Numbers read from and written to a stream\<close>

text \<open>\<^verbatim>\<open>istringstream(s) >> value\<close> for an \<^verbatim>\<open>int\<close>: leading white space is skipped; when nothing is left the
  variable is not written. Otherwise an optional sign and the longest run of digits are read, the
  value is clamped to the range of the type, and is zero when there is no digit. In base 16 the
  digits may be preceded by \<^verbatim>\<open>0x\<close>.\<close>

definition is_space :: "char \<Rightarrow> bool" where
  "is_space c \<longleftrightarrow> (of_char c :: nat) \<in> {9, 10, 11, 12, 13, 32}"

definition digit_value :: "nat \<Rightarrow> char \<Rightarrow> nat option" where
  "digit_value base c = (let n = of_char c :: nat;
     v = (if 48 \<le> n \<and> n \<le> 57 then n - 48
          else if 97 \<le> n \<and> n \<le> 102 then n - 87
          else if 65 \<le> n \<and> n \<le> 70 then n - 55
          else 16)
     in if v < base then Some v else None)"

fun digits_value :: "nat \<Rightarrow> nat \<Rightarrow> string \<Rightarrow> nat" where
  "digits_value base acc [] = acc"
| "digits_value base acc (c # cs) = (case digit_value base c of
     None \<Rightarrow> acc
   | Some v \<Rightarrow> digits_value base (base * acc + v) cs)"

definition skip_prefix :: "nat \<Rightarrow> string \<Rightarrow> string" where
  "skip_prefix base s = (if base = 16 \<and> (take 2 s = ''0x'' \<or> take 2 s = ''0X'') then drop 2 s else s)"

definition clamp_int :: "int \<Rightarrow> int" where
  "clamp_int v = max (- (2 ^ 31)) (min (2 ^ 31 - 1) v)"

definition stream_int :: "nat \<Rightarrow> string \<Rightarrow> int option" where
  "stream_int base s = (case dropWhile is_space s of
     [] \<Rightarrow> None
   | c # cs \<Rightarrow> Some (
       if c = CHR ''-'' then clamp_int (- int (digits_value base 0 (skip_prefix base cs)))
       else if c = CHR ''+'' then clamp_int (int (digits_value base 0 (skip_prefix base cs)))
       else clamp_int (int (digits_value base 0 (skip_prefix base (c # cs))))))"

definition stream_byte :: "nat \<Rightarrow> string \<Rightarrow> u8 option" where
  "stream_byte base s = map_option word_of_int (stream_int base s)"

definition digit_char :: "nat \<Rightarrow> char" where
  "digit_char n = (if n < 10 then char_of (48 + n) else char_of (87 + n))"

text \<open>Decimal digits without padding, and two hexadecimal digits padded with zero, of a byte.\<close>

definition show_dec :: "u8 \<Rightarrow> string" where
  "show_dec b = (let n = unat b
     in (if n < 10 then [digit_char n]
         else if n < 100 then [digit_char (n div 10), digit_char (n mod 10)]
         else [digit_char (n div 100), digit_char (n div 10 mod 10), digit_char (n mod 10)]))"

definition show_hex :: "u8 \<Rightarrow> string" where
  "show_hex b = [digit_char (unat b div 16), digit_char (unat b mod 16)]"

section \<open>Addresses\<close>

fun mac_toString :: "mac \<Rightarrow> string" where
  "mac_toString (Mac a b c d e f) = show_hex a @ '':'' @ show_hex b @ '':'' @ show_hex c @ '':'' @ show_hex d @ '':'' @
     show_hex e @ '':'' @ show_hex f"

definition mac_parse :: "string \<Rightarrow> (unit + mac) option" where
  "mac_parse s = (let parts = split s (CHR '':'')
     in if length parts \<noteq> 6 then Some (Inl ())
        else do {
          a \<leftarrow> stream_byte 16 (parts ! 0);
          b \<leftarrow> stream_byte 16 (parts ! 1);
          c \<leftarrow> stream_byte 16 (parts ! 2);
          d \<leftarrow> stream_byte 16 (parts ! 3);
          e \<leftarrow> stream_byte 16 (parts ! 4);
          f \<leftarrow> stream_byte 16 (parts ! 5);
          Some (Inr (Mac a b c d e f))
        })"

definition ip4_toString :: "ip4 \<Rightarrow> string" where
  "ip4_toString ip = (let b = bytes32 ip
     in show_dec (b ! 0) @ ''.'' @ show_dec (b ! 1) @ ''.'' @ show_dec (b ! 2) @ ''.'' @ show_dec (b ! 3))"

definition ip4_parse :: "string \<Rightarrow> (unit + ip4) option" where
  "ip4_parse s = (let parts = split s (CHR ''.'')
     in if length parts \<noteq> 4 then Some (Inl ())
        else do {
          a \<leftarrow> stream_byte 10 (parts ! 0);
          b \<leftarrow> stream_byte 10 (parts ! 1);
          c \<leftarrow> stream_byte 10 (parts ! 2);
          d \<leftarrow> stream_byte 10 (parts ! 3);
          Some (Inr (ip4_make a b c d))
        })"

section \<open>Laws\<close>

lemma split_loop_append: "d \<notin> set x \<Longrightarrow> split_loop d (x @ s) buffer r = split_loop d s (buffer @ x) r"
  by (induction x arbitrary: buffer) auto

text \<open>\<open>parts d xs\<close>: what a split by \<open>d\<close> produces from a join.\<close>

definition proper :: "char \<Rightarrow> string list \<Rightarrow> bool" where
  "proper d xs \<longleftrightarrow> list_all (\<lambda>x. x \<noteq> [] \<and> d \<notin> set x) xs"

lemma split_loop_join: "xs \<noteq> [] \<Longrightarrow> proper d xs \<Longrightarrow> \<exists>s. join xs d = Some s \<and> s \<noteq> [] \<and> split_loop d s [] r = r @ xs"
proof (induction xs d arbitrary: r rule: join.induct)
  case (2 x d)
  then show ?case
    using split_loop_append [of d x "[]" "[]" r] by (simp add: proper_def)
next
  case (3 x y xs d)
  have p: "proper d (y # xs)"
    using 3 by (simp add: proper_def)
  from 3(1) [OF _ this, of "r @ [x]"] obtain s where
      "join (y # xs) d = Some s" "s \<noteq> []" "split_loop d s [] (r @ [x]) = (r @ [x]) @ y # xs"
    by blast
  moreover from this have "split_loop d (x @ d # s) [] r = split_loop d s [] (r @ [x])"
    using 3 by (simp add: split_loop_append proper_def)
  ultimately show ?case
    by simp
qed simp

lemma split_join: "xs \<noteq> [] \<Longrightarrow> proper d xs \<Longrightarrow> \<exists>s. join xs d = Some s \<and> split s d = xs"
  using split_loop_join [of xs d "[]"] by (auto simp: split_def)

text \<open>The sixteen digits: each is read back as its value, and none is a character with another meaning.\<close>

definition digit_ok :: "nat \<Rightarrow> bool" where
  "digit_ok n \<longleftrightarrow> digit_value 16 (digit_char n) = Some n \<and> (n < 10 \<longrightarrow> digit_value 10 (digit_char n) = Some n) \<and>
     \<not> is_space (digit_char n) \<and> digit_char n \<notin> set ''-+xX:.''"

lemma digits_ok: "list_all digit_ok [0..<16]"
  by code_simp

lemma digit_char_ok:
  assumes "n < 16"
  shows "digit_value 16 (digit_char n) = Some n" "n < 10 \<Longrightarrow> digit_value 10 (digit_char n) = Some n"
    "\<not> is_space (digit_char n)" "digit_char n \<notin> set ''-+xX:.''"
proof -
  have "digit_ok n"
    using digits_ok assms by (simp add: list_all_iff)
  then show "digit_value 16 (digit_char n) = Some n" "n < 10 \<Longrightarrow> digit_value 10 (digit_char n) = Some n"
    "\<not> is_space (digit_char n)" "digit_char n \<notin> set ''-+xX:.''"
    unfolding digit_ok_def by blast+
qed

lemma byte_bound: "unat (b :: u8) < 256" "unat b div 16 < 16" "unat b div 100 < 10"
proof -
  show "unat b < 256"
    using unsigned_less [of b] by simp
  then show "unat b div 16 < 16" "unat b div 100 < 10"
    by (simp_all add: less_mult_imp_div_less)
qed

lemma decimal: "100 * (n div 100) + 10 * (n div 10 mod 10) + n mod 10 = (n :: nat)"
proof -
  have "n div 100 = n div 10 div 10"
    by (simp add: div_mult2_eq [symmetric])
  then show ?thesis
    using mult_div_mod_eq [of 10 n] mult_div_mod_eq [of 10 "n div 10"] by linarith
qed

lemma stream_int_digits:
  assumes "cs \<noteq> []" and "list_all (\<lambda>c. \<not> is_space c \<and> c \<notin> set ''-+xX'') cs" and "digits_value base 0 cs < 2 ^ 31"
  shows "stream_int base cs = Some (int (digits_value base 0 cs))"
proof -
  obtain c cs' where cs: "cs = c # cs'"
    using assms(1) by (cases cs) auto
  have "skip_prefix base cs = cs"
    using assms(2) by (cases cs') (auto simp: skip_prefix_def cs)
  moreover have "dropWhile is_space cs = cs" "c \<noteq> CHR ''-''" "c \<noteq> CHR ''+''"
    using assms(2) by (auto simp: cs)
  ultimately show ?thesis
    using assms(3) by (simp add: stream_int_def cs clamp_int_def)
qed

lemma stream_byte_hex [simp]: "stream_byte 16 (show_hex b) = Some b"
proof -
  have "digits_value 16 0 (show_hex b) = unat b"
    using byte_bound [of b] by (simp add: show_hex_def digit_char_ok)
  moreover have "list_all (\<lambda>c. \<not> is_space c \<and> c \<notin> set ''-+xX'') (show_hex b)"
    using byte_bound [of b] digit_char_ok(3,4) [of "unat b div 16"] digit_char_ok(3,4) [of "unat b mod 16"]
    by (simp add: show_hex_def)
  ultimately have "stream_int 16 (show_hex b) = Some (int (unat b))"
    using byte_bound [of b] stream_int_digits [of "show_hex b" 16] by (simp add: show_hex_def)
  then show ?thesis
    by (simp add: stream_byte_def)
qed

lemma show_dec_digits: "list_all (\<lambda>c. \<exists>n < 10. c = digit_char n) (show_dec b)" "show_dec b \<noteq> []"
  using byte_bound [of b] less_mult_imp_div_less [of "unat b" 10 10] mod_less_divisor [of 10 "unat b"]
    mod_less_divisor [of 10 "unat b div 10"]
  by (auto simp: show_dec_def Let_def simp del: mod_less_divisor)

lemma stream_byte_dec [simp]: "stream_byte 10 (show_dec b) = Some b"
proof -
  have "digits_value 10 0 (show_dec b) = unat b"
    using byte_bound [of b] decimal [of "unat b"] by (auto simp: show_dec_def Let_def digit_char_ok less_mult_imp_div_less)
  moreover have "list_all (\<lambda>c. \<not> is_space c \<and> c \<notin> set ''-+xX'') (show_dec b)"
    using show_dec_digits(1) [of b] by (rule list.pred_mono_strong) (use digit_char_ok(3,4) in force)
  ultimately have "stream_int 10 (show_dec b) = Some (int (unat b))"
    using byte_bound [of b] stream_int_digits [of "show_dec b" 10] show_dec_digits(2) [of b] by simp
  then show ?thesis
    by (simp add: stream_byte_def)
qed

lemma show_hex_proper [simp]: "show_hex b \<noteq> []" "CHR '':'' \<notin> set (show_hex b)"
  using byte_bound [of b] digit_char_ok(4) [of "unat b div 16"] digit_char_ok(4) [of "unat b mod 16"]
  by (auto simp: show_hex_def)

lemma show_dec_proper [simp]: "show_dec b \<noteq> []" "CHR ''.'' \<notin> set (show_dec b)"
proof -
  show "CHR ''.'' \<notin> set (show_dec b)"
  proof
    assume "CHR ''.'' \<in> set (show_dec b)"
    then obtain n where "n < 10" "CHR ''.'' = digit_char n"
      using show_dec_digits(1) [of b] by (auto simp: list_all_iff)
    then show False
      using digit_char_ok(4) [of n] by auto
  qed
qed (rule show_dec_digits(2))

section \<open>Properties\<close>

text \<open>The textual form of an Ethernet address is read back as the same address.\<close>
theorem mac_text_roundtrip: "mac_parse (mac_toString a) = Some (Inr a)"
proof (cases a)
  case (Mac a0 a1 a2 a3 a4 a5)
  let ?parts = "[show_hex a0, show_hex a1, show_hex a2, show_hex a3, show_hex a4, show_hex a5]"
  have "\<exists>s. join ?parts (CHR '':'') = Some s \<and> split s (CHR '':'') = ?parts"
    by (rule split_join) (simp_all add: proper_def)
  then show ?thesis
    by (auto simp: Mac mac_parse_def Let_def)
qed

text \<open>The textual form of an IPv4 address is read back as the same address.\<close>
theorem ip4_text_roundtrip: "ip4_parse (ip4_toString a) = Some (Inr a)"
proof -
  let ?parts = "List.map (\<lambda>i. show_dec (bytes32 a ! i)) [0, 1, 2, 3]"
  have "\<exists>s. join ?parts (CHR ''.'') = Some s \<and> split s (CHR ''.'') = ?parts"
    by (rule split_join) (simp_all add: proper_def)
  moreover have "ip4_make (bytes32 a ! 0) (bytes32 a ! 1) (bytes32 a ! 2) (bytes32 a ! 3) = a"
    by (simp add: ip4_make_def bytes32_def)
  ultimately show ?thesis
    by (auto simp: ip4_parse_def ip4_toString_def Let_def)
qed

text \<open>What the parser of IPv4 addresses accepts beyond the dotted form. Empty parts are skipped, so that
  repeated dots and a leading dot do not matter; a part without digits counts as zero and every part
  is taken modulo 256; and with a dot after the third part the last byte is whatever an
  uninitialised variable holds.\<close>
theorem ip4_parse_lenient:
  "ip4_parse ''.10..1.0.2'' = Some (Inr (ip4_make 10 1 0 2)) \<and>
   ip4_parse ''a.257.-1.2x'' = Some (Inr (ip4_make 0 1 255 2)) \<and>
   ip4_parse ''10.1.0.'' = None"
  by code_simp

end
