(* ===== verification/Ring.thy ===== *)
theory Ring
  imports Prelude
begin

text \<open>
  The byte buffers of \<^verbatim>\<open>system\<close>: the circular buffer over a file that is mapped twice in a row
  (\<^verbatim>\<open>system/CircularBuffer.cpp\<close>), the append-only buffer (\<^verbatim>\<open>system/Buffer.cpp\<close>), and the OpenSSL BIO over the
  former (\<^verbatim>\<open>ssl/BIO.cpp\<close>). \<open>None\<close> is an exception or an access outside the mapping.
\<close>

section \<open>The circular buffer\<close>

text \<open>\<open>cb_data\<close> are the bytes of the file; address \<open>i\<close> of the region shows byte \<open>i mod m_size\<close> of it.\<close>

record ring =
  cb_size :: u64
  cb_data :: "nat \<Rightarrow> u8"
  cb_read :: u64
  cb_write :: u64

definition cb_mask :: "ring \<Rightarrow> u64" where
  "cb_mask r = cb_size r - 1"

definition ring_fit :: "u64 \<Rightarrow> u64 \<Rightarrow> u64" where
  "ring_fit pagesize sz = (let npages = sz div pagesize; result = npages * pagesize
     in if result < sz then result + pagesize else result)"

text \<open>The system calls succeed, but for \<^verbatim>\<open>mmap\<close> with length zero. A new file reads as zero.\<close>

definition ring_create :: "u64 \<Rightarrow> u64 \<Rightarrow> ring option" where
  "ring_create pagesize sz = (let m_size = ring_fit pagesize sz
     in if push_bit 1 m_size = 0 then None
        else Some \<lparr>cb_size = m_size, cb_data = (\<lambda>i. 0), cb_read = 0, cb_write = 0\<rparr>)"

definition ring_empty :: "ring \<Rightarrow> bool" where
  "ring_empty r \<longleftrightarrow> cb_read r = cb_write r"

definition ring_full :: "ring \<Rightarrow> bool" where
  "ring_full r \<longleftrightarrow> cb_write r - cb_read r = cb_size r"

definition ring_available :: "ring \<Rightarrow> u64" where
  "ring_available r = cb_write r - cb_read r"

definition ring_left :: "ring \<Rightarrow> u64" where
  "ring_left r = cb_size r - ring_available r"

definition ring_readAt :: "ring \<Rightarrow> nat" where
  "ring_readAt r = unat (cb_read r AND cb_mask r)"

definition ring_writeAt :: "ring \<Rightarrow> nat" where
  "ring_writeAt r = unat (cb_write r AND cb_mask r)"

text \<open>The two copies, within the region of twice that size.\<close>

definition region_get :: "ring \<Rightarrow> nat \<Rightarrow> nat \<Rightarrow> u8 list option" where
  "region_get r i n =
     (if i + n \<le> 2 * unat (cb_size r) then Some (List.map (\<lambda>j. cb_data r ((i + j) mod unat (cb_size r))) [0..<n]) else None)"

fun region_write :: "nat \<Rightarrow> nat \<Rightarrow> u8 list \<Rightarrow> (nat \<Rightarrow> u8) \<Rightarrow> nat \<Rightarrow> u8" where
  "region_write sz i [] f = f"
| "region_write sz i (b # bs) f = region_write sz (i + 1) bs (f(i mod sz := b))"

definition region_put :: "ring \<Rightarrow> nat \<Rightarrow> u8 list \<Rightarrow> ring option" where
  "region_put r i bs =
     (if i + length bs \<le> 2 * unat (cb_size r) then Some (r\<lparr>cb_data := region_write (unat (cb_size r)) i bs (cb_data r)\<rparr>) else None)"

text \<open>\<open>n\<close> bytes are read into, and \<open>bs\<close> written from, the buffer of the caller.\<close>

definition ring_read :: "ring \<Rightarrow> u64 \<Rightarrow> (u8 list \<times> u64 \<times> ring) option" where
  "ring_read r len = do {
     let delta = ring_available r;
     let n = (if len > delta then delta else len);
     bs \<leftarrow> region_get r (ring_readAt r) (unat n);
     Some (bs, n, r\<lparr>cb_read := cb_read r + n\<rparr>)
   }"

definition ring_write :: "ring \<Rightarrow> u8 list \<Rightarrow> u64 \<Rightarrow> (u64 \<times> ring) option" where
  "ring_write r bs len = do {
     let delta = ring_left r;
     let n = (if len > delta then delta else len);
     if length bs < unat n then None
     else do {
       r \<leftarrow> region_put r (ring_writeAt r) (take (unat n) bs);
       Some (n, r\<lparr>cb_write := cb_write r + n\<rparr>)
     }
   }"

definition ring_reset :: "ring \<Rightarrow> ring" where
  "ring_reset r = r\<lparr>cb_read := 0, cb_write := 0\<rparr>"

definition ring_skip :: "ring \<Rightarrow> u64 \<Rightarrow> ring" where
  "ring_skip r len = (let delta = ring_available r; n = (if len > delta then delta else len) in r\<lparr>cb_read := cb_read r + n\<rparr>)"

section \<open>The append-only buffer\<close>

record abuf =
  ab_size :: u32
  ab_data :: "u8 list"

text \<open>\<open>ab_data\<close> are the first \<^verbatim>\<open>m_fill\<close> bytes. The test adds in 32 bits, so that the copy may run past the
  end when the sum wraps around (\<open>None\<close>).\<close>

definition abuf_allocate :: "u32 \<Rightarrow> abuf" where
  "abuf_allocate sz = \<lparr>ab_size = sz, ab_data = []\<rparr>"

definition abuf_fill :: "abuf \<Rightarrow> u32" where
  "abuf_fill b = of_nat (length (ab_data b))"

definition abuf_append :: "u32 \<Rightarrow> u8 list \<Rightarrow> abuf \<Rightarrow> (bool \<times> abuf) option" where
  "abuf_append len data b =
     (if abuf_fill b + len > ab_size b then Some (False, b)
      else if length data < unat len \<or> unat (ab_size b) < length (ab_data b) + unat len then None
      else Some (True, b\<lparr>ab_data := ab_data b @ take (unat len) data\<rparr>))"

definition abuf_reset :: "abuf \<Rightarrow> abuf" where
  "abuf_reset b = b\<lparr>ab_data := []\<rparr>"

definition abuf_available :: "abuf \<Rightarrow> u32" where
  "abuf_available b = ab_size b - abuf_fill b"

definition abuf_empty :: "abuf \<Rightarrow> bool" where
  "abuf_empty b \<longleftrightarrow> abuf_fill b = 0"

section \<open>The BIO\<close>

text \<open>The fields of OpenSSL's \<^verbatim>\<open>BIO\<close> that the methods use; of its flags, whether a retry of a read has been
  requested.\<close>

record bio =
  b_ptr :: "ring option"
  b_retry_read :: bool
  b_shutdown :: int
  b_init :: int
  b_num :: int

datatype bio_cmd =
    CTRL_RESET | CTRL_EOF | SET_BUF_MEM_EOF_RETURN | CTRL_INFO | SET_BUF_MEM | GET_BUF_MEM_PTR
  | CTRL_GET_CLOSE | CTRL_SET_CLOSE | CTRL_WPENDING | CTRL_PENDING | CTRL_DUP | CTRL_FLUSH | CTRL_OTHER

definition bio_new :: bio where
  "bio_new = \<lparr>b_ptr = None, b_retry_read = False, b_shutdown = 0, b_init = 1, b_num = -1\<rparr>"

definition bio_allocate :: "u64 \<Rightarrow> u64 \<Rightarrow> bio option" where
  "bio_allocate pagesize sz = do {
     r \<leftarrow> ring_create pagesize sz;
     Some (bio_new\<lparr>b_ptr := Some r, b_retry_read := False\<rparr>)
   }"

text \<open>The size is an \<^verbatim>\<open>int\<close>, converted to \<^verbatim>\<open>size_t\<close>; the result is converted back.\<close>

definition bio_write :: "bio \<Rightarrow> u8 list \<Rightarrow> u32 \<Rightarrow> (u32 \<times> bio) option" where
  "bio_write h buf sz = do {
     r \<leftarrow> b_ptr h;
     let h = h\<lparr>b_retry_read := False\<rparr>;
     if ring_full r then Some (-1, h\<lparr>b_retry_read := True\<rparr>)
     else do {
       (res, r) \<leftarrow> ring_write r buf (scast sz);
       Some (ucast res, h\<lparr>b_ptr := Some r\<rparr>)
     }
   }"

definition bio_read :: "bio \<Rightarrow> u32 \<Rightarrow> (u8 list \<times> u32 \<times> bio) option" where
  "bio_read h sz = do {
     r \<leftarrow> b_ptr h;
     let h = h\<lparr>b_retry_read := False\<rparr>;
     if ring_empty r then Some ([], -1, h\<lparr>b_retry_read := True\<rparr>)
     else do {
       (bs, res, r) \<leftarrow> ring_read r (scast sz);
       Some (bs, ucast res, h\<lparr>b_ptr := Some r\<rparr>)
     }
   }"

definition bio_ctrl :: "bio_cmd \<Rightarrow> int \<Rightarrow> bio \<Rightarrow> int \<times> bio" where
  "bio_ctrl cmd num h = (case b_ptr h of None \<Rightarrow> (0, h) | Some r \<Rightarrow> (case cmd of
       CTRL_RESET \<Rightarrow> (1, h\<lparr>b_ptr := Some (ring_reset r)\<rparr>)
     | CTRL_EOF \<Rightarrow> (if ring_empty r then 1 else 0, h)
     | SET_BUF_MEM_EOF_RETURN \<Rightarrow> (1, h\<lparr>b_num := num\<rparr>)
     | CTRL_INFO \<Rightarrow> (0, h)
     | SET_BUF_MEM \<Rightarrow> (0, h)
     | GET_BUF_MEM_PTR \<Rightarrow> (0, h)
     | CTRL_GET_CLOSE \<Rightarrow> (b_shutdown h, h)
     | CTRL_SET_CLOSE \<Rightarrow> (1, h\<lparr>b_shutdown := num\<rparr>)
     | CTRL_WPENDING \<Rightarrow> (0, h)
     | CTRL_PENDING \<Rightarrow> (sint (ring_available r), h)
     | CTRL_DUP \<Rightarrow> (1, h)
     | CTRL_FLUSH \<Rightarrow> (1, h)
     | CTRL_OTHER \<Rightarrow> (0, h)))"

definition bio_free :: "bio \<Rightarrow> int \<times> bio" where
  "bio_free h = (case b_ptr h of None \<Rightarrow> (0, h)
     | Some r \<Rightarrow> (1, if b_shutdown h \<noteq> 0 \<and> b_init h \<noteq> 0 then h\<lparr>b_ptr := None\<rparr> else h))"

definition bio_skip :: "bio \<Rightarrow> u64 \<Rightarrow> bio option" where
  "bio_skip h len = map_option (\<lambda>r. h\<lparr>b_ptr := Some (ring_skip r len)\<rparr>) (b_ptr h)"

section \<open>The circular buffer as a bounded queue of bytes\<close>

definition ring_wf :: "nat \<Rightarrow> ring \<Rightarrow> bool" where
  "ring_wf k r \<longleftrightarrow> unat (cb_size r) = 2 ^ k \<and> unat (ring_available r) \<le> 2 ^ k"

definition ring_bytes :: "nat \<Rightarrow> ring \<Rightarrow> u8 list" where
  "ring_bytes k r = List.map (\<lambda>j. cb_data r ((unat (cb_read r) + j) mod 2 ^ k)) [0..<unat (ring_available r)]"

lemma size_bound: "unat (s :: u64) = 2 ^ k \<Longrightarrow> k < 64"
proof -
  assume s: "unat s = 2 ^ k"
  have "unat s < 2 ^ 64"
    using unsigned_less [of s, where ?'a = nat] by simp
  then show "k < 64"
    unfolding s by (rule power_less_imp_less_exp [rotated]) simp
qed

lemma ring_wf_bound: "ring_wf k r \<Longrightarrow> k < 64"
  by (auto simp: ring_wf_def intro: size_bound)

lemma length_ring_bytes [simp]: "length (ring_bytes k r) = unat (ring_available r)"
  by (simp add: ring_bytes_def)

lemma and_size_mask:
  assumes "unat (s :: u64) = 2 ^ k"
  shows "unat (w AND (s - 1)) = unat w mod 2 ^ k"
proof -
  have "k < 64"
    using assms by (rule size_bound)
  then have "s = 2 ^ k"
    using arg_cong [OF assms, of "of_nat :: nat \<Rightarrow> u64"] by simp
  then have "w AND (s - 1) = take_bit k w"
    by (simp add: take_bit_eq_mask mask_eq_exp_minus_1)
  then have "unat (w AND (s - 1)) = take_bit k (unat w)"
    by (simp only: unsigned_take_bit_eq)
  then show ?thesis
    by (simp only: take_bit_eq_mod)
qed

lemma ring_at:
  assumes "ring_wf k r"
  shows "ring_readAt r = unat (cb_read r) mod 2 ^ k" "ring_writeAt r = unat (cb_write r) mod 2 ^ k"
  using assms by (simp_all add: ring_readAt_def ring_writeAt_def cb_mask_def ring_wf_def and_size_mask)

text \<open>Counters wrap around at a multiple of the size.\<close>

lemma counter_mod: "k < 64 \<Longrightarrow> unat (c + n :: u64) mod 2 ^ k = (unat c + unat n) mod 2 ^ k"
  using mod_mod_cancel [OF le_imp_power_dvd [of k 64 "2 :: nat"]] by (simp add: unat_word_ariths)

lemma mod_add_window: "a < n \<Longrightarrow> b < n \<Longrightarrow> (i + a) mod n = (i + b) mod n \<Longrightarrow> a = (b :: nat)"
  using mod_neq_window [of "i + a" "i + b" n] mod_neq_window [of "i + b" "i + a" n] by (cases a b rule: linorder_cases) auto

lemma region_write_out: "(\<forall>j < length bs. x \<noteq> (i + j) mod sz) \<Longrightarrow> region_write sz i bs f x = f x"
proof (induction bs arbitrary: i f)
  case (Cons b bs)
  have "\<forall>j < length bs. x \<noteq> (i + 1 + j) mod sz"
    using Cons.prems by (metis Suc_less_eq add.assoc add.commute length_Cons plus_1_eq_Suc)
  moreover have "x \<noteq> i mod sz"
    using Cons.prems [rule_format, of 0] by simp
  ultimately show ?case
    using Cons.IH [of "i + 1"] by simp
qed simp

lemma region_write_in: "length bs \<le> sz \<Longrightarrow> j < length bs \<Longrightarrow> region_write sz i bs f ((i + j) mod sz) = bs ! j"
proof (induction bs arbitrary: i j f)
  case (Cons b bs)
  show ?case
  proof (cases j)
    case 0
    have "i mod sz \<noteq> (i + 1 + j) mod sz" if "j < length bs" for j
      using mod_add_window [of 0 sz "Suc j" i] Cons.prems(1) that by auto
    then show ?thesis
      using 0 region_write_out [of bs "i mod sz" "i + 1" sz] by simp
  next
    case (Suc j')
    then show ?thesis
      using Cons.IH [of j' "i + 1"] Cons.prems by simp
  qed
qed simp

lemma mod_power: "x mod 2 ^ k < (2 :: nat) ^ k"
  by simp

lemma ring_take:
  assumes wf: "ring_wf k r" and n: "unat n \<le> unat (ring_available r)"
  shows "ring_wf k (r\<lparr>cb_read := cb_read r + n\<rparr>)"
    "ring_bytes k (r\<lparr>cb_read := cb_read r + n\<rparr>) = drop (unat n) (ring_bytes k r)"
proof -
  let ?r = "r\<lparr>cb_read := cb_read r + n\<rparr>"
  have "ring_available ?r = ring_available r - n"
    by (simp add: ring_available_def)
  then have a: "unat (ring_available ?r) = unat (ring_available r) - unat n"
    using n by (simp add: unat_sub word_le_nat_alt)
  then show "ring_wf k ?r"
    using wf by (auto simp: ring_wf_def intro: order_trans [OF diff_le_self])
  have "(unat (cb_read r + n) + j) mod 2 ^ k = (unat (cb_read r) + (unat n + j)) mod 2 ^ k" for j
    by (subst mod_add_left_eq [symmetric]) (simp only: counter_mod [OF ring_wf_bound [OF wf]] mod_add_left_eq add.assoc)
  then show "ring_bytes k ?r = drop (unat n) (ring_bytes k r)"
    using a n by (intro nth_equalityI) (auto simp: ring_bytes_def less_diff_conv add.commute [of _ "unat n"])
qed

lemma capped: "unat (if len > delta then delta else len :: u64) = min (unat len) (unat delta)"
  by (simp add: word_less_nat_alt min_def)

lemma ring_read_bytes:
  assumes wf: "ring_wf k r" and n: "n = min (unat len) (length (ring_bytes k r))"
  shows "\<exists>r'. ring_read r len = Some (take n (ring_bytes k r), of_nat n, r') \<and> ring_wf k r' \<and>
    ring_bytes k r' = drop n (ring_bytes k r)"
proof -
  let ?n = "if len > ring_available r then ring_available r else len"
  have un: "unat ?n = n"
    using n by (simp only: capped length_ring_bytes)
  then have "n \<le> 2 ^ k" "n \<le> unat (ring_available r)"
    using wf n by (auto simp: ring_wf_def)
  moreover from this have "unat (cb_read r) mod 2 ^ k + n \<le> 2 * 2 ^ k"
    using mod_power [of "unat (cb_read r)" k] by linarith
  ultimately have "region_get r (ring_readAt r) n = Some (take n (ring_bytes k r))"
    using wf by (auto simp: region_get_def ring_at [OF wf] ring_wf_def ring_bytes_def mod_add_left_eq intro!: nth_equalityI)
  then have "ring_read r len = Some (take n (ring_bytes k r), ?n, r\<lparr>cb_read := cb_read r + ?n\<rparr>)"
    using un by (simp only: ring_read_def Let_def) simp
  moreover have "?n = of_nat n"
    unfolding un [symmetric] by simp
  ultimately show ?thesis
    using ring_take [OF wf, of ?n] un \<open>n \<le> unat (ring_available r)\<close> by auto
qed

lemma ring_skip_bytes:
  assumes "ring_wf k r"
  shows "ring_wf k (ring_skip r len)" "ring_bytes k (ring_skip r len) = drop (unat len) (ring_bytes k r)"
proof -
  let ?n = "if len > ring_available r then ring_available r else len"
  have "unat ?n = min (unat len) (unat (ring_available r))"
    by (rule capped)
  then show "ring_wf k (ring_skip r len)" "ring_bytes k (ring_skip r len) = drop (unat len) (ring_bytes k r)"
    using ring_take [OF assms, of ?n] by (auto simp: ring_skip_def Let_def min_def)
qed

lemma ring_write_bytes:
  assumes wf: "ring_wf k r" and n: "n = min (unat len) (2 ^ k - length (ring_bytes k r))" and len: "unat len \<le> length bs"
  shows "\<exists>r'. ring_write r bs len = Some (of_nat n, r') \<and> ring_wf k r' \<and> ring_bytes k r' = ring_bytes k r @ take n bs"
proof -
  have left: "unat (ring_left r) = 2 ^ k - unat (ring_available r)"
    using wf by (simp add: ring_left_def ring_wf_def unat_sub word_le_nat_alt)
  let ?n = "if len > ring_left r then ring_left r else len"
  have un: "unat ?n = n"
    using n by (simp only: capped length_ring_bytes left)
  have nb: "n \<le> 2 ^ k - unat (ring_available r)" "n \<le> length bs"
    using n len by auto
  let ?f = "region_write (2 ^ k) (unat (cb_write r) mod 2 ^ k) (take n bs) (cb_data r)"
  let ?r = "r\<lparr>cb_data := ?f, cb_write := cb_write r + ?n\<rparr>"
  have "unat (cb_write r) mod 2 ^ k + n \<le> 2 * 2 ^ k"
    using nb mod_power [of "unat (cb_write r)" k] by linarith
  then have "region_put r (ring_writeAt r) (take n bs) = Some (r\<lparr>cb_data := ?f\<rparr>)"
    using wf nb by (auto simp: region_put_def ring_at [OF wf] ring_wf_def)
  then have "ring_write r bs len = Some (?n, ?r)"
    using un nb by (simp only: ring_write_def Let_def) simp
  moreover have "?n = of_nat n"
    unfolding un [symmetric] by simp
  moreover have av: "unat (ring_available ?r) = unat (ring_available r) + n"
  proof -
    have "ring_available ?r = ring_available r + ?n"
      by (simp add: ring_available_def)
    moreover have "unat (ring_available r) + n < 2 ^ 64"
      using nb wf power_strict_increasing [OF ring_wf_bound [OF wf], of "2 :: nat"] by (auto simp: ring_wf_def)
    ultimately show ?thesis
      using un by (simp add: unat_word_ariths)
  qed
  moreover have "ring_wf k ?r"
    using wf nb av by (auto simp: ring_wf_def)
  moreover have "ring_bytes k ?r = ring_bytes k r @ take n bs"
  proof (rule nth_equalityI)
    fix j assume "j < length (ring_bytes k ?r)"
    then have j: "j < unat (ring_available r) + n"
      using av by simp
    have w: "unat (cb_write r) mod 2 ^ k = (unat (cb_read r) + unat (ring_available r)) mod 2 ^ k"
      using counter_mod [OF ring_wf_bound [OF wf], of "cb_read r" "ring_available r"] by (simp add: ring_available_def)
    have idx: "(unat (cb_write r) mod 2 ^ k + i) mod 2 ^ k = (unat (cb_read r) + (unat (ring_available r) + i)) mod 2 ^ k" for i
      unfolding w by (simp add: mod_add_left_eq add.assoc)
    show "ring_bytes k ?r ! j = (ring_bytes k r @ take n bs) ! j"
    proof (cases "j < unat (ring_available r)")
      case True
      have "(unat (cb_read r) + j) mod 2 ^ k \<noteq> (unat (cb_write r) mod 2 ^ k + i) mod 2 ^ k" if "i < length (take n bs)" for i
        unfolding idx using that nb True mod_neq_window [of "unat (cb_read r) + j" "unat (cb_read r) + (unat (ring_available r) + i)" "2 ^ k"]
        by auto
      then show ?thesis
        using True j av by (simp add: ring_bytes_def region_write_out nth_append)
    next
      case False
      then obtain i where i: "j = unat (ring_available r) + i" "i < n"
        using j by (metis add_less_cancel_left le_Suc_ex not_less)
      then show ?thesis
        using region_write_in [of "take n bs" "2 ^ k" i "unat (cb_write r) mod 2 ^ k" "cb_data r"] nb j av
        by (simp add: ring_bytes_def idx nth_append)
    qed
  qed (use av nb in simp)
  ultimately show ?thesis
    by auto
qed

text \<open>Sequences of operations, with what each returns, on the buffer and on a queue of at most \<open>cap\<close> bytes.\<close>

datatype ring_op = RWrite "u8 list" | RRead u64 | RSkip u64 | RReset

fun ring_call :: "ring_op \<Rightarrow> ring \<Rightarrow> ((u8 list \<times> u64) \<times> ring) option" where
  "ring_call (RWrite bs) r = map_option (\<lambda>(n, r). (([], n), r)) (ring_write r bs (of_nat (length bs)))"
| "ring_call (RRead len) r = map_option (\<lambda>(bs, n, r). ((bs, n), r)) (ring_read r len)"
| "ring_call (RSkip len) r = Some (([], 0), ring_skip r len)"
| "ring_call RReset r = Some (([], 0), ring_reset r)"

fun ring_calls :: "ring_op list \<Rightarrow> ring \<Rightarrow> ((u8 list \<times> u64) list \<times> ring) option" where
  "ring_calls [] r = Some ([], r)"
| "ring_calls (x # xs) r = do { (out, r) \<leftarrow> ring_call x r; (outs, r) \<leftarrow> ring_calls xs r; Some (out # outs, r) }"

fun bytes_call :: "nat \<Rightarrow> ring_op \<Rightarrow> u8 list \<Rightarrow> (u8 list \<times> u64) \<times> u8 list" where
  "bytes_call cap (RWrite bs) q = (let n = min (length bs) (cap - length q) in (([], of_nat n), q @ take n bs))"
| "bytes_call cap (RRead len) q = (let n = min (unat len) (length q) in ((take n q, of_nat n), drop n q))"
| "bytes_call cap (RSkip len) q = (([], 0), drop (unat len) q)"
| "bytes_call cap RReset q = (([], 0), [])"

fun bytes_calls :: "nat \<Rightarrow> ring_op list \<Rightarrow> u8 list \<Rightarrow> (u8 list \<times> u64) list \<times> u8 list" where
  "bytes_calls cap [] q = ([], q)"
| "bytes_calls cap (x # xs) q = (let (out, q) = bytes_call cap x q; (outs, q) = bytes_calls cap xs q in (out # outs, q))"

definition op_fits :: "ring_op \<Rightarrow> bool" where
  "op_fits x \<longleftrightarrow> (case x of RWrite bs \<Rightarrow> length bs < 2 ^ 64 | _ \<Rightarrow> True)"

lemma ring_call_refines:
  assumes "ring_wf k r" and "op_fits x"
  shows "\<exists>r'. ring_call x r = Some (fst (bytes_call (2 ^ k) x (ring_bytes k r)), r') \<and> ring_wf k r' \<and>
    ring_bytes k r' = snd (bytes_call (2 ^ k) x (ring_bytes k r))"
proof (cases x)
  case (RWrite bs)
  then have "unat (of_nat (length bs) :: u64) = length bs"
    using assms(2) by (simp add: op_fits_def unat_of_nat)
  then show ?thesis
    using ring_write_bytes [OF assms(1) refl, of "of_nat (length bs)" bs] RWrite by (auto simp: Let_def)
next
  case (RRead len)
  then show ?thesis
    using ring_read_bytes [OF assms(1) refl, of len] by (auto simp: Let_def)
next
  case (RSkip len)
  then show ?thesis
    using ring_skip_bytes [OF assms(1)] by simp
next
  case RReset
  then show ?thesis
    using assms(1) by (simp add: ring_reset_def ring_wf_def ring_bytes_def ring_available_def)
qed

lemma ring_calls_refines:
  assumes "ring_wf k r" and "list_all op_fits xs"
  shows "\<exists>r'. ring_calls xs r = Some (fst (bytes_calls (2 ^ k) xs (ring_bytes k r)), r') \<and> ring_wf k r' \<and>
    ring_bytes k r' = snd (bytes_calls (2 ^ k) xs (ring_bytes k r))"
  using assms
proof (induction xs arbitrary: r)
  case (Cons x xs)
  then obtain r1 where r1: "ring_call x r = Some (fst (bytes_call (2 ^ k) x (ring_bytes k r)), r1)" "ring_wf k r1"
      "ring_bytes k r1 = snd (bytes_call (2 ^ k) x (ring_bytes k r))"
    using ring_call_refines [of k r x] by auto
  from Cons.IH [OF r1(2)] Cons.prems(2) r1(1,3) show ?case
    by (auto simp: split_beta Let_def)
qed simp

lemma ring_calls_Cons:
  "ring_call x r = Some (out, r1) \<Longrightarrow> map_option fst (ring_calls xs r1) = Some outs \<Longrightarrow>
   map_option fst (ring_calls (x # xs) r) = Some (out # outs)"
  by auto

lemma ring_create_wf:
  assumes "ring_create pagesize len = Some r" and "unat (ring_fit pagesize len) = 2 ^ k"
  shows "ring_wf k r \<and> ring_bytes k r = []"
  using assms by (auto simp: ring_create_def Let_def ring_wf_def ring_bytes_def ring_available_def split: if_splits)

section \<open>Properties\<close>

text \<open>C36: A circular buffer whose size, rounded up to pages, is a power of two behaves as a queue of that many
  bytes: any sequence of writes, reads, skips and resets transfers the same numbers of bytes and reads
  the same bytes as on the queue, also across the end of the buffer and the overflow of the counters,
  and no copy leaves the doubly mapped region.\<close>
theorem ring_refines_bytes:
  assumes "ring_create pagesize len = Some r" and "unat (ring_fit pagesize len) = 2 ^ k" and "list_all op_fits xs"
  shows "map_option fst (ring_calls xs r) = Some (fst (bytes_calls (2 ^ k) xs []))"
  using ring_calls_refines [of k r xs] ring_create_wf [OF assms(1,2)] assms(3) by auto

theorem ring_refines_bytes_witness:
  "\<exists>r. ring_create 4096 5000 = Some r \<and> map_option fst (ring_calls [RWrite [1, 2, 3], RRead 2, RSkip 5, RRead 1] r) =
     Some [([], 3), ([1, 2], 2), ([], 0), ([], 0)]"
proof -
  have f: "ring_fit 4096 5000 = 8192"
    by code_simp
  then obtain r where r: "ring_create 4096 5000 = Some r"
    by (simp add: ring_create_def)
  then show ?thesis
    using ring_refines_bytes [OF r, of 13 "[RWrite [1, 2, 3], RRead 2, RSkip 5, RRead 1]"] f by (simp add: op_fits_def Let_def)
qed

text \<open>When the number of pages is not a power of two the mask of the buffer selects wrong positions: in a
  buffer of three pages that holds one page of data, the next byte written goes to the beginning and
  is read in place of the oldest byte, although the buffer is two thirds empty.\<close>
theorem ring_overwrites:
  "\<exists>r. ring_create 4096 12288 = Some r \<and>
     map_option fst (ring_calls [RWrite (replicate 4096 a), RWrite [b], RRead 1] r) = Some [([], 4096), ([], 1), ([b], 1)]"
proof -
  have "ring_fit 4096 12288 = 12288"
    by code_simp
  then have r: "ring_create 4096 12288 = Some \<lparr>cb_size = 12288, cb_data = (\<lambda>i. 0), cb_read = 0, cb_write = 0\<rparr>"
    by (simp add: ring_create_def)
  have n: "unat (4096 :: u64) = 4096" "unat (12288 :: u64) = 12288"
    by simp_all
  have m: "(4096 :: u64) AND 12287 = 0"
    by code_simp
  let ?r = "\<lparr>cb_size = 12288, cb_data = (\<lambda>i. 0), cb_read = 0, cb_write = 0\<rparr>"
    and ?r1 = "\<lparr>cb_size = 12288, cb_data = region_write 12288 0 (replicate 4096 a) (\<lambda>i. 0), cb_read = 0, cb_write = 4096\<rparr>"
  note defs = ring_write_def ring_read_def ring_left_def ring_available_def region_put_def
    region_get_def ring_writeAt_def ring_readAt_def cb_mask_def Let_def n m word_less_nat_alt
  have "ring_call (RWrite (replicate 4096 a)) ?r = Some (([], 4096), ?r1)"
    by (simp add: defs)
  moreover have "map_option fst (ring_calls [RWrite [b], RRead 1] ?r1) = Some [([], 1), ([b], 1)]"
    by (simp add: defs)
  ultimately have "map_option fst (ring_calls [RWrite (replicate 4096 a), RWrite [b], RRead 1] ?r) = Some [([], 4096), ([], 1), ([b], 1)]"
    by (rule ring_calls_Cons)
  then show ?thesis
    using r by blast
qed

end
