(* ===== verification/TcpTimeout.thy ===== *)
theory TcpTimeout
  imports TcpSystem TcpFrame
begin

text \<open>
  Liveness of the retransmission timer: a connection whose peer has fallen silent is given up after a
  number of ticks that its timer and its retransmission counter determine.
\<close>

section \<open>The ticks that are left\<close>

text \<open>Each of the remaining retransmissions waits twice as long as the one before.\<close>

definition ticks_left :: "conn \<Rightarrow> nat" where
  "ticks_left e = unat (m_timer e) + (\<Sum>j = unat (m_nrtx e)..<5. 3 * 2 ^ j)"

definition waiting :: "conn \<Rightarrow> bool" where
  "waiting e \<longleftrightarrow> m_state e \<notin> {CLOSED, TIME_WAIT, FIN_WAIT_2} \<and> hasOutstandingSegments e \<and> m_timer e \<noteq> 0 \<and> m_nrtx e \<le> MAXRTX"

section \<open>Retransmitting keeps the segments outstanding\<close>

definition seg_lens :: "conn \<Rightarrow> u32 list" where
  "seg_lens e = List.map s_len (m_segments e)"

lemma outstanding_lens: "hasOutstandingSegments e \<longleftrightarrow> list_ex (\<lambda>l. l \<noteq> 0) (seg_lens e)"
  by (simp add: hasOutstandingSegments_def seg_lens_def list_ex_iff)

lemma next_buffer_segments: "next_buffer ops e t = Some (st, e', t') \<Longrightarrow> m_segments e' = m_segments e"
  by (auto simp: next_buffer_def Let_def Some_eq_bind)

lemma send_len_segments: "send_len ops e len i t = Some (st, e', t') \<Longrightarrow> m_segments e' = m_segments e"
  by (auto simp: send_len_def Let_def Some_eq_bind split: if_splits dest!: next_buffer_segments)

lemma rexmit_swap_lens: "rexmit_swap e t = Some (e', t') \<Longrightarrow> seg_lens e' = seg_lens e"
  by (cases "unat (m_segidx e) < length (m_segments e)")
    (auto simp: rexmit_swap_def segment_swap_def segment_cur_def seg_lens_def upd_seg_def resetSendBuffer_def Some_eq_bind
      map_update list_update_beyond intro!: list_update_same_conv [THEN iffD2])

lemma rexmit_lens: "rexmit ops e t = Some (st, e', t') \<Longrightarrow> seg_lens e' = seg_lens e"
  by (auto simp: rexmit_def Let_def Some_eq_bind sendSyn_def sendSynAck_def sendFinAck_def sendFin_def send_seg_def
      split: conn_state.splits dest!: send_len_segments rexmit_swap_lens) (simp_all add: seg_lens_def)

section \<open>One tick\<close>

lemma backoff_timer:
  assumes "unat (m_nrtx e) < 5"
  shows "unat (m_timer (backoff e)) = 3 * 2 ^ unat (m_nrtx e)" "unat (m_nrtx (backoff e)) = unat (m_nrtx e) + 1"
proof -
  have "unat (push_bit n RTO :: u8) = 3 * 2 ^ n" if "n < 5" for n
  proof -
    have "n = 0 \<or> n = 1 \<or> n = 2 \<or> n = 3 \<or> n = 4"
      using that by auto
    then show ?thesis
      by (elim disjE) simp_all
  qed
  then show "unat (m_timer (backoff e)) = 3 * 2 ^ unat (m_nrtx e)"
    using assms by (simp add: backoff_def word_less_nat_alt)
  show "unat (m_nrtx (backoff e)) = unat (m_nrtx e) + 1"
    using assms by (simp add: backoff_def unat_word_ariths)
qed

lemma backoff_left:
  assumes "m_timer e = 1" and "unat (m_nrtx e) < 5"
  shows "ticks_left (backoff (e\<lparr>m_timer := 0\<rparr>)) = ticks_left e - 1" "m_timer (backoff (e\<lparr>m_timer := 0\<rparr>)) \<noteq> 0"
    "m_nrtx (backoff (e\<lparr>m_timer := 0\<rparr>)) \<le> MAXRTX" "1 < ticks_left e"
proof -
  let ?n = "unat (m_nrtx e)" and ?e = "backoff (e\<lparr>m_timer := 0\<rparr>)"
  have b: "unat (m_timer ?e) = 3 * 2 ^ ?n" "unat (m_nrtx ?e) = ?n + 1"
    using backoff_timer [of "e\<lparr>m_timer := 0\<rparr>"] assms(2) by simp_all
  have s: "(\<Sum>j = ?n..<5. 3 * 2 ^ j :: nat) = 3 * 2 ^ ?n + (\<Sum>j = ?n + 1..<5. 3 * 2 ^ j)"
    using assms(2) by (simp add: sum.atLeast_Suc_lessThan)
  show "ticks_left ?e = ticks_left e - 1"
    using b s assms(1) by (simp add: ticks_left_def)
  show "m_timer ?e \<noteq> 0"
    using b(1) by (auto simp: word_unat_eq_iff)
  show "m_nrtx ?e \<le> MAXRTX"
    using b(2) assms(2) by (simp add: word_le_nat_alt)
  show "1 < ticks_left e"
    using s assms(1) by (simp add: ticks_left_def)
qed

text \<open>The tick closes the connection if it is the last one, and otherwise counts down.\<close>

lemma run_conn_tick:
  assumes run: "run_conn ops ev e t = Some (r, e', t')" and w: "waiting e"
  shows "if ticks_left e = 1 then m_state e' = CLOSED else waiting e' \<and> ticks_left e' = ticks_left e - 1 \<and> 1 < ticks_left e"
proof -
  obtain b e1 t1 where rw: "run_waiting ops e t = (b, e1, t1)"
    by (cases "run_waiting ops e t") auto
  with w have e1: "\<not> b" "e1 = e" "t1 = t"
    using run_waiting_sel(8) [OF rw] by (auto simp: waiting_def)
  have "m_state e \<noteq> CLOSED"
    using w by (simp add: waiting_def)
  with run rw show ?thesis
  proof (cases rule: run_conn_cases)
    case nothing_due
    then show ?thesis
      using w e1 by (simp add: waiting_def)
  next
    case counting
    then have "m_timer e \<noteq> 0" "m_timer e \<noteq> 1"
      using w e1 by (auto simp: waiting_def)
    then have "1 < unat (m_timer e)" "unat (m_timer e - 1) = unat (m_timer e) - 1"
      by (auto simp: unat_sub word_le_nat_alt word_unat_eq_iff)
    moreover have "ticks_left e' = unat (m_timer e - 1) + (\<Sum>j = unat (m_nrtx e)..<5. 3 * 2 ^ j)" "waiting e'"
      using counting(3,6) w e1(2) by (auto simp: ticks_left_def waiting_def hasOutstandingSegments_def word_gt_0)
    ultimately show ?thesis
      by (auto simp: ticks_left_def)
  next
    case (giving_up e2 t2 st)
    then have "m_timer e = 1" "unat (m_nrtx e) = 5"
      using e1 by simp_all
    moreover have "m_state e' = CLOSED"
      using sendAbort_tx [OF giving_up(7)] by (auto dest: core_sel)
    ultimately show ?thesis
      by (simp add: ticks_left_def)
  next
    case (again st)
    have n: "m_timer e = 1" "unat (m_nrtx e) < 5"
    proof -
      show "m_timer e = 1"
        using again(3) e1 by simp
      show "unat (m_nrtx e) < 5"
        using again(4) e1 w by (auto simp: waiting_def word_le_nat_alt word_unat_eq_iff)
    qed
    let ?e = "backoff (e\<lparr>m_timer := 0\<rparr>)"
    have r: "rexmit ops ?e t = Some (st, e', t')"
      using again(6) e1 n(1) by simp
    note c = core_sel [of e' ?e]
    have tx: "core e' = core ?e"
      using rexmit_tx [OF r] by simp
    have "hasOutstandingSegments e'"
      using w rexmit_lens [OF r] by (simp add: outstanding_lens waiting_def seg_lens_def backoff_def)
    then have "waiting e'" "ticks_left e' = ticks_left ?e"
      using c [OF tx] backoff_left [OF n] w by (auto simp: waiting_def ticks_left_def backoff_def)
    then show ?thesis
      using backoff_left [OF n] by simp
  qed
qed

section \<open>The scan of a processor with one connection in use\<close>

definition only :: "nat \<Rightarrow> conn list \<Rightarrow> bool" where
  "only k conns \<longleftrightarrow> k < length conns \<and> (\<forall>j < length conns. j \<noteq> k \<longrightarrow> m_state (conns ! j) = CLOSED)"

lemma only_upd: "only k conns \<Longrightarrow> only k (conns[k := e])"
  by (simp add: only_def)

lemma run_scan_idle: "\<forall>i \<in> set is. m_state (t_conns t ! i) = CLOSED \<Longrightarrow> run_scan ops ev is t = Some (Ok, t)"
  by (induction "is") (auto simp: run_conn_def set_conn_def)

lemma run_scan_skip:
  "\<forall>i \<in> set is. m_state (t_conns t ! i) = CLOSED \<Longrightarrow> run_scan ops ev (is @ js) t = run_scan ops ev js t"
  by (induction "is") (auto simp: run_conn_def set_conn_def)

lemma run_conn_frame:
  assumes "run_conn ops ev e t = Some (r, e', t')"
  shows "t_conns t' = t_conns t \<and> t_timer t' = t_timer t"
  using assms
  by (auto simp: run_conn_def run_waiting_def Let_def t_unlisten_def on_net_def notify_def Some_eq_bind tcore_def split: if_splits
      dest!: sendAbort_tx rexmit_tx)

lemma tcp_run_only:
  assumes o: "only k (t_conns t)" and x: "timer_expired now (t_timer t)" and run: "tcp_run ops ev now now' t = Some (st, t')"
  obtains r e' t1 where "run_conn ops ev (t_conns t ! k) (t\<lparr>t_timer := timer_reset now' (t_timer t), t_iss := t_iss t + 1\<rparr>) = Some (r, e', t1)"
    "t_conns t' = (t_conns t)[k := e']" "t_timer t' = timer_reset now' (t_timer t)"
proof -
  let ?t = "t\<lparr>t_timer := timer_reset now' (t_timer t), t_iss := t_iss t + 1\<rparr>" and ?n = "length (t_conns t)"
  have k: "k < ?n" and idle: "\<forall>j < ?n. j \<noteq> k \<longrightarrow> m_state (t_conns t ! j) = CLOSED"
    using o by (auto simp: only_def)
  have "[0..<?n] = [0..<k] @ k # [Suc k..<?n]"
    using k upt_add_eq_append [of 0 k "?n - k"] by (simp add: upt_conv_Cons)
  then have "run_scan ops ev (k # [Suc k..<?n]) ?t = Some (st, t')"
    using run x run_scan_skip [of "[0..<k]" ?t ops ev "k # [Suc k..<?n]"] idle k by (simp add: tcp_run_def)
  then obtain r e' t1 where r: "run_conn ops ev (t_conns t ! k) ?t = Some (r, e', t1)"
      "(case r of None \<Rightarrow> run_scan ops ev [Suc k..<?n] (set_conn k e' t1) | Some st \<Rightarrow> Some (st, set_conn k e' t1)) = Some (st, t')"
    by (auto simp: Some_eq_bind Let_def)
  moreover have f: "t_conns t1 = t_conns t" "t_timer t1 = timer_reset now' (t_timer t)"
    using run_conn_frame [OF r(1)] by simp_all
  moreover have "run_scan ops ev [Suc k..<?n] (set_conn k e' t1) = Some (Ok, set_conn k e' t1)"
    using f idle by (intro run_scan_idle) (simp add: set_conn_def)
  ultimately show ?thesis
    by (intro that) (auto simp: set_conn_def split: option.splits)
qed

text \<open>Every tick comes when the interval since the tick before has passed.\<close>

fun all_expired :: "(u64 \<times> u64) list \<Rightarrow> timer \<Rightarrow> bool" where
  "all_expired [] tm \<longleftrightarrow> True"
| "all_expired ((now, now') # rs) tm \<longleftrightarrow> timer_expired now tm \<and> all_expired rs (timer_reset now' tm)"

definition ticks :: "(u64 \<times> u64) list \<Rightarrow> tcp_event list" where
  "ticks rs = List.map (\<lambda>(now, now'). Tick now now') rs"

context tcp_app
begin

lemma idle_stays:
  assumes "tcp_inv t" and "only k (t_conns t)" and "m_state (t_conns t ! k) = CLOSED" and "all_expired rs (t_timer t)"
  shows "\<exists>t'. tcp_play ops ev (ticks rs) t = Some t' \<and> m_state (t_conns t' ! k) = CLOSED"
  using assms
proof (induction rs arbitrary: t)
  case (Cons x rs)
  obtain now now' where x: "x = (now, now')"
    by (cases x)
  have x': "timer_expired now (t_timer t)" "all_expired rs (timer_reset now' (t_timer t))"
    using Cons.prems(4) x by simp_all
  obtain st t1 where r: "tcp_run ops ev now now' t = Some (st, t1)" "tcp_inv t1"
    using tcp_run_inv [OF Cons.prems(1), of now now'] by (auto simp: runs_iff)
  from Cons.prems(2) x'(1) r(1) obtain q e' t2 where
      e': "run_conn ops ev (t_conns t ! k) (t\<lparr>t_timer := timer_reset now' (t_timer t), t_iss := t_iss t + 1\<rparr>) = Some (q, e', t2)"
      "t_conns t1 = (t_conns t)[k := e']" "t_timer t1 = timer_reset now' (t_timer t)"
    by (rule tcp_run_only)
  then have "e' = t_conns t ! k"
    using Cons.prems(3) by (simp add: run_conn_def)
  with Cons.IH [OF r(2)] e'(2,3) x'(2) Cons.prems(2,3) r(1) x show ?case
    by (auto simp: ticks_def drop_result_def)
qed (simp add: ticks_def)

lemma countdown:
  assumes "tcp_inv t" and "only k (t_conns t)" and "waiting (t_conns t ! k)" and "all_expired rs (t_timer t)"
  shows "\<exists>t'. tcp_play ops ev (ticks rs) t = Some t' \<and>
    (m_state (t_conns t' ! k) = CLOSED \<longleftrightarrow> ticks_left (t_conns t ! k) \<le> length rs)"
  using assms
proof (induction rs arbitrary: t)
  case Nil
  have "0 < ticks_left (t_conns t ! k)"
    using Nil.prems(3) by (simp add: ticks_left_def waiting_def unat_gt_0)
  then show ?case
    using Nil by (auto simp: ticks_def waiting_def)
next
  case (Cons x rs)
  obtain now now' where x: "x = (now, now')"
    by (cases x)
  have x': "timer_expired now (t_timer t)" "all_expired rs (timer_reset now' (t_timer t))"
    using Cons.prems(4) x by simp_all
  obtain st t1 where r: "tcp_run ops ev now now' t = Some (st, t1)" "tcp_inv t1"
    using tcp_run_inv [OF Cons.prems(1), of now now'] by (auto simp: runs_iff)
  from Cons.prems(2) x'(1) r(1) obtain q e' t2 where
      e': "run_conn ops ev (t_conns t ! k) (t\<lparr>t_timer := timer_reset now' (t_timer t), t_iss := t_iss t + 1\<rparr>) = Some (q, e', t2)"
      "t_conns t1 = (t_conns t)[k := e']" "t_timer t1 = timer_reset now' (t_timer t)"
    by (rule tcp_run_only)
  have k: "k < length (t_conns t)" and o: "only k (t_conns t1)" and ex: "all_expired rs (t_timer t1)"
    using Cons.prems(2) e'(2,3) x'(2) by (auto simp: only_def)
  have h: "tcp_play ops ev (ticks (x # rs)) t = tcp_play ops ev (ticks rs) t1"
    using r(1) x by (simp add: ticks_def drop_result_def)
  note tick = run_conn_tick [OF e'(1) Cons.prems(3)]
  show ?case
  proof (cases "ticks_left (t_conns t ! k) = 1")
    case True
    then show ?thesis
      using tick idle_stays [OF r(2) o _ ex] e'(2) k h by auto
  next
    case False
    then show ?thesis
      using tick Cons.IH [OF r(2) o _ ex] e'(2) k h by auto
  qed
qed

end

section \<open>A sample run\<close>

lemma sample_silent:
  "\<exists>t. tcp_handle list_ops (client_events default_delegate) (hd sample_events) sample_tcp = Some t \<and> length (t_conns t) = 1 \<and>
     waiting (t_conns t ! 0) \<and> ticks_left (t_conns t ! 0) = 93 \<and> t_timer t = timer_set 0 100"
proof -
  have "map_option (\<lambda>t. (length (t_conns t), waiting (t_conns t ! 0), m_timer (t_conns t ! 0), m_nrtx (t_conns t ! 0), t_timer t))
      (tcp_handle list_ops (client_events default_delegate) (hd sample_events) sample_tcp) = Some (1, True, 3, 1, timer_set 0 100)"
    by code_simp
  then obtain t where t: "tcp_handle list_ops (client_events default_delegate) (hd sample_events) sample_tcp = Some t"
      "length (t_conns t) = 1" "waiting (t_conns t ! 0)" "m_timer (t_conns t ! 0) = 3" "m_nrtx (t_conns t ! 0) = 1" "t_timer t = timer_set 0 100"
    by auto
  then show ?thesis
    by (intro exI [of _ t]) (simp add: ticks_left_def sum.atLeast_Suc_lessThan)
qed

lemma sample_silent_wf:
  assumes "tcp_handle list_ops (client_events default_delegate) (hd sample_events) sample_tcp = Some t"
  shows "tcp_wf 94 (\<lambda>u. True) t"
proof -
  note app = list_tcp_client [of 94, OF _ _ default.delegate_axioms, simplified]
  have "tcp_app.tcp_inv (list_dinv 94) 94 4 (client_ok (\<lambda>u. True)) sample_tcp"
    by (rule tcp_app.create_inv [OF app sample_create]) (auto simp: list_dinv_def client_new_ok sample_link_def)
  moreover have "admissible (hd sample_events) sample_tcp"
    using sample_admissible by (simp add: sample_events_def)
  ultimately have "runs (tcp_handle list_ops (client_events default_delegate) (hd sample_events) sample_tcp)
      (tcp_app.tcp_inv (list_dinv 94) 94 4 (client_ok (\<lambda>u. True)))"
    by (rule tcp_app.event_safe [OF app])
  then have "tcp_app.tcp_inv (list_dinv 94) 94 4 (client_ok (\<lambda>u. True)) t"
    using assms by (simp add: runs_iff)
  then show ?thesis
    by (simp add: tcp_wf_def tcp_app.tcp_inv_def [OF app] list_dinv_def)
qed

lemma all_expired_replicate: "timer_expired now (timer_reset now' tm) \<Longrightarrow> timer_expired now tm \<Longrightarrow> all_expired (replicate n (now, now')) tm"
proof (induction n arbitrary: tm)
  case (Suc n)
  then show ?case
    by (simp add: timer_reset_def)
qed simp

section \<open>Properties\<close>

text \<open>C6: A silent peer is given up. Take any device that accepts every frame and never releases a buffer it has lent or
  accepted, and any application that keeps its contract. When the only connection in use has data, a SYN or a FIN in flight
  and no segment arrives, it is closed by exactly the tick that its timer and its retransmission counter
  determine: the ticks left on the timer, plus 3, 6, 12, 24 and 48 ticks for those of the five
  retransmissions that are still to come. Before it is still in use, and no tick fails.\<close>
theorem silent_peer_given_up:
  assumes "reliable_nic ops dinv nmss hr" and "62 \<le> nmss" and "nmss < 2 ^ 24" and "app ev hinv"
    and "dinv (t_mem t) (t_dev t)" and "hinv (t_handler t)" and "tcp_ok hr nmss t" and "only k (t_conns t)"
    and "waiting (t_conns t ! k)" and "all_expired rs (t_timer t)"
  shows "\<exists>t'. tcp_play ops ev (ticks rs) t = Some t' \<and>
    (m_state (t_conns t' ! k) = CLOSED \<longleftrightarrow> ticks_left (t_conns t ! k) \<le> length rs)"
proof -
  note app = tcp_appI [OF assms(1-4)]
  have "tcp_app.tcp_inv dinv nmss hr hinv t"
    using assms(5-7) by (simp add: tcp_app.tcp_inv_def [OF app])
  then show ?thesis
    by (rule tcp_app.countdown [OF app _ assms(8-10)])
qed

text \<open>On the list device, whose packets only the reader releases, and a silent peer has read nothing.\<close>

theorem silent_peer_given_up_witness:
  "\<exists>t t'. tcp_handle list_ops (client_events default_delegate) (hd sample_events) sample_tcp = Some t \<and>
     tcp_play list_ops (client_events default_delegate) (ticks (replicate 93 (1000, 0))) t = Some t' \<and> m_state (t_conns t' ! 0) = CLOSED"
proof -
  obtain t where t: "tcp_handle list_ops (client_events default_delegate) (hd sample_events) sample_tcp = Some t"
      "length (t_conns t) = 1" "waiting (t_conns t ! 0)" "ticks_left (t_conns t ! 0) = 93" "t_timer t = timer_set 0 100"
    using sample_silent by (elim exE conjE)
  have "all_expired (replicate 93 (1000, 0)) (t_timer t)"
    unfolding t(5) by (rule all_expired_replicate) (simp_all add: timer_expired_def timer_set_def timer_reset_def)
  moreover have "only 0 (t_conns t)"
    using t(2) by (simp add: only_def)
  ultimately obtain t' where "tcp_play list_ops (client_events default_delegate) (ticks (replicate 93 (1000, 0))) t = Some t'"
      "m_state (t_conns t' ! 0) = CLOSED"
    using silent_peer_given_up [OF list_link.reliable_nic_axioms _ _ default_client.app_axioms _ _ _ _ t(3), of 94 "replicate 93 (1000, 0)"]
      sample_silent_wf [OF t(1)] t(4) by (auto simp: tcp_wf_def list_dinv_def)
  with t(1) show ?thesis
    by blast
qed

end
