(* ===== verification/TcpWire.thy ===== *)
theory TcpWire
  imports Stack TcpImage
begin

text \<open>
  A segment on its way from one host to another: what the sending functions put on the list device,
  byte by byte, and what the Ethernet processor of the addressed host makes of it.
\<close>

section \<open>Stores into a block that is known piece by piece\<close>

lemma block_write:
  "b < length m \<Longrightarrow> m ! b = A @ X @ B \<Longrightarrow> length A = i \<Longrightarrow> length Y = length X \<Longrightarrow>
   mem_write m (Ptr b i) Y = Some (m[b := A @ Y @ B])"
  by (simp add: mem_write_def patch_def)

lemma block_read:
  "b < length m \<Longrightarrow> m ! b = A @ X @ B \<Longrightarrow> length A = i \<Longrightarrow> n = length X \<Longrightarrow> mem_read m (Ptr b i) n = Some X"
  by (simp add: mem_read_def)

text \<open>The processor with block \<open>b\<close> holding \<open>seg\<close> between \<open>P\<close> and \<open>Q\<close>.\<close>

definition holding :: "nat \<Rightarrow> u8 list \<Rightarrow> u8 list \<Rightarrow> u8 list \<Rightarrow> ('d, 'h) tcp \<Rightarrow> ('d, 'h) tcp" where
  "holding b P Q seg t = t_set_mem ((t_mem t)[b := P @ seg @ Q]) t"

lemma holding_self: "t_mem t ! b = P @ seg @ Q \<Longrightarrow> holding b P Q seg t = t"
  using list_update_id [of "t_mem t" b] by (simp add: holding_def t_set_mem_def on_net_def)

lemma holding_sel [simp]:
  "t_dev (holding b P Q seg t) = t_dev t" "t_mem (holding b P Q seg t) = (t_mem t)[b := P @ seg @ Q]"
  "n_ip (t_net (holding b P Q seg t)) = n_ip (t_net t)" "n_eth (t_net (holding b P Q seg t)) = n_eth (t_net t)"
  "t_conns (holding b P Q seg t) = t_conns t" "t_handler (holding b P Q seg t) = t_handler t"
  by (simp_all add: holding_def t_set_mem_def on_net_def)

lemma holding_set_mem: "t_set_mem ((t_mem t)[b := P @ seg' @ Q]) (holding b P Q seg t) = holding b P Q seg' t"
  by (simp add: holding_def t_set_mem_def on_net_def)

lemma patch_split: "i + length ys \<le> length xs \<Longrightarrow> xs = take i xs @ take (length ys) (drop i xs) @ drop (i + length ys) xs"
  by (metis append_take_drop_id drop_drop add.commute)

lemma holding_write:
  assumes "b < length (t_mem t)" and "i + length ys \<le> length seg"
  shows "mem_write (t_mem (holding b P Q seg t)) (Ptr b (length P + i)) ys = Some ((t_mem t)[b := P @ patch seg i ys @ Q])"
proof -
  let ?m = "(t_mem t)[b := P @ seg @ Q]"
  have "?m ! b = (P @ take i seg) @ take (length ys) (drop i seg) @ (drop (i + length ys) seg @ Q)"
    using assms(1) arg_cong [OF patch_split [OF assms(2)], of "\<lambda>x. P @ x @ Q"] by simp
  then have "mem_write ?m (Ptr b (length P + i)) ys = Some (?m[b := (P @ take i seg) @ ys @ (drop (i + length ys) seg @ Q)])"
    by (rule block_write [rotated]) (use assms in simp_all)
  then show ?thesis
    by (simp add: patch_def)
qed

lemma holding_store:
  assumes "b < length (t_mem t)" and "k = length P"
  shows "i + 1 \<le> length seg \<Longrightarrow> tst8 (Ptr b k) i x (holding b P Q seg t) = Some (holding b P Q (patch seg i [x]) t)"
    "i + 2 \<le> length seg \<Longrightarrow> tst16 (Ptr b k) i y (holding b P Q seg t) = Some (holding b P Q (patch seg i (bytes16 y)) t)"
    "i + 4 \<le> length seg \<Longrightarrow> tst32 (Ptr b k) i z (holding b P Q seg t) = Some (holding b P Q (patch seg i (bytes32 z)) t)"
    "i + 1 \<le> length seg \<Longrightarrow> ld8 (t_mem (holding b P Q seg t)) (Ptr b k) i = Some (seg ! i)"
proof -
  show "i + 1 \<le> length seg \<Longrightarrow> ld8 (t_mem (holding b P Q seg t)) (Ptr b k) i = Some (seg ! i)"
    using assms by (simp add: ld8_def mem_read_def rd8_def nth_append)
qed (use assms holding_write [OF assms(1), where P = P and Q = Q and seg = seg and i = i] in
    \<open>simp_all add: tst8_def tst16_def tst32_def st8_def st16_def st32_def holding_set_mem del: holding_sel\<close>)

section \<open>Committing an arbitrary block\<close>

lemma list_ip_commit_block:
  assumes b: "b < length (n_mem n)" "n_mem n ! b = J @ E @ ip_header_image p @ seg @ Q" "length J = 4" "length E = 14"
    and len: "len = of_nat (length seg)" "34 + length seg < 2 ^ 32"
  shows "ip_commit list_ops len (Ptr b 38) mss n = Some (Ok, n\<lparr>
    n_mem := (n_mem n)[b := bytes32 (of_nat (34 + length seg)) @ E @ ip_header p (ucast (len + 20)) @ seg @ Q],
    n_dev := (n_dev n)\<lparr>l_write := l_write (n_dev n) @ [Ptr b 0]\<rparr>, n_ip := (n_ip n)\<lparr>io_sent := io_sent (n_ip n) + 1\<rparr>\<rparr>)"
proof -
  let ?m = "\<lambda>h. (n_mem n)[b := J @ E @ h @ seg @ Q]"
  have w: "st16 (?m h) (Ptr b 18) i v = Some (?m (patch h i (bytes16 v)))" if "length h = 20" "i + 2 \<le> 20" for h i v
  proof -
    have "?m h ! b = (J @ E @ take i h) @ take 2 (drop i h) @ (drop (i + 2) h @ seg @ Q)"
      using b(1) that arg_cong [OF patch_split [of i "bytes16 v" h], of "\<lambda>x. J @ E @ x @ seg @ Q"] by simp
    then have "mem_write (?m h) (Ptr b (18 + i)) (bytes16 v) = Some ((?m h)[b := (J @ E @ take i h) @ bytes16 v @ (drop (i + 2) h @ seg @ Q)])"
      by (rule block_write [rotated]) (use b(1,3,4) that in simp_all)
    then show ?thesis
      by (simp add: st16_def patch_def)
  qed
  have r: "mem_read (?m h) (Ptr b 18) 20 = Some h" if "length h = 20" for h
    using b(1,3,4) that by (intro block_read [where A = "J @ E" and B = "seg @ Q"]) simp_all
  have self: "n_mem n = ?m (ip_header_image p)"
    using list_update_id [of "n_mem n" b] b(2) by simp
  let ?h = "patch (ip_header_image p) 2 (bytes16 (htons (ucast (len + 20))))"
  obtain c where c: "ipv4_checksum ?h = Some c"
    by (simp add: ipv4_checksum_def checksum_def)
  let ?n = "n\<lparr>n_mem := ?m (ip_header p (ucast (len + 20))), n_ip := (n_ip n)\<lparr>io_sent := io_sent (n_ip n) + 1\<rparr>\<rparr>"
  have "ip_commit list_ops len (Ptr b 38) mss n = eth_commit list_ops (len + 20) (Ptr b 18) mss ?n"
    using w [of "ip_header_image p" 2] w [of ?h 10] r [of ?h] c self
    by (simp add: ip_commit_def Let_def ip_header_def)
  moreover have "mem_write (?m h) (Ptr b 0) (bytes32 v) = Some ((n_mem n)[b := bytes32 v @ E @ h @ seg @ Q])" for h v
    using block_write [of b "?m h" "[]" J "E @ h @ seg @ Q" 0 "bytes32 v"] b(1,3) by simp
  ultimately show ?thesis
    by (simp add: eth_commit_def list_ops_def list_commit_def st32_def len(1))
qed

section \<open>Sending\<close>

text \<open>A buffer of the connection \<open>e\<close>: below it are the headers that address its peer, whatever the producers are directed at
  now.\<close>

definition ready_buffer :: "conn \<Rightarrow> ptr \<Rightarrow> (list_dev, 'h) tcp \<Rightarrow> bool" where
  "ready_buffer e q t \<longleftrightarrow> (\<exists>b J p R. q = Ptr b 38 \<and> b < length (t_mem t) \<and> length J = 4 \<and>
     t_mem t ! b = J @ eth_frame (m_rethaddr e) (eo_host (n_eth (t_net t))) ETHTYPE_IP (ip_header_image p) @ R \<and>
     io_host p = io_host (n_ip (t_net t)) \<and> io_dest p = m_ripaddr e \<and> io_proto p = PROTO_TCP)"

text \<open>The header of the segment.\<close>

definition sent_header :: "conn \<Rightarrow> u32 \<Rightarrow> u8 list \<Rightarrow> tcp_header" where
  "sent_header e seq seg = \<lparr>hd_src = m_lport e, hd_dst = m_rport e, hd_seq = seq, hd_ack = m_rcv_nxt e,
     hd_off = drop_bit 4 (seg ! 12), hd_flags = seg ! 13, hd_wnd = 0xFFFF, hd_urgp = 0\<rparr>"

lemma and_high_nibble: "(x :: u8) AND 0xF0 = push_bit 4 (drop_bit 4 x)"
proof -
  have "(0xF0 :: u8) = NOT (mask 4)"
    by (simp add: mask_eq_exp_minus_1)
  moreover have "x AND NOT (mask 4) = push_bit 4 (drop_bit 4 x)"
    by (rule bit_word_eqI) (auto simp: bit_and_iff bit_not_iff bit_mask_iff bit_push_bit_iff bit_drop_bit_eq not_less)
  ultimately show ?thesis
    by simp
qed

lemma list_twenty:
  "20 \<le> length xs \<Longrightarrow> xs = [xs ! 0, xs ! 1, xs ! 2, xs ! 3, xs ! 4, xs ! 5, xs ! 6, xs ! 7, xs ! 8, xs ! 9, xs ! 10, xs ! 11,
     xs ! 12, xs ! 13, xs ! 14, xs ! 15, xs ! 16, xs ! 17, xs ! 18, xs ! 19] @ drop 20 xs"
proof -
  assume "20 \<le> length xs"
  then have "take 20 xs = map ((!) xs) [0..<20]"
    by (intro nth_equalityI) simp_all
  also have "[0..<20] = [0, 1, 2, 3, 4, 5, 6, 7, 8, 9, 10, 11, 12, 13, 14, 15, 16, 17, 18, 19]"
    by code_simp
  finally show ?thesis
    using append_take_drop_id [of 20 xs] by simp
qed

text \<open>The stores of \<^term>\<open>fill_header\<close> and of \<^term>\<open>send_raw\<close> up to the checksum.\<close>

definition fill_image :: "conn \<Rightarrow> u32 \<Rightarrow> u8 list \<Rightarrow> u8 list" where
  "fill_image e seq seg = patch (patch (patch (patch (patch seg 8 (bytes32 (htonl (m_rcv_nxt e)))) 4 (bytes32 (htonl seq)))
     0 (bytes16 (m_lport e))) 2 (bytes16 (m_rport e))) 14 (bytes16 0xFFFF)"

definition clear_image :: "u8 list \<Rightarrow> u8 list" where
  "clear_image seg = (let seg = patch (patch seg 18 (bytes16 0)) 16 (bytes16 0) in patch seg 12 [(seg ! 12) AND 0xF0])"

lemma clear_fill_image:
  assumes "20 \<le> length seg"
  shows "clear_image (fill_image e seq seg) = tcp_raw (sent_header e seq seg) 0 @ drop 20 seg"
proof -
  have "clear_image (fill_image e seq ([x0, x1, x2, x3, x4, x5, x6, x7, x8, x9, x10, x11, x12, x13, x14, x15, x16, x17, x18, x19] @ r)) =
      bytes16 (m_lport e) @ bytes16 (m_rport e) @ bytes32 (htonl seq) @ bytes32 (htonl (m_rcv_nxt e)) @ [x12 AND 0xF0, x13] @
      bytes16 0xFFFF @ bytes16 0 @ bytes16 0 @ r" for x0 x1 x2 x3 x4 x5 x6 x7 x8 x9 x10 x11 x12 x13 x14 x15 x16 x17 x18 x19 r
    by (simp add: clear_image_def fill_image_def Let_def patch_def bytes16_def bytes32_def)
  from this [of "seg ! 0" "seg ! 1" "seg ! 2" "seg ! 3" "seg ! 4" "seg ! 5" "seg ! 6" "seg ! 7" "seg ! 8" "seg ! 9" "seg ! 10" "seg ! 11"
      "seg ! 12" "seg ! 13" "seg ! 14" "seg ! 15" "seg ! 16" "seg ! 17" "seg ! 18" "seg ! 19" "drop 20 seg",
      unfolded list_twenty [OF assms, symmetric]]
  have "clear_image (fill_image e seq seg) = bytes16 (m_lport e) @ bytes16 (m_rport e) @ bytes32 (htonl seq) @ bytes32 (htonl (m_rcv_nxt e)) @
      [seg ! 12 AND 0xF0, seg ! 13] @ bytes16 0xFFFF @ bytes16 0 @ bytes16 0 @ drop 20 seg" .
  moreover have "htons 0xFFFF = 0xFFFF" "htons 0 = 0"
    by code_simp+
  ultimately show ?thesis
    by (simp add: tcp_raw_def sent_header_def and_high_nibble)
qed

lemma length_images [simp]: "20 \<le> length seg \<Longrightarrow> length (fill_image e seq seg) = length seg"
  "20 \<le> length seg \<Longrightarrow> length (clear_image seg) = length seg"
  by (simp_all add: fill_image_def clear_image_def Let_def)

lemma advertised_list: "m_state e \<noteq> STOPPED \<Longrightarrow> advertised_window list_ops e f d = 0xFFFF"
proof -
  have "htons 0xFFFF = 0xFFFF" "cap (push_bit 10 0xFFFF) = 0xFFFF"
    by code_simp+
  then show "m_state e \<noteq> STOPPED \<Longrightarrow> ?thesis"
    by (simp add: advertised_window_def list_ops_def)
qed

lemma fill_header_holding:
  assumes "b < length (t_mem t)" and "20 \<le> length seg" and "m_state e \<noteq> STOPPED"
  shows "fill_header list_ops e seq (Ptr b (length P)) (holding b P Q seg t) = Some (holding b P Q (fill_image e seq seg) t)"
  using assms(2,3) by (simp add: fill_header_def holding_store [OF assms(1)] advertised_list fill_image_def del: holding_sel)

lemma send_raw_holding:
  assumes "b < length (t_mem t)" and "20 \<le> length seg" and "length seg < 65500" and len: "len = of_nat (length seg)"
    and "length J = 4" and "length E = 14" and "P = J @ E @ ip_header_image p"
    and clear: "clear_image seg = tcp_raw h 0 @ rest"
  shows "send_raw list_ops dst len mss (Ptr b 38) (holding b P Q seg t) = Some (Ok, t\<lparr>t_net := (t_net t)\<lparr>
    n_mem := (t_mem t)[b := bytes32 (of_nat (34 + length seg)) @ E @ ip_header p (ucast (len + 20)) @
      tcp_image (io_host (n_ip (t_net t))) dst h rest @ Q],
    n_dev := (t_dev t)\<lparr>l_write := l_write (t_dev t) @ [Ptr b 0]\<rparr>,
    n_ip := (n_ip (t_net t))\<lparr>io_sent := io_sent (n_ip (t_net t)) + 1\<rparr>\<rparr>\<rparr>)"
proof -
  let ?z = "patch (patch seg 18 (bytes16 0)) 16 (bytes16 0)" and ?s = "tcp_raw h 0 @ rest"
  let ?i = "tcp_image (io_host (n_ip (t_net t))) dst h rest"
  have P: "length P = 38"
    using assms(5-7) by simp
  have l: "length ?s = length seg" "length rest + 20 = length seg"
    using clear length_images(2) [OF assms(2)] by simp_all
  have "unat len = length seg"
    using assms(3) by (simp add: len unsigned_of_nat take_bit_nat_eq_self)
  then have n: "unat (ucast len :: u16) = length seg"
    using assms(3) by (simp add: unsigned_ucast_eq take_bit_nat_eq_self)
  have n': "(ucast len :: u16) = of_nat (length ?s)"
    using n l(1) word_unat_eq_iff [of "ucast len :: u16" "of_nat (length seg)"] assms(3) by (simp add: unsigned_of_nat take_bit_nat_eq_self)
  obtain c where c: "tcpv4_checksum (io_host (n_ip (t_net t))) dst (ucast len) ?s = Some c"
    using n l(1) by (simp add: tcpv4_checksum_def checksum_def)
  have img: "patch ?s 16 (bytes16 (NOT c)) = tcp_image (io_host (n_ip (t_net t))) dst h rest"
    using c n' by (simp add: tcp_raw_patch tcp_image_def tcp_sum_def)
  have read: "mem_read (t_mem (holding b P Q ?s t)) (Ptr b 38) (length seg) = Some ?s"
    using assms(1) P l by (intro block_read [where A = P and B = Q]) simp_all
  have clr: "patch ?z 12 [?z ! 12 AND 0xF0] = ?s"
    using clear by (simp add: clear_image_def Let_def)
  have room: "12 + 1 \<le> length ?z" "18 + 2 \<le> length seg" "16 + 2 \<le> length (patch seg 18 (bytes16 0))" "16 + 2 \<le> length ?s"
    using assms(2) l by simp_all
  note store = holding_store [OF assms(1) P [symmetric]]
  have "send_raw list_ops dst len mss (Ptr b 38) (holding b P Q seg t) = do {
      (ret, n) \<leftarrow> ip_commit list_ops len (Ptr b 38) mss (t_net (holding b P Q (tcp_image (io_host (n_ip (t_net t))) dst h rest) t));
      Some (ret, (holding b P Q (tcp_image (io_host (n_ip (t_net t))) dst h rest) t)\<lparr>t_net := n\<rparr>)}"
    using read c room
    by (simp add: send_raw_def clear_reserved_def store clr n img del: holding_sel(2))
  moreover have li: "length ?i = length seg"
    using l by simp
  then have "ip_commit list_ops len (Ptr b 38) mss (t_net (holding b P Q ?i t)) = Some (Ok, (t_net t)\<lparr>
      n_mem := (t_mem t)[b := bytes32 (of_nat (34 + length seg)) @ E @ ip_header p (ucast (len + 20)) @ ?i @ Q],
      n_dev := (t_dev t)\<lparr>l_write := l_write (t_dev t) @ [Ptr b 0]\<rparr>,
      n_ip := (n_ip (t_net t))\<lparr>io_sent := io_sent (n_ip (t_net t)) + 1\<rparr>\<rparr>)"
    using list_ip_commit_block [of b "t_net (holding b P Q ?i t)" J E p ?i Q len mss] assms(1,3,5-7) li len
    by (simp add: holding_def t_set_mem_def on_net_def del: length_tcp_image)
  ultimately show ?thesis
    by (simp add: holding_def t_set_mem_def on_net_def)
qed

lemma next_buffer_ready:
  assumes "34 \<le> unat (l_mtu (t_dev t))"
  shows "\<exists>e' t' bs. next_buffer list_ops e t = Some (Ok, e', t') \<and> ready_buffer e' (m_sdat e') t' \<and> t_mem t' = t_mem t @ [bs] \<and>
    t_dev t' = t_dev t \<and> m_ripaddr e' = m_ripaddr e \<and> m_rethaddr e' = m_rethaddr e"
proof -
  let ?t = "address_peer (m_rethaddr e) (m_ripaddr e) t"
  have sel: "t_mem ?t = t_mem t" "t_dev ?t = t_dev t" "eo_host (n_eth (t_net ?t)) = eo_host (n_eth (t_net t))"
    "eo_dest (n_eth (t_net ?t)) = m_rethaddr e" "io_dest (n_ip (t_net ?t)) = m_ripaddr e" "io_proto (n_ip (t_net ?t)) = PROTO_TCP"
    by (simp_all add: address_peer_def on_net_def eth_setDest_def ip_setDest_def ip_setProtocol_def)
  obtain blk where blk: "length blk = 4 + unat (l_mtu (t_dev t))" and
    p: "ip_prepare list_ops (t_net ?t) = Some (Ok, Ptr (length (t_mem t)) 38, (t_net ?t)\<lparr>
      n_mem := t_mem t @ [patch blk 4 (eth_frame (m_rethaddr e) (eo_host (n_eth (t_net t))) ETHTYPE_IP (ip_header_image (ip_next (t_net ?t))))],
      n_eth := (n_eth (t_net ?t))\<lparr>eo_type := ETHTYPE_IP\<rparr>, n_ip := ip_next (t_net ?t)\<rparr>)"
    using list_ip_prepare [of "t_net ?t"] assms by (auto simp: sel)
  let ?f = "eth_frame (m_rethaddr e) (eo_host (n_eth (t_net t))) ETHTYPE_IP (ip_header_image (ip_next (t_net ?t)))"
    and ?e = "e\<lparr>m_sdat := Ptr (length (t_mem t)) 38\<rparr>"
  let ?n = "(t_net ?t)\<lparr>n_mem := t_mem t @ [patch blk 4 ?f], n_eth := (n_eth (t_net ?t))\<lparr>eo_type := ETHTYPE_IP\<rparr>, n_ip := ip_next (t_net ?t)\<rparr>"
  have "patch blk 4 ?f = take 4 blk @ eth_frame (m_rethaddr e) (eo_host (n_eth (t_net t))) ETHTYPE_IP (ip_header_image (ip_next (t_net ?t))) @ drop 38 blk"
    by (simp add: patch_def)
  then have "ready_buffer ?e (m_sdat ?e) (?t\<lparr>t_net := ?n\<rparr>)"
    unfolding ready_buffer_def
    by (intro exI [of _ "length (t_mem t)"] exI [of _ "take 4 blk"] exI [of _ "ip_next (t_net ?t)"] exI [of _ "drop 38 blk"])
      (use blk sel in \<open>simp add: ip_next_def\<close>)
  moreover have "next_buffer list_ops e t = Some (Ok, ?e, ?t\<lparr>t_net := ?n\<rparr>)"
    using p by (simp add: next_buffer_def Let_def)
  ultimately show ?thesis
    using sel(2) by (intro exI [of _ ?e] exI [of _ "?t\<lparr>t_net := ?n\<rparr>"] exI [of _ "patch blk 4 ?f"]) simp
qed

text \<open>What \<^term>\<open>send_len\<close> puts on the wire for a segment whose bytes are \<open>seg\<close>: the frame, as the list device keeps it for its
  peer.\<close>

definition on_wire :: "u8 list \<Rightarrow> ptr \<Rightarrow> (list_dev, 'h) tcp \<Rightarrow> (list_dev, 'h) tcp \<Rightarrow> bool" where
  "on_wire frame q t t' \<longleftrightarrow> (\<exists>b. q = Ptr b 38 \<and> l_write (t_dev t') = l_write (t_dev t) @ [Ptr b 0] \<and>
     mem_read (t_mem t') (Ptr b 0) (4 + length frame) = Some (bytes32 (of_nat (length frame)) @ frame))"

lemma send_len_wire:
  assumes "ready_buffer e q t" and "q = s_dat (m_segments e ! i)" and "mem_read (t_mem t) q (unat len) = Some seg"
    and "20 \<le> unat len" and "unat len < 65500" and "m_state e \<noteq> STOPPED" and "34 \<le> unat (l_mtu (t_dev t))"
  shows "\<exists>e' t' p. send_len list_ops e len i t = Some (Ok, e', t') \<and>
    on_wire (eth_frame (m_rethaddr e) (eo_host (n_eth (t_net t))) ETHTYPE_IP (ip_header p (ucast (len + 20)) @
      tcp_image (io_host (n_ip (t_net t))) (m_ripaddr e) (sent_header e (s_seq (m_segments e ! i)) seg) (drop 20 seg))) q t t' \<and>
    io_host p = io_host (n_ip (t_net t)) \<and> io_dest p = m_ripaddr e \<and> io_proto p = PROTO_TCP \<and>
    ready_buffer e' (m_sdat e') t'"
proof -
  obtain b J p R where q: "q = Ptr b 38" and b: "b < length (t_mem t)" and J: "length J = 4"
    and blk: "t_mem t ! b = J @ eth_frame (m_rethaddr e) (eo_host (n_eth (t_net t))) ETHTYPE_IP (ip_header_image p) @ R"
    and p: "io_host p = io_host (n_ip (t_net t))" "io_dest p = m_ripaddr e" "io_proto p = PROTO_TCP"
    using assms(1) unfolding ready_buffer_def by blast
  let ?E = "eth_frame (m_rethaddr e) (eo_host (n_eth (t_net t))) ETHTYPE_IP []"
  let ?P = "J @ ?E @ ip_header_image p" and ?Q = "drop (unat len) R" and ?seq = "s_seq (m_segments e ! i)"
  have E: "eth_frame d s ty (xs @ ys) = eth_frame d s ty [] @ xs @ ys" for d s ty xs ys
    by (simp add: eth_frame_def)
  have seg: "seg = take (unat len) R" "unat len \<le> length R"
    using assms(3) b J by (auto simp: q blk mem_read_def split: if_splits)
  have l: "length seg = unat len" "20 \<le> length seg" "length seg < 65500" "len = of_nat (length seg)"
    using seg assms(4,5) by simp_all
  have "t_mem t ! b = ?P @ seg @ ?Q"
    using blk E [of _ _ _ "ip_header_image p" "[]"] seg by simp
  then have self: "holding b ?P ?Q seg t = t"
    by (rule holding_self)
  have P: "length ?P = 38"
    using J by simp
  let ?img = "tcp_image (io_host (n_ip (t_net t))) (m_ripaddr e) (sent_header e ?seq seg) (drop 20 seg)"
  let ?body = "ip_header p (ucast (len + 20)) @ ?img"
  let ?t1 = "t\<lparr>t_net := (t_net t)\<lparr>n_mem := (t_mem t)[b := bytes32 (of_nat (34 + length seg)) @ ?E @ ?body @ ?Q],
      n_dev := (t_dev t)\<lparr>l_write := l_write (t_dev t) @ [Ptr b 0]\<rparr>,
      n_ip := (n_ip (t_net t))\<lparr>io_sent := io_sent (n_ip (t_net t)) + 1\<rparr>\<rparr>\<rparr>"
  have fill: "fill_header list_ops e ?seq q t = Some (holding b ?P ?Q (fill_image e ?seq seg) t)"
    using fill_header_holding [OF b l(2) assms(6), of ?seq ?P ?Q] by (simp only: self q P)
  have len': "length (fill_image e ?seq seg) = length seg"
    using l(2) by simp
  have f: "20 \<le> length (fill_image e ?seq seg)" "length (fill_image e ?seq seg) < 65500" "len = of_nat (length (fill_image e ?seq seg))"
    unfolding len' by (rule l(2) l(3) l(4))+
  have send: "send_raw list_ops (m_ripaddr e) len (m_mss e) q (holding b ?P ?Q (fill_image e ?seq seg) t) = Some (Ok, ?t1)"
    using send_raw_holding [OF b f(1-3) J _ refl clear_fill_image [OF l(2)], where E = ?E and p = p] by (simp add: q len')
  obtain e' t' bs where nb: "next_buffer list_ops (advance i e) ?t1 = Some (Ok, e', t')" "ready_buffer e' (m_sdat e') t'"
      "t_mem t' = t_mem ?t1 @ [bs]" "t_dev t' = t_dev ?t1"
    using next_buffer_ready [of ?t1 "advance i e"] assms(7) by auto
  have "mem_read (t_mem t') (Ptr b 0) (4 + (34 + length seg)) = Some (bytes32 (of_nat (34 + length seg)) @ ?E @ ?body)"
    using b l nb(3) by (intro block_read [where A = "[]" and B = ?Q]) (simp_all add: nth_append)
  moreover have "length (eth_frame (m_rethaddr e) (eo_host (n_eth (t_net t))) ETHTYPE_IP ?body) = 34 + length seg"
    using l by simp
  ultimately have "on_wire (eth_frame (m_rethaddr e) (eo_host (n_eth (t_net t))) ETHTYPE_IP ?body) q t t'"
    using nb(4) q E by (simp add: on_wire_def)
  moreover have "send_len list_ops e len i t = Some (Ok, e', t')"
    using fill send nb(1) by (simp add: send_len_def Let_def assms(2) [symmetric])
  ultimately show ?thesis
    using p nb(2) by blast
qed

section \<open>Receiving\<close>

lemma ip_header_bytes:
  "\<exists>c. ip_header p len = [0x45, 0] @ bytes16 (htons len) @ bytes16 (htons (io_id p)) @ [0, 0, 64, io_proto p] @ bytes16 c @
     bytes32 (io_host p) @ bytes32 (io_dest p)"
proof -
  have "patch (patch (ip_header_image p) 2 (bytes16 (htons len))) 10 (bytes16 c) =
      [0x45, 0] @ bytes16 (htons len) @ bytes16 (htons (io_id p)) @ [0, 0, 64, io_proto p] @ bytes16 c @ bytes32 (io_host p) @ bytes32 (io_dest p)" for c
    by (simp add: ip_header_image_def patch_def bytes16_def bytes32_def)
  then show ?thesis
    by (auto simp only: ip_header_def Let_def)
qed

lemma ipv4_checksum_append: "length xs = 20 \<Longrightarrow> ipv4_checksum (xs @ ys) = ipv4_checksum xs"
  by (simp add: ipv4_checksum_def checksum_def)

lemma ip_packet:
  fixes p len seg
  defines "data \<equiv> ip_header p len @ seg"
  shows "20 \<le> length data" "ip_valid (io_dest p) data" "data ! 9 = io_proto p" "ip_source data = io_host p" "ip_length data = len - 20"
    "drop 20 data = seg"
proof -
  obtain c where c: "data = [0x45, 0] @ bytes16 (htons len) @ bytes16 (htons (io_id p)) @ [0, 0, 64, io_proto p] @ bytes16 c @
      bytes32 (io_host p) @ bytes32 (io_dest p) @ seg"
    using ip_header_bytes [of p len] unfolding data_def by auto
  have "ipv4_checksum data = Some 0xFFFF"
    by (simp add: data_def ipv4_checksum_append ip_header_verifies)
  then show "ip_valid (io_dest p) data"
    by (simp add: ip_valid_def) (simp add: c bytes16_def bytes32_def)
  show "ip_source data = io_host p" "ip_length data = len - 20" "data ! 9 = io_proto p"
    by (simp_all add: c ip_source_def ip_length_def bytes16_def bytes32_def)
  show "20 \<le> length data" "drop 20 data = seg"
    by (simp_all add: data_def)
qed

lemma frame_parts:
  "frame_type (eth_frame d s ty body) = ty" "frame_source (eth_frame d s ty body) = s" "frame_dest (eth_frame d s ty body) = d"
  "drop 14 (eth_frame d s ty body) = body" "14 \<le> length (eth_frame d s ty body)"
  by (cases d; cases s; simp add: frame_type_def frame_source_def frame_dest_def eth_frame_def bytes16_def)+

text \<open>The stack \<open>k\<close> takes the frame for the TCP segment with the header \<open>h\<close> and the rest \<open>rest\<close>: its checks of the headers
  and of the checksums succeed, and it hands this segment to its TCP processor.\<close>

definition takes_segment :: "'d device_ops \<Rightarrow> 'h handler_ops \<Rightarrow> rx_info \<Rightarrow> tcp_header \<Rightarrow> u8 list \<Rightarrow> u8 list \<Rightarrow> ('d, 'h) stack \<Rightarrow> bool" where
  "takes_segment ops ev rx h rest frame k \<longleftrightarrow> (\<exists>data k'.
     eth_process ops ev (of_nat (length frame)) frame k =
       map_option (\<lambda>(st, t). (st, k'\<lparr>k_tcp := t\<rparr>)) (tcp_process ops ev rx (of_nat (length data)) data (k_tcp k)) \<and>
     read_header data = Some h \<and> drop 20 data = rest \<and> length data = 20 + length rest \<and>
     tcpv4_checksum (rx_src rx) (rx_dst rx) (of_nat (length data)) data = Some 0xFFFF)"

lemma frame_taken:
  assumes "ip_host (k_ip4from k) = io_dest p" and "io_proto p = PROTO_TCP" and "length rest < 65400" and "hd_off h < 16"
  shows "takes_segment ops ev \<lparr>rx_eth = s, rx_src = io_host p, rx_dst = io_dest p\<rparr> h rest
    (eth_frame d s ETHTYPE_IP (ip_header p (of_nat (40 + length rest)) @ tcp_image (io_host p) (io_dest p) h rest)) k"
proof -
  let ?data = "tcp_image (io_host p) (io_dest p) h rest" and ?len = "of_nat (40 + length rest) :: u16"
  let ?k = "k_heard s d ETHTYPE_IP k" and ?body = "ip_header p ?len @ ?data"
  note body = ip_packet [of p ?len ?data]
  have len: "?len - 20 = of_nat (length ?data)"
    by simp
  have "ip_process ops ev l ?body ?k = map_option (\<lambda>(st, t). (st, (k_taken ?body ?k)\<lparr>k_tcp := t\<rparr>))
      (tcp_process ops ev \<lparr>rx_eth = s, rx_src = io_host p, rx_dst = io_dest p\<rparr> (of_nat (length ?data)) ?data (k_tcp k))" for l
    using ip_process_accepts [OF body(1), of ?k ops ev l] body(2-6) assms(1,2) len
    by (simp add: Let_def k_rx_def del: length_tcp_image)
  then have "eth_process ops ev l (eth_frame d s ETHTYPE_IP ?body) k = map_option (\<lambda>(st, t). (st, (k_taken ?body ?k)\<lparr>k_tcp := t\<rparr>))
      (tcp_process ops ev \<lparr>rx_eth = s, rx_src = io_host p, rx_dst = io_dest p\<rparr> (of_nat (length ?data)) ?data (k_tcp k))" for l
    by (simp add: eth_process_eq [OF frame_parts(5)] frame_parts(1-4) Let_def)
  moreover have "tcpv4_checksum (io_host p) (io_dest p) (of_nat (20 + length rest)) ?data = Some 0xFFFF"
    by (rule tcp_image_verifies) (use assms(3) in simp)
  ultimately show ?thesis
    unfolding takes_segment_def
    by (intro exI [of _ ?data] exI [of _ "k_taken ?body ?k"]) (use assms(4) in \<open>simp add: tcp_image_header\<close>)
qed

section \<open>A data segment\<close>

lemma ready_holding:
  assumes "ready_buffer e q t" and "mem_read (t_mem t) q n = Some seg"
  shows "\<exists>b P Q. q = Ptr b (length P) \<and> b < length (t_mem t) \<and> holding b P Q seg t = t \<and> length seg = n \<and>
    (\<forall>seg'. length seg' = n \<longrightarrow> ready_buffer e q (holding b P Q seg' t) \<and> mem_read (t_mem (holding b P Q seg' t)) q n = Some seg')"
proof -
  obtain b J p R where q: "q = Ptr b 38" and b: "b < length (t_mem t)" and J: "length J = 4"
    and blk: "t_mem t ! b = J @ eth_frame (m_rethaddr e) (eo_host (n_eth (t_net t))) ETHTYPE_IP (ip_header_image p) @ R"
    and p: "io_host p = io_host (n_ip (t_net t))" "io_dest p = m_ripaddr e" "io_proto p = PROTO_TCP"
    using assms(1) unfolding ready_buffer_def by blast
  let ?P = "J @ eth_frame (m_rethaddr e) (eo_host (n_eth (t_net t))) ETHTYPE_IP (ip_header_image p)" and ?Q = "drop n R"
  have P: "length ?P = 38"
    using J by simp
  have seg: "seg = take n R" "n \<le> length R"
    using assms(2) b J by (auto simp: q blk mem_read_def split: if_splits)
  then have "holding b ?P ?Q seg t = t"
    using blk by (intro holding_self) simp
  moreover have "ready_buffer e q (holding b ?P ?Q seg' t)" for seg'
    unfolding ready_buffer_def using q b J p
    by (intro exI [of _ b] exI [of _ J] exI [of _ p] exI [of _ "seg' @ ?Q"]) simp
  moreover have "mem_read (t_mem (holding b ?P ?Q seg' t)) q n = Some seg'" if "length seg' = n" for seg'
    unfolding q by (rule block_read [where A = ?P and B = ?Q]) (use that b P in simp_all)
  moreover have "q = Ptr b (length ?P)" "length seg = n"
    using q P seg by simp_all
  ultimately show ?thesis
    using b by (intro exI [of _ b] exI [of _ ?P] exI [of _ ?Q]) blast
qed

lemma offset_nibble: "drop_bit 4 ((x :: u8) AND 0x0F OR push_bit 4 5) = 5"
proof -
  have "drop_bit 4 ((x :: u8) AND 0x0F) = 0"
    using and_high_nibble [of "x AND 0x0F"] by (simp add: word_bw_assocs)
  then show ?thesis
    by simp
qed

lemma segment_sent:
  assumes "ready_buffer e q t" and "q = s_dat (m_segments e ! i)" and "mem_read (t_mem t) q (20 + length body) = Some (raw @ body)"
    and "s_len (m_segments e ! i) = of_nat (length body)" and "length body < 65400" and "m_state e \<noteq> STOPPED"
    and "34 \<le> unat (l_mtu (t_dev t))"
  shows "\<exists>e' t' frame. send_seg list_ops e i flags t = Some (Ok, e', t') \<and> on_wire frame q t t' \<and> ready_buffer e' (m_sdat e') t' \<and>
    (ip_host (k_ip4from k) = m_ripaddr e \<longrightarrow>
      takes_segment ops ev \<lparr>rx_eth = eo_host (n_eth (t_net t)), rx_src = io_host (n_ip (t_net t)), rx_dst = m_ripaddr e\<rparr>
        \<lparr>hd_src = m_lport e, hd_dst = m_rport e, hd_seq = s_seq (m_segments e ! i), hd_ack = m_rcv_nxt e, hd_off = 5,
          hd_flags = flags OR TCP_ACK, hd_wnd = 0xFFFF, hd_urgp = 0\<rparr> body frame k)"
proof -
  obtain b P Q where q: "q = Ptr b (length P)" and b: "b < length (t_mem t)" and self: "holding b P Q (raw @ body) t = t"
    and l: "length (raw @ body) = 20 + length body" and keep: "\<forall>seg'. length seg' = 20 + length body \<longrightarrow>
      ready_buffer e q (holding b P Q seg' t) \<and> mem_read (t_mem (holding b P Q seg' t)) q (20 + length body) = Some seg'"
    using ready_holding [OF assms(1,3)] by blast
  let ?x = "(patch (raw @ body) 13 [flags OR TCP_ACK]) ! 12"
  let ?seg = "patch (patch (raw @ body) 13 [flags OR TCP_ACK]) 12 [?x AND 0x0F OR push_bit 4 5]" and ?len = "of_nat (length body) + 20 :: u32"
  let ?t = "holding b P Q ?seg t" and ?h = "sent_header e (s_seq (m_segments e ! i))"
  have raw: "length raw = 20"
    using l by simp
  have seg: "length ?seg = 20 + length body" "drop 20 ?seg = body" "?seg ! 12 = ?x AND 0x0F OR push_bit 4 5" "?seg ! 13 = flags OR TCP_ACK"
    using raw by (simp_all add: patch_def nth_append)
  have "?len = of_nat (20 + length body)"
    by simp
  then have len: "unat ?len = 20 + length body"
    using assms(5) by (simp only: unsigned_of_nat) (simp add: take_bit_nat_eq_self)
  have "set_flags q (flags OR TCP_ACK) (holding b P Q (raw @ body) t) \<bind> set_offset q 5 = Some ?t"
    using raw by (simp add: set_flags_def set_offset_def q holding_store [OF b] del: holding_sel)
  then have send: "send_seg list_ops e i flags t = send_len list_ops e ?len i ?t"
    unfolding self by (auto simp: send_seg_def Let_def assms(2) [symmetric] assms(4) bind_eq_Some_conv)
  have k: "ready_buffer e q ?t" "mem_read (t_mem ?t) q (unat ?len) = Some ?seg"
    using keep seg(1) unfolding len by blast+
  have host: "eo_host (n_eth (t_net ?t)) = eo_host (n_eth (t_net t))" "io_host (n_ip (t_net ?t)) = io_host (n_ip (t_net t))"
    by simp_all
  obtain e' t' p where sent: "send_len list_ops e ?len i ?t = Some (Ok, e', t')" and
    wire: "on_wire (eth_frame (m_rethaddr e) (eo_host (n_eth (t_net t))) ETHTYPE_IP (ip_header p (ucast (?len + 20)) @
      tcp_image (io_host (n_ip (t_net t))) (m_ripaddr e) (?h ?seg) body)) q ?t t'" and
    p: "io_host p = io_host (n_ip (t_net t))" "io_dest p = m_ripaddr e" "io_proto p = PROTO_TCP" and r: "ready_buffer e' (m_sdat e') t'"
    using send_len_wire [OF k(1) assms(2) k(2)] assms(5-7) len unfolding seg(2) host by auto
  have h: "?h ?seg = \<lparr>hd_src = m_lport e, hd_dst = m_rport e, hd_seq = s_seq (m_segments e ! i), hd_ack = m_rcv_nxt e, hd_off = 5,
      hd_flags = flags OR TCP_ACK, hd_wnd = 0xFFFF, hd_urgp = 0\<rparr>"
    unfolding sent_header_def seg(3,4) offset_nibble by (rule refl)
  have "?len + 20 = of_nat (40 + length body)"
    by simp
  then have iplen: "ucast (?len + 20) = (of_nat (40 + length body) :: u16)"
    using assms(5) by (simp only: unsigned_of_nat) (simp add: take_bit_nat_eq_self)
  have "takes_segment ops ev \<lparr>rx_eth = eo_host (n_eth (t_net t)), rx_src = io_host (n_ip (t_net t)), rx_dst = m_ripaddr e\<rparr> (?h ?seg) body
      (eth_frame (m_rethaddr e) (eo_host (n_eth (t_net t))) ETHTYPE_IP (ip_header p (ucast (?len + 20)) @
        tcp_image (io_host (n_ip (t_net t))) (m_ripaddr e) (?h ?seg) body)) k" if "ip_host (k_ip4from k) = m_ripaddr e"
    using frame_taken [of k p body "?h ?seg" ops ev "eo_host (n_eth (t_net t))" "m_rethaddr e"] that p assms(5) h iplen by simp
  note taken = this [unfolded h]
  have "send_seg list_ops e i flags t = Some (Ok, e', t')"
    using send sent by simp
  moreover have "on_wire (eth_frame (m_rethaddr e) (eo_host (n_eth (t_net t))) ETHTYPE_IP (ip_header p (ucast (?len + 20)) @
        tcp_image (io_host (n_ip (t_net t))) (m_ripaddr e) (?h ?seg) body)) q t t'"
    using wire by (simp add: on_wire_def)
  ultimately show ?thesis
    using r taken unfolding h by (intro exI conjI impI)
qed

section \<open>Properties\<close>

text \<open>C4: Through the wire. When a data segment is sent from a buffer of its connection over the list device, exactly one
  frame appears on the wire. The stack of the host with the address of the peer, in whatever state it is, takes this frame for
  the segment that was meant: the headers and checksums of Ethernet, IPv4 and TCP pass its checks, and its TCP processor
  gets ports, sequence number, acknowledgement, flags and window as the sender has set them and exactly the bytes of the
  segment. The next buffer of the connection is again ready for its peer, wherever the producers have been directed in between.\<close>
theorem segment_travels:
  assumes "ready_buffer e q t" and "q = s_dat (m_segments e ! i)" and "mem_read (t_mem t) q (20 + length body) = Some (raw @ body)"
    and "s_len (m_segments e ! i) = of_nat (length body)" and "length body < 65400" and "m_state e \<noteq> STOPPED"
    and "34 \<le> unat (l_mtu (t_dev t))"
  shows "\<exists>e' t' frame. send_seg list_ops e i flags t = Some (Ok, e', t') \<and> on_wire frame q t t' \<and> ready_buffer e' (m_sdat e') t' \<and>
    (ip_host (k_ip4from k) = m_ripaddr e \<longrightarrow>
      takes_segment ops ev \<lparr>rx_eth = eo_host (n_eth (t_net t)), rx_src = io_host (n_ip (t_net t)), rx_dst = m_ripaddr e\<rparr>
        \<lparr>hd_src = m_lport e, hd_dst = m_rport e, hd_seq = s_seq (m_segments e ! i), hd_ack = m_rcv_nxt e, hd_off = 5,
          hd_flags = flags OR TCP_ACK, hd_wnd = 0xFFFF, hd_urgp = 0\<rparr> body frame k)"
  by (rule segment_sent [OF assms])

text \<open>The host 10.1.0.2 with three bytes for 10.1.0.1 in a buffer.\<close>

definition sample_sender :: "(list_dev, unit client) tcp" where
  "sample_sender = sample_tcp\<lparr>t_net := \<lparr>n_mem = [bytes32 0 @ eth_frame (Mac 16 0 0 0 0 1) (Mac 16 0 0 0 0 2) ETHTYPE_IP (ip_header_image
       ((ip_producer_init (ip4_make 10 1 0 2))\<lparr>io_dest := ip4_make 10 1 0 1, io_proto := PROTO_TCP\<rparr>)) @ replicate 20 0 @ [65, 66, 67] @ replicate 37 0],
     n_dev = \<lparr>l_mtu = 94, l_read = [], l_write = [], l_junk = (\<lambda>b i. 0)\<rparr>, n_eth = eth_producer_init (Mac 16 0 0 0 0 2),
     n_ip = ip_producer_init (ip4_make 10 1 0 2)\<rparr>\<rparr>"

definition sample_segment_conn :: conn where
  "sample_segment_conn = upd_seg 0 (segment_set 3 7000 (Ptr 0 38)) (conn_init\<lparr>m_state := ESTABLISHED, m_rethaddr := Mac 16 0 0 0 0 1,
     m_ripaddr := ip4_make 10 1 0 1, m_lport := htons 4000, m_rport := htons 80, m_rcv_nxt := 1\<rparr>)"

theorem segment_travels_witness:
  "\<exists>e' t' frame. send_seg list_ops sample_segment_conn 0 TCP_PSH sample_sender = Some (Ok, e', t') \<and>
     takes_segment list_ops (client_events default_delegate) \<lparr>rx_eth = Mac 16 0 0 0 0 2, rx_src = ip4_make 10 1 0 2, rx_dst = ip4_make 10 1 0 1\<rparr>
       \<lparr>hd_src = htons 4000, hd_dst = htons 80, hd_seq = 7000, hd_ack = 1, hd_off = 5, hd_flags = 0x18, hd_wnd = 0xFFFF, hd_urgp = 0\<rparr>
       [65, 66, 67] frame sample_stack"
proof -
  have "ready_buffer sample_segment_conn (Ptr 0 38) sample_sender"
    unfolding ready_buffer_def
    by (intro exI [of _ 0] exI [of _ "bytes32 0"] exI [of _ "(ip_producer_init (ip4_make 10 1 0 2))\<lparr>io_dest := ip4_make 10 1 0 1, io_proto := PROTO_TCP\<rparr>"]
        exI [of _ "replicate 20 0 @ [65, 66, 67] @ replicate 37 0"])
      (simp add: sample_sender_def sample_segment_conn_def upd_seg_def eth_producer_init_def ip_producer_init_def)
  moreover have "mem_read (t_mem sample_sender) (Ptr 0 38) (20 + length [65, 66, 67 :: u8]) = Some (replicate 20 0 @ [65, 66, 67])"
    unfolding sample_sender_def by (simp add: mem_read_def)
  moreover have f: "s_len (m_segments sample_segment_conn ! 0) = of_nat (length [65, 66, 67 :: u8])"
      "s_seq (m_segments sample_segment_conn ! 0) = 7000" "Ptr 0 38 = s_dat (m_segments sample_segment_conn ! 0)"
    by (simp_all add: sample_segment_conn_def upd_seg_def segment_set_def conn_init_def)
  moreover have c: "m_state sample_segment_conn \<noteq> STOPPED" "m_ripaddr sample_segment_conn = ip4_make 10 1 0 1"
      "m_lport sample_segment_conn = htons 4000" "m_rport sample_segment_conn = htons 80" "m_rcv_nxt sample_segment_conn = 1"
    by (simp_all add: sample_segment_conn_def upd_seg_def)
  moreover have "34 \<le> unat (l_mtu (t_dev sample_sender))" and n: "eo_host (n_eth (t_net sample_sender)) = Mac 16 0 0 0 0 2"
      "io_host (n_ip (t_net sample_sender)) = ip4_make 10 1 0 2"
    by (simp_all add: sample_sender_def eth_producer_init_def ip_producer_init_def)
  moreover have "length [65, 66, 67 :: u8] < 65400" and k: "ip_host (k_ip4from sample_stack) = ip4_make 10 1 0 1"
      and g: "TCP_PSH OR TCP_ACK = 0x18"
    by (simp_all add: sample_stack_def ip_processor_init_def)
  ultimately show ?thesis
    using segment_travels [of sample_segment_conn "Ptr 0 38" sample_sender 0 "[65, 66, 67]" "replicate 20 0" TCP_PSH sample_stack list_ops
      "client_events default_delegate"]
    unfolding c n k g f(2) by blast
qed

end
