(* ===== verification/TcpRexmit.thy ===== *)
theory TcpRexmit
  imports TcpWire
begin

text \<open>
  What a retransmission puts on the wire. Before a segment is sent again its bytes are moved to the send buffer of the
  connection by \<^verbatim>\<open>Segment::swap\<close>, which copies as many bytes as the segment has payload, but from the beginning of the
  TCP header on: the last twenty bytes of the payload stay behind. The segment points into the packet it was first sent in,
  which the reader of a list device releases once it has polled it: then the copy reads released memory.
\<close>

lemma ready_buffer_cong [simp]:
  "ready_buffer (resetSendBuffer e) q t = ready_buffer e q t" "ready_buffer (upd_seg i s e) q t = ready_buffer e q t"
  by (simp_all add: ready_buffer_def resetSendBuffer_def upd_seg_def)

text \<open>The buffer after the copy: the first bytes of the segment, header included, over what it held.\<close>

lemma rexmit_swap_bytes:
  assumes "ready_buffer e (m_sdat e) t" and "mem_read (t_mem t) (s_dat (segment_cur e)) (20 + n) = Some seg"
    and "mem_read (t_mem t) (m_sdat e) (20 + n) = Some junk" and "s_len (segment_cur e) = of_nat n" and "n < 65400"
  shows "\<exists>t'. rexmit_swap e t = Some (resetSendBuffer (upd_seg (unat (m_segidx e)) ((segment_cur e)\<lparr>s_dat := m_sdat e\<rparr>) e), t') \<and>
    ready_buffer e (m_sdat e) t' \<and> mem_read (t_mem t') (m_sdat e) (20 + n) = Some (take n seg @ drop n junk) \<and>
    t_dev t' = t_dev t \<and> n_eth (t_net t') = n_eth (t_net t) \<and> n_ip (t_net t') = n_ip (t_net t)"
proof -
  obtain b P Q where q: "m_sdat e = Ptr b (length P)" and b: "b < length (t_mem t)" and self: "holding b P Q junk t = t"
    and l: "length junk = 20 + n" and keep: "\<forall>seg'. length seg' = 20 + n \<longrightarrow>
      ready_buffer e (m_sdat e) (holding b P Q seg' t) \<and> mem_read (t_mem (holding b P Q seg' t)) (m_sdat e) (20 + n) = Some seg'"
    using ready_holding [OF assms(1,3)] by blast
  let ?new = "take n seg @ drop n junk"
  have len: "length seg = 20 + n"
    using assms(2) by (cases "s_dat (segment_cur e)") (auto simp: mem_read_def split: if_splits)
  have new: "patch junk 0 (take n seg) = ?new" "length ?new = 20 + n"
    using l len by (simp_all add: patch_def)
  have un: "unat (of_nat n :: u32) = n"
    using assms(5) by (simp add: unsigned_of_nat take_bit_nat_eq_self)
  have read: "mem_read (t_mem t) (s_dat (segment_cur e)) n = Some (take n seg)"
    using assms(2) by (cases "s_dat (segment_cur e)") (auto simp: mem_read_def split: if_splits)
  have "mem_write (t_mem (holding b P Q junk t)) (m_sdat e) (take n seg) = Some ((t_mem t)[b := P @ ?new @ Q])"
    using holding_write [OF b, of 0 "take n seg" junk P Q] l len new(1) by (simp add: q del: holding_sel)
  then have "mem_write (t_mem t) (m_sdat e) (take n seg) = Some ((t_mem t)[b := P @ ?new @ Q])"
    unfolding self .
  moreover have "(t_mem t)[b := P @ ?new @ Q] = t_mem t" if "n = 0"
    using arg_cong [OF self, of t_mem] that by simp
  ultimately have copy: "mem_copy (t_mem t) (m_sdat e) (s_dat (segment_cur e)) n = Some ((t_mem t)[b := P @ ?new @ Q])"
    using read by (simp add: mem_copy_def)
  then have swap: "rexmit_swap e t = Some (resetSendBuffer (upd_seg (unat (m_segidx e)) ((segment_cur e)\<lparr>s_dat := m_sdat e\<rparr>) e), holding b P Q ?new t)"
    by (simp add: rexmit_swap_def segment_swap_def assms(4) un holding_def)
  have k: "ready_buffer e (m_sdat e) (holding b P Q ?new t)" "mem_read (t_mem (holding b P Q ?new t)) (m_sdat e) (20 + n) = Some ?new"
    using keep new(2) by blast+
  show ?thesis
    by (intro exI [of _ "holding b P Q ?new t"] conjI swap k holding_sel(1,3,4))
qed

section \<open>Properties\<close>

text \<open>C5: A retransmission does not carry the segment. When the packet of the first transmission still exists and the oldest segment of an established connection is sent again over
  the list device, the frame is accepted by the addressed stack, with the right sequence number and a valid checksum, but
  the last twenty bytes of its payload, or all of it if it is shorter, are what the new buffer happened to hold.\<close>
theorem retransmission_truncated:
  assumes "m_state e = ESTABLISHED" and "unat (m_segidx e) < length (m_segments e)" and "ready_buffer e (m_sdat e) t"
    and "s_len (segment_cur e) = of_nat (length body)" and "length body < 65400" and "length raw = 20"
    and "mem_read (t_mem t) (s_dat (segment_cur e)) (20 + length body) = Some (raw @ body)"
    and "mem_read (t_mem t) (m_sdat e) (20 + length body) = Some junk" and "34 \<le> unat (l_mtu (t_dev t))"
  shows "\<exists>e' t' frame. rexmit list_ops e t = Some (Ok, e', t') \<and> on_wire frame (m_sdat e) t t' \<and>
    (ip_host (k_ip4from k) = m_ripaddr e \<longrightarrow>
      takes_segment ops ev \<lparr>rx_eth = eo_host (n_eth (t_net t)), rx_src = io_host (n_ip (t_net t)), rx_dst = m_ripaddr e\<rparr>
        \<lparr>hd_src = m_lport e, hd_dst = m_rport e, hd_seq = s_seq (segment_cur e), hd_ack = m_rcv_nxt e, hd_off = 5,
          hd_flags = TCP_PSH OR TCP_ACK, hd_wnd = 0xFFFF, hd_urgp = 0\<rparr>
        (take (length body - 20) body @ drop (max 20 (length body)) junk) frame k)"
proof -
  let ?n = "length body" and ?i = "unat (m_segidx e)"
  let ?s = "(segment_cur e)\<lparr>s_dat := m_sdat e\<rparr>"
  let ?e = "resetSendBuffer (upd_seg ?i ?s e)"
  let ?t = "on_stats (\<lambda>s. s\<lparr>st_rexmit := st_rexmit s + 1\<rparr>) t" and ?new = "take ?n (raw @ body) @ drop ?n junk"
  have sel: "t_net ?t = t_net t" "t_mem ?t = t_mem t"
    by (simp_all add: on_stats_def)
  then have ready: "ready_buffer e (m_sdat e) ?t"
    using assms(3) by (simp add: ready_buffer_def)
  obtain t1 where t1: "rexmit_swap e ?t = Some (?e, t1)" "ready_buffer e (m_sdat e) t1" "mem_read (t_mem t1) (m_sdat e) (20 + ?n) = Some ?new"
      "t_dev t1 = t_dev t" "n_eth (t_net t1) = n_eth (t_net t)" "n_ip (t_net t1) = n_ip (t_net t)"
    using rexmit_swap_bytes [OF ready assms(7,8) [folded sel(2)] assms(4,5)] unfolding sel by blast
  have cur: "m_segments ?e ! ?i = ?s" "m_segidx ?e = m_segidx e" "m_state ?e = ESTABLISHED"
    using assms(1,2) by (simp_all add: resetSendBuffer_def upd_seg_def)
  have l: "length junk = 20 + ?n"
    using assms(8) by (cases "m_sdat e") (auto simp: mem_read_def split: if_splits)
  then have body: "drop 20 ?new = take (?n - 20) body @ drop (max 20 ?n) junk" "length (drop 20 ?new) = ?n" "length (take 20 ?new) = 20"
    using assms(6) by (auto simp: max_def drop_take)
  define rest where "rest = drop 20 ?new"
  have "mem_read (t_mem t1) (m_sdat e) (20 + length rest) = Some (take 20 ?new @ rest)"
    unfolding rest_def body(2) append_take_drop_id by (rule t1(3))
  moreover have "m_sdat e = s_dat (m_segments ?e ! ?i)" "s_len (m_segments ?e ! ?i) = of_nat (length rest)" "length rest < 65400"
    using cur(1) assms(4,5) body(2) by (simp_all add: rest_def del: length_drop)
  moreover have "m_state ?e \<noteq> STOPPED" "34 \<le> unat (l_mtu (t_dev t1))" "ready_buffer ?e (m_sdat e) t1"
    using cur(3) t1(2,4) assms(9) by simp_all
  ultimately obtain e' t' frame where r: "send_seg list_ops ?e ?i TCP_PSH t1 = Some (Ok, e', t')" "on_wire frame (m_sdat e) t1 t'"
      "ip_host (k_ip4from k) = m_ripaddr ?e \<longrightarrow> takes_segment ops ev
        \<lparr>rx_eth = eo_host (n_eth (t_net t1)), rx_src = io_host (n_ip (t_net t1)), rx_dst = m_ripaddr ?e\<rparr>
        \<lparr>hd_src = m_lport ?e, hd_dst = m_rport ?e, hd_seq = s_seq (m_segments ?e ! ?i), hd_ack = m_rcv_nxt ?e, hd_off = 5,
          hd_flags = TCP_PSH OR TCP_ACK, hd_wnd = 0xFFFF, hd_urgp = 0\<rparr> rest frame k"
    using segment_sent [of ?e "m_sdat e" t1 ?i rest "take 20 ?new" TCP_PSH k ops ev] by blast
  have "rexmit list_ops e t = Some (Ok, e', t')"
    using t1(1) r(1) assms(1) cur(2) by (simp add: rexmit_def)
  moreover have "on_wire frame (m_sdat e) t t'"
    using r(2) t1(4) by (simp add: on_wire_def)
  ultimately show ?thesis
    using r(3) unfolding rest_def body(1) t1(5,6) cur(1) by (auto simp: resetSendBuffer_def upd_seg_def)
qed

text \<open>The host 10.1.0.2 has sent three bytes from the first buffer; its send buffer is the second.\<close>

definition sample_headers :: "u8 list" where
  "sample_headers = bytes32 0 @ eth_frame (Mac 16 0 0 0 0 1) (Mac 16 0 0 0 0 2) ETHTYPE_IP (ip_header_image
     ((ip_producer_init (ip4_make 10 1 0 2))\<lparr>io_dest := ip4_make 10 1 0 1, io_proto := PROTO_TCP\<rparr>))"

definition sample_resender :: "(list_dev, unit client) tcp" where
  "sample_resender = sample_tcp\<lparr>t_net := \<lparr>n_mem = [sample_headers @ replicate 20 0 @ [65, 66, 67], sample_headers @ replicate 20 0 @ [1, 2, 3]],
     n_dev = \<lparr>l_mtu = 94, l_read = [], l_write = [], l_junk = (\<lambda>b i. 0)\<rparr>, n_eth = eth_producer_init (Mac 16 0 0 0 0 2),
     n_ip = ip_producer_init (ip4_make 10 1 0 2)\<rparr>\<rparr>"

definition sample_unacked :: conn where
  "sample_unacked = upd_seg 0 (segment_set 3 7000 (Ptr 0 38)) (conn_init\<lparr>m_state := ESTABLISHED, m_rethaddr := Mac 16 0 0 0 0 1,
     m_ripaddr := ip4_make 10 1 0 1, m_lport := htons 4000, m_rport := htons 80, m_rcv_nxt := 1, m_sdat := Ptr 1 38\<rparr>)"

theorem retransmission_truncated_witness:
  "\<exists>e' t' frame. rexmit list_ops sample_unacked sample_resender = Some (Ok, e', t') \<and>
     takes_segment list_ops (client_events default_delegate) \<lparr>rx_eth = Mac 16 0 0 0 0 2, rx_src = ip4_make 10 1 0 2, rx_dst = ip4_make 10 1 0 1\<rparr>
       \<lparr>hd_src = htons 4000, hd_dst = htons 80, hd_seq = 7000, hd_ack = 1, hd_off = 5, hd_flags = 0x18, hd_wnd = 0xFFFF, hd_urgp = 0\<rparr>
       [1, 2, 3] frame sample_stack"
proof -
  have h: "length sample_headers = 38"
    by (simp add: sample_headers_def)
  have "ready_buffer sample_unacked (m_sdat sample_unacked) sample_resender"
    unfolding ready_buffer_def
    by (intro exI [of _ 1] exI [of _ "bytes32 0"] exI [of _ "(ip_producer_init (ip4_make 10 1 0 2))\<lparr>io_dest := ip4_make 10 1 0 1, io_proto := PROTO_TCP\<rparr>"]
        exI [of _ "replicate 20 0 @ [1, 2, 3]"])
      (simp add: sample_resender_def sample_unacked_def sample_headers_def upd_seg_def eth_producer_init_def ip_producer_init_def)
  moreover have c: "m_state sample_unacked = ESTABLISHED" "unat (m_segidx sample_unacked) < length (m_segments sample_unacked)"
      "s_len (segment_cur sample_unacked) = of_nat (length [65, 66, 67 :: u8])" "s_seq (segment_cur sample_unacked) = 7000"
      "m_ripaddr sample_unacked = ip4_make 10 1 0 1" "m_lport sample_unacked = htons 4000" "m_rport sample_unacked = htons 80"
      "m_rcv_nxt sample_unacked = 1"
    by (simp_all add: sample_unacked_def upd_seg_def segment_set_def segment_cur_def conn_init_def)
  moreover have "mem_read (t_mem sample_resender) (s_dat (segment_cur sample_unacked)) (20 + length [65, 66, 67 :: u8]) = Some (replicate 20 0 @ [65, 66, 67])"
      "mem_read (t_mem sample_resender) (m_sdat sample_unacked) (20 + length [65, 66, 67 :: u8]) = Some (replicate 20 0 @ [1, 2, 3])"
    by (simp_all add: mem_read_def sample_resender_def sample_unacked_def segment_cur_def upd_seg_def segment_set_def conn_init_def h)
  moreover have "34 \<le> unat (l_mtu (t_dev sample_resender))" and n: "eo_host (n_eth (t_net sample_resender)) = Mac 16 0 0 0 0 2"
      "io_host (n_ip (t_net sample_resender)) = ip4_make 10 1 0 2"
    by (simp_all add: sample_resender_def eth_producer_init_def ip_producer_init_def)
  moreover have "length [65, 66, 67 :: u8] < 65400" "length (replicate 20 (0 :: u8)) = 20" and k: "ip_host (k_ip4from sample_stack) = ip4_make 10 1 0 1"
      and g: "TCP_PSH OR TCP_ACK = 0x18"
      and rest: "take (length [65, 66, 67 :: u8] - 20) [65, 66, 67] @ drop (max 20 (length [65, 66, 67 :: u8])) (replicate 20 0 @ [1, 2, 3]) = [1, 2, 3 :: u8]"
    by (simp_all add: sample_stack_def ip_processor_init_def)
  ultimately show ?thesis
    using retransmission_truncated [of sample_unacked sample_resender "[65, 66, 67]" "replicate 20 0" "replicate 20 0 @ [1, 2, 3]" sample_stack list_ops
      "client_events default_delegate"]
    unfolding c n k g rest by blast
qed

text \<open>C25: Retransmission over the list device reads released memory. A segment keeps pointing into the packet it was sent in, which
  belongs to the reader from then on. Once the other side has polled this packet, and with it released it, sending the segment
  again has no defined result, whatever the state of the connection is in which segments are sent again.\<close>
theorem retransmission_reads_released:
  assumes "list_poll dev set_dev heap set_heap proc s = Some (ret, s')" and "l_read (dev s) = packet # rest"
    and "\<And>m s. heap (set_heap m s) = m" and "s_dat (segment_cur e) = ptr_add packet 38" and "s_len (segment_cur e) \<noteq> 0"
    and "m_state e \<in> {SYN_SENT, SYN_RCVD, ESTABLISHED, FIN_WAIT_1, CLOSING, LAST_ACK}" and "t_mem t = heap s'"
  shows "rexmit ops e t = None"
proof -
  obtain b where b: "packet = Ptr b 0" "b < length (heap s')" "heap s' ! b = []"
    using list_poll_releases [OF assms(1-3)] by blast
  then have "mem_read (t_mem t) (s_dat (segment_cur e)) (unat (s_len (segment_cur e))) = None"
    using assms(4,7) by (simp add: mem_read_def)
  then have "rexmit_swap e (on_stats f t) = None" for f
    using assms(5) by (simp add: rexmit_swap_def segment_swap_def mem_copy_def unat_eq_zero on_stats_def)
  then show ?thesis
    using assms(6) by (auto simp: rexmit_def)
qed

theorem retransmission_reads_released_witness:
  "\<exists>ret s'. list_poll fst (\<lambda>d (_, m). (d, m)) snd (\<lambda>m (d, _). (d, m)) (\<lambda>len data s. Some (Ok, s))
      ((t_dev sample_resender)\<lparr>l_read := [Ptr 0 0]\<rparr>, t_mem sample_resender) = Some (ret, s') \<and>
     rexmit list_ops sample_unacked (t_set_mem (snd s') sample_resender) = None"
proof -
  let ?s = "((t_dev sample_resender)\<lparr>l_read := [Ptr 0 0]\<rparr>, t_mem sample_resender)"
  let ?poll = "list_poll fst (\<lambda>d (_, m). (d, m)) snd (\<lambda>m (d, _). (d, m)) (\<lambda>len data s. Some (Ok, s))"
  have "sample_headers = 0 # 0 # 0 # 0 # drop 4 sample_headers"
    by (simp add: sample_headers_def bytes32_def)
  then obtain h where h: "sample_headers = 0 # 0 # 0 # 0 # h"
    by blast
  obtain ret s' where s': "?poll ?s = Some (ret, s')"
    by (simp add: list_poll_def sample_resender_def h rd32_def rd8_def)
  have "rexmit list_ops sample_unacked (t_set_mem (snd s') sample_resender) = None"
    by (rule retransmission_reads_released [OF s', where packet = "Ptr 0 0" and rest = "[]"])
      (simp_all add: split_beta sample_unacked_def upd_seg_def segment_set_def segment_cur_def conn_init_def)
  then show ?thesis
    using s' by blast
qed

end
