(* ===== verification/Shm.thy ===== *)
theory Shm
  imports Fifo Devices
begin

text \<open>
  The shared memory device (\<^verbatim>\<open>src/transport/shm\<close>): two FIFOs, one to read from and one to write to, whose
  slots hold a length of four bytes and the frame. The bytes of the FIFO to write to are the block
  \<open>sh_wblk\<close> of the memory, where the stack fills in the buffers it has prepared; of the FIFO to read from
  they are its own \<open>f_data\<close>. The handles given to the constructor are not null.
\<close>

section \<open>The device\<close>

record shm_dev =
  sh_read :: fifo
  sh_write :: fifo
  sh_wblk :: nat

text \<open>\<^verbatim>\<open>log2\<close> is the instruction \<^verbatim>\<open>bsr\<close>, whose result is undefined for zero.\<close>

fun log2_nat :: "nat \<Rightarrow> nat" where
  "log2_nat n = (if n < 2 then 0 else log2_nat (n div 2) + 1)"

declare log2_nat.simps [simp del]

definition util_log2 :: "u32 \<Rightarrow> u32" where
  "util_log2 x = of_nat (log2_nat (unat x))"

definition shm_mtu :: "shm_dev \<Rightarrow> u32" where
  "shm_mtu d = ucast (f_data_len (sh_write d) - 4 - 14)"

definition shm_mss :: "shm_dev \<Rightarrow> u32" where
  "shm_mss d = ucast (f_data_len (sh_write d) - 4)"

definition shm_rblog2 :: "shm_dev \<Rightarrow> u8" where
  "shm_rblog2 d = ucast (util_log2 (ucast (f_data_len (sh_write d))))"

definition shm_rbavail :: "shm_dev \<Rightarrow> u16" where
  "shm_rbavail d =
     (if tulips_fifo_empty (Some (sh_write d)) = FIFO_YES then ucast (f_depth (sh_write d))
      else let delta = f_read_count (sh_write d) - f_write_count (sh_write d)
           in if delta > 0xFFFF then 0xFFFF else ucast delta)"

text \<open>The result of \<^verbatim>\<open>tulips_fifo_prepare\<close> is not looked at: without a slot the packet stays the null pointer,
  and what is returned is four bytes past it.\<close>

definition shm_prepare :: "mem \<Rightarrow> shm_dev \<Rightarrow> (status \<times> ptr \<times> mem \<times> shm_dev) option" where
  "shm_prepare m d =
     (if tulips_fifo_full (Some (sh_write d)) = FIFO_YES then Some (NoMoreResources, Null, m, d)
      else case tulips_fifo_prepare (Some (sh_write d)) of (err, slot, f) \<Rightarrow>
        let packet = (case slot of None \<Rightarrow> Null | Some i \<Rightarrow> Ptr (sh_wblk d) i)
        in Some (Ok, ptr_add packet 4, m, d\<lparr>sh_write := the f\<rparr>))"

definition shm_commit :: "u32 \<Rightarrow> ptr \<Rightarrow> u16 \<Rightarrow> mem \<Rightarrow> shm_dev \<Rightarrow> (status \<times> mem \<times> shm_dev) option" where
  "shm_commit len buf mss m d = do {
     packet \<leftarrow> ptr_sub buf 4;
     m \<leftarrow> st32 m packet 0 len;
     Some (Ok, m, d\<lparr>sh_write := the (snd (tulips_fifo_commit (Some (sh_write d))))\<rparr>)
   }"

definition shm_ops :: "shm_dev device_ops" where
  "shm_ops = \<lparr>d_mtu = shm_mtu, d_mss = shm_mss, d_rblog2 = shm_rblog2, d_rbavail = shm_rbavail,
     d_listen = (\<lambda>port d. (Ok, d)), d_unlisten = (\<lambda>port d. d), d_prepare = shm_prepare, d_commit = shm_commit\<rparr>"

text \<open>The processor gets the address of the frame in its slot, from which it can read to the end of the FIFO; its
  length is truncated to 16 bits. As for the list device, the state of the processor contains the device.\<close>

definition shm_take :: "('s \<Rightarrow> shm_dev) \<Rightarrow> (shm_dev \<Rightarrow> 's \<Rightarrow> 's) \<Rightarrow> (u16 \<Rightarrow> u8 list \<Rightarrow> 's \<Rightarrow> (status \<times> 's) option) \<Rightarrow>
    's \<Rightarrow> (status \<times> 's) option" where
  "shm_take dev set_dev proc s = (case tulips_fifo_front (Some (sh_read (dev s))) of
     (FIFO_OK, Some i) \<Rightarrow> do {
       len \<leftarrow> rd32 (f_data (sh_read (dev s))) i;
       (ret, s) \<leftarrow> proc (ucast len) (drop (i + 4) (f_data (sh_read (dev s)))) s;
       Some (ret, set_dev ((dev s)\<lparr>sh_read := the (snd (tulips_fifo_pop (Some (sh_read (dev s)))))\<rparr>) s)
     }
   | _ \<Rightarrow> Some (HardwareError, s))"

definition shm_poll :: "('s \<Rightarrow> shm_dev) \<Rightarrow> (shm_dev \<Rightarrow> 's \<Rightarrow> 's) \<Rightarrow> (u16 \<Rightarrow> u8 list \<Rightarrow> 's \<Rightarrow> (status \<times> 's) option) \<Rightarrow>
    's \<Rightarrow> (status \<times> 's) option" where
  "shm_poll dev set_dev proc s =
     (if tulips_fifo_empty (Some (sh_read (dev s))) = FIFO_YES then Some (NoDataAvailable, s)
      else shm_take dev set_dev proc s)"

text \<open>\<open>arrived\<close> is what the peer does to the FIFO while \<^verbatim>\<open>wait\<close> sleeps.\<close>

definition shm_wait :: "('s \<Rightarrow> shm_dev) \<Rightarrow> (shm_dev \<Rightarrow> 's \<Rightarrow> 's) \<Rightarrow> (u16 \<Rightarrow> u8 list \<Rightarrow> 's \<Rightarrow> (status \<times> 's) option) \<Rightarrow>
    (fifo \<Rightarrow> fifo) \<Rightarrow> 's \<Rightarrow> (status \<times> 's) option" where
  "shm_wait dev set_dev proc arrived s = (
     let s = (if tulips_fifo_empty (Some (sh_read (dev s))) = FIFO_YES
              then set_dev ((dev s)\<lparr>sh_read := arrived (sh_read (dev s))\<rparr>) s else s)
     in if tulips_fifo_empty (Some (sh_read (dev s))) = FIFO_YES then Some (NoDataAvailable, s)
        else shm_take dev set_dev proc s)"

definition shm_drop :: "shm_dev \<Rightarrow> status \<times> shm_dev" where
  "shm_drop d =
     (if tulips_fifo_empty (Some (sh_read d)) = FIFO_YES then (NoDataAvailable, d)
      else (Ok, d\<lparr>sh_read := the (snd (tulips_fifo_pop (Some (sh_read d))))\<rparr>))"

section \<open>The frames in transfer\<close>

text \<open>The FIFO to write to as the peer sees it, and the frames between the counters.\<close>

definition shm_peer :: "mem \<Rightarrow> shm_dev \<Rightarrow> fifo" where
  "shm_peer m d = (sh_write d)\<lparr>f_data := m ! sh_wblk d\<rparr>"

definition slot_frame :: "u8 list \<Rightarrow> u8 list" where
  "slot_frame xs = take (unat (le32 (xs ! 0) (xs ! 1) (xs ! 2) (xs ! 3))) (drop 4 xs)"

definition shm_frames :: "fifo \<Rightarrow> u8 list list" where
  "shm_frames f = List.map slot_frame (fifo_elems f)"

definition framed :: "u8 list \<Rightarrow> bool" where
  "framed xs \<longleftrightarrow> 4 + unat (le32 (xs ! 0) (xs ! 1) (xs ! 2) (xs ! 3)) \<le> length xs"

text \<open>Between two frames every prepared slot has been committed, and the slots in transfer hold whole frames.\<close>

definition shm_inv :: "fifo \<Rightarrow> bool" where
  "shm_inv f \<longleftrightarrow> fifo_inv f \<and> f_prepare_count f = f_write_count f \<and> 4 \<le> unat (f_data_len f) \<and> list_all framed (fifo_elems f)"

lemma fifo_elems_prepare [simp]: "fifo_elems (f\<lparr>f_prepare_count := c\<rparr>) = fifo_elems f"
  by (simp add: fifo_elems_def fifo_slot_def [abs_def])

lemma fifo_inv_prepare [simp]: "fifo_inv (f\<lparr>f_prepare_count := c\<rparr>) = fifo_inv f"
  by (simp add: fifo_inv_def)

lemma packet_frame:
  fixes bs r :: "u8 list" and len :: u32
  assumes "unat len = length bs"
  shows "slot_frame (bytes32 len @ bs @ r) = bs" "framed (bytes32 len @ bs @ r)"
proof -
  have "le32 ((bytes32 len @ bs @ r) ! 0) ((bytes32 len @ bs @ r) ! 1) ((bytes32 len @ bs @ r) ! 2) ((bytes32 len @ bs @ r) ! 3) = len"
    by (simp add: bytes32_def)
  then show "slot_frame (bytes32 len @ bs @ r) = bs" "framed (bytes32 len @ bs @ r)"
    using assms by (simp_all add: slot_frame_def framed_def)
qed

lemma patch_fill: "i + length a + k \<le> length xs \<Longrightarrow> patch xs i (a @ take k (drop (i + length a) xs)) = patch xs i a"
  by (simp add: patch_def) (metis append_take_drop_id drop_drop add.commute)

text \<open>One frame from the sender to the FIFO.\<close>

lemma shm_send_frame:
  assumes inv: "shm_inv (shm_peer m d)" and b: "sh_wblk d < length m" and live: "unat (f_write_count (sh_write d)) < 2 ^ 64 - 1"
    and room: "length (shm_frames (shm_peer m d)) < unat (f_depth (sh_write d))"
    and fits: "4 + length bs \<le> unat (f_data_len (sh_write d))" "length bs < 2 ^ 32"
  shows "\<exists>p d1 m2 m3 d3. shm_prepare m d = Some (Ok, p, m, d1) \<and> mem_write m p bs = Some m2 \<and>
    shm_commit (of_nat (length bs)) p mss m2 d1 = Some (Ok, m3, d3) \<and> shm_inv (shm_peer m3 d3) \<and>
    shm_frames (shm_peer m3 d3) = shm_frames (shm_peer m d) @ [bs] \<and> sh_wblk d3 = sh_wblk d \<and>
    length m3 = length m \<and> f_write_count (sh_write d3) = f_write_count (sh_write d) + 1 \<and>
    f_depth (sh_write d3) = f_depth (sh_write d) \<and> f_data_len (sh_write d3) = f_data_len (sh_write d)"
proof -
  let ?f = "sh_write d" and ?v = "shm_peer m d" and ?len = "of_nat (length bs) :: u32"
  let ?i = "slot_at ?f (f_write_count ?f)" and ?D = "m ! sh_wblk d"
  have v: "f_write_count ?v = f_write_count ?f" "f_data_len ?v = f_data_len ?f" "f_depth ?v = f_depth ?f" "f_data ?v = ?D"
    "slot_at ?v = slot_at ?f" "f_read_count ?v = f_read_count ?f"
    by (simp_all add: shm_peer_def slot_at_def fun_eq_iff)
  have i: "fifo_inv ?v" "f_prepare_count ?f = f_write_count ?f" "4 \<le> unat (f_data_len ?f)" "list_all framed (fifo_elems ?v)"
    using inv v by (auto simp: shm_inv_def) (simp add: shm_peer_def)
  let ?x = "bytes32 ?len @ bs @ take (unat (f_data_len ?f) - 4 - length bs) (drop (?i + 4 + length bs) ?D)"
  have fit: "?i + unat (f_data_len ?f) \<le> length ?D"
    using slot_in_range [OF i(1)] v by (simp add: slot_at_nat)
  have len: "length ?x = unat (f_data_len ?f)" "unat ?len = length bs"
    using fit fits by (simp_all add: unsigned_of_nat take_bit_nat_eq_self)
  have r: "length (fifo_elems ?v) < unat (f_depth ?f)"
    using room by (simp add: shm_frames_def)
  obtain f' where f': "fifo_push1 ?x ?v = Some f'" "fifo_inv f'" "fifo_elems f' = fifo_elems ?v @ [?x]"
    using fifo_push_room [of ?v ?x, OF i(1)] live r len(1) v by (auto simp: fifo_live_def)
  have full: "tulips_fifo_full (Some ?v) \<noteq> FIFO_YES" "tulips_fifo_full (Some ?f) \<noteq> FIFO_YES"
    using fifo_full_iff [OF i(1)] r v by auto
  then have eq: "f' = ?v\<lparr>f_data := patch ?D ?i ?x, f_write_count := f_write_count ?f + 1\<rparr>"
    using f'(1) fit v len(1) by (auto simp: fifo_push1_def Let_def split: if_splits)
  have full': "f_write_count ?f - f_read_count ?f \<noteq> f_depth ?f"
    using full(2) by auto
  let ?d1 = "d\<lparr>sh_write := ?f\<lparr>f_prepare_count := f_prepare_count ?f + 1\<rparr>\<rparr>"
  have prep: "shm_prepare m d = Some (Ok, Ptr (sh_wblk d) (?i + 4), m, ?d1)"
    using full' i(2) by (simp add: shm_prepare_def Let_def)
  let ?m2 = "m[sh_wblk d := patch ?D (?i + 4) bs]"
  have wr: "mem_write m (Ptr (sh_wblk d) (?i + 4)) bs = Some ?m2"
    using b fit fits by (simp add: mem_write_def)
  let ?m3 = "m[sh_wblk d := patch ?D ?i ?x]"
  have "patch (patch ?D (?i + 4) bs) ?i (bytes32 ?len) = patch ?D ?i ?x"
    using patch_left [of ?i "bytes32 ?len" bs ?D] patch_fill [of ?i "bytes32 ?len @ bs" "unat (f_data_len ?f) - 4 - length bs" ?D] fit fits
    by (simp add: add.assoc)
  then have st: "st32 ?m2 (Ptr (sh_wblk d) ?i) 0 ?len = Some ?m3"
    using b fit fits by (simp add: st32_def mem_write_def)
  have ne: "f_prepare_count ?f + 1 \<noteq> f_write_count ?f"
    using i(2) by simp
  let ?d3 = "d\<lparr>sh_write := ?f\<lparr>f_prepare_count := f_prepare_count ?f + 1, f_write_count := f_write_count ?f + 1\<rparr>\<rparr>"
  have commit: "shm_commit ?len (Ptr (sh_wblk d) (?i + 4)) mss ?m2 ?d1 = Some (Ok, ?m3, ?d3)"
    using ne st by (simp add: shm_commit_def)
  have peer: "shm_peer ?m3 ?d3 = f'\<lparr>f_prepare_count := f_prepare_count ?f + 1\<rparr>"
    using b by (simp add: shm_peer_def eq)
  have "framed ?x" "slot_frame ?x = bs"
    using packet_frame [OF len(2)] by simp_all
  then have "shm_inv (shm_peer ?m3 ?d3)" "shm_frames (shm_peer ?m3 ?d3) = shm_frames ?v @ [bs]"
    unfolding peer shm_inv_def shm_frames_def using f'(2,3) i by (simp_all add: eq shm_peer_def)
  then show ?thesis
    using prep wr commit by (intro exI conjI) (assumption | simp)+
qed

text \<open>One frame from the FIFO to a processor.\<close>

lemma shm_poll_empty: "shm_inv (sh_read (dev s)) \<Longrightarrow> shm_frames (sh_read (dev s)) = [] \<Longrightarrow> shm_poll dev set_dev proc s = Some (NoDataAvailable, s)"
  using fifo_empty_iff [of "sh_read (dev s)"] by (simp add: shm_poll_def shm_inv_def shm_frames_def)

lemma shm_poll_frame:
  assumes inv: "shm_inv (sh_read (dev s))" and fr: "shm_frames (sh_read (dev s)) = b # bs"
  shows "\<exists>data f. take (length b) data = b \<and> tulips_fifo_pop (Some (sh_read (dev s))) = (FIFO_OK, Some f) \<and>
    shm_frames f = bs \<and> shm_inv f \<and> f_read_count f = f_read_count (sh_read (dev s)) + 1 \<and>
    shm_poll dev set_dev proc s = do {
      (ret, s) \<leftarrow> proc (of_nat (length b)) data s;
      Some (ret, set_dev ((dev s)\<lparr>sh_read := the (snd (tulips_fifo_pop (Some (sh_read (dev s)))))\<rparr>) s)
    }"
proof -
  let ?f = "sh_read (dev s)"
  obtain x xs where x: "fifo_elems ?f = x # xs" "slot_frame x = b" "List.map slot_frame xs = bs"
    using fr by (auto simp: shm_frames_def)
  have i: "fifo_inv ?f" "4 \<le> unat (f_data_len ?f)" "framed x" "list_all framed xs" "f_prepare_count ?f = f_write_count ?f"
    using inv x(1) by (auto simp: shm_inv_def)
  let ?i = "slot_at ?f (f_read_count ?f)" and ?D = "f_data ?f"
  have fit: "?i + unat (f_data_len ?f) \<le> length ?D"
    using slot_in_range [OF i(1)] by (simp add: slot_at_nat)
  have ne: "tulips_fifo_empty (Some ?f) \<noteq> FIFO_YES"
    using fifo_empty_iff [OF i(1)] x(1) by simp
  then have front: "tulips_fifo_front (Some ?f) = (FIFO_OK, Some ?i)"
    by simp
  have "fifo_front1 ?f = Some x"
    using fifo_front_elems [OF i(1)] x(1) by simp
  then have xd: "x = take (unat (f_data_len ?f)) (drop ?i ?D)"
    using front by (simp add: fifo_front1_def del: tulips_fifo_front.simps)
  let ?len = "le32 (x ! 0) (x ! 1) (x ! 2) (x ! 3)"
  have len: "rd32 ?D ?i = Some ?len"
    using fit i(2) by (simp add: xd rd32_def rd8_def)
  have lb: "length b = unat ?len" "take (length b) (drop (?i + 4) ?D) = b"
  proof -
    have "length x = unat (f_data_len ?f)"
      using fit by (simp add: xd)
    moreover have "4 + unat ?len \<le> length x"
      using i(3) by (simp only: framed_def)
    ultimately have l: "4 + unat ?len \<le> length x" "length x = unat (f_data_len ?f)"
      by simp_all
    then show lb: "length b = unat ?len"
      using x(2) by (auto simp: slot_frame_def)
    have "b = take (unat ?len) (drop 4 (take (unat (f_data_len ?f)) (drop ?i ?D)))"
      using x(2) by (simp add: slot_frame_def flip: xd)
    then have "b = take (min (unat (f_data_len ?f) - 4) (unat ?len)) (drop (?i + 4) ?D)"
      by (simp add: drop_take add.commute min.commute)
    moreover have "min (unat (f_data_len ?f) - 4) (unat ?len) = unat ?len"
      using l by linarith
    ultimately show "take (length b) (drop (?i + 4) ?D) = b"
      using lb by simp
  qed
  obtain f where f: "fifo_pop1 ?f = Some f" "fifo_inv f" "fifo_elems f = xs" "f_data_len f = f_data_len ?f"
    using fifo_pop_some [OF i(1) x(1)] by auto
  have pop: "tulips_fifo_pop (Some ?f) = (FIFO_OK, Some f)" "f = ?f\<lparr>f_read_count := f_read_count ?f + 1\<rparr>"
    using f(1) ne by (auto simp: fifo_pop1_def split: if_splits)
  have "shm_inv f" "shm_frames f = bs"
    using f i pop(2) x(3) by (simp_all add: shm_inv_def shm_frames_def)
  moreover have "ucast ?len = (of_nat (length b) :: u16)"
    by (simp add: lb(1))
  ultimately show ?thesis
    using lb(2) pop ne front len
    by (intro exI [of _ "drop (?i + 4) ?D"] exI [of _ f]) (simp add: shm_poll_def shm_take_def del: tulips_fifo_front.simps)
qed

section \<open>The link between two devices\<close>

text \<open>The sender and the device that reads from its FIFO. \<open>Put\<close> sends a frame as the stack does, with \<^verbatim>\<open>prepare\<close>,
  the bytes and \<^verbatim>\<open>commit\<close>; \<open>Poll\<close> polls the reading device, whose processor keeps what it has been given. Both
  results are the status and the frame received. The counters are shared.\<close>

datatype shm_call = Put "u8 list" | Poll

definition shm_keep :: "u16 \<Rightarrow> u8 list \<Rightarrow> shm_dev \<times> u8 list option \<Rightarrow> (status \<times> shm_dev \<times> u8 list option) option" where
  "shm_keep len data = (\<lambda>(r, got). Some (Ok, r, Some (take (unat len) data)))"

fun shm_step :: "shm_call \<Rightarrow> mem \<times> shm_dev \<Rightarrow> ((status \<times> u8 list option) \<times> mem \<times> shm_dev) option" where
  "shm_step (Put bs) (m, d) = do {
     (st, p, m, d) \<leftarrow> shm_prepare m d;
     if st \<noteq> Ok then Some ((st, None), m, d)
     else do {
       m \<leftarrow> mem_write m p bs;
       (st, m, d) \<leftarrow> shm_commit (of_nat (length bs)) p 0 m d;
       Some ((st, None), m, d)
     }
   }"
| "shm_step Poll (m, d) = do {
     (st, r, got) \<leftarrow> shm_poll fst (\<lambda>r (_, got). (r, got)) shm_keep (d\<lparr>sh_read := shm_peer m d\<rparr>, None);
     Some ((st, got), m, d\<lparr>sh_write := (sh_write d)\<lparr>f_read_count := f_read_count (sh_read r)\<rparr>\<rparr>)
   }"

fun shm_steps :: "shm_call list \<Rightarrow> mem \<times> shm_dev \<Rightarrow> ((status \<times> u8 list option) list \<times> mem \<times> shm_dev) option" where
  "shm_steps [] s = Some ([], s)"
| "shm_steps (c # cs) s = do { (r, s) \<leftarrow> shm_step c s; (rs, s) \<leftarrow> shm_steps cs s; Some (r # rs, s) }"

text \<open>The same on a queue of at most \<open>n\<close> frames.\<close>

fun queue_step :: "nat \<Rightarrow> shm_call \<Rightarrow> u8 list list \<Rightarrow> (status \<times> u8 list option) \<times> u8 list list" where
  "queue_step n (Put bs) q = (if length q = n then ((NoMoreResources, None), q) else ((Ok, None), q @ [bs]))"
| "queue_step n Poll q = (case q of [] \<Rightarrow> ((NoDataAvailable, None), []) | b # q \<Rightarrow> ((Ok, Some b), q))"

fun queue_steps :: "nat \<Rightarrow> shm_call list \<Rightarrow> u8 list list \<Rightarrow> (status \<times> u8 list option) list" where
  "queue_steps n [] q = []"
| "queue_steps n (c # cs) q = (let (r, q) = queue_step n c q in r # queue_steps n cs q)"

fun put_fits :: "nat \<Rightarrow> shm_call \<Rightarrow> bool" where
  "put_fits n (Put bs) \<longleftrightarrow> 4 + length bs \<le> n \<and> length bs < 2 ^ 16"
| "put_fits n Poll \<longleftrightarrow> True"

text \<open>\<open>k\<close> is the number of frames that may still be sent before the counters overflow.\<close>

definition linked :: "nat \<Rightarrow> nat \<Rightarrow> nat \<Rightarrow> u8 list list \<Rightarrow> mem \<times> shm_dev \<Rightarrow> bool" where
  "linked n l k q = (\<lambda>(m, d). shm_inv (shm_peer m d) \<and> sh_wblk d < length m \<and> unat (f_depth (sh_write d)) = n \<and>
     unat (f_data_len (sh_write d)) = l \<and> shm_frames (shm_peer m d) = q \<and> list_all (\<lambda>b. length b < 2 ^ 16) q \<and>
     unat (f_write_count (sh_write d)) + k < 2 ^ 64)"

lemma shm_put_linked:
  assumes "linked n l (Suc k) q s" and "put_fits l (Put bs)"
  shows "\<exists>s'. shm_step (Put bs) s = Some (fst (queue_step n (Put bs) q), s') \<and> linked n l k (snd (queue_step n (Put bs) q)) s'"
proof -
  obtain m d where s: "s = (m, d)"
    by (cases s)
  note l = assms(1) [unfolded linked_def s prod.case]
  have v: "fifo_inv (shm_peer m d)" "f_depth (shm_peer m d) = f_depth (sh_write d)" "length (fifo_elems (shm_peer m d)) = length q"
    using l by (auto simp: shm_inv_def shm_frames_def shm_peer_def)
  show ?thesis
  proof (cases "length q = n")
    case True
    then have "tulips_fifo_full (Some (shm_peer m d)) = FIFO_YES"
      using fifo_full_iff [OF v(1)] v(2,3) l by simp
    then have "tulips_fifo_full (Some (sh_write d)) = FIFO_YES"
      by (simp add: shm_peer_def)
    then show ?thesis
      using True l by (simp add: s linked_def shm_prepare_def)
  next
    case False
    have "length q < n"
      using False ring.elems_bound [OF v(1)] v(2,3) l by simp
    then obtain p d1 m2 m3 d3 where "shm_prepare m d = Some (Ok, p, m, d1)" "mem_write m p bs = Some m2"
        "shm_commit (of_nat (length bs)) p 0 m2 d1 = Some (Ok, m3, d3)" "shm_inv (shm_peer m3 d3)"
        "shm_frames (shm_peer m3 d3) = q @ [bs]" "f_depth (sh_write d3) = f_depth (sh_write d)"
        "f_data_len (sh_write d3) = f_data_len (sh_write d)" "sh_wblk d3 = sh_wblk d" "length m3 = length m"
        "f_write_count (sh_write d3) = f_write_count (sh_write d) + 1"
      using shm_send_frame [of m d bs 0] l assms(2) by auto
    then show ?thesis
      using False l assms(2) by (simp add: s linked_def unat_inc64)
  qed
qed

lemma shm_poll_linked:
  assumes "linked n l k q s"
  shows "\<exists>s'. shm_step Poll s = Some (fst (queue_step n Poll q), s') \<and> linked n l k (snd (queue_step n Poll q)) s'"
proof -
  obtain m d where s: "s = (m, d)"
    by (cases s)
  note l = assms(1) [unfolded linked_def s prod.case]
  let ?r = "(d\<lparr>sh_read := shm_peer m d\<rparr>, None :: u8 list option)"
  show ?thesis
  proof (cases q)
    case Nil
    have "d\<lparr>sh_write := (sh_write d)\<lparr>f_read_count := f_read_count (sh_write d)\<rparr>\<rparr> = d"
      by simp
    then show ?thesis
      using shm_poll_empty [of fst ?r "\<lambda>r (_, got). (r, got)" shm_keep] l Nil by (simp add: s linked_def shm_peer_def)
  next
    case (Cons b bs)
    obtain data f where f: "take (length b) data = b" "tulips_fifo_pop (Some (shm_peer m d)) = (FIFO_OK, Some f)"
        "shm_frames f = bs" "shm_inv f" "f_read_count f = f_read_count (shm_peer m d) + 1"
        "shm_poll fst (\<lambda>r (_, got). (r, got)) shm_keep ?r = do {
           (ret, s) \<leftarrow> shm_keep (of_nat (length b)) data ?r;
           Some (ret, (\<lambda>r (_, got). (r, got)) ((fst s)\<lparr>sh_read := the (snd (tulips_fifo_pop (Some (sh_read (fst s)))))\<rparr>) s)}"
      using shm_poll_frame [of fst ?r b bs "\<lambda>r (_, got). (r, got)" shm_keep] l Cons by auto
    have "unat (of_nat (length b) :: u16) = length b"
      using l Cons by (simp add: unsigned_of_nat take_bit_nat_eq_self)
    then have "shm_step Poll s = Some ((Ok, Some b), m, d\<lparr>sh_write := (sh_write d)\<lparr>f_read_count := f_read_count f\<rparr>\<rparr>)"
      using f by (simp add: s shm_keep_def del: tulips_fifo_pop.simps)
    moreover have "f = shm_peer m (d\<lparr>sh_write := (sh_write d)\<lparr>f_read_count := f_read_count f\<rparr>\<rparr>)"
      using f(2) by (auto simp: shm_peer_def split: if_splits)
    ultimately show ?thesis
      using f(3,4) l Cons by (simp add: s linked_def)
  qed
qed

lemma shm_steps_linked:
  "linked n l (length cs) q s \<Longrightarrow> list_all (put_fits l) cs \<Longrightarrow> map_option fst (shm_steps cs s) = Some (queue_steps n cs q)"
proof (induction cs arbitrary: q s)
  case (Cons c cs)
  have less: "linked n l (Suc k) q' s' \<Longrightarrow> linked n l k q' s'" for k q' s'
    by (auto simp: linked_def)
  have "\<exists>s'. shm_step c s = Some (fst (queue_step n c q), s') \<and> linked n l (length cs) (snd (queue_step n c q)) s'"
  proof (cases c)
    case (Put bs)
    then show ?thesis
      using shm_put_linked [of n l "length cs" q s bs] Cons.prems by simp
  next
    case Poll
    then show ?thesis
      using shm_poll_linked [of n l "length cs" q s] less Cons.prems(1) by simp
  qed
  then obtain s' where s': "shm_step c s = Some (fst (queue_step n c q), s')" "linked n l (length cs) (snd (queue_step n c q)) s'"
    by blast
  from Cons.IH [OF s'(2)] Cons.prems(2) obtain x where "shm_steps cs s' = Some (queue_steps n cs (snd (queue_step n c q)), x)"
    by auto
  then show ?case
    using s'(1) by (simp add: case_prod_beta Let_def)
qed simp

section \<open>Properties\<close>

text \<open>C21: Over a new FIFO two devices are a first-in first-out channel of whole frames: for any sequence of frames sent and
  polls, interleaved in any way, each poll hands to the processor exactly the bytes and the length of the oldest frame that has
  been sent and not been polled, a poll of an empty channel answers \<^verbatim>\<open>NoDataAvailable\<close> and sending on a full one \<^verbatim>\<open>NoMoreResources\<close>.\<close>
theorem shm_refines_queue:
  assumes "tulips_fifo_create depth dlen True None = Some (FIFO_OK, Some f)" and "unat depth * unat dlen + 40 < 2 ^ 64" and "4 \<le> unat dlen"
    and "list_all (put_fits (unat dlen)) cs" and "length cs < 2 ^ 64"
  shows "map_option fst (shm_steps cs ([f_data f], \<lparr>sh_read = f, sh_write = f, sh_wblk = 0\<rparr>)) = Some (queue_steps (unat depth) cs [])"
proof -
  have "fifo_inv f" "fifo_elems f = []"
    using fifo_create_spec [of depth dlen True None] assms(1,2) by (auto simp: tulips_fifo_create_def split: if_splits)
  moreover have "f_depth f = depth" "f_data_len f = dlen" "f_prepare_count f = 0" "f_write_count f = 0"
    using assms(1) by (auto simp: tulips_fifo_create_def Let_def split: if_splits)
  ultimately have "linked (unat depth) (unat dlen) (length cs) [] ([f_data f], \<lparr>sh_read = f, sh_write = f, sh_wblk = 0\<rparr>)"
    using assms(3,5) by (simp add: linked_def shm_peer_def shm_inv_def shm_frames_def)
  then show ?thesis
    using assms(4) by (rule shm_steps_linked)
qed

theorem shm_refines_queue_witness:
  "\<exists>f. tulips_fifo_create 2 8 True None = Some (FIFO_OK, Some f) \<and>
     map_option fst (shm_steps [Put [1, 2], Put [3], Put [4], Poll, Poll, Poll] ([f_data f], \<lparr>sh_read = f, sh_write = f, sh_wblk = 0\<rparr>)) =
     Some [(Ok, None), (Ok, None), (NoMoreResources, None), (Ok, Some [1, 2]), (Ok, Some [3]), (NoDataAvailable, None)]"
proof -
  obtain f where f: "tulips_fifo_create 2 8 True None = Some (FIFO_OK, Some f)"
    using fifo_create_spec [of 2 8 True None] by auto
  then show ?thesis
    using shm_refines_queue [OF f, of "[Put [1, 2], Put [3], Put [4], Poll, Poll, Poll]"] by (simp add: Let_def)
qed

text \<open>A buffer cannot be committed out of turn: whichever of its prepared buffers the stack commits, the peer gets the one
  prepared first. With two buffers prepared, as when a connection holds its send buffer while an ARP reply goes out, committing the
  second hands the peer the unfinished content of the first instead.\<close>
theorem shm_commits_oldest:
  assumes "fifo_inv (shm_peer m d)" and "f_prepare_count (sh_write d) = f_write_count (sh_write d)"
    and "unat (f_write_count (sh_write d)) < 2 ^ 64 - 2" and "sh_wblk d < length m" and "4 + length bs \<le> unat (f_data_len (sh_write d))"
    and "shm_prepare m d = Some (Ok, Ptr a i, m, d1)" and "shm_prepare m d1 = Some (Ok, Ptr b j, m, d2)"
    and "mem_write m (Ptr b j) bs = Some m2"
  shows "\<exists>m3 d3. shm_commit (of_nat (length bs)) (Ptr b j) mss m2 d2 = Some (Ok, m3, d3) \<and>
    fifo_elems (shm_peer m3 d3) = fifo_elems (shm_peer m d) @ [take (unat (f_data_len (sh_write d))) (drop (i - 4) (m ! sh_wblk d))]"
proof -
  let ?f = "sh_write d" and ?v = "shm_peer m d" and ?D = "m ! sh_wblk d"
  let ?w = "unat (f_write_count ?f)" and ?r = "unat (f_read_count ?f)" and ?l = "unat (f_data_len ?f)" and ?n = "unat (f_depth ?f)"
  have v: "f_write_count ?v = f_write_count ?f" "f_data_len ?v = f_data_len ?f" "f_depth ?v = f_depth ?f" "f_data ?v = ?D"
    "f_read_count ?v = f_read_count ?f" "slot_at ?v = slot_at ?f"
    by (simp_all add: shm_peer_def slot_at_def fun_eq_iff)
  let ?i = "slot_at ?f (f_write_count ?f)" and ?j = "slot_at ?f (f_write_count ?f + 1)"
  have w1: "unat (f_write_count ?f + 1) = ?w + 1" "unat (f_write_count ?f + 2) = ?w + 2"
    using assms(3) by (simp_all add: unat_word_ariths)
  have d1: "a = sh_wblk d" "i = ?i + 4" "d1 = d\<lparr>sh_write := ?f\<lparr>f_prepare_count := f_write_count ?f + 1\<rparr>\<rparr>"
      "f_write_count ?f - f_read_count ?f \<noteq> f_depth ?f"
    using assms(2,6) by (auto simp: shm_prepare_def Let_def split: if_splits)
  have d2: "b = sh_wblk d" "j = ?j + 4" "d2 = d\<lparr>sh_write := ?f\<lparr>f_prepare_count := f_write_count ?f + 2\<rparr>\<rparr>"
      "f_write_count ?f + 1 - f_read_count ?f \<noteq> f_depth ?f"
    using assms(7) d1(4) by (auto simp: d1(3) shm_prepare_def Let_def slot_at_def add.assoc split: if_splits)
  have le: "?r \<le> ?w" "?w \<le> ?r + ?n"
    using assms(1) v by (simp_all add: fifo_inv_def)
  have "?w - ?r \<noteq> ?n" "?w + 1 - ?r \<noteq> ?n"
    using d1(4) d2(4) le w1(1) by (auto simp: word_unat_eq_iff unat_sub word_le_nat_alt)
  then have room: "?w + 1 < ?r + ?n"
    using le by linarith
  have fit: "?j + ?l \<le> length ?D"
    using slot_in_range [OF assms(1), of "?w + 1"] v by (simp add: slot_at_nat w1)
  let ?D' = "patch (patch ?D (?j + 4) bs) ?j (bytes32 (of_nat (length bs)))"
  have D': "?D' = patch ?D ?j (bytes32 (of_nat (length bs)) @ bs)"
    using patch_left [of ?j "bytes32 (of_nat (length bs))" bs ?D] fit assms(5) by simp
  have m2: "m2 = m[sh_wblk d := patch ?D (?j + 4) bs]"
    using assms(8) by (auto simp: d2 mem_write_def split: if_splits)
  let ?m3 = "m[sh_wblk d := ?D']" and ?d3 = "d\<lparr>sh_write := ?f\<lparr>f_prepare_count := f_write_count ?f + 2, f_write_count := f_write_count ?f + 1\<rparr>\<rparr>"
  have "st32 m2 (Ptr b ?j) 0 (of_nat (length bs)) = Some ?m3"
    using assms(4,5) fit by (simp add: m2 d2(1) st32_def mem_write_def)
  then have commit: "shm_commit (of_nat (length bs)) (Ptr b j) mss m2 d2 = Some (Ok, ?m3, ?d3)"
    by (simp add: shm_commit_def d2(2,3))
  have slot: "fifo_slot (shm_peer ?m3 ?d3) n = fifo_slot ?v n" if "n \<in> set [?r..<?w + 1]" for n
  proof -
    have "n mod ?n \<noteq> (?w + 1) mod ?n"
      using that room by (intro mod_neq_window) auto
    from slot_apart [OF this, of ?l] have "take ?l (drop (n mod ?n * ?l) (patch ?D ?j (bytes32 (of_nat (length bs)) @ bs))) =
        take ?l (drop (n mod ?n * ?l) ?D)"
      using slot_in_range [OF assms(1), of n] fit assms(5) v
      by (intro take_drop_patch_out) (auto simp: slot_at_nat w1)
    then show ?thesis
      using assms(4) by (simp add: fifo_slot_def v) (simp add: shm_peer_def D')
  qed
  have "fifo_elems (shm_peer ?m3 ?d3) = List.map (fifo_slot ?v) [?r..<?w + 1]"
    using slot by (simp add: fifo_elems_def shm_peer_def w1)
  also have "\<dots> = fifo_elems ?v @ [fifo_slot ?v ?w]"
    using le by (simp add: fifo_elems_def v)
  finally show ?thesis
    using commit d1(2) by (simp add: fifo_slot_def v slot_at_nat)
qed

theorem shm_commits_oldest_witness:
  "let f = \<lparr>f_depth = 2, f_data_len = 8, f_prepare_count = 0, f_write_count = 0, f_read_count = 0, f_data = []\<rparr>;
       m = [replicate 16 9]; d = \<lparr>sh_read = f, sh_write = f, sh_wblk = 0\<rparr>
   in \<exists>d2 m2 m3 d3. shm_prepare m d \<bind> (\<lambda>(st, p, m, d). shm_prepare m d) = Some (Ok, Ptr 0 12, m, d2) \<and> mem_write m (Ptr 0 12) [7] = Some m2 \<and>
     shm_commit 1 (Ptr 0 12) 0 m2 d2 = Some (Ok, m3, d3) \<and> fifo_elems (shm_peer m3 d3) = [replicate 8 9]"
proof -
  let ?f = "\<lparr>f_depth = 2, f_data_len = 8, f_prepare_count = 0, f_write_count = 0, f_read_count = 0, f_data = []\<rparr>" and ?m = "[replicate 16 9 :: u8 list]"
  let ?d = "\<lparr>sh_read = ?f, sh_write = ?f, sh_wblk = 0\<rparr>"
  obtain d1 d2 m2 where p: "shm_prepare ?m ?d = Some (Ok, Ptr 0 4, ?m, d1)" "shm_prepare ?m d1 = Some (Ok, Ptr 0 12, ?m, d2)"
      "mem_write ?m (Ptr 0 12) [7] = Some m2"
    by (simp add: shm_prepare_def slot_at_def mem_write_def)
  have "fifo_inv (shm_peer ?m ?d)" "fifo_elems (shm_peer ?m ?d) = []"
    by (simp_all add: fifo_inv_def fifo_elems_def shm_peer_def)
  then show ?thesis
    using shm_commits_oldest [of ?m ?d "[7]" 0 4 d1 0 12 d2 m2 0] p by (simp add: Let_def)
qed

text \<open>The receive window the stack advertises does not depend on the free slots: it is the full 65535 as soon as a single frame
  is queued, however few slots are left, and the number of slots when nothing is queued. The difference of the counters is taken
  the wrong way round.\<close>
theorem shm_window_constant:
  assumes "fifo_inv f" and "f = sh_write d" and "unat (f_depth f) < 2 ^ 63"
  shows "shm_rbavail d = (if fifo_elems f = [] then ucast (f_depth f) else 0xFFFF)"
proof (cases "fifo_elems f = []")
  case True
  then show ?thesis
    using fifo_empty_iff [OF assms(1)] assms(2) by (simp add: shm_rbavail_def)
next
  case False
  have ne: "tulips_fifo_empty (Some f) \<noteq> FIFO_YES"
    using fifo_empty_iff [OF assms(1)] False by simp
  then have lt: "unat (f_read_count f) < unat (f_write_count f)" "unat (f_write_count f) \<le> unat (f_read_count f) + unat (f_depth f)"
    using assms(1) by (auto simp: fifo_inv_def word_unat_eq_iff split: if_splits)
  then have "\<not> f_write_count f \<le> f_read_count f"
    by (simp add: word_le_nat_alt)
  then have "unat (f_read_count f - f_write_count f) = 2 ^ 64 + unat (f_read_count f) - unat (f_write_count f)"
    using lt(1) by (simp add: unat_sub_if_size word_size)
  also have "\<dots> > 0xFFFF"
    using lt assms(3) by simp
  finally have "f_read_count f - f_write_count f > 0xFFFF"
    by (simp add: word_less_nat_alt)
  then show ?thesis
    using False ne assms(2) by (simp add: shm_rbavail_def Let_def)
qed

theorem shm_window_constant_witness:
  "let f = \<lparr>f_depth = 4, f_data_len = 8, f_prepare_count = 4, f_write_count = 4, f_read_count = 0, f_data = replicate 32 0\<rparr>
   in shm_rbavail \<lparr>sh_read = f, sh_write = f, sh_wblk = 0\<rparr> = 0xFFFF"
  using shm_window_constant [of "\<lparr>f_depth = 4, f_data_len = 8, f_prepare_count = 4, f_write_count = 4, f_read_count = 0, f_data = replicate 32 0\<rparr>"
      "\<lparr>sh_read = \<lparr>f_depth = 4, f_data_len = 8, f_prepare_count = 4, f_write_count = 4, f_read_count = 0, f_data = replicate 32 0\<rparr>,
        sh_write = \<lparr>f_depth = 4, f_data_len = 8, f_prepare_count = 4, f_write_count = 4, f_read_count = 0, f_data = replicate 32 0\<rparr>, sh_wblk = 0\<rparr>"]
  by (simp add: fifo_inv_def fifo_elems_def upt_rec)

text \<open>With every slot prepared and not all of them committed, \<^verbatim>\<open>prepare\<close> reports success with no buffer.\<close>

theorem shm_prepare_null:
  "tulips_fifo_full (Some (sh_write d)) \<noteq> FIFO_YES \<Longrightarrow> tulips_fifo_must_commit (Some (sh_write d)) = FIFO_YES \<Longrightarrow>
   shm_prepare m d = Some (Ok, Null, m, d)"
  by (auto simp: shm_prepare_def Let_def split: if_splits)

end
