(* ===== verification/Ssl.thy ===== *)
theory Ssl
  imports Ring Api
begin

text \<open>
  The SSL layer (\<^verbatim>\<open>src/ssl\<close>): a context per connection between the TCP processor and the delegate of the
  application, and the client and the server over those of \<^verbatim>\<open>src/api\<close>. OpenSSL is a parameter, the record
  \<open>openssl\<close> of the functions the code calls. Each acts on an SSL object: a state of its own and the two
  BIOs that the layer gave it, of which it reads the first and writes the second.
\<close>

section \<open>OpenSSL\<close>

datatype ssl_error =
    SSL_ERROR_NONE | SSL_ERROR_SSL | SSL_ERROR_WANT_READ | SSL_ERROR_WANT_WRITE | SSL_ERROR_WANT_X509_LOOKUP
  | SSL_ERROR_SYSCALL | SSL_ERROR_ZERO_RETURN | SSL_ERROR_WANT_CONNECT | SSL_ERROR_WANT_ACCEPT

record 's ssl =
  ssl_eng :: 's
  ssl_bin :: bio
  ssl_bout :: bio

text \<open>\<open>o_read n\<close> returns the bytes it stored in the buffer of \<open>n\<close> bytes as well.\<close>

record 's openssl =
  o_new :: 's
  o_connect :: "'s ssl \<Rightarrow> int \<times> 's ssl"
  o_accept :: "'s ssl \<Rightarrow> int \<times> 's ssl"
  o_shutdown :: "'s ssl \<Rightarrow> int \<times> 's ssl"
  o_read :: "nat \<Rightarrow> 's ssl \<Rightarrow> int \<times> u8 list \<times> 's ssl"
  o_write :: "u8 list \<Rightarrow> 's ssl \<Rightarrow> int \<times> 's ssl"
  o_error :: "'s ssl \<Rightarrow> int \<Rightarrow> ssl_error"

section \<open>Protocols\<close>

datatype protocol = SSLv3 | TLSv1 | TLSv1_1 | TLSv1_2

fun protocol_toString :: "protocol \<Rightarrow> string" where
  "protocol_toString SSLv3 = ''SSLv3''"
| "protocol_toString TLSv1 = ''TLSv1''"
| "protocol_toString TLSv1_1 = ''TLSv1.1''"
| "protocol_toString TLSv1_2 = ''TLSv1.2''"

text \<open>The methods and options of OpenSSL that the code names.\<close>

datatype ssl_method =
    SSLv23_server_method | SSLv23_client_method | TLSv1_server_method | TLSv1_client_method | TLSv1_1_server_method
  | TLSv1_1_client_method | TLSv1_2_server_method | TLSv1_2_client_method

datatype ssl_op = SSL_OP_NO_SSLv2 | SSL_OP_NO_SSLv3 | SSL_OP_NO_TLSv1 | SSL_OP_NO_TLSv1_1 | SSL_OP_NO_TLSv1_2

fun getMethod :: "protocol \<Rightarrow> bool \<Rightarrow> ssl_method \<times> ssl_op set" where
  "getMethod SSLv3 server = (if server then SSLv23_server_method else SSLv23_client_method,
     {SSL_OP_NO_SSLv2, SSL_OP_NO_TLSv1, SSL_OP_NO_TLSv1_1, SSL_OP_NO_TLSv1_2})"
| "getMethod TLSv1 server = (if server then TLSv1_server_method else TLSv1_client_method,
     {SSL_OP_NO_SSLv2, SSL_OP_NO_SSLv3, SSL_OP_NO_TLSv1_1, SSL_OP_NO_TLSv1_2})"
| "getMethod TLSv1_1 server = (if server then TLSv1_1_server_method else TLSv1_1_client_method,
     {SSL_OP_NO_SSLv2, SSL_OP_NO_SSLv3, SSL_OP_NO_TLSv1, SSL_OP_NO_TLSv1_2})"
| "getMethod TLSv1_2 server = (if server then TLSv1_2_server_method else TLSv1_2_client_method,
     {SSL_OP_NO_SSLv2, SSL_OP_NO_SSLv3, SSL_OP_NO_TLSv1, SSL_OP_NO_TLSv1_1})"

text \<open>\<open>msg\<close> is the text of OpenSSL's error queue.\<close>

fun errorToString :: "string \<Rightarrow> ssl_error \<Rightarrow> string" where
  "errorToString msg SSL_ERROR_NONE = ''SSL_ERROR_NONE''"
| "errorToString msg SSL_ERROR_ZERO_RETURN = ''SSL_ERROR_ZERO_RETURN''"
| "errorToString msg SSL_ERROR_WANT_READ = ''SSL_ERROR_WANT_READ''"
| "errorToString msg SSL_ERROR_WANT_WRITE = ''SSL_ERROR_WANT_WRITE''"
| "errorToString msg SSL_ERROR_WANT_CONNECT = ''SSL_ERROR_WANT_CONNECT''"
| "errorToString msg SSL_ERROR_WANT_ACCEPT = ''SSL_ERROR_WANT_ACCEPT''"
| "errorToString msg SSL_ERROR_WANT_X509_LOOKUP = ''SSL_ERROR_WANT_X509_LOOKUP''"
| "errorToString msg SSL_ERROR_SYSCALL = ''SSL_ERROR_SYSCALL''"
| "errorToString msg SSL_ERROR_SSL = msg"

text \<open>The answers of OpenSSL to the calls of the constructors; a failure is thrown with its message.\<close>

record ssl_setup =
  su_ctx :: "ssl_method \<Rightarrow> bool"
  su_cert :: bool
  su_key :: bool
  su_check :: bool
  su_ciphers :: bool

definition ssl_setup_error :: "ssl_setup \<Rightarrow> protocol \<Rightarrow> bool \<Rightarrow> string option" where
  "ssl_setup_error su type server =
     (if \<not> su_ctx su (fst (getMethod type server)) then Some ''SSL_CTX_new failed''
      else if \<not> su_cert su then Some ''SSL_CTX_use_certificate_file failed''
      else if \<not> su_key su then Some ''SSL_CTX_use_PrivateKey_file failed''
      else if \<not> su_check su then Some ''SSL_CTX_check_private_key failed''
      else if \<not> su_ciphers su then Some ''SSL_CTX_set_cipher_list failed''
      else None)"

section \<open>The context of a connection\<close>

datatype ctx_state = SslClosed | SslConnect | SslAccept | SslReady | SslShutdown

record 's ssl_context =
  x_ssl :: "'s ssl"
  x_state :: ctx_state
  x_cookie :: u64
  x_blocked :: bool

definition ctx_new :: "'s openssl \<Rightarrow> u64 \<Rightarrow> u64 \<Rightarrow> u64 \<Rightarrow> 's ssl_context option" where
  "ctx_new os pagesize buflen cookie = do {
     bin \<leftarrow> bio_allocate pagesize buflen;
     bout \<leftarrow> bio_allocate pagesize buflen;
     Some \<lparr>x_ssl = \<lparr>ssl_eng = o_new os, ssl_bin = bin, ssl_bout = bout\<rparr>, x_state = SslClosed, x_cookie = cookie, x_blocked = False\<rparr>
   }"

definition ctx_pending :: "'s ssl_context \<Rightarrow> u64" where
  "ctx_pending c = word_of_int (fst (bio_ctrl CTRL_PENDING 0 (ssl_bout (x_ssl c))))"

text \<open>The result of a call of OpenSSL on the object of the context.\<close>

definition ctx_call :: "('s ssl \<Rightarrow> int \<times> 's ssl) \<Rightarrow> 's ssl_context \<Rightarrow> int \<times> 's ssl_context" where
  "ctx_call f c = (let (e, s) = f (x_ssl c) in (e, c\<lparr>x_ssl := s\<rparr>))"

abbreviation (input) "ctx_error os c e \<equiv> o_error os (x_ssl c) e"

text \<open>What a callback of a context that may answer returns: the action, the bytes stored in the buffer for the
  answer, and their length, which stays zero if the callback does not touch it.\<close>

definition ctx_flush :: "u32 \<Rightarrow> 's ssl_context \<Rightarrow> (action \<times> u8 list \<times> u32 \<times> 's ssl_context) option" where
  "ctx_flush alen c = (let len = ctx_pending c in
     if len = 0 then Some (Continue, [], 0, c)
     else do {
       let rlen = (if len > ucast alen then ucast alen else len);
       (bs, n, bout) \<leftarrow> bio_read (ssl_bout (x_ssl c)) (ucast rlen);
       Some (Continue, bs, ucast rlen, c\<lparr>x_ssl := (x_ssl c)\<lparr>ssl_bout := bout\<rparr>\<rparr>)
     })"

definition ctx_abortOrClose :: "'s openssl \<Rightarrow> action \<Rightarrow> u32 \<Rightarrow> 's ssl_context \<Rightarrow> (action \<times> u8 list \<times> u32 \<times> 's ssl_context) option" where
  "ctx_abortOrClose os r alen c =
     (if r = Abort then Some (Abort, [], 0, c)
      else if r = Close then do {
        let (e, c) = ctx_call (o_shutdown os) c;
        let (e, c) = (if e = 0 then ctx_call (o_shutdown os) c else (e, c));
        if e < 0 then
          if ctx_error os c e \<noteq> SSL_ERROR_WANT_READ then Some (Abort, [], 0, c)
          else ctx_flush alen (c\<lparr>x_state := SslShutdown\<rparr>)
        else Some (Abort, [], 0, c)
      }
      else Some (Continue, [], 0, c))"

text \<open>\<open>put_in\<close> is the call of \<^verbatim>\<open>BIO_write\<close> on the input BIO; its result is ignored.\<close>

definition put_in :: "u8 list \<Rightarrow> 's ssl_context \<Rightarrow> 's ssl_context option" where
  "put_in data c = do {
     (res, bin) \<leftarrow> bio_write (ssl_bin (x_ssl c)) data (of_nat (length data));
     Some (c\<lparr>x_ssl := (x_ssl c)\<lparr>ssl_bin := bin\<rparr>\<rparr>)
   }"

text \<open>Encrypting the first \<open>rlen\<close> bytes of the application's answer; more than it has written is not initialised.\<close>

definition ctx_write :: "'s openssl \<Rightarrow> u8 list \<Rightarrow> u32 \<Rightarrow> 's ssl_context \<Rightarrow> 's ssl_context option" where
  "ctx_write os out rlen c = (if length out < unat rlen then None else Some (snd (ctx_call (o_write os (take (unat rlen) out)) c)))"

definition ctx_onAcked_send :: "'s openssl \<Rightarrow> 'u delegate_ops \<Rightarrow> u16 \<Rightarrow> u32 \<Rightarrow> 's ssl_context \<Rightarrow> 'u \<Rightarrow>
    (action \<times> u8 list \<times> u32 \<times> 's ssl_context \<times> 'u) option" where
  "ctx_onAcked_send os g i alen c u = (
     let c = c\<lparr>x_blocked := False\<rparr> in
     if ctx_pending c > 0 then map_option (\<lambda>(a, out, n, c). (a, out, n, c, u)) (ctx_flush alen c)
     else do {
       (act, out, rlen, u) \<leftarrow> g_acked_send g i (x_cookie c) alen u;
       if act \<noteq> Continue then map_option (\<lambda>(a, out, n, c). (a, out, n, c, u)) (ctx_abortOrClose os act alen c)
       else do {
         c \<leftarrow> ctx_write os out (if rlen > alen then alen else rlen) c;
         map_option (\<lambda>(a, out, n, c). (a, out, n, c, u)) (ctx_flush alen c)
       }
     })"

text \<open>The end of both loops, when \<^verbatim>\<open>SSL_read\<close> has not returned data: whether to go on after the loop.\<close>

definition read_stopped :: "'s openssl \<Rightarrow> int \<Rightarrow> 's ssl_context \<Rightarrow> bool \<times> 's ssl_context" where
  "read_stopped os ret c =
     (if ret < 0 then (ctx_error os c ret = SSL_ERROR_WANT_READ, c)
      else if ctx_error os c ret = SSL_ERROR_ZERO_RETURN \<or> ctx_error os c ret = SSL_ERROR_SSL
      then let (e, c) = ctx_call (o_shutdown os) c in (e = 1, c)
      else (False, c))"

definition ctx_read :: "'s openssl \<Rightarrow> nat \<Rightarrow> 's ssl_context \<Rightarrow> int \<times> u8 list \<times> 's ssl_context" where
  "ctx_read os len c = (let (ret, bs, s) = o_read os len (x_ssl c) in (ret, take (nat ret) bs, c\<lparr>x_ssl := s\<rparr>))"

partial_function (option) read_loop :: "'s openssl \<Rightarrow> 'u delegate_ops \<Rightarrow> u16 \<Rightarrow> nat \<Rightarrow> 's ssl_context \<Rightarrow> 'u \<Rightarrow>
    (action \<times> 's ssl_context \<times> 'u) option" where
  "read_loop os g i len c u = (case ctx_read os len c of (ret, bs, c) \<Rightarrow>
     if ret \<le> 0 then (case read_stopped os ret c of (ok, c) \<Rightarrow> Some (if ok then Continue else Abort, c, u))
     else Option.bind (g_newdata g i (x_cookie c) bs u) (\<lambda>(a, u).
       if a \<noteq> Continue then Some (Abort, c, u) else read_loop os g i len c u))"

definition ctx_onNewData :: "'s openssl \<Rightarrow> 'u delegate_ops \<Rightarrow> u16 \<Rightarrow> u8 list \<Rightarrow> 's ssl_context \<Rightarrow> 'u \<Rightarrow>
    (action \<times> 's ssl_context \<times> 'u) option" where
  "ctx_onNewData os g i data c u = do {
     c \<leftarrow> put_in data c;
     if x_state c \<noteq> SslReady then Some (Abort, c, u) else read_loop os g i (length data) c u
   }"

text \<open>\<open>acc\<close> counts the answer in plain text.\<close>

partial_function (option) answer_loop :: "'s openssl \<Rightarrow> 'u delegate_ops \<Rightarrow> u16 \<Rightarrow> nat \<Rightarrow> u32 \<Rightarrow> u32 \<Rightarrow> 's ssl_context \<Rightarrow> 'u \<Rightarrow>
    (action \<times> u8 list \<times> u32 \<times> 's ssl_context \<times> 'u) option" where
  "answer_loop os g i len alen acc c u = (case ctx_read os len c of (ret, bs, c) \<Rightarrow>
     if ret \<le> 0 then (case read_stopped os ret c of (ok, c) \<Rightarrow>
       if ok then map_option (\<lambda>(a, out, n, c). (a, out, n, c, u)) (ctx_flush alen c) else Some (Abort, [], 0, c, u))
     else Option.bind (g_newdata_send g i (x_cookie c) bs (alen - acc) u) (\<lambda>(a, out, rlen, u).
       if a \<noteq> Continue then map_option (\<lambda>(a, out, n, c). (a, out, n, c, u)) (ctx_abortOrClose os a alen c)
       else Option.bind (ctx_write os out (if rlen + acc > alen then alen - acc else rlen) c) (\<lambda>c.
         answer_loop os g i len alen (acc + (if rlen + acc > alen then alen - acc else rlen)) c u)))"

text \<open>One step of a handshake, by \<^verbatim>\<open>SSL_connect\<close> or \<^verbatim>\<open>SSL_accept\<close>.\<close>

definition ctx_shake :: "'s openssl \<Rightarrow> ('s ssl \<Rightarrow> int \<times> 's ssl) \<Rightarrow> u32 \<Rightarrow> 's ssl_context \<Rightarrow> (action \<times> u8 list \<times> u32 \<times> 's ssl_context) option" where
  "ctx_shake os f alen c = (let (e, c) = ctx_call f c in
     if e = 0 then Some (Abort, [], 0, c)
     else if e = 1 then ctx_flush alen (c\<lparr>x_state := SslReady\<rparr>)
     else if ctx_error os c e = SSL_ERROR_WANT_READ then ctx_flush alen c
     else Some (Abort, [], 0, c))"

definition ctx_onNewData_send :: "'s openssl \<Rightarrow> 'u delegate_ops \<Rightarrow> u16 \<Rightarrow> u8 list \<Rightarrow> u32 \<Rightarrow> 's ssl_context \<Rightarrow> 'u \<Rightarrow>
    (action \<times> u8 list \<times> u32 \<times> 's ssl_context \<times> 'u) option" where
  "ctx_onNewData_send os g i data alen c u = do {
     c \<leftarrow> put_in data c;
     case x_state c of
       SslClosed \<Rightarrow> Some (Abort, [], 0, c, u)
     | SslConnect \<Rightarrow> map_option (\<lambda>(a, out, n, c). (a, out, n, c, u)) (ctx_shake os (o_connect os) alen c)
     | SslAccept \<Rightarrow> map_option (\<lambda>(a, out, n, c). (a, out, n, c, u)) (ctx_shake os (o_accept os) alen c)
     | SslReady \<Rightarrow> answer_loop os g i (length data) alen 0 c u
     | SslShutdown \<Rightarrow> (let (e, c) = ctx_call (o_shutdown os) c in Some (if e = 1 then Close else Abort, [], 0, c, u))
   }"

section \<open>The contexts of a host\<close>

text \<open>A cookie is the address of a context: zero is the null pointer, \<open>n + 1\<close> the \<open>n\<close>-th context that has been created.
  Addresses are not reused; a deleted context is gone (\<open>None\<close>).\<close>

record ('s, 'u) ssl_host =
  z_user :: 'u
  z_ctxs :: "'s ssl_context option list"

definition ctx_get :: "u64 \<Rightarrow> ('s, 'u) ssl_host \<Rightarrow> 's ssl_context option" where
  "ctx_get p z = (if p = 0 \<or> length (z_ctxs z) < unat p then None else z_ctxs z ! (unat p - 1))"

definition ctx_set :: "u64 \<Rightarrow> 's ssl_context option \<Rightarrow> ('s, 'u) ssl_host \<Rightarrow> ('s, 'u) ssl_host" where
  "ctx_set p c z = z\<lparr>z_ctxs := (z_ctxs z)[unat p - 1 := c]\<rparr>"

definition ssl_connected :: "'s openssl \<Rightarrow> 'u delegate_ops \<Rightarrow> u64 \<Rightarrow> u32 \<Rightarrow> ctx_state \<Rightarrow> u16 \<Rightarrow> u64 \<Rightarrow> u8 \<Rightarrow> ('s, 'u) ssl_host \<Rightarrow>
    (u64 \<times> u8 \<times> ('s, 'u) ssl_host) option" where
  "ssl_connected os g pagesize mss st i cookie opts z = do {
     (user, opts, u) \<leftarrow> g_connected g i cookie opts (z_user z);
     c \<leftarrow> ctx_new os pagesize (ucast mss) user;
     Some (of_nat (length (z_ctxs z) + 1), opts, z\<lparr>z_user := u, z_ctxs := z_ctxs z @ [Some (c\<lparr>x_state := st\<rparr>)]\<rparr>)
   }"

definition ssl_onAcked :: "'u delegate_ops \<Rightarrow> u16 \<Rightarrow> u64 \<Rightarrow> ('s, 'u) ssl_host \<Rightarrow> (action \<times> ('s, 'u) ssl_host) option" where
  "ssl_onAcked g i cookie z = do {
     c \<leftarrow> ctx_get cookie z;
     if x_state c \<noteq> SslReady then Some (Continue, z)
     else do {
       (a, u) \<leftarrow> g_acked g i (x_cookie c) (z_user z);
       Some (a, z\<lparr>z_user := u\<rparr>)
     }
   }"

definition ssl_onAcked_send :: "'s openssl \<Rightarrow> 'u delegate_ops \<Rightarrow> u16 \<Rightarrow> u64 \<Rightarrow> u32 \<Rightarrow> ('s, 'u) ssl_host \<Rightarrow>
    (action \<times> u8 list \<times> u32 \<times> ('s, 'u) ssl_host) option" where
  "ssl_onAcked_send os g i cookie alen z = do {
     c \<leftarrow> ctx_get cookie z;
     (a, out, n, c, u) \<leftarrow> ctx_onAcked_send os g i alen c (z_user z);
     Some (a, out, n, ctx_set cookie (Some c) (z\<lparr>z_user := u\<rparr>))
   }"

definition ssl_onNewData :: "'s openssl \<Rightarrow> 'u delegate_ops \<Rightarrow> u16 \<Rightarrow> u64 \<Rightarrow> u8 list \<Rightarrow> ('s, 'u) ssl_host \<Rightarrow>
    (action \<times> ('s, 'u) ssl_host) option" where
  "ssl_onNewData os g i cookie data z = do {
     c \<leftarrow> ctx_get cookie z;
     (a, c, u) \<leftarrow> ctx_onNewData os g i data c (z_user z);
     Some (a, ctx_set cookie (Some c) (z\<lparr>z_user := u\<rparr>))
   }"

definition ssl_onNewData_send :: "'s openssl \<Rightarrow> 'u delegate_ops \<Rightarrow> u16 \<Rightarrow> u64 \<Rightarrow> u8 list \<Rightarrow> u32 \<Rightarrow> ('s, 'u) ssl_host \<Rightarrow>
    (action \<times> u8 list \<times> u32 \<times> ('s, 'u) ssl_host) option" where
  "ssl_onNewData_send os g i cookie data alen z = do {
     c \<leftarrow> ctx_get cookie z;
     (a, out, n, c, u) \<leftarrow> ctx_onNewData_send os g i data alen c (z_user z);
     Some (a, out, n, ctx_set cookie (Some c) (z\<lparr>z_user := u\<rparr>))
   }"

text \<open>Only the client looks at the pointer before it uses it.\<close>

definition sslc_onClosed :: "'u delegate_ops \<Rightarrow> u16 \<Rightarrow> u64 \<Rightarrow> ('s, 'u) ssl_host \<Rightarrow> ('s, 'u) ssl_host option" where
  "sslc_onClosed g i cookie z =
     (if cookie = 0 then Some z
      else do {
        c \<leftarrow> ctx_get cookie z;
        u \<leftarrow> g_closed g i (x_cookie c) (z_user z);
        Some (ctx_set cookie None (z\<lparr>z_user := u\<rparr>))
      })"

definition ssls_onClosed :: "'u delegate_ops \<Rightarrow> u16 \<Rightarrow> u64 \<Rightarrow> ('s, 'u) ssl_host \<Rightarrow> ('s, 'u) ssl_host option" where
  "ssls_onClosed g i cookie z = do {
     c \<leftarrow> ctx_get cookie z;
     u \<leftarrow> g_closed g i (x_cookie c) (z_user z);
     Some (ctx_set cookie None (z\<lparr>z_user := u\<rparr>))
   }"

text \<open>What the client and the server of the SSL layer are for those below: their delegates.\<close>

definition sslc_delegate :: "'s openssl \<Rightarrow> 'u delegate_ops \<Rightarrow> u64 \<Rightarrow> u32 \<Rightarrow> ('s, 'u) ssl_host delegate_ops" where
  "sslc_delegate os g pagesize mss = \<lparr>g_connected = ssl_connected os g pagesize mss SslConnect, g_acked = ssl_onAcked g,
     g_acked_send = ssl_onAcked_send os g, g_newdata = ssl_onNewData os g, g_newdata_send = ssl_onNewData_send os g,
     g_closed = sslc_onClosed g\<rparr>"

definition ssls_delegate :: "'s openssl \<Rightarrow> 'u delegate_ops \<Rightarrow> u64 \<Rightarrow> u32 \<Rightarrow> ('s, 'u) ssl_host delegate_ops" where
  "ssls_delegate os g pagesize mss = \<lparr>g_connected = ssl_connected os g pagesize mss SslAccept, g_acked = ssl_onAcked g,
     g_acked_send = ssl_onAcked_send os g, g_newdata = ssl_onNewData os g, g_newdata_send = ssl_onNewData_send os g,
     g_closed = ssls_onClosed g\<rparr>"

section \<open>The client\<close>

abbreviation (input) kc_ssl :: "('d, ('s, 'u) ssl_host client) stack \<Rightarrow> ('s, 'u) ssl_host" where
  "kc_ssl k \<equiv> cl_dlg (t_handler (k_tcp k))"

definition kc_set_ctx :: "u64 \<Rightarrow> 's ssl_context \<Rightarrow> ('d, ('s, 'u) ssl_host client) stack \<Rightarrow> ('d, ('s, 'u) ssl_host client) stack" where
  "kc_set_ctx p c k = k_set_client ((k_client k)\<lparr>cl_dlg := ctx_set p (Some c) (kc_ssl k)\<rparr>) k"

text \<open>The pending cipher text, as the pointer into the output BIO shows it.\<close>

definition ctx_out :: "'s ssl_context \<Rightarrow> u64 \<Rightarrow> u8 list option" where
  "ctx_out c len = do { r \<leftarrow> b_ptr (ssl_bout (x_ssl c)); region_get r (ring_readAt r) (unat len) }"

definition ctx_skip :: "u32 \<Rightarrow> 's ssl_context \<Rightarrow> 's ssl_context option" where
  "ctx_skip n c = map_option (\<lambda>b. c\<lparr>x_ssl := (x_ssl c)\<lparr>ssl_bout := b\<rparr>\<rparr>) (bio_skip (ssl_bout (x_ssl c)) (ucast n))"

definition sslc_flush :: "'d device_ops \<Rightarrow> u16 \<Rightarrow> u64 \<Rightarrow> ('d, ('s, 'u) ssl_host client) stack \<Rightarrow>
    (status \<times> ('d, ('s, 'u) ssl_host client) stack) option" where
  "sslc_flush ops i cookie k = do {
     c \<leftarrow> ctx_get cookie (kc_ssl k);
     let len = ctx_pending c;
     if len = 0 then Some (Ok, k)
     else do {
       bs \<leftarrow> ctx_out c len;
       (res, rem, k) \<leftarrow> client_send ops i (ucast len) (Some bs) 0 k;
       if res \<noteq> Ok then Some (res, kc_set_ctx cookie (c\<lparr>x_blocked := (res = OperationInProgress)\<rparr>) k)
       else do {
         c \<leftarrow> ctx_skip rem c;
         Some (Ok, kc_set_ctx cookie c k)
       }
     }
   }"

text \<open>The members are constructed before OpenSSL is called.\<close>

definition sslc_create :: "'d device_ops \<Rightarrow> mac \<Rightarrow> ip4 \<Rightarrow> ip4 \<Rightarrow> ip4 \<Rightarrow> mem \<Rightarrow> 'd \<Rightarrow> 'u \<Rightarrow> u64 \<Rightarrow> u64 \<Rightarrow> u64 \<Rightarrow> u64 \<Rightarrow> ssl_setup \<Rightarrow> protocol \<Rightarrow>
    (string + ('d, ('s, 'u) ssl_host client) stack) option" where
  "sslc_create ops hw ip gateway netmask m d u nconn now now' cps su type = do {
     k \<leftarrow> client_create ops hw ip gateway netmask m d \<lparr>z_user = u, z_ctxs = []\<rparr> nconn now now' cps;
     Some (case ssl_setup_error su type False of Some msg \<Rightarrow> Inl msg | None \<Rightarrow> Inr k)
   }"

definition sslc_process :: "'d device_ops \<Rightarrow> 's openssl \<Rightarrow> 'u delegate_ops \<Rightarrow> u64 \<Rightarrow> u32 \<Rightarrow> u16 \<Rightarrow> u8 list \<Rightarrow>
    ('d, ('s, 'u) ssl_host client) stack \<Rightarrow> (status \<times> ('d, ('s, 'u) ssl_host client) stack) option" where
  "sslc_process ops os g pagesize mss = client_process ops (sslc_delegate os g pagesize mss)"

definition sslc_run :: "'d device_ops \<Rightarrow> 's openssl \<Rightarrow> 'u delegate_ops \<Rightarrow> u64 \<Rightarrow> u32 \<Rightarrow> u64 \<times> u64 \<Rightarrow> u64 \<times> u64 \<Rightarrow>
    ('d, ('s, 'u) ssl_host client) stack \<Rightarrow> (status \<times> ('d, ('s, 'u) ssl_host client) stack) option" where
  "sslc_run ops os g pagesize mss = client_run ops (sslc_delegate os g pagesize mss)"

definition sslc_averageLatency :: "u16 \<Rightarrow> ('d, ('s, 'u) ssl_host client) stack \<Rightarrow> u64" where
  "sslc_averageLatency i k = client_averageLatency i k"

definition sslc_open :: "('d, ('s, 'u) ssl_host client) stack \<Rightarrow> status \<times> u16 option \<times> ('d, ('s, 'u) ssl_host client) stack" where
  "sslc_open k = client_open k"

definition sslc_handshake :: "'d device_ops \<Rightarrow> 's openssl \<Rightarrow> u16 \<Rightarrow> u64 \<Rightarrow> ('d, ('s, 'u) ssl_host client) stack \<Rightarrow>
    (status \<times> ('d, ('s, 'u) ssl_host client) stack) option" where
  "sslc_handshake ops os i cookie k = do {
     c \<leftarrow> ctx_get cookie (kc_ssl k);
     case x_state c of
       SslConnect \<Rightarrow> (let (e, c) = ctx_call (o_connect os) c; k = kc_set_ctx cookie c k in
         if e = 0 then Some (ProtocolError, k)
         else if e = 1 then Some (Ok, kc_set_ctx cookie (c\<lparr>x_state := SslReady\<rparr>) k)
         else if ctx_error os c e \<noteq> SSL_ERROR_WANT_READ then Some (ProtocolError, k)
         else do {
           (res, k) \<leftarrow> sslc_flush ops i cookie k;
           Some (if res \<noteq> Ok then res else OperationInProgress, k)
         })
     | SslReady \<Rightarrow> Some (Ok, k)
     | SslShutdown \<Rightarrow> Some (InvalidArgument, k)
     | _ \<Rightarrow> Some (ProtocolError, k)
   }"

definition sslc_connect :: "'d device_ops \<Rightarrow> 's openssl \<Rightarrow> u16 \<Rightarrow> ip4 \<Rightarrow> u16 \<Rightarrow> u64 list \<Rightarrow> ('d, ('s, 'u) ssl_host client) stack \<Rightarrow>
    (status \<times> ('d, ('s, 'u) ssl_host client) stack) option" where
  "sslc_connect ops os i ripaddr rport readings k =
     (if client_cookie i k = 0
      then do {
        (res, k) \<leftarrow> client_connect ops i ripaddr rport readings k;
        if res \<noteq> Ok then Some (res, k) else sslc_handshake ops os i (client_cookie i k) k
      }
      else sslc_handshake ops os i (client_cookie i k) k)"

definition sslc_abort :: "'d device_ops \<Rightarrow> 's openssl \<Rightarrow> 'u delegate_ops \<Rightarrow> u64 \<Rightarrow> u32 \<Rightarrow> u16 \<Rightarrow> ('d, ('s, 'u) ssl_host client) stack \<Rightarrow>
    (status \<times> ('d, ('s, 'u) ssl_host client) stack) option" where
  "sslc_abort ops os g pagesize mss i k = (let cookie = client_cookie i k in
     if cookie = 0 then Some (InvalidArgument, k)
     else do {
       c \<leftarrow> ctx_get cookie (kc_ssl k);
       if x_state c \<noteq> SslReady \<and> x_state c \<noteq> SslShutdown then Some (NotConnected, k)
       else client_abort ops (sslc_delegate os g pagesize mss) i k
     })"

definition sslc_close :: "'d device_ops \<Rightarrow> 's openssl \<Rightarrow> u16 \<Rightarrow> ('d, ('s, 'u) ssl_host client) stack \<Rightarrow>
    (status \<times> ('d, ('s, 'u) ssl_host client) stack) option" where
  "sslc_close ops os i k = (let cookie = client_cookie i k in
     if cookie = 0 then Some (NotConnected, k)
     else do {
       c \<leftarrow> ctx_get cookie (kc_ssl k);
       if x_state c \<noteq> SslReady \<and> x_state c \<noteq> SslShutdown then Some (NotConnected, k)
       else if x_state c = SslShutdown then Some (OperationInProgress, k)
       else do {
         let (e, c) = ctx_call (o_shutdown os) (c\<lparr>x_state := SslShutdown\<rparr>);
         let k = kc_set_ctx cookie c k;
         if e = 0 then map_option (\<lambda>(res, k). (OperationInProgress, k)) (sslc_flush ops i cookie k)
         else if e = 1 then client_close ops i k
         else Some (ProtocolError, k)
       }
     })"

definition sslc_isClosed :: "u16 \<Rightarrow> ('d, ('s, 'u) ssl_host client) stack \<Rightarrow> bool" where
  "sslc_isClosed i k = client_isClosed i k"

text \<open>The result of \<^verbatim>\<open>SSL_write\<close> is added to the offset even when it is negative.\<close>

definition sslc_send :: "'d device_ops \<Rightarrow> 's openssl \<Rightarrow> u16 \<Rightarrow> u8 list \<Rightarrow> u32 \<Rightarrow> ('d, ('s, 'u) ssl_host client) stack \<Rightarrow>
    (status \<times> u32 \<times> ('d, ('s, 'u) ssl_host client) stack) option" where
  "sslc_send ops os i data off k = (let cookie = client_cookie i k in
     if cookie = 0 then Some (InvalidArgument, off, k)
     else do {
       c \<leftarrow> ctx_get cookie (kc_ssl k);
       if x_state c \<noteq> SslReady then Some (InvalidConnection, off, k)
       else if x_blocked c then Some (OperationInProgress, off, k)
       else do {
         let (e, c) = ctx_call (o_write os data) c;
         (res, k) \<leftarrow> sslc_flush ops i cookie (kc_set_ctx cookie c k);
         Some (res, word_of_int e, k)
       }
     })"

section \<open>The server\<close>

abbreviation (input) ks_ssl :: "('d, ('s, 'u) ssl_host server) stack \<Rightarrow> ('s, 'u) ssl_host" where
  "ks_ssl k \<equiv> sv_dlg (t_handler (k_tcp k))"

definition ks_set_ctx :: "u64 \<Rightarrow> 's ssl_context \<Rightarrow> ('d, ('s, 'u) ssl_host server) stack \<Rightarrow> ('d, ('s, 'u) ssl_host server) stack" where
  "ks_set_ctx p c k = on_server (\<lambda>sv. sv\<lparr>sv_dlg := ctx_set p (Some c) (sv_dlg sv)\<rparr>) k"

definition ssls_flush :: "'d device_ops \<Rightarrow> u16 \<Rightarrow> u64 \<Rightarrow> ('d, ('s, 'u) ssl_host server) stack \<Rightarrow>
    (status \<times> ('d, ('s, 'u) ssl_host server) stack) option" where
  "ssls_flush ops i cookie k = do {
     c \<leftarrow> ctx_get cookie (ks_ssl k);
     let len = ctx_pending c;
     if len = 0 then Some (Ok, k)
     else do {
       bs \<leftarrow> ctx_out c len;
       (res, rem, k) \<leftarrow> server_send ops i (ucast len) (Some bs) 0 k;
       if res \<noteq> Ok then Some (res, ks_set_ctx cookie (c\<lparr>x_blocked := (res = OperationInProgress)\<rparr>) k)
       else do {
         c \<leftarrow> ctx_skip rem c;
         Some (Ok, ks_set_ctx cookie c k)
       }
     }
   }"

definition ssls_close :: "'d device_ops \<Rightarrow> 's openssl \<Rightarrow> u16 \<Rightarrow> ('d, ('s, 'u) ssl_host server) stack \<Rightarrow>
    (status \<times> ('d, ('s, 'u) ssl_host server) stack) option" where
  "ssls_close ops os i k = (let cookie = server_cookie i k in
     if cookie = 0 then Some (InvalidArgument, k)
     else do {
       c \<leftarrow> ctx_get cookie (ks_ssl k);
       if x_state c \<noteq> SslReady \<and> x_state c \<noteq> SslShutdown then Some (NotConnected, k)
       else if x_state c = SslShutdown then Some (OperationInProgress, k)
       else do {
         let (e, c) = ctx_call (o_shutdown os) (c\<lparr>x_state := SslShutdown\<rparr>);
         let k = ks_set_ctx cookie c k;
         if e = 0 then map_option (\<lambda>(res, k). (OperationInProgress, k)) (ssls_flush ops i cookie k)
         else if e = 1 then server_close ops i k
         else Some (ProtocolError, k)
       }
     })"

definition ssls_create :: "'d device_ops \<Rightarrow> mac \<Rightarrow> ip4 \<Rightarrow> ip4 \<Rightarrow> ip4 \<Rightarrow> mem \<Rightarrow> 'd \<Rightarrow> 'u \<Rightarrow> u64 \<Rightarrow> u64 \<Rightarrow> u64 \<Rightarrow> u64 \<Rightarrow> ssl_setup \<Rightarrow> protocol \<Rightarrow>
    (string + ('d, ('s, 'u) ssl_host server) stack) option" where
  "ssls_create ops hw ip gateway netmask m d u nconn now now' cps su type = do {
     k \<leftarrow> server_create ops hw ip gateway netmask m d \<lparr>z_user = u, z_ctxs = []\<rparr> nconn now now' cps;
     Some (case ssl_setup_error su type True of Some msg \<Rightarrow> Inl msg | None \<Rightarrow> Inr k)
   }"

definition ssls_process :: "'d device_ops \<Rightarrow> 's openssl \<Rightarrow> 'u delegate_ops \<Rightarrow> u64 \<Rightarrow> u32 \<Rightarrow> u16 \<Rightarrow> u8 list \<Rightarrow>
    ('d, ('s, 'u) ssl_host server) stack \<Rightarrow> (status \<times> ('d, ('s, 'u) ssl_host server) stack) option" where
  "ssls_process ops os g pagesize mss = server_process ops (ssls_delegate os g pagesize mss)"

definition ssls_run :: "'d device_ops \<Rightarrow> 's openssl \<Rightarrow> 'u delegate_ops \<Rightarrow> u64 \<Rightarrow> u32 \<Rightarrow> u64 \<times> u64 \<Rightarrow> u64 \<times> u64 \<Rightarrow>
    ('d, ('s, 'u) ssl_host server) stack \<Rightarrow> (status \<times> ('d, ('s, 'u) ssl_host server) stack) option" where
  "ssls_run ops os g pagesize mss = server_run ops (ssls_delegate os g pagesize mss)"

definition ssls_isClosed :: "u16 \<Rightarrow> ('d, ('s, 'u) ssl_host server) stack \<Rightarrow> bool" where
  "ssls_isClosed i k = server_isClosed i k"

definition ssls_send :: "'d device_ops \<Rightarrow> 's openssl \<Rightarrow> u16 \<Rightarrow> u8 list \<Rightarrow> u32 \<Rightarrow> ('d, ('s, 'u) ssl_host server) stack \<Rightarrow>
    (status \<times> u32 \<times> ('d, ('s, 'u) ssl_host server) stack) option" where
  "ssls_send ops os i data off k = (let cookie = server_cookie i k in
     if cookie = 0 then Some (InvalidArgument, off, k)
     else do {
       c \<leftarrow> ctx_get cookie (ks_ssl k);
       if x_state c \<noteq> SslReady then Some (InvalidConnection, off, k)
       else if x_blocked c then Some (OperationInProgress, off, k)
       else do {
         let (e, c) = ctx_call (o_write os data) c;
         (res, k) \<leftarrow> ssls_flush ops i cookie (ks_set_ctx cookie c k);
         Some (res, word_of_int e, k)
       }
     })"

definition ssls_listen :: "'d device_ops \<Rightarrow> u16 \<Rightarrow> u64 \<Rightarrow> ('d, ('s, 'u) ssl_host server) stack \<Rightarrow> ('d, ('s, 'u) ssl_host server) stack" where
  "ssls_listen ops port cookie k = server_listen ops port cookie k"

definition ssls_unlisten :: "'d device_ops \<Rightarrow> u16 \<Rightarrow> ('d, ('s, 'u) ssl_host server) stack \<Rightarrow> ('d, ('s, 'u) ssl_host server) stack" where
  "ssls_unlisten ops port k = server_unlisten ops port k"

end
