(* ===== verification/SslSafe.thy ===== *)
theory SslSafe
  imports Ssl
begin

text \<open>
  What the SSL layer does with the bytes: the plain text it passes to the application, the cipher text it
  passes to TCP, and when. The documented behaviour of OpenSSL that this rests on is stated by the
  predicates \<open>writes_cipher\<close>, \<open>reads_plain\<close> (from states with intact input only) and \<open>shakes\<close>. A context is followed through any sequence of the
  callbacks and operations of the layer.
\<close>

section \<open>What is taken for granted of OpenSSL\<close>

datatype ssl_call = CallConnect | CallAccept | CallShutdown | CallRead nat | CallWrite "u8 list"

fun after_call :: "'s openssl \<Rightarrow> ssl_call \<Rightarrow> 's ssl \<Rightarrow> 's ssl" where
  "after_call os CallConnect s = snd (o_connect os s)"
| "after_call os CallAccept s = snd (o_accept os s)"
| "after_call os CallShutdown s = snd (o_shutdown os s)"
| "after_call os (CallRead n) s = snd (snd (o_read os n s))"
| "after_call os (CallWrite bs) s = snd (o_write os bs s)"

definition bio_wf :: "nat \<Rightarrow> bio \<Rightarrow> bool" where
  "bio_wf k b \<longleftrightarrow> (case b_ptr b of None \<Rightarrow> False | Some r \<Rightarrow> ring_wf k r)"

definition bio_bytes :: "nat \<Rightarrow> bio \<Rightarrow> u8 list" where
  "bio_bytes k b = (case b_ptr b of None \<Rightarrow> [] | Some r \<Rightarrow> ring_bytes k r)"

definition ssl_wf :: "nat \<Rightarrow> 's ssl \<Rightarrow> bool" where
  "ssl_wf k s \<longleftrightarrow> bio_wf k (ssl_bin s) \<and> bio_wf k (ssl_bout s)"

text \<open>A call appends to the output BIO and keeps both BIOs in order; \<open>written\<close> is all an engine has ever written.\<close>

definition writes_cipher :: "nat \<Rightarrow> 's openssl \<Rightarrow> ('s \<Rightarrow> u8 list) \<Rightarrow> bool" where
  "writes_cipher k os written \<longleftrightarrow> written (o_new os) = [] \<and> (\<forall>f s. ssl_wf k s \<longrightarrow> ssl_wf k (after_call os f s) \<and>
     (\<exists>x. bio_bytes k (ssl_bout (after_call os f s)) = bio_bytes k (ssl_bout s) @ x \<and>
          written (ssl_eng (after_call os f s)) = written (ssl_eng s) @ x))"

text \<open>\<open>avail e b\<close> is the plain text an engine in the state \<open>e\<close> can make available from the input \<open>b\<close>, and \<open>clean e b\<close> says that the handshake
  is done and the input holds intact records of application data only, whole or begun: no alert, hence no \<^verbatim>\<open>close_notify\<close>, no renegotiation, nothing
  that fails to decrypt. From such a state reading returns the plain text in order, in portions of at most the size asked for, and asks for more input when there
  is none; reading and writing keep it. Of the other states nothing is said.\<close>

definition reads_plain :: "nat \<Rightarrow> 's openssl \<Rightarrow> ('s \<Rightarrow> bio \<Rightarrow> u8 list) \<Rightarrow> ('s \<Rightarrow> bio \<Rightarrow> bool) \<Rightarrow> bool" where
  "reads_plain k os avail clean \<longleftrightarrow>
     (\<forall>n s. 0 < n \<longrightarrow> ssl_wf k s \<longrightarrow> clean (ssl_eng s) (ssl_bin s) \<longrightarrow> (case o_read os n s of (ret, bs, s') \<Rightarrow>
        clean (ssl_eng s') (ssl_bin s') \<and>
        (if avail (ssl_eng s) (ssl_bin s) = []
         then ret < 0 \<and> o_error os s' ret = SSL_ERROR_WANT_READ \<and> avail (ssl_eng s') (ssl_bin s') = []
         else 0 < ret \<and> nat ret \<le> length (avail (ssl_eng s) (ssl_bin s)) \<and> bs = take (nat ret) (avail (ssl_eng s) (ssl_bin s)) \<and>
           avail (ssl_eng s') (ssl_bin s') = drop (nat ret) (avail (ssl_eng s) (ssl_bin s))))) \<and>
     (\<forall>bs s. ssl_wf k s \<longrightarrow> clean (ssl_eng s) (ssl_bin s) \<longrightarrow> (case o_write os bs s of (_, s') \<Rightarrow>
        clean (ssl_eng s') (ssl_bin s') \<and> avail (ssl_eng s') (ssl_bin s') = avail (ssl_eng s) (ssl_bin s)))"

text \<open>A handshake is done when \<^verbatim>\<open>SSL_connect\<close> or \<^verbatim>\<open>SSL_accept\<close> says so, and stays done.\<close>

definition shakes :: "'s openssl \<Rightarrow> ('s \<Rightarrow> bool) \<Rightarrow> bool" where
  "shakes os finished \<longleftrightarrow> (\<forall>f s. finished (ssl_eng s) \<longrightarrow> finished (ssl_eng (after_call os f s))) \<and>
     (\<forall>s. fst (o_connect os s) = 1 \<longrightarrow> finished (ssl_eng (after_call os CallConnect s))) \<and>
     (\<forall>s. fst (o_accept os s) = 1 \<longrightarrow> finished (ssl_eng (after_call os CallAccept s)))"

section \<open>The BIOs\<close>

lemma pending_bytes: "bio_wf k (ssl_bout (x_ssl c)) \<Longrightarrow> unat (ctx_pending c) = length (bio_bytes k (ssl_bout (x_ssl c)))"
  by (auto simp: ctx_pending_def bio_ctrl_def bio_wf_def bio_bytes_def split: option.splits)

lemma bio_new_ok:
  "bio_allocate pagesize len = Some b \<Longrightarrow> unat (ring_fit pagesize len) = 2 ^ k \<Longrightarrow> bio_wf k b \<and> bio_bytes k b = []"
  using ring_create_wf by (fastforce simp: bio_allocate_def bio_wf_def bio_bytes_def Some_eq_bind)

text \<open>Reading at most what is there. The size is an \<^verbatim>\<open>int\<close>.\<close>

lemma scast_small:
  assumes "unat (n :: u32) < 2 ^ 31"
  shows "(scast n :: u64) = ucast n"
proof -
  have "uint n < 2 ^ 31"
    using assms unfolding uint_nat by (metis of_nat_less_iff of_nat_numeral of_nat_power)
  then have "sint n = uint n"
    unfolding sint_uint by (intro signed_take_bit_int_eq_self) (use uint_ge_0 [of n] in \<open>simp_all add: order_trans [of _ 0]\<close>)
  then show ?thesis
    by (metis of_int_sint of_int_uint)
qed

lemma bio_read_bytes:
  assumes "bio_wf k b" and "unat n \<le> length (bio_bytes k b)" and "bio_bytes k b \<noteq> []" and "unat n < 2 ^ 31"
  shows "\<exists>b'. bio_read b n = Some (take (unat n) (bio_bytes k b), n, b') \<and> bio_wf k b' \<and> bio_bytes k b' = drop (unat n) (bio_bytes k b)"
proof -
  obtain r where r: "b_ptr b = Some r" "ring_wf k r"
    using assms(1) by (auto simp: bio_wf_def split: option.splits)
  have bytes: "bio_bytes k b = ring_bytes k r"
    by (simp add: bio_bytes_def r)
  have "unat (ring_available r) \<noteq> 0"
    using assms(3) length_ring_bytes [of k r] unfolding bytes by (metis length_0_conv)
  then have ne: "\<not> ring_empty r"
    by (auto simp: ring_empty_def ring_available_def)
  have n: "unat (scast n :: u64) = unat n"
    using unat_lt32 [of n] by (simp add: scast_small [OF assms(4)] unsigned_ucast_eq take_bit_nat_eq_self)
  have "ucast (of_nat (unat n) :: u64) = n"
    using unat_lt32 [of n] by (simp add: word_unat_eq_iff unsigned_ucast_eq unsigned_take_bit_eq take_bit_nat_eq_self)
  then show ?thesis
    using ring_read_bytes [OF r(2), of "unat n" "scast n"] n assms(2) ne r
    by (auto simp: bio_read_def bytes Let_def bio_wf_def bio_bytes_def min_absorb1)
qed

lemma bio_wf_size: "bio_wf k b \<Longrightarrow> k < 31 \<Longrightarrow> length (bio_bytes k b) < 2 ^ 31"
proof -
  assume b: "bio_wf k b" and k: "k < 31"
  have "(2 :: nat) ^ k \<le> 2 ^ 30"
    using k by (intro power_increasing) simp_all
  moreover have "length (bio_bytes k b) \<le> 2 ^ k"
    using b by (auto simp: bio_wf_def bio_bytes_def ring_wf_def split: option.splits)
  ultimately show ?thesis
    by simp
qed

abbreviation (input) "c_out k c \<equiv> bio_bytes k (ssl_bout (x_ssl c))"
abbreviation (input) "c_eng c \<equiv> ssl_eng (x_ssl c)"

lemma ctx_flush_eq:
  assumes wf: "ssl_wf k (x_ssl c)" and k: "k < 31" and n: "n = min (unat alen) (length (c_out k c))"
  shows "\<exists>b. ctx_flush alen c = Some (Continue, take n (c_out k c), of_nat n, c\<lparr>x_ssl := (x_ssl c)\<lparr>ssl_bout := b\<rparr>\<rparr>) \<and>
    bio_wf k b \<and> bio_bytes k b = drop n (c_out k c)"
proof -
  let ?b = "ssl_bout (x_ssl c)"
  have b: "bio_wf k ?b"
    using wf by (simp add: ssl_wf_def)
  have p: "unat (ctx_pending c) = length (bio_bytes k ?b)"
    using b by (rule pending_bytes)
  show ?thesis
  proof (cases "bio_bytes k ?b = []")
    case True
    then have "ctx_pending c = 0"
      using p by (simp add: unat_eq_0)
    then show ?thesis
      using True n b by (intro exI [of _ ?b]) (simp add: ctx_flush_def)
  next
    case False
    then have "ctx_pending c \<noteq> 0"
      using p by auto
    let ?r = "if ctx_pending c > ucast alen then ucast alen else ctx_pending c"
    have a: "unat (ucast alen :: u64) = unat alen"
      using unat_lt32 [of alen] by (simp add: unsigned_ucast_eq take_bit_nat_eq_self)
    have r: "unat ?r = n"
      using p a n by (simp add: word_less_nat_alt)
    have small: "n < 2 ^ 31" "n \<le> length (bio_bytes k ?b)"
      using n bio_wf_size [OF b k] by simp_all
    have u: "unat (ucast ?r :: u32) = n"
      using r small unfolding unsigned_ucast_eq by (simp add: take_bit_nat_eq_self)
    then have "(ucast ?r :: u32) = of_nat n"
      by (metis of_nat_unat ucast_id)
    then show ?thesis
      using bio_read_bytes [OF b, of "ucast ?r"] False small u \<open>ctx_pending c \<noteq> 0\<close>
      by (auto simp: ctx_flush_def Let_def)
  qed
qed

section \<open>One step of a context\<close>

definition lawful :: "nat \<Rightarrow> 's openssl \<Rightarrow> ('s \<Rightarrow> u8 list) \<Rightarrow> ('s \<Rightarrow> bool) \<Rightarrow> bool" where
  "lawful k os written finished \<longleftrightarrow> k < 31 \<and> writes_cipher k os written \<and> shakes os finished"

text \<open>The invariant of a context, and its steps: from \<open>c\<close> to \<open>c'\<close> the bytes \<open>out\<close> have left the context; they and what is still
  pending are what was pending before and what the engine has written in between.\<close>

definition ctx_good :: "nat \<Rightarrow> ('s \<Rightarrow> bool) \<Rightarrow> 's ssl_context \<Rightarrow> bool" where
  "ctx_good k finished c \<longleftrightarrow> ssl_wf k (x_ssl c) \<and> (x_state c = SslReady \<longrightarrow> finished (c_eng c))"

definition follows :: "nat \<Rightarrow> ('s \<Rightarrow> u8 list) \<Rightarrow> ('s \<Rightarrow> bool) \<Rightarrow> 's ssl_context \<Rightarrow> u8 list \<Rightarrow> 's ssl_context \<Rightarrow> bool" where
  "follows k w f c out c' \<longleftrightarrow> ctx_good k f c' \<and> (f (c_eng c) \<longrightarrow> f (c_eng c')) \<and>
     (\<exists>x. w (c_eng c') = w (c_eng c) @ x \<and> out @ c_out k c' = c_out k c @ x)"

lemma follows_refl [simp]: "ctx_good k f c \<Longrightarrow> follows k w f c [] c"
  by (simp add: follows_def)

lemma follows_trans: "follows k w f c out c1 \<Longrightarrow> follows k w f c1 out' c2 \<Longrightarrow> follows k w f c (out @ out') c2"
  unfolding follows_def by (elim conjE exE) (metis append.assoc)

lemma follows_nil: "follows k w f c [] c1 \<Longrightarrow> follows k w f c1 out c2 \<Longrightarrow> follows k w f c out c2"
  using follows_trans [of k w f c "[]" c1 out c2] by simp

lemma follows_good: "follows k w f c out c' \<Longrightarrow> ctx_good k f c'"
  by (simp add: follows_def)

lemma follows_state: "follows k w f c out c' \<Longrightarrow> st \<noteq> SslReady \<Longrightarrow> follows k w f c out (c'\<lparr>x_state := st\<rparr>)"
  by (simp add: follows_def ctx_good_def)

lemma good_state: "ctx_good k f c \<Longrightarrow> st \<noteq> SslReady \<Longrightarrow> ctx_good k f (c\<lparr>x_state := st\<rparr>)"
  by (simp add: ctx_good_def)

lemma follows_from [simp]:
  "follows k w f (c\<lparr>x_state := st\<rparr>) out c' = follows k w f c out c'"
  "follows k w f (c\<lparr>x_blocked := b\<rparr>) out c' = follows k w f c out c'"
  "ctx_good k f (c\<lparr>x_blocked := b\<rparr>) = ctx_good k f c"
  by (simp_all add: follows_def ctx_good_def)

lemma flush_follows:
  assumes "lawful k os w f" and "ctx_good k f c" and "ctx_flush alen c = Some (a, out, n, c')"
  shows "follows k w f c (take (unat n) out) c'"
proof -
  let ?n = "min (unat alen) (length (c_out k c))"
  obtain b where b: "ctx_flush alen c = Some (Continue, take ?n (c_out k c), of_nat ?n, c\<lparr>x_ssl := (x_ssl c)\<lparr>ssl_bout := b\<rparr>\<rparr>)"
      "bio_wf k b" "bio_bytes k b = drop ?n (c_out k c)"
    using ctx_flush_eq [of k c, OF _ _ refl] assms(1,2) by (auto simp: lawful_def ctx_good_def)
  have "unat (of_nat ?n :: u32) = ?n"
    using unat_lt32 [of alen] by (simp add: unsigned_of_nat take_bit_nat_eq_self)
  then show ?thesis
    using b assms(2,3) by (auto simp: follows_def ctx_good_def ssl_wf_def)
qed

lemma ring_write_wf:
  assumes "ring_wf k r" and "ring_write r bs len = Some (n, r')"
  shows "ring_wf k r'"
proof -
  let ?n = "if len > ring_left r then ring_left r else len"
  have l: "unat ?n \<le> length bs"
    using assms(2) by (auto simp: ring_write_def Let_def split: if_splits)
  have "ring_write r bs ?n = ring_write r bs len"
    by (simp add: ring_write_def Let_def)
  then show ?thesis
    using ring_write_bytes [OF assms(1) refl l] assms(2) by auto
qed

lemma put_in_follows:
  assumes "ctx_good k f c" and "put_in data c = Some c'"
  shows "follows k w f c [] c'" "x_state c' = x_state c"
  using assms by (auto simp: put_in_def Some_eq_bind bio_write_def Let_def ctx_good_def ssl_wf_def bio_wf_def follows_def
      split: if_splits option.splits dest: ring_write_wf)

lemma after_call_follows:
  assumes "lawful k os w f" and "ctx_good k f c" and "x_ssl c' = after_call os g (x_ssl c)" and "x_state c' = x_state c"
  shows "follows k w f c [] c'"
proof -
  have wf: "ssl_wf k (x_ssl c)"
    using assms(2) by (simp add: ctx_good_def)
  then obtain x where "ssl_wf k (x_ssl c')" "c_out k c' = c_out k c @ x" "w (c_eng c') = w (c_eng c) @ x"
    using assms(1) unfolding assms(3) lawful_def writes_cipher_def by blast
  moreover have "f (c_eng c) \<longrightarrow> f (c_eng c')"
    using assms(1) unfolding assms(3) lawful_def shakes_def by blast
  ultimately show ?thesis
    using assms(2,4) by (auto simp: follows_def ctx_good_def)
qed

lemma call_follows:
  assumes "lawful k os w f" and "ctx_good k f c" and "ctx_call g c = (e, c')" and "\<exists>h. \<forall>s. snd (g s) = after_call os h s"
  shows "follows k w f c [] c'" "x_state c' = x_state c"
proof -
  have c': "x_ssl c' = snd (g (x_ssl c))" "x_state c' = x_state c"
    using assms(3) by (auto simp: ctx_call_def split: prod.splits)
  then show "follows k w f c [] c'" "x_state c' = x_state c"
    using after_call_follows [OF assms(1,2)] assms(4) by auto
qed

lemma library_calls [simp]:
  "\<exists>h. \<forall>s. snd (o_connect os s) = after_call os h s" "\<exists>h. \<forall>s. snd (o_accept os s) = after_call os h s"
  "\<exists>h. \<forall>s. snd (o_shutdown os s) = after_call os h s" "\<exists>h. \<forall>s. snd (o_write os bs s) = after_call os h s"
  using after_call.simps(1) [of os] after_call.simps(2) [of os] after_call.simps(3) [of os] after_call.simps(5) [of os bs] by metis+

lemma read_follows:
  assumes "lawful k os w f" and "ctx_good k f c" and "ctx_read os n c = (ret, bs, c')"
  shows "follows k w f c [] c'" "x_state c' = x_state c"
proof -
  have "x_ssl c' = after_call os (CallRead n) (x_ssl c)" "x_state c' = x_state c"
    using assms(3) by (auto simp: ctx_read_def split: prod.splits)
  then show "follows k w f c [] c'" "x_state c' = x_state c"
    using after_call_follows [OF assms(1,2)] by blast+
qed

section \<open>The callbacks\<close>

lemma abortOrClose_follows:
  assumes l: "lawful k os w f" and c: "ctx_good k f c" and r: "ctx_abortOrClose os r alen c = Some (a, out, n, c')"
  shows "follows k w f c (take (unat n) out) c'"
proof -
  obtain e1 c1 where 1: "ctx_call (o_shutdown os) c = (e1, c1)"
    by fastforce
  obtain e2 c2 where 2: "ctx_call (o_shutdown os) c1 = (e2, c2)"
    by fastforce
  have f1: "follows k w f c [] c1"
    using call_follows [OF l c 1] by simp
  then have f2: "follows k w f c [] c2"
    using call_follows [OF l follows_good [OF f1] 2] by (auto intro: follows_nil)
  have fl: "follows k w f c (take (unat n) out) c'" if "ctx_flush alen (c0\<lparr>x_state := SslShutdown\<rparr>) = Some (a, out, n, c')" "follows k w f c [] c0" for c0
    using flush_follows [OF l good_state [OF follows_good [OF that(2)]] that(1)] that(2) by (auto intro: follows_nil)
  show ?thesis
    using r 1 2 f1 f2 c fl by (auto simp: ctx_abortOrClose_def Let_def split: if_splits)
qed

lemma write_follows:
  assumes "lawful k os w f" and "ctx_good k f c" and "ctx_write os out n c = Some c'"
  shows "follows k w f c [] c'" "x_state c' = x_state c"
proof -
  obtain e where "ctx_call (o_write os (take (unat n) out)) c = (e, c')"
    using assms(3) by (cases "ctx_call (o_write os (take (unat n) out)) c") (auto simp: ctx_write_def split: if_splits)
  from call_follows [OF assms(1,2) this] show "follows k w f c [] c'" "x_state c' = x_state c"
    by simp_all
qed

lemma stopped_follows:
  assumes "lawful k os w f" and "ctx_good k f c" and "read_stopped os ret c = (ok, c')"
  shows "follows k w f c [] c'"
proof -
  obtain e c1 where "ctx_call (o_shutdown os) c = (e, c1)"
    by fastforce
  then show ?thesis
    using assms call_follows [OF assms(1,2), of "o_shutdown os" e c1] by (auto simp: read_stopped_def split: if_splits)
qed

lemma shake_follows:
  assumes l: "lawful k os w f" and c: "ctx_good k f c" and g: "g = o_connect os \<or> g = o_accept os"
    and r: "ctx_shake os g alen c = Some (a, out, n, c')"
  shows "follows k w f c (take (unat n) out) c'"
proof -
  obtain e c1 where 1: "ctx_call g c = (e, c1)"
    by fastforce
  then have f1: "follows k w f c [] c1"
    using call_follows [OF l c 1] g by auto
  have ready: "ctx_good k f (c1\<lparr>x_state := SslReady\<rparr>) \<and> follows k w f c [] (c1\<lparr>x_state := SslReady\<rparr>)" if "e = 1"
  proof -
    have "f (c_eng c1)"
      using 1 l that g by (auto simp: ctx_call_def lawful_def shakes_def split: prod.splits) (metis fst_conv snd_conv)+
    then show ?thesis
      using f1 by (simp add: follows_def ctx_good_def)
  qed
  have fl: "follows k w f c (take (unat n) out) c'" if "ctx_flush alen c0 = Some (a, out, n, c')" "follows k w f c [] c0" for c0
    using flush_follows [OF l follows_good [OF that(2)] that(1)] that(2) by (auto intro: follows_nil)
  show ?thesis
    using r 1 f1 ready fl by (auto simp: ctx_shake_def Let_def split: if_splits)
qed

text \<open>The loops. The application is called in the state \<^verbatim>\<open>Ready\<close> only, in which they are entered.\<close>

lemma read_loop_follows:
  assumes "read_loop os g i len c u = Some (a, c', u')" and "lawful k os w f" and "ctx_good k f c"
  shows "follows k w f c [] c'"
proof -
  have "lawful k os w f \<longrightarrow> ctx_good k f c \<longrightarrow> follows k w f c [] (fst (snd (a, c', u')))"
  proof (rule read_loop.raw_induct [where P = "\<lambda>os g i len c u r. lawful k os w f \<longrightarrow> ctx_good k f c \<longrightarrow> follows k w f c [] (fst (snd r))",
        OF _ assms(1)], intro impI, goal_cases)
    case (1 loop os g i len c u r)
    obtain ret bs c1 where read: "ctx_read os len c = (ret, bs, c1)"
      by (cases "ctx_read os len c")
    note f1 = read_follows [OF 1(3,4) read]
    obtain ok c2 where stop: "read_stopped os ret c1 = (ok, c2)"
      by fastforce
    have f2: "follows k w f c [] c2"
      using f1(1) stopped_follows [OF 1(3) follows_good [OF f1(1)] stop] by (rule follows_nil)
    show ?case
    proof (cases "ret \<le> 0")
      case True
      then show ?thesis
        using 1(2) read stop f2 by auto
    next
      case False
      then obtain a1 u1 where "(if a1 \<noteq> Continue then Some (Abort, c1, u1) else loop os g i len c1 u1) = Some r"
        using 1(2) read by (auto simp: Some_eq_bind)
      then show ?thesis
        using 1(1) [of os g i len c1 u1 r] 1(3) f1(1) follows_good [OF f1(1)] by (auto split: if_splits intro: follows_nil)
    qed
  qed
  then show ?thesis
    using assms(2,3) by simp
qed

lemma answer_loop_follows:
  assumes "answer_loop os g i len alen acc c u = Some (a, out, n, c', u')" and "lawful k os w f" and "ctx_good k f c"
  shows "follows k w f c (take (unat n) out) c'"
proof -
  let ?Q = "\<lambda>c r. case r of (a, out, n, c', u') \<Rightarrow> follows k w f c (take (unat n) out) c'"
  have "lawful k os w f \<longrightarrow> ctx_good k f c \<longrightarrow> ?Q c (a, out, n, c', u')"
  proof (rule answer_loop.raw_induct [where P = "\<lambda>os g i len alen acc c u r. lawful k os w f \<longrightarrow> ctx_good k f c \<longrightarrow> ?Q c r",
        OF _ assms(1)], intro impI, goal_cases)
    case (1 loop os g i len alen acc c u r)
    obtain ret bs c1 where read: "ctx_read os len c = (ret, bs, c1)"
      by (cases "ctx_read os len c")
    note f1 = read_follows [OF 1(3,4) read]
    note g1 = follows_good [OF f1(1)]
    obtain ok c2 where stop: "read_stopped os ret c1 = (ok, c2)"
      by fastforce
    have f2: "follows k w f c [] c2"
      using f1(1) stopped_follows [OF 1(3) g1 stop] by (rule follows_nil)
    show ?case
    proof (cases "ret \<le> 0")
      case True
      then show ?thesis
        using 1(2) read stop f2 flush_follows [OF 1(3) follows_good [OF f2]] by (auto split: if_splits intro: follows_nil)
    next
      case False
      then obtain a1 bs1 rlen u1 where ans: "(if a1 \<noteq> Continue
            then map_option (\<lambda>(a, out, n, c). (a, out, n, c, u1)) (ctx_abortOrClose os a1 alen c1)
            else Option.bind (ctx_write os bs1 (if rlen + acc > alen then alen - acc else rlen) c1) (\<lambda>c.
              loop os g i len alen (acc + (if rlen + acc > alen then alen - acc else rlen)) c u1)) = Some r"
        using 1(2) read by (auto simp: Some_eq_bind)
      show ?thesis
      proof (cases "a1 = Continue")
        case True
        then obtain c3 where c3: "ctx_write os bs1 (if rlen + acc > alen then alen - acc else rlen) c1 = Some c3"
            "loop os g i len alen (acc + (if rlen + acc > alen then alen - acc else rlen)) c3 u1 = Some r"
          using ans by (auto simp: Some_eq_bind)
        have f3: "follows k w f c [] c3"
          using f1(1) write_follows(1) [OF 1(3) g1 c3(1)] by (rule follows_nil)
        then show ?thesis
          using 1(1) [OF c3(2)] 1(3) follows_good [OF f3] by (auto intro: follows_nil split: prod.splits)
      next
        case False
        then show ?thesis
          using ans abortOrClose_follows [OF 1(3) g1] f1(1) by (auto intro: follows_nil)
      qed
    qed
  qed
  then show ?thesis
    using assms(2,3) by simp
qed


lemma onAcked_follows:
  assumes l: "lawful k os w f" and c: "ctx_good k f c" and r: "ctx_onAcked_send os g i alen c u = Some (a, out, n, c', u')"
  shows "follows k w f c (take (unat n) out) c'"
proof -
  let ?c = "c\<lparr>x_blocked := False\<rparr>"
  have g: "ctx_good k f ?c"
    using c by simp
  consider (pending) "ctx_flush alen ?c = Some (a, out, n, c')"
    | (refused) u1 act where "ctx_abortOrClose os act alen ?c = Some (a, out, n, c')"
    | (answered) bs rlen c1 where "ctx_write os bs rlen ?c = Some c1" "ctx_flush alen c1 = Some (a, out, n, c')"
    using r by (auto simp: ctx_onAcked_send_def Let_def Some_eq_bind split: if_splits)
  then have "follows k w f ?c (take (unat n) out) c'"
  proof cases
    case answered
    note f1 = write_follows(1) [OF l g answered(1)]
    show ?thesis
      using f1 flush_follows [OF l follows_good [OF f1] answered(2)] by (rule follows_nil)
  qed (use flush_follows [OF l g] abortOrClose_follows [OF l g] in blast)+
  then show ?thesis
    by simp
qed

lemma onNewData_follows:
  assumes l: "lawful k os w f" and c: "ctx_good k f c" and r: "ctx_onNewData os g i data c u = Some (a, c', u')"
  shows "follows k w f c [] c'"
proof -
  obtain c1 where 1: "put_in data c = Some c1" "c1 = c' \<or> read_loop os g i (length data) c1 u = Some (a, c', u')"
    using r by (auto simp: ctx_onNewData_def Some_eq_bind split: if_splits)
  note f1 = put_in_follows(1) [where w = w, OF c 1(1)]
  from 1(2) show ?thesis
  proof
    assume "read_loop os g i (length data) c1 u = Some (a, c', u')"
    from f1 read_loop_follows [OF this l follows_good [OF f1]] show ?thesis
      by (rule follows_nil)
  qed (use f1 in simp)
qed

lemma onNewData_send_follows:
  assumes l: "lawful k os w f" and c: "ctx_good k f c" and r: "ctx_onNewData_send os g i data alen c u = Some (a, out, n, c', u')"
  shows "follows k w f c (take (unat n) out) c'"
proof -
  obtain c1 where 1: "put_in data c = Some c1"
    using r by (auto simp: ctx_onNewData_send_def Some_eq_bind)
  note f1 = put_in_follows(1) [OF c 1]
  note g1 = follows_good [OF f1]
  obtain e c2 where 2: "ctx_call (o_shutdown os) c1 = (e, c2)"
    by fastforce
  have "follows k w f c1 (take (unat n) out) c'"
    using r 1 2 g1 shake_follows [OF l g1, of "o_connect os"] shake_follows [OF l g1, of "o_accept os"]
      answer_loop_follows [OF _ l g1] call_follows(1) [OF l g1 2]
    by (auto simp: ctx_onNewData_send_def Let_def split: ctx_state.splits)
  with f1 show ?thesis
    by (rule follows_nil)
qed

section \<open>Any sequence of operations\<close>

text \<open>What can happen to a context: the callbacks with their arguments, and what \<^verbatim>\<open>connect\<close>, \<^verbatim>\<open>send\<close>, \<^verbatim>\<open>close\<close> and
  \<^verbatim>\<open>flush\<close> of the client and the server do to it. \<open>Flushed res n\<close> is a flush for which TCP answered \<open>res\<close> and took \<open>n\<close>
  bytes. These bytes have left, whatever \<open>res\<close> is; but the output BIO is advanced over them only if it is \<open>Ok\<close>.\<close>

datatype ctx_event =
    OnAcked u32
  | OnNewData "u8 list"
  | OnNewDataSend "u8 list" u32
  | DoConnect
  | DoSend "u8 list"
  | DoClose
  | Flushed status u32

fun ctx_handle :: "'s openssl \<Rightarrow> 'u delegate_ops \<Rightarrow> u16 \<Rightarrow> ctx_event \<Rightarrow> 's ssl_context \<Rightarrow> 'u \<Rightarrow> (u8 list \<times> 's ssl_context \<times> 'u) option" where
  "ctx_handle os g i (OnAcked alen) c u = map_option (\<lambda>(a, out, n, c, u). (take (unat n) out, c, u)) (ctx_onAcked_send os g i alen c u)"
| "ctx_handle os g i (OnNewData data) c u = map_option (\<lambda>(a, c, u). ([], c, u)) (ctx_onNewData os g i data c u)"
| "ctx_handle os g i (OnNewDataSend data alen) c u =
     map_option (\<lambda>(a, out, n, c, u). (take (unat n) out, c, u)) (ctx_onNewData_send os g i data alen c u)"
| "ctx_handle os g i DoConnect c u = (if x_state c \<noteq> SslConnect then Some ([], c, u)
     else case ctx_call (o_connect os) c of (e, c) \<Rightarrow> Some ([], if e = 1 then c\<lparr>x_state := SslReady\<rparr> else c, u))"
| "ctx_handle os g i (DoSend data) c u =
     Some ([], if x_state c \<noteq> SslReady \<or> x_blocked c then c else snd (ctx_call (o_write os data) c), u)"
| "ctx_handle os g i DoClose c u =
     Some ([], if x_state c \<noteq> SslReady then c else snd (ctx_call (o_shutdown os) (c\<lparr>x_state := SslShutdown\<rparr>)), u)"
| "ctx_handle os g i (Flushed res n) c u =
     (if ctx_pending c < ucast n then None
      else do {
        bs \<leftarrow> ctx_out c (ctx_pending c);
        c \<leftarrow> (if res \<noteq> Ok then Some (c\<lparr>x_blocked := (res = OperationInProgress)\<rparr>) else ctx_skip n c);
        Some (take (unat n) bs, c, u)
      })"

text \<open>The flushes for which TCP took bytes and then failed.\<close>

fun fails_taking :: "ctx_event \<Rightarrow> bool" where
  "fails_taking (Flushed res n) = (res \<noteq> Ok \<and> n \<noteq> 0)"
| "fails_taking _ = False"

fun ctx_play :: "'s openssl \<Rightarrow> 'u delegate_ops \<Rightarrow> u16 \<Rightarrow> ctx_event list \<Rightarrow> 's ssl_context \<Rightarrow> 'u \<Rightarrow> (u8 list \<times> 's ssl_context \<times> 'u) option" where
  "ctx_play os g i [] c u = Some ([], c, u)"
| "ctx_play os g i (x # xs) c u = (case ctx_handle os g i x c u of None \<Rightarrow> None
     | Some (out, c, u) \<Rightarrow> map_option (\<lambda>(out', c, u). (out @ out', c, u)) (ctx_play os g i xs c u))"

lemma skip_follows:
  assumes c: "ctx_good k f c" and n: "\<not> ctx_pending c < ucast n" and o: "ctx_out c (ctx_pending c) = Some bs" and s: "ctx_skip n c = Some c'"
  shows "follows k w f c (take (unat n) bs) c'"
proof -
  obtain r where r: "b_ptr (ssl_bout (x_ssl c)) = Some r" "ring_wf k r"
    using c by (auto simp: ctx_good_def ssl_wf_def bio_wf_def split: option.splits)
  have p: "unat (ctx_pending c) = length (ring_bytes k r)"
    using pending_bytes [of k c] r by (simp add: bio_wf_def bio_bytes_def)
  have u: "unat (ucast n :: u64) = unat n"
    using unat_lt32 [of n] by (simp add: unsigned_ucast_eq take_bit_nat_eq_self)
  have k: "k < 64"
    using ring_wf_bound [OF r(2)] .
  have "bs = ring_bytes k r"
    using o r p ring_at [OF r(2)] by (auto simp: ctx_out_def region_get_def ring_bytes_def ring_wf_def mod_add_left_eq split: if_splits)
  then show ?thesis
    using ring_skip_bytes [OF r(2), of "ucast n"] s r c u
    by (auto simp: ctx_skip_def bio_skip_def follows_def ctx_good_def ssl_wf_def bio_wf_def bio_bytes_def)
qed

lemma ctx_handle_follows:
  assumes l: "lawful k os w f" and c: "ctx_good k f c" and r: "ctx_handle os g i x c u = Some (out, c', u')"
  shows "follows k w f c (if fails_taking x then [] else out) c'"
proof (cases x)
  case DoConnect
  obtain e c1 where 1: "ctx_call (o_connect os) c = (e, c1)"
    by fastforce
  have f1: "follows k w f c [] c1"
    using call_follows(1) [OF l c 1] by simp
  have "f (c_eng c1)" if "e = 1"
    using 1 l that by (auto simp: ctx_call_def lawful_def shakes_def split: prod.splits) (metis fst_conv snd_conv)
  then show ?thesis
    using r 1 f1 c DoConnect by (auto simp: follows_def ctx_good_def split: if_splits)
next
  case (DoSend data)
  obtain e c1 where 1: "ctx_call (o_write os data) c = (e, c1)"
    by fastforce
  then show ?thesis
    using r c DoSend call_follows(1) [OF l c 1] by (auto split: if_splits)
next
  case DoClose
  let ?c = "c\<lparr>x_state := SslShutdown\<rparr>"
  obtain e c1 where 1: "ctx_call (o_shutdown os) ?c = (e, c1)"
    by fastforce
  then show ?thesis
    using r c DoClose call_follows(1) [OF l _ 1] by (auto simp: good_state split: if_splits)
next
  case (Flushed res n)
  have "follows k w f c [] (c\<lparr>x_blocked := b\<rparr>)" for b
    using c by (auto simp: follows_def ctx_good_def)
  moreover obtain bs where bs: "\<not> ctx_pending c < ucast n" "ctx_out c (ctx_pending c) = Some bs" "out = take (unat n) bs"
      "(if res \<noteq> Ok then Some (c\<lparr>x_blocked := (res = OperationInProgress)\<rparr>) else ctx_skip n c) = Some c'"
    using r Flushed by (auto simp: Some_eq_bind split: if_splits)
  moreover have "follows k w f c out c'" if "res = Ok"
    unfolding bs(3) by (rule skip_follows [OF c bs(1,2)]) (use bs(4) that in simp)
  ultimately show ?thesis
    using Flushed by (cases "res = Ok") auto
qed (use r onAcked_follows [OF l c] onNewData_follows [OF l c] onNewData_send_follows [OF l c] in auto)

text \<open>Without such a flush the bytes that leave are followed, and in any case some.\<close>

lemma ctx_play_follows:
  "lawful k os w f \<Longrightarrow> ctx_good k f c \<Longrightarrow> ctx_play os g i xs c u = Some (out, c', u') \<Longrightarrow>
   \<exists>kept. follows k w f c kept c' \<and> (list_all (\<lambda>x. \<not> fails_taking x) xs \<longrightarrow> kept = out)"
proof (induction xs arbitrary: c u out)
  case (Cons x xs)
  then obtain o1 c1 u1 o2 where 1: "ctx_handle os g i x c u = Some (o1, c1, u1)" "ctx_play os g i xs c1 u1 = Some (o2, c', u')" "out = o1 @ o2"
    by (auto split: option.splits)
  note f1 = ctx_handle_follows [OF Cons.prems(1,2) 1(1)]
  obtain kept where kept: "follows k w f c1 kept c'" "list_all (\<lambda>x. \<not> fails_taking x) xs \<longrightarrow> kept = o2"
    using Cons.IH [OF Cons.prems(1) follows_good [OF f1] 1(2)] by blast
  show ?case
    using follows_trans [OF f1 kept(1)] kept(2) 1(3) by (intro exI conjI) auto
qed (use follows_refl in auto)

lemma ctx_play_good:
  "lawful k os w f \<Longrightarrow> ctx_good k f c \<Longrightarrow> ctx_play os g i xs c u = Some (out, c', u') \<Longrightarrow> ctx_good k f c' \<and> (f (c_eng c) \<longrightarrow> f (c_eng c'))"
  using ctx_play_follows [of k os w f c g i xs u out c' u'] by (auto simp: follows_def)

text \<open>After such a flush the next one passes the same bytes again.\<close>

lemma failing_flush_repeats:
  assumes "ctx_handle os g i (Flushed res n) c u = Some (out, c1, u1)" and "res \<noteq> Ok"
    and "ctx_handle os g i (Flushed Ok m) c1 u1 = Some (out', c2, u2)" and "n \<le> m"
  shows "out = take (unat n) out'"
  using assms by (auto simp: Some_eq_bind ctx_pending_def ctx_out_def min_absorb1 word_le_nat_alt split: if_splits)

lemma ctx_new_good:
  assumes "ctx_new os pagesize buflen cookie = Some c" and "unat (ring_fit pagesize buflen) = 2 ^ k" and "st \<noteq> SslReady"
  shows "ctx_good k f (c\<lparr>x_state := st\<rparr>)" "c_eng c = o_new os" "c_out k c = []"
  using assms bio_new_ok [OF _ assms(2)] by (auto simp: ctx_new_def Some_eq_bind ctx_good_def ssl_wf_def)

section \<open>The operations of the client and the server are such sequences\<close>

text \<open>TCP does not call back from \<^verbatim>\<open>send\<close>, and takes no more than it is offered.\<close>

lemma tcp_send_handler:
  assumes "tcp_send ops cid len data off t = Some (st, off', t')"
  shows "t_handler t' = t_handler t"
proof (cases "t' = t")
  case False
  obtain bs c1 t1 c2 t2 st' where r: "send_copy (t_conns t ! unat cid) bs off
        (send_size (t_conns t ! unat cid) (send_bound (t_conns t ! unat cid) t) (len - off)) t = Some (off', c1, t1)"
      "t' = set_conn (unat cid) c2 t2" "tx c1 t1 (st', c2, t2)"
    using tcp_send_cases [OF assms False] by metis
  have "t_handler t1 = t_handler t"
    using r(1) by (auto simp: send_copy_def Some_eq_bind split: if_splits)
  then show ?thesis
    using r(2,3) tcore_sel(2) [of t2 t1] by (simp add: set_conn_def)
qed simp

lemma tcp_send_taken:
  assumes "tcp_send ops cid len data 0 t = Some (st, off', t')" and "unat len < 2 ^ 31"
  shows "off' \<le> len"
  using tcp_send_advances [OF assms(1)] assms(2) by simp

text \<open>\<open>plays os c c' out\<close>: the context \<open>c\<close> becomes \<open>c'\<close> by some operations that call the application not at all, and \<open>out\<close> is what
  has left it.\<close>

definition plays :: "'s openssl \<Rightarrow> 's ssl_context \<Rightarrow> u8 list \<Rightarrow> 's ssl_context \<Rightarrow> bool" where
  "plays os c out c' \<longleftrightarrow> (\<exists>xs. \<forall>(g :: unit delegate_ops) i u. ctx_play os g i xs c u = Some (out, c', u))"

lemma playsI: "(\<And>(g :: unit delegate_ops) i u. ctx_handle os g i x c u = Some (out, c', u)) \<Longrightarrow> plays os c out c'" for x
  unfolding plays_def by (intro exI [of _ "[x]"]) simp

lemma plays_refl: "plays os c [] c"
  unfolding plays_def by (intro exI [of _ "[]"]) simp

lemma ctx_play_append:
  "ctx_play os g i xs c u = Some (out, c1, u1) \<Longrightarrow> ctx_play os g i ys c1 u1 = Some (out', c2, u2) \<Longrightarrow>
   ctx_play os g i (xs @ ys) c u = Some (out @ out', c2, u2)"
  by (induction xs arbitrary: c u out) (auto split: option.splits)

lemma plays_trans: "plays os c out c1 \<Longrightarrow> plays os c1 out' c2 \<Longrightarrow> plays os c (out @ out') c2"
proof -
  assume "plays os c out c1" "plays os c1 out' c2"
  then obtain xs ys where "\<forall>(g :: unit delegate_ops) i u. ctx_play os g i xs c u = Some (out, c1, u)"
      "\<forall>(g :: unit delegate_ops) i u. ctx_play os g i ys c1 u = Some (out', c2, u)"
    unfolding plays_def by blast
  then show ?thesis
    unfolding plays_def by (intro exI [of _ "xs @ ys"]) (blast intro: ctx_play_append)
qed

lemma ctx_set_get [simp]:
  "ctx_get p z = Some c \<Longrightarrow> ctx_get p (ctx_set p (Some c') z) = Some c'"
  "ctx_get p z = Some c \<Longrightarrow> ctx_set p (Some c) z = z"
  "ctx_set p a (ctx_set p b z) = ctx_set p a z"
proof -
  assume "ctx_get p z = Some c"
  then have c: "p \<noteq> 0" "unat p - 1 < length (z_ctxs z)" "z_ctxs z ! (unat p - 1) = Some c"
    using unat_eq_zero [of p] by (auto simp: ctx_get_def split: if_splits)
  then show "ctx_get p (ctx_set p (Some c') z) = Some c'" "ctx_set p (Some c) z = z"
    by (auto simp: ctx_get_def ctx_set_def list_update_same_conv)
qed (simp add: ctx_set_def)

lemma ctx_get_null: "ctx_get p z = Some c \<Longrightarrow> p \<noteq> 0"
  by (auto simp: ctx_get_def)

lemma kc_set_ssl [simp]: "kc_ssl (kc_set_ctx p c k) = ctx_set p (Some c) (kc_ssl k)"
  by (simp add: kc_set_ctx_def)

lemma flushed_plays:
  assumes "bio_wf j (ssl_bout (x_ssl c))" and "j < 31" and "ctx_out c (ctx_pending c) = Some bs"
    and "tcp_send ops cid (ucast (ctx_pending c)) data 0 t = Some (res, rem, t')" and "res = Ok \<Longrightarrow> ctx_skip rem c = Some c'"
  shows "plays os c (take (unat rem) bs) (if res = Ok then c' else c\<lparr>x_blocked := (res = OperationInProgress)\<rparr>)"
proof (rule playsI [where x = "Flushed res rem"])
  fix g :: "unit delegate_ops" and i u
  have p: "unat (ctx_pending c) < 2 ^ 31"
    using bio_wf_size [OF assms(1,2)] by (simp add: pending_bytes [OF assms(1)])
  then have u: "unat (ucast (ctx_pending c) :: u32) = unat (ctx_pending c)"
    by (simp add: unsigned_ucast_eq take_bit_nat_eq_self)
  have "rem \<le> ucast (ctx_pending c)"
    by (rule tcp_send_taken [OF assms(4)]) (use p u in simp)
  then have "\<not> ctx_pending c < ucast rem"
    using u unat_lt32 [of rem] by (simp add: word_le_nat_alt word_less_nat_alt unsigned_ucast_eq take_bit_nat_eq_self)
  then show "ctx_handle os g i (Flushed res rem) c u = Some (take (unat rem) bs,
      if res = Ok then c' else c\<lparr>x_blocked := (res = OperationInProgress)\<rparr>, u)"
    using assms(3,5) by simp
qed

lemma sslc_flush_plays:
  assumes "sslc_flush ops i cookie k = Some (st, k')" and "ctx_get cookie (kc_ssl k) = Some c"
    and "bio_wf j (ssl_bout (x_ssl c))" and "j < 31"
  shows "\<exists>c' out. plays os c out c' \<and> kc_ssl k' = ctx_set cookie (Some c') (kc_ssl k)"
proof (cases "ctx_pending c = 0")
  case True
  then show ?thesis
    using assms(1,2) plays_refl [of os c] by (intro exI [of _ c] exI [of _ "[]"]) (simp add: sslc_flush_def)
next
  case False
  let ?n = "ucast (ctx_pending c) :: u32"
  obtain bs res rem k1 where 1: "ctx_out c (ctx_pending c) = Some bs" "client_send ops i ?n (Some bs) 0 k = Some (res, rem, k1)"
      and r: "(if res \<noteq> Ok then Some (res, kc_set_ctx cookie (c\<lparr>x_blocked := (res = OperationInProgress)\<rparr>) k1)
        else ctx_skip rem c \<bind> (\<lambda>c. Some (Ok, kc_set_ctx cookie c k1))) = Some (st, k')"
    using assms(1,2) False by (auto simp: sslc_flush_def Let_def Some_eq_bind)
  obtain c' where c': "res = Ok \<Longrightarrow> ctx_skip rem c = Some c'" "res = Ok \<Longrightarrow> k' = kc_set_ctx cookie c' k1"
      and b: "res \<noteq> Ok \<Longrightarrow> k' = kc_set_ctx cookie (c\<lparr>x_blocked := (res = OperationInProgress)\<rparr>) k1"
    using r by (cases "res = Ok") (auto simp: Some_eq_bind)
  show ?thesis
  proof (cases "k_valid k i")
    case True
    then obtain t where t: "tcp_send ops (cc_conn (k_handle k i)) ?n (Some bs) 0 (k_tcp k) = Some (res, rem, t)" "k1 = k\<lparr>k_tcp := t\<rparr>"
      using 1(2) by (auto simp: client_send_def Some_eq_bind)
    show ?thesis
      using flushed_plays [OF assms(3,4) 1(1) t(1) c'(1), of os] b c'(2) tcp_send_handler [OF t(1)] t(2) by auto
  next
    case False
    then have "res = InvalidConnection" "k1 = k"
      using 1(2) by (auto simp: client_send_def)
    moreover have "plays os c [] (c\<lparr>x_blocked := False\<rparr>)"
      by (rule playsI [where x = "Flushed InvalidConnection 0"]) (simp add: 1(1))
    ultimately show ?thesis
      using b by auto
  qed
qed

lemma tcp_close_handler:
  fixes t :: "('d, 'h) tcp"
  assumes "tcp_close ops cid t = Some (st, t')"
  shows "t_handler t' = t_handler t"
proof -
  have "t_handler t2 = t_handler t1" if "sendClose ops e t1 = Some (st', e', t2)" for e e' st' and t1 t2 :: "('d, 'h) tcp"
    using that tcore_sel(2) [of t2 t1] by (auto dest!: sendClose_tx split: if_splits)
  moreover have "t_handler t1 = t_handler t" if "set_flags p b t = Some t1" for p b t1
    using tcore_sel(2) [OF flags_core(1) [OF that]] .
  ultimately show ?thesis
    using assms by (auto simp: tcp_close_def Let_def Some_eq_bind set_conn_def split: if_splits)
qed

lemma lawful_size: "lawful n os w f \<Longrightarrow> n < 31"
  by (simp add: lawful_def)

text \<open>One step on the context of a handle and then, possibly, a flush of it.\<close>

lemma plays_flush:
  assumes p: "plays os c out c1" and f: "follows n w f c out c1" and n: "n < 31" and g: "ctx_get cookie (kc_ssl k) = Some c"
    and r: "k' = kc_set_ctx cookie c1 k \<or> (\<exists>st. sslc_flush ops i cookie (kc_set_ctx cookie c1 k) = Some (st, k'))"
  shows "\<exists>c' out. plays os c out c' \<and> kc_ssl k' = ctx_set cookie (Some c') (kc_ssl k)"
  using r
proof (elim disjE exE)
  fix st assume fl: "sslc_flush ops i cookie (kc_set_ctx cookie c1 k) = Some (st, k')"
  have "bio_wf n (ssl_bout (x_ssl c1))"
    using follows_good [OF f] by (simp add: ctx_good_def ssl_wf_def)
  then obtain c' out' where "plays os c1 out' c'" "kc_ssl k' = ctx_set cookie (Some c') (kc_ssl (kc_set_ctx cookie c1 k))"
    using sslc_flush_plays [OF fl, of c1 n os] g n by auto
  then show ?thesis
    using plays_trans [OF p] by auto
qed (use p in auto)

lemma sslc_send_plays:
  assumes l: "lawful n os w f" and g: "ctx_get (client_cookie i k) (kc_ssl k) = Some c" and c: "ctx_good n f c"
    and r: "sslc_send ops os i data off k = Some (st, off', k')"
  shows "\<exists>c' out. plays os c out c' \<and> kc_ssl k' = ctx_set (client_cookie i k) (Some c') (kc_ssl k)"
proof (cases "x_state c \<noteq> SslReady \<or> x_blocked c")
  case True
  then have "k' = k"
    using r g by (auto simp: sslc_send_def Let_def ctx_get_def split: if_splits)
  then show ?thesis
    using plays_refl [of os c] g by (intro exI [of _ c] exI [of _ "[]"]) simp
next
  case False
  obtain e c1 where 1: "ctx_call (o_write os data) c = (e, c1)"
    by fastforce
  have p: "plays os c [] c1"
    by (rule playsI [where x = "DoSend data"]) (use False 1 in simp)
  have "\<exists>st. sslc_flush ops i (client_cookie i k) (kc_set_ctx (client_cookie i k) c1 k) = Some (st, k')"
    using r g 1 False ctx_get_null [OF g] by (simp add: sslc_send_def Let_def) (auto simp: Some_eq_bind)
  then show ?thesis
    by (intro plays_flush [OF p call_follows(1) [OF l c 1] lawful_size [OF l] g] disjI2) simp
qed

lemma sslc_handshake_plays:
  assumes l: "lawful n os w f" and g: "ctx_get cookie (kc_ssl k) = Some c" and c: "ctx_good n f c"
    and r: "sslc_handshake ops os i cookie k = Some (st, k')"
  shows "\<exists>c' out. plays os c out c' \<and> kc_ssl k' = ctx_set cookie (Some c') (kc_ssl k)"
proof (cases "x_state c = SslConnect")
  case False
  then have "k' = k"
    using r g by (auto simp: sslc_handshake_def split: ctx_state.splits)
  then show ?thesis
    using plays_refl [of os c] g by (intro exI [of _ c] exI [of _ "[]"]) simp
next
  case True
  obtain e c1 where 1: "ctx_call (o_connect os) c = (e, c1)"
    by fastforce
  let ?c = "if e = 1 then c1\<lparr>x_state := SslReady\<rparr> else c1"
  have h: "ctx_handle os u i DoConnect c v = Some ([], ?c, v)" for u :: "unit delegate_ops" and i v
    using True 1 by simp
  have p: "plays os c [] ?c" "follows n w f c [] ?c"
    using playsI [OF h] ctx_handle_follows [OF l c h] by simp_all
  have kk: "kc_set_ctx cookie a (kc_set_ctx cookie b k) = kc_set_ctx cookie a k" for a b
    by (simp add: kc_set_ctx_def k_set_client_def)
  have r1: "(if e = 0 then Some (ProtocolError, kc_set_ctx cookie c1 k)
      else if e = 1 then Some (Ok, kc_set_ctx cookie (c1\<lparr>x_state := SslReady\<rparr>) (kc_set_ctx cookie c1 k))
      else if ctx_error os c1 e \<noteq> SSL_ERROR_WANT_READ then Some (ProtocolError, kc_set_ctx cookie c1 k)
      else sslc_flush ops i cookie (kc_set_ctx cookie c1 k) \<bind> (\<lambda>(res, k). Some (if res \<noteq> Ok then res else OperationInProgress, k))) = Some (st, k')"
    using r by (simp add: sslc_handshake_def Let_def g True 1)
  have "k' = kc_set_ctx cookie ?c k \<or> (\<exists>st. sslc_flush ops i cookie (kc_set_ctx cookie ?c k) = Some (st, k'))"
  proof (cases "e = 0 \<or> e = 1 \<or> ctx_error os c1 e \<noteq> SSL_ERROR_WANT_READ")
    case True
    with r1 show ?thesis
      by (auto simp: kk split: if_split_asm)
  next
    case False
    with r1 show ?thesis
      by (auto simp: Some_eq_bind)
  qed
  then show ?thesis
    by (rule plays_flush [OF p lawful_size [OF l] g])
qed

lemma sslc_close_plays:
  assumes l: "lawful n os w f" and g: "ctx_get (client_cookie i k) (kc_ssl k) = Some c" and c: "ctx_good n f c"
    and r: "sslc_close ops os i k = Some (st, k')"
  shows "\<exists>c' out. plays os c out c' \<and> kc_ssl k' = ctx_set (client_cookie i k) (Some c') (kc_ssl k)"
proof (cases "x_state c = SslReady")
  case False
  then have "k' = k"
    using r g by (auto simp: sslc_close_def Let_def ctx_get_def split: if_splits)
  then show ?thesis
    using plays_refl [of os c] g by (intro exI [of _ c] exI [of _ "[]"]) simp
next
  case True
  let ?p = "client_cookie i k"
  obtain e c1 where 1: "ctx_call (o_shutdown os) (c\<lparr>x_state := SslShutdown\<rparr>) = (e, c1)"
    by fastforce
  have h: "ctx_handle os u i DoClose c v = Some ([], c1, v)" for u :: "unit delegate_ops" and i v
    using True 1 by simp
  have p: "plays os c [] c1" "follows n w f c [] c1"
    using playsI [OF h] ctx_handle_follows [OF l c h] by simp_all
  let ?k = "kc_set_ctx ?p c1 k"
  have r1: "(if e = 0 then map_option (\<lambda>(res, k). (OperationInProgress, k)) (sslc_flush ops i ?p ?k)
      else if e = 1 then client_close ops i ?k else Some (ProtocolError, ?k)) = Some (st, k')"
    using r by (simp add: sslc_close_def Let_def ctx_get_null [OF g] g True 1)
  consider (flushed) "\<exists>st. sslc_flush ops i ?p ?k = Some (st, k')" | (closed) "client_close ops i ?k = Some (st, k')" | (failed) "k' = ?k"
    using r1 by (cases "e = 0"; cases "e = 1") auto
  then show ?thesis
  proof cases
    case closed
    then have "kc_ssl k' = kc_ssl ?k"
      by (auto simp: client_close_def Some_eq_bind tcp_close_handler split: if_splits)
    then show ?thesis
      using p(1) by auto
  qed (intro plays_flush [OF p lawful_size [OF l] g]; blast)+
qed

end
