(* ===== verification/SslStream.thy ===== *)
theory SslStream
  imports SslSafe
begin

text \<open>
  What the application sees of an SSL connection, and when: nothing before the handshake is done, then the
  plain text in order. The properties of the SSL layer, with an engine without encryption that meets what
  they take for granted of OpenSSL.
\<close>

section \<open>The recording application\<close>

text \<open>The bytes passed to the application are recorded; it is otherwise arbitrary.\<close>

definition recording :: "'u delegate_ops \<Rightarrow> ('u \<times> u8 list) delegate_ops" where
  "recording g = \<lparr>
     g_connected = (\<lambda>i c opts (u, tp). map_option (\<lambda>(c, opts, u). (c, opts, u, tp)) (g_connected g i c opts u)),
     g_acked = (\<lambda>i c (u, tp). map_option (\<lambda>(a, u). (a, u, tp)) (g_acked g i c u)),
     g_acked_send = (\<lambda>i c alen (u, tp). map_option (\<lambda>(a, out, n, u). (a, out, n, u, tp)) (g_acked_send g i c alen u)),
     g_newdata = (\<lambda>i c bs (u, tp). map_option (\<lambda>(a, u). (a, u, tp @ bs)) (g_newdata g i c bs u)),
     g_newdata_send = (\<lambda>i c bs alen (u, tp). map_option (\<lambda>(a, out, n, u). (a, out, n, u, tp @ bs)) (g_newdata_send g i c bs alen u)),
     g_closed = (\<lambda>i c (u, tp). map_option (\<lambda>u. (u, tp)) (g_closed g i c u))\<rparr>"

lemma recording_acked: "g_acked_send (recording g) i c alen u = Some (a, out, n, u') \<Longrightarrow> snd u' = snd u"
  by (cases u) (auto simp: recording_def)

lemma ctx_handle_quiet:
  "ctx_handle os (recording g) i x c u = Some (out, c', u') \<Longrightarrow> x_state c \<noteq> SslReady \<Longrightarrow> snd u' = snd u"
  by (cases x; cases "x_state c") (auto simp: ctx_onAcked_send_def ctx_onNewData_def ctx_onNewData_send_def Let_def Some_eq_bind put_in_def
      split_def split: if_splits dest!: recording_acked)

lemma ctx_play_quiet:
  "lawful k os w f \<Longrightarrow> ctx_good k f c \<Longrightarrow> ctx_play os (recording g) i xs c u = Some (out, c', u') \<Longrightarrow>
   \<not> f (c_eng c') \<Longrightarrow> snd u' = snd u"
proof (induction xs arbitrary: c u out)
  case (Cons x xs)
  then obtain o1 c1 u1 o2 where 1: "ctx_handle os (recording g) i x c u = Some (o1, c1, u1)"
      "ctx_play os (recording g) i xs c1 u1 = Some (o2, c', u')"
    by (auto split: option.splits)
  note f1 = ctx_handle_follows [OF Cons.prems(1,2) 1(1)]
  have "snd u' = snd u1"
    using Cons.IH [OF Cons.prems(1) follows_good [OF f1] 1(2) Cons.prems(4)] .
  moreover have "\<not> f (c_eng c)"
    using f1 ctx_play_good [OF Cons.prems(1) follows_good [OF f1] 1(2)] Cons.prems(4) by (auto simp: follows_def)
  ultimately show ?case
    using ctx_handle_quiet [OF 1(1)] Cons.prems(2) by (auto simp: ctx_good_def)
qed simp

section \<open>Delivery\<close>

text \<open>An application that wants to go on, and whose answers fit.\<close>

definition goes_on :: "'u delegate_ops \<Rightarrow> bool" where
  "goes_on g \<longleftrightarrow> (\<forall>i ck bs u. \<exists>u'. g_newdata g i ck bs u = Some (Continue, u')) \<and>
     (\<forall>i ck bs alen u. \<exists>out n u'. g_newdata_send g i ck bs alen u = Some (Continue, out, n, u') \<and> n \<le> alen \<and> unat n \<le> length out)"

abbreviation (input) "c_avail avail c \<equiv> avail (c_eng c) (ssl_bin (x_ssl c))"

abbreviation (input) "c_clean clean c \<equiv> clean (c_eng c) (ssl_bin (x_ssl c))"

lemma ctx_read_plain:
  assumes rp: "reads_plain k os avail clean" and c: "ctx_good k f c" and cl: "c_clean clean c" and len: "0 < len"
    and r: "ctx_read os len c = (ret, bs, c1)"
  shows "c_clean clean c1"
    and "c_avail avail c = [] \<Longrightarrow> ret < 0 \<and> ctx_error os c1 ret = SSL_ERROR_WANT_READ \<and> c_avail avail c1 = []"
    and "c_avail avail c \<noteq> [] \<Longrightarrow> 0 < ret \<and> nat ret \<le> length (c_avail avail c) \<and> bs = take (nat ret) (c_avail avail c) \<and>
      c_avail avail c1 = drop (nat ret) (c_avail avail c)"
proof -
  obtain bs' where o: "o_read os len (x_ssl c) = (ret, bs', x_ssl c1)" "bs = take (nat ret) bs'"
    using r by (auto simp: ctx_read_def split: prod.splits)
  have "ssl_wf k (x_ssl c)"
    using c by (simp add: ctx_good_def)
  then have "case o_read os len (x_ssl c) of (ret, bs, s') \<Rightarrow>
      clean (ssl_eng s') (ssl_bin s') \<and>
      (if c_avail avail c = [] then ret < 0 \<and> o_error os s' ret = SSL_ERROR_WANT_READ \<and> avail (ssl_eng s') (ssl_bin s') = []
       else 0 < ret \<and> nat ret \<le> length (c_avail avail c) \<and> bs = take (nat ret) (c_avail avail c) \<and>
         avail (ssl_eng s') (ssl_bin s') = drop (nat ret) (c_avail avail c))"
    by (rule rp [unfolded reads_plain_def, THEN conjunct1, THEN spec, THEN spec, THEN mp, THEN mp, THEN mp, OF len _ cl])
  then show "c_clean clean c1"
    and "c_avail avail c = [] \<Longrightarrow> ret < 0 \<and> ctx_error os c1 ret = SSL_ERROR_WANT_READ \<and> c_avail avail c1 = []"
    and "c_avail avail c \<noteq> [] \<Longrightarrow> 0 < ret \<and> nat ret \<le> length (c_avail avail c) \<and> bs = take (nat ret) (c_avail avail c) \<and>
      c_avail avail c1 = drop (nat ret) (c_avail avail c)"
    unfolding o(1) by (simp_all add: o(2))
qed

lemma ctx_write_plain:
  assumes rp: "reads_plain k os avail clean" and c: "ctx_good k f c" and cl: "c_clean clean c" and r: "ctx_call (o_write os bs) c = (e, c1)"
  shows "c_clean clean c1" "c_avail avail c1 = c_avail avail c"
proof -
  have "ssl_wf k (x_ssl c)"
    using c by (simp add: ctx_good_def)
  then have "case o_write os bs (x_ssl c) of (_, s') \<Rightarrow> clean (ssl_eng s') (ssl_bin s') \<and> avail (ssl_eng s') (ssl_bin s') = c_avail avail c"
    by (rule rp [unfolded reads_plain_def, THEN conjunct2, THEN spec, THEN spec, THEN mp, THEN mp, OF _ cl])
  then show "c_clean clean c1" "c_avail avail c1 = c_avail avail c"
    using r by (auto simp: ctx_call_def split: prod.splits)
qed

lemma read_loop_delivers:
  assumes "lawful k os w f" and "reads_plain k os avail clean" and "goes_on g" and "0 < len"
  shows "ctx_good k f c \<Longrightarrow> c_clean clean c \<Longrightarrow> \<exists>c' u'. read_loop os (recording g) i len c (u, tp) = Some (Continue, c', u', tp @ c_avail avail c)"
proof (induction "length (c_avail avail c)" arbitrary: c u tp rule: less_induct)
  case less
  obtain ret bs c1 where read: "ctx_read os len c = (ret, bs, c1)"
    by (cases "ctx_read os len c")
  note plain = ctx_read_plain(2,3) [OF assms(2) less.prems assms(4) read] and clean = ctx_read_plain(1) [OF assms(2) less.prems assms(4) read]
  show ?case
  proof (cases "c_avail avail c = []")
    case True
    then show ?thesis
      using plain(1) by (subst read_loop.simps) (simp add: read read_stopped_def)
  next
    case False
    let ?n = "nat ret"
    obtain u1 where u1: "g_newdata g i (x_cookie c1) bs u = Some (Continue, u1)"
      using assms(3) unfolding goes_on_def by blast
    have "length (c_avail avail c1) < length (c_avail avail c)"
      using plain(2) [OF False] False by simp
    then obtain c' u' where
      "read_loop os (recording g) i len c1 (u1, tp @ bs) = Some (Continue, c', u', (tp @ bs) @ c_avail avail c1)"
      using less.hyps follows_good [OF read_follows(1) [OF assms(1) less.prems(1) read]] clean by blast
    moreover have "bs @ c_avail avail c1 = c_avail avail c"
      using plain(2) [OF False] by simp
    ultimately show ?thesis
      using plain(2) [OF False] u1 by (subst read_loop.simps) (simp add: read recording_def)
  qed
qed

lemma answer_loop_delivers:
  assumes "lawful k os w f" and "reads_plain k os avail clean" and "goes_on g" and "0 < len"
  shows "ctx_good k f c \<Longrightarrow> c_clean clean c \<Longrightarrow> acc \<le> alen \<Longrightarrow>
    \<exists>out n c' u'. answer_loop os (recording g) i len alen acc c (u, tp) = Some (Continue, out, n, c', u', tp @ c_avail avail c)"
proof (induction "length (c_avail avail c)" arbitrary: c u tp acc rule: less_induct)
  case less
  obtain ret bs c1 where read: "ctx_read os len c = (ret, bs, c1)"
    by (cases "ctx_read os len c")
  note plain = ctx_read_plain(2,3) [OF assms(2) less.prems(1,2) assms(4) read] and clean = ctx_read_plain(1) [OF assms(2) less.prems(1,2) assms(4) read]
  note good = follows_good [OF read_follows(1) [OF assms(1) less.prems(1) read]]
  show ?case
  proof (cases "c_avail avail c = []")
    case True
    obtain n c' where "\<exists>out. ctx_flush alen c1 = Some (Continue, out, n, c')"
      using ctx_flush_eq [OF _ lawful_size [OF assms(1)] refl, of c1 alen] good by (auto simp: ctx_good_def)
    then show ?thesis
      using plain(1) True by (subst answer_loop.simps) (auto simp: read read_stopped_def)
  next
    case False
    obtain out n u1 where u1: "g_newdata_send g i (x_cookie c1) bs (alen - acc) u = Some (Continue, out, n, u1)"
        "n \<le> alen - acc" "unat n \<le> length out"
      using assms(3) unfolding goes_on_def by blast
    have "unat n + unat acc \<le> unat alen"
      using u1(2) less.prems(3) by (simp add: word_le_nat_alt unat_sub)
    then have sum: "unat (n + acc) = unat n + unat acc"
      using unat_lt32 [of alen] by (simp add: unat_plus_if')
    then have acc: "\<not> n + acc > alen" "acc + n \<le> alen"
      using \<open>unat n + unat acc \<le> unat alen\<close> by (simp_all add: word_less_nat_alt word_le_nat_alt add.commute)
    obtain e c2 where c2: "ctx_call (o_write os (take (unat n) out)) c1 = (e, c2)"
      by fastforce
    note avail = ctx_write_plain(2) [OF assms(2) good clean c2] and clean2 = ctx_write_plain(1) [OF assms(2) good clean c2]
    have "length (c_avail avail c2) < length (c_avail avail c)"
      using plain(2) [OF False] avail False by simp
    then obtain out' n' c' u' where
      "answer_loop os (recording g) i len alen (acc + n) c2 (u1, tp @ bs) = Some (Continue, out', n', c', u', (tp @ bs) @ c_avail avail c2)"
      using less.hyps follows_good [OF call_follows(1) [OF assms(1) good c2]] acc(2) clean2 by (metis library_calls(4))
    moreover have "bs @ c_avail avail c2 = c_avail avail c"
      using plain(2) [OF False] avail by simp
    ultimately show ?thesis
      using plain(2) [OF False] u1 acc c2 by (subst answer_loop.simps) (simp add: read recording_def ctx_write_def)
  qed
qed

lemma size_scast: "n < 2 ^ 31 \<Longrightarrow> unat (scast (of_nat n :: u32) :: u64) = n"
proof -
  assume n: "n < 2 ^ 31"
  then have "unat (of_nat n :: u32) = n"
    by (simp add: unsigned_of_nat take_bit_nat_eq_self)
  then show ?thesis
    using scast_small [of "of_nat n"] n by (simp add: unsigned_ucast_eq take_bit_nat_eq_self)
qed

lemma bio_write_bytes:
  assumes b: "bio_wf k b" and len: "length bs < 2 ^ 31"
  shows "\<exists>n b'. bio_write b bs (of_nat (length bs)) = Some (n, b') \<and> bio_wf k b' \<and>
    (n = -1 \<and> bio_bytes k b' = bio_bytes k b \<or> unat n \<le> length bs \<and> bio_bytes k b' = bio_bytes k b @ take (unat n) bs)"
proof -
  obtain r where r: "b_ptr b = Some r" "ring_wf k r"
    using b by (auto simp: bio_wf_def split: option.splits)
  show ?thesis
  proof (cases "ring_full r")
    case True
    then show ?thesis
      using r by (simp add: bio_write_def bio_wf_def bio_bytes_def)
  next
    case False
    let ?n = "min (length bs) (2 ^ k - length (ring_bytes k r))"
    have n: "unat (scast (of_nat (length bs) :: u32) :: u64) = length bs"
      using len by (rule size_scast)
    obtain r' where r': "ring_write r bs (scast (of_nat (length bs) :: u32)) = Some (of_nat ?n, r')" "ring_wf k r'"
        "ring_bytes k r' = ring_bytes k r @ take ?n bs"
      using ring_write_bytes [OF r(2) refl, of "scast (of_nat (length bs) :: u32)" bs] n by auto
    have "unat (ucast (of_nat ?n :: u64) :: u32) = ?n"
      using len by (simp add: unsigned_ucast_eq unsigned_of_nat take_bit_nat_eq_self)
    then show ?thesis
      using False r r' by (auto simp: bio_write_def Let_def bio_wf_def bio_bytes_def)
  qed
qed

lemma put_in_ok: "ctx_good k f c \<Longrightarrow> length data < 2 ^ 16 \<Longrightarrow> \<exists>c1. put_in data c = Some c1"
  using bio_write_bytes [of k "ssl_bin (x_ssl c)" data] by (auto simp: put_in_def ctx_good_def ssl_wf_def)

section \<open>An engine without encryption\<close>

text \<open>It keeps whether the handshake is done and all that it has written. A handshake is a byte each way. Reading before it is done is an error.\<close>

type_synonym plain = "bool \<times> u8 list"

definition plain_size :: "bio \<Rightarrow> nat" where
  "plain_size b = unat (word_of_int (fst (bio_ctrl CTRL_PENDING 0 b)) :: u64)"

definition plain_write :: "u8 list \<Rightarrow> plain ssl \<Rightarrow> int \<times> plain ssl" where
  "plain_write bs s = (let bs = take 16384 bs in case bio_write (ssl_bout s) bs (of_nat (length bs)) of
     None \<Rightarrow> (-1, s)
   | Some (n, b) \<Rightarrow> if n = -1 then (-1, s\<lparr>ssl_bout := b\<rparr>)
       else (uint n, s\<lparr>ssl_bout := b, ssl_eng := (fst (ssl_eng s), snd (ssl_eng s) @ take (unat n) bs)\<rparr>))"

definition plain_read :: "nat \<Rightarrow> plain ssl \<Rightarrow> int \<times> u8 list \<times> plain ssl" where
  "plain_read n s = (let m = min n (plain_size (ssl_bin s)) in
     if m = 0 then (-1, [], s)
     else case bio_read (ssl_bin s) (of_nat m) of None \<Rightarrow> (-1, [], s) | Some (bs, r, b) \<Rightarrow> (int m, bs, s\<lparr>ssl_bin := b\<rparr>))"

definition plain_recv :: "nat \<Rightarrow> plain ssl \<Rightarrow> int \<times> u8 list \<times> plain ssl" where
  "plain_recv n s = (if fst (ssl_eng s) then plain_read n s else (0, [], s))"

definition plain_shake :: "plain ssl \<Rightarrow> int \<times> plain ssl" where
  "plain_shake s = (case plain_read 1 s of (ret, bs, s) \<Rightarrow>
     if ret < 0 then (-1, snd (plain_write [22] s)) else (1, s\<lparr>ssl_eng := (True, snd (ssl_eng s))\<rparr>))"

definition plain_engine :: "plain openssl" where
  "plain_engine = \<lparr>o_new = (False, []), o_connect = plain_shake, o_accept = plain_shake, o_shutdown = (\<lambda>s. (1, s)),
     o_read = plain_recv, o_write = plain_write, o_error = (\<lambda>s e. if e = 0 then SSL_ERROR_SSL else SSL_ERROR_WANT_READ)\<rparr>"

text \<open>What every call keeps and adds.\<close>

definition plain_step :: "nat \<Rightarrow> plain ssl \<Rightarrow> plain ssl \<Rightarrow> bool" where
  "plain_step k s s' \<longleftrightarrow> ssl_wf k s' \<and> (fst (ssl_eng s) \<longrightarrow> fst (ssl_eng s')) \<and>
     (\<exists>x. bio_bytes k (ssl_bout s') = bio_bytes k (ssl_bout s) @ x \<and> snd (ssl_eng s') = snd (ssl_eng s) @ x)"

lemma plain_size_bytes: "bio_wf k b \<Longrightarrow> plain_size b = length (bio_bytes k b)"
  by (auto simp: plain_size_def bio_ctrl_def bio_wf_def bio_bytes_def split: option.splits)

lemma plain_write_step:
  assumes "ssl_wf k s"
  shows "plain_step k s (snd (plain_write bs s)) \<and> ssl_bin (snd (plain_write bs s)) = ssl_bin s"
proof -
  let ?bs = "take 16384 bs"
  have len: "length ?bs < 2 ^ 31"
    by (simp add: min_less_iff_disj)
  obtain n b where w: "bio_write (ssl_bout s) ?bs (of_nat (length ?bs)) = Some (n, b)" "bio_wf k b"
      "n = -1 \<and> bio_bytes k b = bio_bytes k (ssl_bout s) \<or>
       unat n \<le> length ?bs \<and> bio_bytes k b = bio_bytes k (ssl_bout s) @ take (unat n) ?bs"
    using bio_write_bytes [OF _ len, of k "ssl_bout s"] assms unfolding ssl_wf_def by blast
  have "unat (-1 :: u32) = 2 ^ 32 - 1"
    by (simp add: unsigned_minus_1_eq_mask mask_eq_exp_minus_1)
  then have "n = -1 \<Longrightarrow> \<not> unat n \<le> length ?bs"
    by simp
  then show ?thesis
    using w assms by (auto simp: plain_write_def Let_def plain_step_def ssl_wf_def)
qed

lemma plain_read_bytes:
  assumes "ssl_wf k s" and "k < 31" and "m = min n (length (bio_bytes k (ssl_bin s)))"
  shows "\<exists>b. plain_read n s = (if m = 0 then -1 else int m, take m (bio_bytes k (ssl_bin s)), s\<lparr>ssl_bin := b\<rparr>) \<and> bio_wf k b \<and>
    bio_bytes k b = drop m (bio_bytes k (ssl_bin s))"
proof (cases "m = 0")
  case True
  then show ?thesis
    using assms by (intro exI [of _ "ssl_bin s"]) (auto simp: plain_read_def plain_size_bytes [of k] ssl_wf_def)
next
  case False
  have b: "bio_wf k (ssl_bin s)"
    using assms(1) by (simp add: ssl_wf_def)
  have m: "m < 2 ^ 31"
    using bio_wf_size [OF b assms(2)] assms(3) by simp
  then have u: "unat (of_nat m :: u32) = m"
    by (simp add: unsigned_of_nat take_bit_nat_eq_self)
  obtain b' where "bio_read (ssl_bin s) (of_nat m) = Some (take m (bio_bytes k (ssl_bin s)), of_nat m, b')" "bio_wf k b'"
      "bio_bytes k b' = drop m (bio_bytes k (ssl_bin s))"
    using bio_read_bytes [OF b, of "of_nat m"] u m False assms(3) by auto
  then show ?thesis
    using False by (intro exI [of _ b']) (simp add: plain_read_def plain_size_bytes [OF b] Let_def assms(3) [symmetric])
qed

lemma plain_shake_step:
  assumes "ssl_wf k s" and "k < 31"
  shows "plain_step k s (snd (plain_shake s)) \<and> (fst (plain_shake s) = 1 \<longrightarrow> fst (ssl_eng (snd (plain_shake s))))"
proof -
  obtain b where b: "plain_read 1 s = (if min 1 (length (bio_bytes k (ssl_bin s))) = 0 then -1 else int (min 1 (length (bio_bytes k (ssl_bin s)))),
      take (min 1 (length (bio_bytes k (ssl_bin s)))) (bio_bytes k (ssl_bin s)), s\<lparr>ssl_bin := b\<rparr>)" "bio_wf k b"
    using plain_read_bytes [OF assms refl, of 1] by blast
  have "ssl_wf k (s\<lparr>ssl_bin := b\<rparr>)"
    using b(2) assms(1) by (simp add: ssl_wf_def)
  then show ?thesis
    using plain_write_step [of k "s\<lparr>ssl_bin := b\<rparr>" "[22]"] unfolding plain_shake_def b(1)
    by (auto simp: plain_step_def ssl_wf_def)
qed

lemma plain_calls: "ssl_wf k s \<Longrightarrow> k < 31 \<Longrightarrow> plain_step k s (after_call plain_engine f s)"
proof (cases f)
  case (CallRead n)
  assume "ssl_wf k s" "k < 31"
  then show ?thesis
    using plain_read_bytes [OF _ _ refl, of k s n] CallRead by (auto simp: plain_engine_def plain_recv_def plain_step_def ssl_wf_def)
qed (use plain_shake_step plain_write_step in \<open>auto simp: plain_engine_def plain_step_def\<close>)

lemma plain_done:
  "fst (ssl_eng (snd (plain_write bs s))) = fst (ssl_eng s)" "ssl_eng (snd (snd (plain_read n s))) = ssl_eng s"
  "fst (ssl_eng s) \<Longrightarrow> fst (ssl_eng (snd (plain_shake s)))" "fst (plain_shake s) = 1 \<Longrightarrow> fst (ssl_eng (snd (plain_shake s)))"
proof -
  show w: "fst (ssl_eng (snd (plain_write bs s))) = fst (ssl_eng s)" for bs and s :: "plain ssl"
    by (auto simp: plain_write_def Let_def split: option.split)
  show r: "ssl_eng (snd (snd (plain_read n s))) = ssl_eng s" for n and s :: "plain ssl"
    by (auto simp: plain_read_def Let_def split: option.split)
  show "fst (ssl_eng s) \<Longrightarrow> fst (ssl_eng (snd (plain_shake s)))" "fst (plain_shake s) = 1 \<Longrightarrow> fst (ssl_eng (snd (plain_shake s)))"
    using r [of 1 s] by (auto simp: plain_shake_def w split: prod.splits if_splits)
qed

lemma plain_shakes: "shakes plain_engine fst"
  unfolding shakes_def
proof (intro conjI allI impI)
  fix f and s :: "plain ssl" assume "fst (ssl_eng s)"
  then show "fst (ssl_eng (after_call plain_engine f s))"
    by (cases f) (simp_all add: plain_engine_def plain_recv_def plain_done)
qed (simp_all add: plain_engine_def plain_done)

lemma plain_laws:
  assumes "k < 31"
  shows "lawful k plain_engine snd fst" "reads_plain k plain_engine (\<lambda>e. bio_bytes k) (\<lambda>e b. fst e)"
proof -
  have "writes_cipher k plain_engine snd"
    using plain_calls [OF _ assms] unfolding writes_cipher_def plain_step_def by (simp add: plain_engine_def)
  then show "lawful k plain_engine snd fst"
    using plain_shakes assms by (simp add: lawful_def)
  show "reads_plain k plain_engine (\<lambda>e. bio_bytes k) (\<lambda>e b. fst e)"
    unfolding reads_plain_def
  proof (intro conjI allI impI)
    fix n :: nat and s :: "plain ssl" assume n: "0 < n" and s: "ssl_wf k s" and fin: "fst (ssl_eng s)"
    obtain b where b: "plain_read n s = (if min n (length (bio_bytes k (ssl_bin s))) = 0 then -1 else int (min n (length (bio_bytes k (ssl_bin s)))),
        take (min n (length (bio_bytes k (ssl_bin s)))) (bio_bytes k (ssl_bin s)), s\<lparr>ssl_bin := b\<rparr>)" "bio_wf k b"
        "bio_bytes k b = drop (min n (length (bio_bytes k (ssl_bin s)))) (bio_bytes k (ssl_bin s))"
      using plain_read_bytes [OF s assms refl, of n] by blast
    show "case o_read plain_engine n s of (ret, bs, s') \<Rightarrow> fst (ssl_eng s') \<and>
        (if bio_bytes k (ssl_bin s) = []
         then ret < 0 \<and> o_error plain_engine s' ret = SSL_ERROR_WANT_READ \<and> bio_bytes k (ssl_bin s') = []
         else 0 < ret \<and> nat ret \<le> length (bio_bytes k (ssl_bin s)) \<and> bs = take (nat ret) (bio_bytes k (ssl_bin s)) \<and>
           bio_bytes k (ssl_bin s') = drop (nat ret) (bio_bytes k (ssl_bin s)))"
      using b n fin by (simp add: plain_engine_def plain_recv_def min_def)
  next
    fix bs and s :: "plain ssl" assume "ssl_wf k s" "fst (ssl_eng s)"
    then show "case o_write plain_engine bs s of (_, s') \<Rightarrow> fst (ssl_eng s') \<and> bio_bytes k (ssl_bin s') = bio_bytes k (ssl_bin s)"
      using plain_write_step [of k s bs] by (auto simp: plain_engine_def plain_done split_beta)
  qed
qed

section \<open>A sample run\<close>

text \<open>A client connects, its greeting is taken and answered, and it sends two bytes. Or data arrives early.\<close>

definition sample_ssl_sends :: "ctx_event list" where
  "sample_ssl_sends = [DoConnect, OnNewDataSend [22] 10, DoSend [68, 69]]"

definition sample_ssl_early :: "ctx_event list" where
  "sample_ssl_early = [DoConnect, Flushed Ok 1, OnNewData [65]]"

definition sample_ssl_context :: "plain ssl_context" where
  "sample_ssl_context = (let b = bio_new\<lparr>b_ptr := Some \<lparr>cb_size = 16, cb_data = (\<lambda>i. 0), cb_read = 0, cb_write = 0\<rparr>\<rparr> in
     \<lparr>x_ssl = \<lparr>ssl_eng = (False, []), ssl_bin = b, ssl_bout = b\<rparr>, x_state = SslClosed, x_cookie = 7, x_blocked = False\<rparr>)"

lemma sample_ssl_new: "ctx_new plain_engine 16 16 7 = Some sample_ssl_context" "unat (ring_fit 16 16) = 2 ^ 4"
proof -
  have "ring_fit 16 16 = 16"
    by code_simp
  then show "ctx_new plain_engine 16 16 7 = Some sample_ssl_context" "unat (ring_fit 16 16) = 2 ^ 4"
    by (simp_all add: ctx_new_def bio_allocate_def ring_create_def sample_ssl_context_def plain_engine_def bio_new_def Let_def)
qed

abbreviation (input) "sample_ssl_play xs \<equiv>
  ctx_play plain_engine (recording default_delegate) 0 xs (sample_ssl_context\<lparr>x_state := SslConnect\<rparr>) ((), [])"

lemma sample_ssl_runs:
  "map_option (\<lambda>(out, c, u). (out, snd (c_eng c))) (sample_ssl_play sample_ssl_sends) = Some ([22], [22, 68, 69])"
  by code_simp

lemma sample_ssl_refused:
  "map_option (\<lambda>(out, c, u). (out, fst (c_eng c))) (sample_ssl_play sample_ssl_early) = Some ([22], False)"
  by code_simp

section \<open>Properties\<close>

text \<open>C37: What the SSL layer passes to TCP is what OpenSSL wrote, in order, without loss or repetition: after any
  sequence of callbacks and operations on a new context in which no flush fails after TCP has taken bytes, the bytes that have left it
  followed by those still pending are all the bytes the engine has written. (TCP can take bytes and then fail, when the device does; the
  next flush passes these bytes again.)\<close>
theorem ssl_ciphertext_conserved:
  assumes "lawful k os written finished" and "ctx_new os pagesize buflen cookie = Some c0" and "unat (ring_fit pagesize buflen) = 2 ^ k"
    and "st \<noteq> SslReady" and "ctx_play os g i events (c0\<lparr>x_state := st\<rparr>) u = Some (out, c, u')"
    and "list_all (\<lambda>x. \<not> fails_taking x) events"
  shows "out @ bio_bytes k (ssl_bout (x_ssl c)) = written (ssl_eng (x_ssl c))"
proof -
  note new = ctx_new_good [OF assms(2,3)]
  have "follows k written finished (c0\<lparr>x_state := st\<rparr>) out c"
    using ctx_play_follows [OF assms(1) new(1) [OF assms(4)] assms(5)] assms(6) by auto
  then show ?thesis
    using new(2,3) [OF assms(4)] assms(1) by (auto simp: follows_def lawful_def writes_cipher_def)
qed

theorem ssl_ciphertext_conserved_witness:
  "\<exists>c u. sample_ssl_play sample_ssl_sends = Some ([22], c, u) \<and> bio_bytes 4 (ssl_bout (x_ssl c)) = [68, 69]"
proof -
  obtain c u where r: "sample_ssl_play sample_ssl_sends = Some ([22], c, u)" "snd (c_eng c) = [22, 68, 69]"
    using sample_ssl_runs by auto
  have "[22] @ bio_bytes 4 (ssl_bout (x_ssl c)) = snd (ssl_eng (x_ssl c))"
    by (rule ssl_ciphertext_conserved [OF plain_laws(1) sample_ssl_new _ r(1)]) (simp_all add: sample_ssl_sends_def)
  then show ?thesis
    using r by (intro exI [of _ c] exI [of _ u]) simp
qed

text \<open>C38: No data reaches the application before the handshake is done: a context that is ready has an engine
  that has finished its handshake, and while the handshake is not finished the application has been
  given nothing, whatever arrives and whatever it answers.\<close>
theorem ssl_no_data_before_handshake:
  assumes "lawful k os written finished" and "ctx_new os pagesize buflen cookie = Some c0" and "unat (ring_fit pagesize buflen) = 2 ^ k"
    and "st \<noteq> SslReady" and "ctx_play os (recording g) i events (c0\<lparr>x_state := st\<rparr>) (u, []) = Some (out, c, u')"
  shows "finished (ssl_eng (x_ssl c)) \<or> (snd u' = [] \<and> x_state c \<noteq> SslReady)"
proof (cases "finished (ssl_eng (x_ssl c))")
  case False
  note good = ctx_new_good(1) [OF assms(2,3,4)]
  show ?thesis
    using ctx_play_quiet [OF assms(1) good assms(5) False] ctx_play_good [OF assms(1) good assms(5)] False
    by (auto simp: ctx_good_def)
qed simp

theorem ssl_no_data_before_handshake_witness:
  "\<exists>c u. sample_ssl_play sample_ssl_early = Some ([22], c, u) \<and> snd u = [] \<and> x_state c \<noteq> SslReady"
proof -
  obtain c u where r: "sample_ssl_play sample_ssl_early = Some ([22], c, u)" "\<not> fst (c_eng c)"
    using sample_ssl_refused by auto
  have "fst (c_eng c) \<or> (snd u = [] \<and> x_state c \<noteq> SslReady)"
    by (rule ssl_no_data_before_handshake [OF plain_laws(1) sample_ssl_new _ r(1)]) simp_all
  then show ?thesis
    using r by blast
qed

text \<open>C39: On an established SSL connection the data in a segment is delivered whole: with an application that goes
  on, and if with the segment the input of OpenSSL is intact application data, without alerts, renegotiation or records that fail to decrypt,
  both callbacks return, and the application gets exactly the plain text that has become available,
  in order, in however many portions OpenSSL returns it.\<close>
theorem ssl_newdata_delivers:
  assumes "lawful k os written finished" and "reads_plain k os avail clean" and "goes_on g" and "ctx_good k finished c"
    and "x_state c = SslReady" and "data \<noteq> []" and "length data < 2 ^ 16"
    and "\<And>c1. put_in data c = Some c1 \<Longrightarrow> clean (ssl_eng (x_ssl c1)) (ssl_bin (x_ssl c1))"
  shows "\<exists>c1. put_in data c = Some c1 \<and>
    (\<exists>c' u'. ctx_onNewData os (recording g) i data c (u, tp) = Some (Continue, c', u', tp @ avail (ssl_eng (x_ssl c1)) (ssl_bin (x_ssl c1)))) \<and>
    (\<exists>out n c' u'. ctx_onNewData_send os (recording g) i data alen c (u, tp) =
       Some (Continue, out, n, c', u', tp @ avail (ssl_eng (x_ssl c1)) (ssl_bin (x_ssl c1))))"
proof -
  obtain c1 where c1: "put_in data c = Some c1"
    using put_in_ok [OF assms(4,7)] by blast
  have st: "x_state c1 = SslReady"
    using put_in_follows(2) [OF assms(4) c1] assms(5) by simp
  have len: "0 < length data"
    using assms(6) by simp
  note good = follows_good [OF put_in_follows(1) [OF assms(4) c1]]
  note deliver = read_loop_delivers [OF assms(1-3) len good assms(8) [OF c1], of i u tp]
    and answer = answer_loop_delivers [OF assms(1-3) len good assms(8) [OF c1], of 0 alen i u tp]
  show ?thesis
    using c1 st deliver answer by (auto simp: ctx_onNewData_def ctx_onNewData_send_def)
qed

lemma default_goes_on: "goes_on default_delegate"
  by (simp add: goes_on_def default_delegate_def)

theorem ssl_newdata_delivers_witness:
  "\<exists>c' u'. ctx_onNewData plain_engine (recording default_delegate) 0 [1, 2, 3] (sample_ssl_context\<lparr>x_state := SslReady,
     x_ssl := (x_ssl sample_ssl_context)\<lparr>ssl_eng := (True, [])\<rparr>\<rparr>) ((), [9]) = Some (Continue, c', u', [9, 1, 2, 3])"
proof -
  let ?c = "sample_ssl_context\<lparr>x_state := SslReady, x_ssl := (x_ssl sample_ssl_context)\<lparr>ssl_eng := (True, [])\<rparr>\<rparr>"
  have good: "ctx_good 4 fst ?c"
    using ctx_new_good(1) [OF sample_ssl_new, of SslClosed fst] by (simp add: ctx_good_def ssl_wf_def)
  have "map_option (\<lambda>c1. bio_bytes 4 (ssl_bin (x_ssl c1))) (put_in [1, 2, 3] ?c) = Some [1, 2, 3]"
    by code_simp
  then show ?thesis
    using ssl_newdata_delivers [OF plain_laws default_goes_on good, of "[1, 2, 3]" 0 "()" "[9]"] by (auto simp: put_in_def Some_eq_bind split: if_splits)
qed

text \<open>C40: The SSL server does not survive a reset of a connection whose cookie is still null: its \<^verbatim>\<open>onClosed\<close>,
  unlike that of the client, reads through the pointer. A SYN and then a reset are enough.\<close>
theorem ssl_server_reset_crash:
  assumes "read_header data = Some h" and "first_index (matches rx h) (t_conns t) = Some j" and "hd_has h TCP_RST"
    and "tcpv4_checksum (rx_src rx) (rx_dst rx) len data = Some 0xFFFF" and "m_cookie (t_conns t ! j) = 0"
  shows "tcp_process ops (server_events (ssls_delegate os g pagesize mss)) rx len data t = None"
  using assms
  by (simp add: tcp_process_def Let_def process_conn_def notify_def server_events_def server_onClosed_def ssls_delegate_def
      ssls_onClosed_def ctx_get_def clear_data_state_def)

definition sample_ssl_server :: "(list_dev, (plain, unit) ssl_host server) tcp" where
  "sample_ssl_server = \<lparr>t_net = sample_link, t_handler = \<lparr>sv_dlg = \<lparr>z_user = (), z_ctxs = []\<rparr>, sv_cookies = Map.empty\<rparr>,
     t_iss = 0, t_mss = 40, t_ports = {htons 80}, t_conns = [conn_init\<lparr>m_id := 0\<rparr>], t_stats = tcp_stats_zero, t_timer = timer_set 0 100\<rparr>"

abbreviation (input) "sample_ssl_events \<equiv> server_events (ssls_delegate plain_engine default_delegate 4096 40)"

lemma sample_ssl_syn:
  "\<exists>t. tcp_process list_ops sample_ssl_events sample_rx 20 (sample_segment TCP_SYN) sample_ssl_server = Some (Ok, t) \<and>
     map (\<lambda>c. (m_state c, m_cookie c)) (t_conns t) = [(SYN_RCVD, 0)] \<and> first_index (matches sample_rx (sample_header TCP_RST)) (t_conns t) = Some 0"
proof -
  let ?t = "on_stats (\<lambda>s. s\<lparr>st_recv := st_recv s + 1\<rparr>) sample_ssl_server"
  have "map_option (\<lambda>(st, t). (st, map (\<lambda>c. (m_state c, m_cookie c)) (t_conns t), first_index (matches sample_rx (sample_header TCP_RST)) (t_conns t)))
     (tcp_accept list_ops sample_rx (sample_header TCP_SYN) (sample_segment TCP_SYN) 0 ?t) = Some (Ok, [(SYN_RCVD, 0)], Some 0)"
    by code_simp
  moreover have "first_index (matches sample_rx (sample_header TCP_SYN)) (t_conns ?t) = None" "alloc_process (t_conns ?t) = Some 0"
    "hd_dst (sample_header TCP_SYN) \<in> t_ports ?t" "hd_flags (sample_header TCP_SYN) AND TCP_CTL = TCP_SYN"
    by code_simp+
  moreover have "tcpv4_checksum (rx_src sample_rx) (rx_dst sample_rx) 20 (sample_segment TCP_SYN) = Some 0xFFFF"
    using tcp_image_verifies [of "[]" "ip4_make 10 1 0 2" "ip4_make 10 1 0 1" "sample_header TCP_SYN"]
    by (simp add: sample_rx_def sample_segment_def)
  ultimately show ?thesis
    by (auto simp: tcp_process_def sample_segment_header Let_def)
qed

theorem ssl_server_reset_crash_witness:
  "\<exists>t. tcp_process list_ops sample_ssl_events sample_rx 20 (sample_segment TCP_SYN) sample_ssl_server = Some (Ok, t) \<and>
     tcp_process list_ops sample_ssl_events sample_rx 20 (sample_segment TCP_RST) t = None"
proof -
  obtain t where t: "tcp_process list_ops sample_ssl_events sample_rx 20 (sample_segment TCP_SYN) sample_ssl_server = Some (Ok, t)"
      "map (\<lambda>c. (m_state c, m_cookie c)) (t_conns t) = [(SYN_RCVD, 0)]" "first_index (matches sample_rx (sample_header TCP_RST)) (t_conns t) = Some 0"
    using sample_ssl_syn by (elim exE conjE) (rule that)
  have "tcp_process list_ops sample_ssl_events sample_rx 20 (sample_segment TCP_RST) t = None"
  proof (rule ssl_server_reset_crash [OF sample_segment_header t(3)])
    show "hd_has (sample_header TCP_RST) TCP_RST"
      by (simp add: sample_header_def)
    show "tcpv4_checksum (rx_src sample_rx) (rx_dst sample_rx) 20 (sample_segment TCP_RST) = Some 0xFFFF"
      using tcp_image_verifies [of "[]" "ip4_make 10 1 0 2" "ip4_make 10 1 0 1" "sample_header TCP_RST"]
      by (simp add: sample_rx_def sample_segment_def)
    show "m_cookie (t_conns t ! 0) = 0"
      using t(2) by auto
  qed
  then show ?thesis
    using t(1) by blast
qed

end
