(* ===== verification/Ofed.thy ===== *)
theory Ofed
  imports Fifo Net
begin

text \<open>
  The device on an Ethernet port with raw packet queue pairs (\<^verbatim>\<open>src/transport/ofed\<close>). The verbs library, the
  network interface behind it and the calls of the operating system are a parameter, the record \<open>verbs\<close> of
  the functions the code calls, which act on a state of their own. Among this state are the bytes of the receive buffers,
  which the interface writes. The region of the send buffers is the block \<open>of_sendblk\<close> of the memory; its address \<open>of_sendbuf\<close>
  turns an offset of the block into the 64-bit address that the queues carry.
\<close>

section \<open>The verbs library\<close>

text \<open>A work completion: its request and the length and checks of a received frame.\<close>

record wc =
  wr_id :: u64
  byte_len :: u32
  wc_ipv4 :: bool
  wc_ip_csum_ok :: bool
  wc_tcp_csum_ok :: bool

datatype wr_opcode = WR_SEND | WR_TSO

record send_wr =
  sw_wr_id :: u64
  sw_addr :: u64
  sw_length :: u32
  sw_lkey :: u32
  sw_opcode :: wr_opcode
  sw_tso_mss :: u16
  sw_tso_hdr :: u64
  sw_tso_hdr_sz :: u32
  sw_inline :: bool

text \<open>A flow steers the frames to an Ethernet address, or to a TCP port of an IPv4 address, to the queue pair.\<close>

datatype flow_attr = EthFlow int mac | TcpFlow int mac ip4 u16

datatype ppoll_result = PollError | PollInterrupted | PollTimeout | PollReady

text \<open>
  A Boolean result says whether the call reported success. \<open>None\<close> of the queues is a negative number of completions, \<open>None\<close> of
  \<open>vb_create_flow\<close> a null pointer.
\<close>

record 'v verbs =
  vb_poll_send :: "u16 \<Rightarrow> 'v \<Rightarrow> wc list option \<times> 'v"
  vb_poll_recv :: "u16 \<Rightarrow> 'v \<Rightarrow> wc list option \<times> 'v"
  vb_post_recv :: "u64 \<Rightarrow> u64 \<Rightarrow> u32 \<Rightarrow> u32 \<Rightarrow> 'v \<Rightarrow> bool \<times> 'v"
  vb_post_send :: "send_wr \<Rightarrow> mem \<Rightarrow> 'v \<Rightarrow> bool \<times> 'v"
  vb_recv_bytes :: "'v \<Rightarrow> u8 list"
  vb_req_notify :: "'v \<Rightarrow> bool \<times> 'v"
  vb_ppoll :: "u64 \<Rightarrow> 'v \<Rightarrow> ppoll_result \<times> 'v"
  vb_get_event :: "'v \<Rightarrow> bool \<times> 'v"
  vb_ack_events :: "u64 \<Rightarrow> 'v \<Rightarrow> 'v"
  vb_create_flow :: "flow_attr \<Rightarrow> 'v \<Rightarrow> nat option \<times> 'v"
  vb_destroy_flow :: "nat \<Rightarrow> 'v \<Rightarrow> 'v"

section \<open>The device\<close>

text \<open>The two options of the build that change the device.\<close>

record ofed_config =
  cf_hw_checksum :: bool
  cf_hw_tso :: bool

record 'v ofed =
  of_nbuf :: u16
  of_pending :: u16
  of_port :: int
  of_address :: mac
  of_ip :: ip4
  of_dr :: ip4
  of_nm :: ip4
  of_hwmtu :: u32
  of_mtu :: u32
  of_buflen :: u64
  of_events :: u64
  of_sendbuf :: u64
  of_sendblk :: nat
  of_recvbuf :: u64
  of_sendkey :: u32
  of_recvkey :: u32
  of_fifo :: "fifo option"
  of_bcast :: "nat option"
  of_flow :: "nat option"
  of_filters :: "u16 \<Rightarrow> nat option"
  of_hints :: u16
  of_hw :: 'v

definition EVENT_CLEANUP_THRESHOLD :: u64 where "EVENT_CLEANUP_THRESHOLD = 16"
definition INLINE_DATA_THRESHOLD :: u32 where "INLINE_DATA_THRESHOLD = 256"
definition POST_RECV_THRESHOLD :: nat where "POST_RECV_THRESHOLD = 32"
definition RECV_BUFLEN :: u32 where "RECV_BUFLEN = 2 * 1024"

definition ofed_rbavail :: "'v ofed \<Rightarrow> u16" where
  "ofed_rbavail d = of_nbuf d - of_pending d"

definition ofed_hint :: "u16 \<Rightarrow> 'v ofed \<Rightarrow> 'v ofed" where
  "ofed_hint h d = d\<lparr>of_hints := of_hints d OR h\<rparr>"

text \<open>The id is an \<^verbatim>\<open>int\<close>: widening it to the id of the request extends its sign, and the offset of the buffer is computed in
  32 bits.\<close>

definition postReceive :: "'v verbs \<Rightarrow> u32 \<Rightarrow> 'v ofed \<Rightarrow> status \<times> 'v ofed" where
  "postReceive V n d =
     (case vb_post_recv V (scast n) (of_recvbuf d + ucast (n * RECV_BUFLEN)) RECV_BUFLEN (of_recvkey d) (of_hw d) of
        (ok, v) \<Rightarrow> (if ok then Ok else HardwareError, d\<lparr>of_hw := v\<rparr>))"

subsection \<open>Receiving\<close>

text \<open>As for the other devices the state of the processor contains the device.\<close>

fun repost :: "'v verbs \<Rightarrow> ('s \<Rightarrow> 'v ofed) \<Rightarrow> ('v ofed \<Rightarrow> 's \<Rightarrow> 's) \<Rightarrow> wc list \<Rightarrow> 's \<Rightarrow> status \<times> 's" where
  "repost V dev set_dev [] s = (Ok, s)"
| "repost V dev set_dev (w # ws) s = (case postReceive V (ucast (wr_id w)) (dev s) of (res, d) \<Rightarrow>
     if res \<noteq> Ok then (HardwareError, set_dev d s) else repost V dev set_dev ws (set_dev d s))"

definition recv_buffer :: "'v verbs \<Rightarrow> 'v ofed \<Rightarrow> u32 \<Rightarrow> u8 list option" where
  "recv_buffer V d n = (let i = unat (n * RECV_BUFLEN); bs = vb_recv_bytes V (of_hw d)
     in if i \<le> length bs then Some (drop i bs) else None)"

definition csum_bad :: "ofed_config \<Rightarrow> u16 \<Rightarrow> wc \<Rightarrow> bool" where
  "csum_bad cf hints w \<longleftrightarrow> cf_hw_checksum cf \<and> wc_ipv4 w \<and>
     (hints AND 1 \<noteq> 0 \<and> \<not> wc_ip_csum_ok w \<or> hints AND 2 \<noteq> 0 \<and> \<not> wc_tcp_csum_ok w)"

text \<open>The loop over the completions \<open>wcs\<close>: \<open>i\<close> is the index of the first of \<open>todo\<close>, \<open>pre\<close> that of the first buffer not yet
  posted again. The status of the processor is not looked at.\<close>

fun poll_loop :: "ofed_config \<Rightarrow> 'v verbs \<Rightarrow> ('s \<Rightarrow> 'v ofed) \<Rightarrow> ('v ofed \<Rightarrow> 's \<Rightarrow> 's) \<Rightarrow>
    (u16 \<Rightarrow> u8 list \<Rightarrow> 's \<Rightarrow> (status \<times> 's) option) \<Rightarrow> wc list \<Rightarrow> nat \<Rightarrow> nat \<Rightarrow> wc list \<Rightarrow> 's \<Rightarrow> (status \<times> 's) option" where
  "poll_loop cf V dev set_dev proc wcs i pre [] s = (case repost V dev set_dev (drop pre wcs) s of (res, s) \<Rightarrow>
     if res \<noteq> Ok then Some (HardwareError, s) else Some (Ok, set_dev ((dev s)\<lparr>of_pending := 0\<rparr>) s))"
| "poll_loop cf V dev set_dev proc wcs i pre (w # todo) s =
     (if csum_bad cf (of_hints (dev s)) w then poll_loop cf V dev set_dev proc wcs (i + 1) pre todo s
      else case recv_buffer V (dev s) (ucast (wr_id w)) of None \<Rightarrow> None
      | Some data \<Rightarrow> (case proc (ucast (byte_len w)) data s of None \<Rightarrow> None
      | Some (_, s) \<Rightarrow>
         (if i > 0 \<and> i mod POST_RECV_THRESHOLD = 0
          then case repost V dev set_dev (take POST_RECV_THRESHOLD (drop pre wcs)) s of (res, s) \<Rightarrow>
            if res \<noteq> Ok then Some (HardwareError, s)
            else poll_loop cf V dev set_dev proc wcs (i + 1) (pre + POST_RECV_THRESHOLD) todo
              (set_dev ((dev s)\<lparr>of_pending := of_pending (dev s) - of_nat POST_RECV_THRESHOLD\<rparr>) s)
          else poll_loop cf V dev set_dev proc wcs (i + 1) pre todo s)))"

text \<open>\<open>None\<close> is also the result when the library writes more completions than the array has room for.\<close>

definition ofed_poll :: "ofed_config \<Rightarrow> 'v verbs \<Rightarrow> ('s \<Rightarrow> 'v ofed) \<Rightarrow> ('v ofed \<Rightarrow> 's \<Rightarrow> 's) \<Rightarrow>
    (u16 \<Rightarrow> u8 list \<Rightarrow> 's \<Rightarrow> (status \<times> 's) option) \<Rightarrow> 's \<Rightarrow> (status \<times> 's) option" where
  "ofed_poll cf V dev set_dev proc s = (case vb_poll_recv V (of_nbuf (dev s)) (of_hw (dev s)) of (r, v) \<Rightarrow>
     let s = set_dev ((dev s)\<lparr>of_hw := v\<rparr>) s
     in (case r of None \<Rightarrow> Some (HardwareError, s)
        | Some wcs \<Rightarrow>
            if wcs = [] then Some (NoDataAvailable, s)
            else if unat (of_nbuf (dev s)) < length wcs then None
            else poll_loop cf V dev set_dev proc wcs 0 0 wcs (set_dev ((dev s)\<lparr>of_pending := of_nat (length wcs)\<rparr>) s)))"

definition ofed_wait :: "ofed_config \<Rightarrow> 'v verbs \<Rightarrow> ('s \<Rightarrow> 'v ofed) \<Rightarrow> ('v ofed \<Rightarrow> 's \<Rightarrow> 's) \<Rightarrow>
    (u16 \<Rightarrow> u8 list \<Rightarrow> 's \<Rightarrow> (status \<times> 's) option) \<Rightarrow> u64 \<Rightarrow> 's \<Rightarrow> (status \<times> 's) option" where
  "ofed_wait cf V dev set_dev proc ns s = (
     let d = dev s;
         d = (if of_events d = EVENT_CLEANUP_THRESHOLD
              then d\<lparr>of_hw := vb_ack_events V (of_events d) (of_hw d), of_events := 0\<rparr> else d);
         (ok, v) = vb_req_notify V (of_hw d); d = d\<lparr>of_hw := v\<rparr>
     in if \<not> ok then Some (HardwareError, set_dev d s)
        else let (rc, v) = vb_ppoll V ns (of_hw d); d = d\<lparr>of_hw := v\<rparr>
        in (case rc of
             PollError \<Rightarrow> Some (HardwareError, set_dev d s)
           | PollTimeout \<Rightarrow> Some (NoDataAvailable, set_dev d s)
           | PollInterrupted \<Rightarrow> ofed_poll cf V dev set_dev proc (set_dev d s)
           | PollReady \<Rightarrow> (let (ok, v) = vb_get_event V (of_hw d); d = d\<lparr>of_hw := v\<rparr>
               in if \<not> ok then Some (HardwareError, set_dev d s)
                  else ofed_poll cf V dev set_dev proc (set_dev (d\<lparr>of_events := of_events d + 1\<rparr>) s))))"

subsection \<open>Sending\<close>

text \<open>The queue of free send buffers holds their addresses, as the bytes of the pointers.\<close>

definition ofed_ptr :: "'v ofed \<Rightarrow> u64 \<Rightarrow> ptr" where
  "ofed_ptr d a = Ptr (of_sendblk d) (unat (a - of_sendbuf d))"

text \<open>The address of a pointer into the send buffers, the only buffers the device has handed out.\<close>

fun ofed_addr :: "'v ofed \<Rightarrow> ptr \<Rightarrow> u64 option" where
  "ofed_addr d Null = Some 0"
| "ofed_addr d (Ptr b i) = (if b = of_sendblk d then Some (of_sendbuf d + of_nat i) else None)"

fun push_sent :: "wc list \<Rightarrow> fifo option \<Rightarrow> fifo option option" where
  "push_sent [] f = Some f"
| "push_sent (w # ws) f = (case tulips_fifo_push f (bytes64 (wr_id w)) of None \<Rightarrow> None | Some (_, f) \<Rightarrow> push_sent ws f)"

definition ofed_prepare :: "'v verbs \<Rightarrow> mem \<Rightarrow> 'v ofed \<Rightarrow> (status \<times> ptr \<times> mem \<times> 'v ofed) option" where
  "ofed_prepare V m d = (case vb_poll_send V (of_nbuf d) (of_hw d) of (r, v) \<Rightarrow>
     let d = d\<lparr>of_hw := v\<rparr>
     in (case r of None \<Rightarrow> Some (HardwareError, Null, m, d)
        | Some wcs \<Rightarrow>
            if unat (of_nbuf d) < length wcs then None
            else do {
              f \<leftarrow> push_sent wcs (of_fifo d);
              let d = d\<lparr>of_fifo := f\<rparr>;
              if tulips_fifo_empty f = FIFO_YES then Some (NoMoreResources, Null, m, d)
              else case tulips_fifo_front f of
                (FIFO_OK, Some i) \<Rightarrow> do {
                  a \<leftarrow> rd64 (f_data (the f)) i;
                  Some (Ok, ofed_ptr d a, m, d\<lparr>of_fifo := snd (tulips_fifo_pop f)\<rparr>)
                }
              | _ \<Rightarrow> Some (HardwareError, Null, m, d)
            }))"

text \<open>The header length of a TCP segment is in the upper half of its byte 12.\<close>

definition header_length :: "mem \<Rightarrow> ptr \<Rightarrow> u32 \<Rightarrow> (bool \<times> u32) option" where
  "header_length m packet plen = do {
     off \<leftarrow> ld8 m packet (14 + 20 + 12);
     let len = 14 + 20 + push_bit 2 (ucast (drop_bit 4 off));
     Some (len \<le> plen, len)
   }"

definition post_frame :: "'v verbs \<Rightarrow> send_wr \<Rightarrow> mem \<Rightarrow> 'v ofed \<Rightarrow> (status \<times> mem \<times> 'v ofed) option" where
  "post_frame V wr m d = (case vb_post_send V wr m (of_hw d) of (ok, v) \<Rightarrow>
     Some (if ok then Ok else HardwareError, m, d\<lparr>of_hw := v\<rparr>))"

text \<open>The request for a frame sent as it is, and for one that the interface cuts into segments of \<open>mss\<close> bytes with copies of its
  header.\<close>

definition send_plain :: "'v ofed \<Rightarrow> u32 \<Rightarrow> u64 \<Rightarrow> send_wr" where
  "send_plain d len a = \<lparr>sw_wr_id = a, sw_addr = a, sw_length = len, sw_lkey = of_sendkey d, sw_opcode = WR_SEND,
     sw_tso_mss = 0, sw_tso_hdr = 0, sw_tso_hdr_sz = 0, sw_inline = (len \<le> INLINE_DATA_THRESHOLD)\<rparr>"

definition send_tso :: "'v ofed \<Rightarrow> u32 \<Rightarrow> u32 \<Rightarrow> u16 \<Rightarrow> u64 \<Rightarrow> send_wr" where
  "send_tso d len hlen mss a = \<lparr>sw_wr_id = a, sw_addr = a + ucast hlen, sw_length = len - hlen, sw_lkey = of_sendkey d,
     sw_opcode = WR_TSO, sw_tso_mss = mss, sw_tso_hdr = a, sw_tso_hdr_sz = hlen, sw_inline = (len \<le> INLINE_DATA_THRESHOLD)\<rparr>"

definition tso_mss :: "'v ofed \<Rightarrow> u32 \<Rightarrow> u16 \<Rightarrow> u16" where
  "tso_mss d hlen mss =
     (if mss = 0 \<or> ucast mss > of_hwmtu d - hlen then ucast (of_hwmtu d + 14 - hlen) else mss)"

definition ofed_commit :: "ofed_config \<Rightarrow> 'v verbs \<Rightarrow> u32 \<Rightarrow> ptr \<Rightarrow> u16 \<Rightarrow> mem \<Rightarrow> 'v ofed \<Rightarrow> (status \<times> mem \<times> 'v ofed) option" where
  "ofed_commit cf V len buf mss m d = do {
     a \<leftarrow> ofed_addr d buf;
     if \<not> cf_hw_tso cf then post_frame V (send_plain d len a) m d
     else do {
       (ok, hlen) \<leftarrow> header_length m buf len;
       if \<not> ok then Some (IncompleteData, m, d)
       else if ucast len > (ucast (of_hwmtu d) + 14 :: u64) \<and> ucast mss \<le> hlen then Some (InvalidArgument, m, d)
       else if len > hlen then post_frame V (send_tso d len hlen (tso_mss d hlen mss) a) m d
       else post_frame V (send_plain d len a) m d
     }
   }"

subsection \<open>Listening\<close>

definition ofed_listen :: "'v verbs \<Rightarrow> u16 \<Rightarrow> 'v ofed \<Rightarrow> status \<times> 'v ofed" where
  "ofed_listen V port d =
     (case vb_create_flow V (TcpFlow (of_port d + 1) (of_address d) (of_ip d) (htons port)) (of_hw d) of
        (None, v) \<Rightarrow> (HardwareError, d\<lparr>of_hw := v\<rparr>)
      | (Some f, v) \<Rightarrow> (Ok, d\<lparr>of_hw := v, of_filters := (of_filters d)(port \<mapsto> f)\<rparr>))"

definition ofed_unlisten :: "'v verbs \<Rightarrow> u16 \<Rightarrow> 'v ofed \<Rightarrow> 'v ofed" where
  "ofed_unlisten V port d = (case of_filters d port of None \<Rightarrow> d
     | Some f \<Rightarrow> d\<lparr>of_hw := vb_destroy_flow V f (of_hw d), of_filters := (of_filters d)(port := None)\<rparr>)"

definition ofed_ops :: "ofed_config \<Rightarrow> 'v verbs \<Rightarrow> 'v ofed device_ops" where
  "ofed_ops cf V = \<lparr>d_mtu = of_mtu, d_mss = (\<lambda>d. ucast (of_buflen d)), d_rblog2 = (\<lambda>d. 11), d_rbavail = ofed_rbavail,
     d_listen = ofed_listen V, d_unlisten = ofed_unlisten V, d_prepare = ofed_prepare V, d_commit = ofed_commit cf V\<rparr>"

section \<open>Construction\<close>

text \<open>
  The answers of the system and of the library to the calls of the constructors. \<open>oa_find\<close> and \<open>oa_supported\<close> are the
  search of \<^verbatim>\<open>/sys/class/net\<close> for interfaces with a supported driver; \<open>None\<close> of a registration is a null pointer,
  otherwise it is the local key. A Boolean says whether the call reported success.
\<close>

record ofed_answers =
  oa_find :: "string option"
  oa_supported :: "string \<Rightarrow> bool"
  oa_devices :: "string list"
  oa_ids :: "string \<Rightarrow> (string \<times> int) option"
  oa_link :: "string \<Rightarrow> (mac \<times> u32) option"
  oa_l3 :: "string \<Rightarrow> (ip4 \<times> ip4 \<times> ip4) option"
  oa_open :: bool
  oa_query :: bool
  oa_rx_ip :: bool
  oa_rx_tcp :: bool
  oa_max_tso :: u32
  oa_qpts :: u32
  oa_port :: bool
  oa_pd :: bool
  oa_comp :: bool
  oa_sendcq :: bool
  oa_recvcq :: bool
  oa_async :: bool
  oa_qp :: bool
  oa_init :: bool
  oa_rtr :: bool
  oa_rts :: bool
  oa_sendbuf :: u64
  oa_sendmr :: "u32 option"
  oa_recvbuf :: u64
  oa_recvmr :: "u32 option"
  oa_malloc :: bool

text \<open>\<^verbatim>\<open>HAS_TSO\<close>: the second conjunct is a disjunction of bits.\<close>

definition HAS_TSO :: "ofed_answers \<Rightarrow> bool" where
  "HAS_TSO A \<longleftrightarrow> oa_max_tso A > 0 \<and> oa_qpts A OR push_bit 8 1 \<noteq> 0"

text \<open>The queues and the two memory regions, with the message of the exception on the first failure. A failed \<^verbatim>\<open>mmap\<close> returns
  \<^verbatim>\<open>MAP_FAILED\<close>, which is not the null pointer it is compared with.\<close>

definition ofed_setup :: "ofed_answers \<Rightarrow> string + u32 \<times> u32" where
  "ofed_setup A =
     (if \<not> oa_comp A then Inl ''Cannot create receive completion channel''
      else if \<not> oa_sendcq A then Inl ''Cannot create send completion queue''
      else if \<not> oa_recvcq A then Inl ''Cannot create receive completion queue''
      else if \<not> oa_async A then Inl ''Cannot make the completion channel async''
      else if \<not> oa_qp A then Inl ''Cannot create queue pair''
      else if \<not> oa_init A then Inl ''Cannot switch QP to INIT state''
      else if \<not> oa_rtr A then Inl ''Cannot switch QP to RTR state''
      else if \<not> oa_rts A then Inl ''Cannot switch QP to RTS state''
      else if oa_sendbuf A = 0 then Inl ''Cannot MMAP() buffer''
      else (case oa_sendmr A of None \<Rightarrow> Inl ''Cannot create a memory region''
      | Some sk \<Rightarrow>
          if oa_recvbuf A = 0 then Inl ''Cannot MMAP() buffer''
          else (case oa_recvmr A of None \<Rightarrow> Inl ''Cannot create a memory region'' | Some rk \<Rightarrow> Inr (sk, rk))))"

fun post_all :: "'v verbs \<Rightarrow> nat \<Rightarrow> nat \<Rightarrow> 'v ofed \<Rightarrow> status \<times> 'v ofed" where
  "post_all V i 0 d = (Ok, d)"
| "post_all V i (Suc k) d = (case postReceive V (of_nat i) d of (res, d) \<Rightarrow>
     (if res \<noteq> Ok then (res, d) else post_all V (i + 1) k d))"

text \<open>The results of the pushes are not looked at.\<close>

fun push_all :: "nat \<Rightarrow> nat \<Rightarrow> 'v ofed \<Rightarrow> 'v ofed option" where
  "push_all i 0 d = Some d"
| "push_all i (Suc k) d = (case tulips_fifo_push (of_fifo d) (bytes64 (of_sendbuf d + of_nat i * of_buflen d)) of None \<Rightarrow> None
     | Some (_, f) \<Rightarrow> push_all (i + 1) k (d\<lparr>of_fifo := f\<rparr>))"

definition ofed_blank :: "u16 \<Rightarrow> 'v \<Rightarrow> 'v ofed" where
  "ofed_blank nbuf v = \<lparr>of_nbuf = nbuf, of_pending = 0, of_port = 0, of_address = mac_empty, of_ip = 0, of_dr = 0,
     of_nm = 0, of_hwmtu = 0, of_mtu = 0, of_buflen = 0, of_events = 0, of_sendbuf = 0, of_sendblk = 0, of_recvbuf = 0,
     of_sendkey = 0, of_recvkey = 0, of_fifo = None, of_bcast = None, of_flow = None, of_filters = (\<lambda>port. None), of_hints = 0, of_hw = v\<rparr>"

text \<open>The identification of the interface and of its capabilities.\<close>

definition ofed_identify :: "ofed_config \<Rightarrow> ofed_answers \<Rightarrow> string \<Rightarrow> 'v ofed \<Rightarrow> string + 'v ofed" where
  "ofed_identify cf A ifn d =
     (if oa_devices A = [] then Inl ''No OFED-compatible device found''
      else (case oa_ids A ifn of None \<Rightarrow> Inl ''Cannot get device and port IDs''
      | Some (devname, port) \<Rightarrow>
          if devname \<notin> set (oa_devices A) then Inl ''Requested device not found''
          else (case oa_link A ifn of None \<Rightarrow> Inl ''Cannot read device's lladdr and mtu''
          | Some (addr, hwmtu) \<Rightarrow> (case oa_l3 A ifn of None \<Rightarrow> Inl ''Cannot read device's L3 addresses''
          | Some (ip, nm, dr) \<Rightarrow>
              if \<not> oa_open A then Inl ''Cannot open device''
              else if \<not> oa_query A then Inl ''Cannot query device''
              else if cf_hw_checksum cf \<and> \<not> oa_rx_ip A then Inl ''Device does not support IP checksum offload''
              else if cf_hw_checksum cf \<and> \<not> oa_rx_tcp A then Inl ''Device does not support TCP/UDP checksum offload''
              else if cf_hw_tso cf \<and> \<not> HAS_TSO A then Inl ''Device does not support TSO''
              else if \<not> oa_port A then Inl ''Cannot query port''
              else if \<not> oa_pd A then Inl ''Cannot allocate protection domain''
              else Inr (d\<lparr>of_port := port, of_address := addr, of_hwmtu := hwmtu, of_mtu := hwmtu,
                of_buflen := (if cf_hw_tso cf then ucast (oa_max_tso A) else ucast hwmtu + 14),
                of_ip := ip, of_nm := nm, of_dr := dr\<rparr>)))))"

definition ofed_flows :: "'v verbs \<Rightarrow> 'v ofed \<Rightarrow> string + 'v ofed" where
  "ofed_flows V d = (case vb_create_flow V (EthFlow (of_port d + 1) mac_broadcast) (of_hw d) of
     (None, v) \<Rightarrow> Inl ''Cannot create broadcast flow''
   | (Some b, v) \<Rightarrow> (case vb_create_flow V (EthFlow (of_port d + 1) (of_address d)) v of
       (None, v) \<Rightarrow> Inl ''Cannot create unicast flow''
     | (Some f, v) \<Rightarrow> Inr (d\<lparr>of_bcast := Some b, of_flow := Some f, of_hw := v\<rparr>)))"

text \<open>The send buffers are a new block of zeros.\<close>

definition ofed_construct :: "ofed_config \<Rightarrow> 'v verbs \<Rightarrow> ofed_answers \<Rightarrow> string \<Rightarrow> mem \<Rightarrow> 'v ofed \<Rightarrow> (string + mem \<times> 'v ofed) option" where
  "ofed_construct cf V A ifn m d = (case ofed_identify cf A ifn d of Inl e \<Rightarrow> Some (Inl e)
     | Inr d \<Rightarrow> (case ofed_setup A of Inl e \<Rightarrow> Some (Inl e)
     | Inr (sk, rk) \<Rightarrow> (
         let d = d\<lparr>of_sendkey := sk, of_recvkey := rk, of_sendbuf := oa_sendbuf A, of_sendblk := length m, of_recvbuf := oa_recvbuf A\<rparr>;
             m = m @ [replicate (unat (ucast (of_nbuf d) * of_buflen d)) 0]
         in (case post_all V 0 (unat (of_nbuf d)) d of (res, d) \<Rightarrow>
           if res \<noteq> Ok then Some (Inl ''Cannot post receive buffer'')
           else do {
             (_, f) \<leftarrow> tulips_fifo_create (ucast (of_nbuf d)) 8 (oa_malloc A) (of_fifo d);
             d \<leftarrow> push_all 0 (unat (of_nbuf d)) (d\<lparr>of_fifo := f\<rparr>);
             Some (case ofed_flows V d of Inl e \<Rightarrow> Inl e | Inr d \<Rightarrow> Inr (m, d))
           }))))"

definition ofed_new :: "ofed_config \<Rightarrow> 'v verbs \<Rightarrow> ofed_answers \<Rightarrow> string option \<Rightarrow> u16 \<Rightarrow> mem \<Rightarrow> 'v \<Rightarrow> (string + mem \<times> 'v ofed) option" where
  "ofed_new cf V A ifn nbuf m v = (case ifn of
     None \<Rightarrow> (case oa_find A of None \<Rightarrow> Some (Inl ''No supported interface found'')
       | Some ifn \<Rightarrow> ofed_construct cf V A ifn m (ofed_blank nbuf v))
   | Some ifn \<Rightarrow> if \<not> oa_supported A ifn then Some (Inl (''Unsupported interface: '' @ ifn))
       else ofed_construct cf V A ifn m (ofed_blank nbuf v))"

section \<open>Destruction\<close>

text \<open>The flows are destroyed, the dynamic ones in the order of their ports, and the events acknowledged; what follows releases the
  queues and the memory.\<close>

definition ofed_destroy :: "'v verbs \<Rightarrow> 'v ofed \<Rightarrow> 'v" where
  "ofed_destroy V d = (
     let close = (\<lambda>f v. case f of None \<Rightarrow> v | Some f \<Rightarrow> vb_destroy_flow V f v);
         v = fold (\<lambda>port. close (of_filters d (of_nat port))) [0..<65536] (of_hw d);
         v = close (of_bcast d) (close (of_flow d) v);
         (ok, v) = vb_get_event V v
     in vb_ack_events V (if ok then of_events d + 1 else of_events d) v)"

end
