(* ===== verification/OfedRecv.thy ===== *)
theory OfedRecv
  imports Ofed
begin

text \<open>
  The receive buffers of the device of \<^verbatim>\<open>src/transport/ofed\<close> between the network interface and the processor. The
  interface may write into a buffer as long as it owns it: from the moment the buffer is posted until its completion is
  polled. A poll hands every completed frame to the processor before it posts the buffer again, in batches, and at its
  end the interface owns the completed buffers again, unless the library has refused one of them.
\<close>

section \<open>What the library and the processor promise\<close>

definition recv_slot :: "'v verbs \<Rightarrow> 'v \<Rightarrow> u64 \<Rightarrow> u8 list" where
  "recv_slot V v j = take 2048 (drop (2048 * unat j) (vb_recv_bytes V v))"

text \<open>Nothing but the buffers of \<open>own\<close> has changed.\<close>

definition same_slots :: "'v verbs \<Rightarrow> u64 set \<Rightarrow> 'v \<Rightarrow> 'v \<Rightarrow> bool" where
  "same_slots V own v v' \<longleftrightarrow> length (vb_recv_bytes V v') = length (vb_recv_bytes V v) \<and>
     (\<forall>j. j \<notin> own \<longrightarrow> recv_slot V v' j = recv_slot V v j)"

text \<open>Posting one of the \<open>nbuf\<close> buffers that the interface does not own gives it to the interface, unless the library refuses it, as it
  does when the queue is full; then nobody owns it more than before.\<close>

definition posts_receive :: "'v verbs \<Rightarrow> ('v \<Rightarrow> u64 set) \<Rightarrow> u16 \<Rightarrow> u64 \<Rightarrow> u32 \<Rightarrow> bool" where
  "posts_receive V own nbuf base key \<longleftrightarrow> (\<forall>v j. unat j < unat nbuf \<longrightarrow> j \<notin> own v \<longrightarrow>
     (case vb_post_recv V j (base + 2048 * j) 2048 key v of (ok, v') \<Rightarrow>
        own v' = (if ok then insert j (own v) else own v) \<and> same_slots V (own v') v v'))"

text \<open>The library has refused the buffer of \<open>w\<close> while the interface owned \<open>owned\<close>, which left it in the state \<open>v'\<close>.\<close>

definition refused :: "'v verbs \<Rightarrow> ('v \<Rightarrow> u64 set) \<Rightarrow> u64 \<Rightarrow> u32 \<Rightarrow> wc \<Rightarrow> u64 set \<Rightarrow> 'v \<Rightarrow> bool" where
  "refused V own base key w owned v' \<longleftrightarrow>
     (\<exists>v. own v = owned \<and> vb_post_recv V (wr_id w) (base + 2048 * wr_id w) 2048 key v = (False, v'))"

text \<open>How a poll ends that has processed \<open>n\<close> of the completions: with all of them and their buffers posted again, or because the library
  has refused the buffer of one of them; then the buffers of those before it are posted, and no other.\<close>

definition poll_ends :: "'v verbs \<Rightarrow> ('v \<Rightarrow> u64 set) \<Rightarrow> u64 \<Rightarrow> u32 \<Rightarrow> 'v \<Rightarrow> wc list \<Rightarrow> nat \<Rightarrow> status \<Rightarrow> 'v ofed \<Rightarrow> bool" where
  "poll_ends V own base key v wcs n st d \<longleftrightarrow>
     (if st = Ok then n = length wcs \<and> own (of_hw d) = own v \<union> set (List.map wr_id wcs) \<and> of_pending d = 0
      else st = HardwareError \<and> (\<exists>m<n. own (of_hw d) = own v \<union> set (List.map wr_id (take m wcs)) \<and>
        refused V own base key (wcs ! m) (own (of_hw d)) (of_hw d)))"

text \<open>A processor that keeps what it hears, the last frame last. It may send on the device.\<close>

definition kept_device :: "'v ofed \<Rightarrow> 'v ofed \<Rightarrow> bool" where
  "kept_device d d' \<longleftrightarrow> of_recvbuf d' = of_recvbuf d \<and> of_recvkey d' = of_recvkey d \<and> of_hints d' = of_hints d"

definition hears :: "'v verbs \<Rightarrow> ('v \<Rightarrow> u64 set) \<Rightarrow> ('s \<Rightarrow> 'v ofed) \<Rightarrow> ('v ofed \<Rightarrow> 's \<Rightarrow> 's) \<Rightarrow>
    (u16 \<Rightarrow> u8 list \<Rightarrow> 's \<Rightarrow> (status \<times> 's) option) \<Rightarrow> ('s \<Rightarrow> u8 list list) \<Rightarrow> bool" where
  "hears V own dev set_dev proc got \<longleftrightarrow>
     (\<forall>d s. dev (set_dev d s) = d \<and> got (set_dev d s) = got s) \<and>
     (\<forall>len data s. unat len \<le> length data \<longrightarrow> (\<exists>r s'. proc len data s = Some (r, s') \<and>
        got s' = got s @ [take (unat len) data] \<and> own (of_hw (dev s')) = own (of_hw (dev s)) \<and>
        same_slots V (own (of_hw (dev s))) (of_hw (dev s)) (of_hw (dev s')) \<and> kept_device (dev s) (dev s')))"

text \<open>Completions of buffers the interface has given back, one for each.\<close>

definition completed :: "'v verbs \<Rightarrow> ('v \<Rightarrow> u64 set) \<Rightarrow> u16 \<Rightarrow> wc list \<Rightarrow> 'v \<Rightarrow> bool" where
  "completed V own nbuf wcs v \<longleftrightarrow> distinct (List.map wr_id wcs) \<and> set (List.map wr_id wcs) \<inter> own v = {} \<and>
     list_all (\<lambda>w. unat (wr_id w) < unat nbuf \<and> unat (byte_len w) \<le> 2048) wcs \<and>
     2048 * unat nbuf \<le> length (vb_recv_bytes V v)"

definition frame_of :: "'v verbs \<Rightarrow> 'v \<Rightarrow> wc \<Rightarrow> u8 list" where
  "frame_of V v w = take (unat (byte_len w)) (recv_slot V v (wr_id w))"

section \<open>Posting buffers again\<close>

lemma buffer_index:
  assumes "unat (j :: u64) < 65536"
  shows "unat (ucast j * 2048 :: u32) = 2048 * unat j" "scast (ucast j :: u32) = j"
    "ucast (ucast j * 2048 :: u32) = 2048 * j"
proof -
  obtain k where k: "j = of_nat k" "k < 65536"
    using assms that [of "unat j"] by simp
  then have u: "unat j = k" "(ucast j :: u32) = of_nat k"
    by (simp_all add: unsigned_of_nat take_bit_nat_eq_self)
  show "scast (ucast j :: u32) = j"
  proof -
    have "sint (of_nat k :: u32) = int k"
      using k(2) by (simp add: signed_of_nat signed_take_bit_int_eq_self)
    then show ?thesis
      unfolding u(2) scast_eq by (simp only: k(1) of_int_of_nat_eq)
  qed
  have m: "(ucast j * 2048 :: u32) = of_nat (2048 * k)"
    by (simp add: u(2))
  show "unat (ucast j * 2048 :: u32) = 2048 * unat j" "ucast (ucast j * 2048 :: u32) = 2048 * j"
    using k(2) by (simp_all only: m u(1) unsigned_of_nat) (simp_all add: take_bit_nat_eq_self k(1))
qed

lemma same_slots_trans:
  "same_slots V A v v' \<Longrightarrow> same_slots V B v' v'' \<Longrightarrow> A \<subseteq> C \<Longrightarrow> B \<subseteq> C \<Longrightarrow> same_slots V C v v''"
  unfolding same_slots_def by (metis subset_eq)

lemma kept_device_trans: "kept_device a b \<Longrightarrow> kept_device b c \<Longrightarrow> kept_device a c"
  by (simp add: kept_device_def)

lemma kept_device_upd [simp]: "kept_device d (d\<lparr>of_hw := v\<rparr>)" "kept_device d (d\<lparr>of_pending := n\<rparr>)" "kept_device d d"
  by (simp_all add: kept_device_def)

lemma postReceive_ok:
  assumes "posts_receive V own nbuf (of_recvbuf d) (of_recvkey d)" and "j \<notin> own (of_hw d)" and "unat j < unat nbuf"
  shows "\<exists>ok v'. vb_post_recv V j (of_recvbuf d + 2048 * j) 2048 (of_recvkey d) (of_hw d) = (ok, v') \<and>
    postReceive V (ucast j) d = (if ok then Ok else HardwareError, d\<lparr>of_hw := v'\<rparr>) \<and>
    own v' = (if ok then insert j (own (of_hw d)) else own (of_hw d)) \<and> same_slots V (own v') (of_hw d) v'"
proof -
  obtain ok v' where v': "vb_post_recv V j (of_recvbuf d + 2048 * j) 2048 (of_recvkey d) (of_hw d) = (ok, v')"
    by (cases "vb_post_recv V j (of_recvbuf d + 2048 * j) 2048 (of_recvkey d) (of_hw d)")
  have len: "RECV_BUFLEN = 2048" and j: "unat j < 65536"
    using assms(3) unat_lt16 [of nbuf] by (simp_all add: RECV_BUFLEN_def)
  have "postReceive V (ucast j) d = (if ok then Ok else HardwareError, d\<lparr>of_hw := v'\<rparr>)"
    unfolding postReceive_def len buffer_index(2,3) [OF j] v' by simp
  moreover have "own v' = (if ok then insert j (own (of_hw d)) else own (of_hw d)) \<and> same_slots V (own v') (of_hw d) v'"
    using assms(1-3) v' unfolding posts_receive_def by fastforce
  ultimately show ?thesis
    using v' by blast
qed

text \<open>The first \<open>m\<close> buffers of a batch are posted, and if these are not all, the library has refused the next one.\<close>

lemma repost_ok:
  assumes "hears V own dev set_dev proc got"
  shows "\<lbrakk> posts_receive V own nbuf (of_recvbuf (dev s)) (of_recvkey (dev s)); distinct (List.map wr_id ws);
      set (List.map wr_id ws) \<inter> own (of_hw (dev s)) = {}; list_all (\<lambda>w. unat (wr_id w) < unat nbuf) ws \<rbrakk> \<Longrightarrow>
    \<exists>s' m. repost V dev set_dev ws s = (if m < length ws then HardwareError else Ok, s') \<and> m \<le> length ws \<and> got s' = got s \<and>
      kept_device (dev s) (dev s') \<and> own (of_hw (dev s')) = own (of_hw (dev s)) \<union> set (List.map wr_id (take m ws)) \<and>
      same_slots V (own (of_hw (dev s'))) (of_hw (dev s)) (of_hw (dev s')) \<and>
      (m < length ws \<longrightarrow> refused V own (of_recvbuf (dev s)) (of_recvkey (dev s)) (ws ! m) (own (of_hw (dev s'))) (of_hw (dev s')))"
proof (induction ws arbitrary: s)
  case Nil
  then show ?case
    by (simp add: same_slots_def)
next
  case (Cons w ws)
  have lens: "dev (set_dev d s) = d" "got (set_dev d s) = got s" for d s
    using assms by (simp_all add: hears_def)
  obtain ok v' where v': "vb_post_recv V (wr_id w) (of_recvbuf (dev s) + 2048 * wr_id w) 2048 (of_recvkey (dev s)) (of_hw (dev s)) = (ok, v')"
      "postReceive V (ucast (wr_id w)) (dev s) = (if ok then Ok else HardwareError, (dev s)\<lparr>of_hw := v'\<rparr>)"
      "own v' = (if ok then insert (wr_id w) (own (of_hw (dev s))) else own (of_hw (dev s)))" "same_slots V (own v') (of_hw (dev s)) v'"
    using postReceive_ok [of V own nbuf "dev s" "wr_id w"] Cons.prems by auto
  let ?s = "set_dev ((dev s)\<lparr>of_hw := v'\<rparr>) s"
  show ?case
  proof (cases ok)
    case False
    then have "refused V own (of_recvbuf (dev s)) (of_recvkey (dev s)) w (own v') v'"
      using v'(1,3) by (auto simp: refused_def)
    then show ?thesis
      using False v' by (intro exI [of _ ?s] exI [of _ 0]) (simp add: lens)
  next
    case True
    have prems: "posts_receive V own nbuf (of_recvbuf (dev ?s)) (of_recvkey (dev ?s))" "distinct (List.map wr_id ws)"
        "set (List.map wr_id ws) \<inter> own (of_hw (dev ?s)) = {}" "list_all (\<lambda>w. unat (wr_id w) < unat nbuf) ws"
      using Cons.prems v'(3) True by (auto simp: lens)
    obtain s' m where s': "repost V dev set_dev ws ?s = (if m < length ws then HardwareError else Ok, s')" "m \<le> length ws" "got s' = got ?s"
        "kept_device (dev ?s) (dev s')" "own (of_hw (dev s')) = own (of_hw (dev ?s)) \<union> set (List.map wr_id (take m ws))"
        "same_slots V (own (of_hw (dev s'))) (of_hw (dev ?s)) (of_hw (dev s'))"
        "m < length ws \<longrightarrow> refused V own (of_recvbuf (dev ?s)) (of_recvkey (dev ?s)) (ws ! m) (own (of_hw (dev s'))) (of_hw (dev s'))"
      using Cons.IH [OF prems] by blast
    have "same_slots V (own (of_hw (dev s'))) (of_hw (dev s)) (of_hw (dev s'))"
      by (rule same_slots_trans [OF v'(4) s'(6) [unfolded lens, simplified]]) (auto simp: s'(5) lens)
    moreover have "kept_device (dev s) (dev s')"
      using s'(4) kept_device_trans [OF kept_device_upd(1)] by (simp add: lens)
    ultimately show ?thesis
      using s' v' True by (intro exI [of _ s'] exI [of _ "Suc m"]) (auto simp: lens)
  qed
qed

section \<open>The loop\<close>

text \<open>Before the completion \<open>i\<close> the interface owns the buffers of the first \<open>pre\<close> completions again, and batches end where
  a multiple of the threshold has been processed.\<close>

definition batched :: "nat \<Rightarrow> nat \<Rightarrow> bool" where
  "batched i pre \<longleftrightarrow> pre \<le> 32 * ((i - 1) div 32)"

lemma batched_Suc: "batched i pre \<Longrightarrow> batched (Suc i) pre"
  unfolding batched_def by (meson div_le_mono diff_le_mono le_SucI le_refl le_trans mult_le_mono2)

lemma batched_le: "batched i pre \<Longrightarrow> pre \<le> i"
  unfolding batched_def by (meson diff_le_self le_trans times_div_less_eq_dividend)

lemma batched_threshold:
  assumes "batched i pre" and "0 < i" and "i mod 32 = 0"
  shows "batched (Suc i) (pre + 32)" "pre + 32 \<le> i"
proof -
  obtain k where "i = 32 * Suc k"
    using assms(2,3) by (metis gr0_conv_Suc mod_mult_div_eq add_0_left mult_0_right neq0_conv)
  moreover have "(32 * Suc k - 1) div 32 = k"
    by simp
  ultimately show "batched (Suc i) (pre + 32)" "pre + 32 \<le> i"
    using assms(1) by (simp_all add: batched_def)
qed

lemma recv_buffer_ok:
  assumes "completed V own nbuf wcs v" and "w \<in> set wcs" and "same_slots V taken v (of_hw d)" and "wr_id w \<notin> taken"
  shows "\<exists>data. recv_buffer V d (ucast (wr_id w)) = Some data \<and> unat (ucast (byte_len w) :: u16) \<le> length data \<and>
    take (unat (ucast (byte_len w) :: u16)) data = frame_of V v w"
proof -
  let ?i = "2048 * unat (wr_id w)" and ?bs = "vb_recv_bytes V (of_hw d)" and ?n = "unat (byte_len w)"
  have w: "unat (wr_id w) < unat nbuf" "?n \<le> 2048" "2048 * unat nbuf \<le> length (vb_recv_bytes V v)"
    using assms(1,2) by (auto simp: completed_def list_all_iff)
  have len: "length ?bs = length (vb_recv_bytes V v)" "recv_slot V (of_hw d) (wr_id w) = recv_slot V v (wr_id w)"
    using assms(3,4) by (simp_all add: same_slots_def)
  have room: "?i + 2048 \<le> length ?bs"
    using w(1,3) by (simp add: len(1))
  have i: "unat (ucast (wr_id w) * RECV_BUFLEN :: u32) = ?i"
    using buffer_index(1) [of "wr_id w"] w(1) unat_lt16 [of nbuf] by (simp add: RECV_BUFLEN_def)
  have n: "unat (ucast (byte_len w) :: u16) = ?n"
    using w(2) by (simp add: unsigned_ucast_eq take_bit_nat_eq_self)
  have "frame_of V v w = take ?n (drop ?i ?bs)"
    using w(2) by (simp add: frame_of_def len(2) [symmetric], simp add: recv_slot_def min_absorb1)
  then show ?thesis
    using room w(2) by (simp add: recv_buffer_def i Let_def n)
qed

text \<open>The buffers of a batch that is to be posted again.\<close>

lemma completed_batch:
  assumes "completed V own nbuf (a @ b @ c) v"
  shows "set (List.map wr_id b) \<inter> (own v \<union> set (List.map wr_id a)) = {}" "distinct (List.map wr_id b)"
    "list_all (\<lambda>w. unat (wr_id w) < unat nbuf) b"
  using assms by (auto simp: completed_def list_all_iff)

lemma batch_append: "wcs = take p wcs @ take n (drop p wcs) @ drop (n + p) wcs"
  by (metis append_take_drop_id drop_drop)

lemma repost_batch:
  assumes "hears V own dev set_dev proc got" and c: "completed V own nbuf wcs v"
    and "posts_receive V own nbuf (of_recvbuf (dev s)) (of_recvkey (dev s))"
    and own: "own (of_hw (dev s)) = own v \<union> set (List.map wr_id (take pre wcs))"
    and same: "same_slots V (own (of_hw (dev s))) v (of_hw (dev s))" and n: "pre + n \<le> length wcs"
  shows "\<exists>s' m. repost V dev set_dev (take n (drop pre wcs)) s = (if m < n then HardwareError else Ok, s') \<and> m \<le> n \<and> got s' = got s \<and>
    kept_device (dev s) (dev s') \<and> own (of_hw (dev s')) = own v \<union> set (List.map wr_id (take (pre + m) wcs)) \<and>
    same_slots V (own (of_hw (dev s'))) v (of_hw (dev s')) \<and>
    (m < n \<longrightarrow> refused V own (of_recvbuf (dev s)) (of_recvkey (dev s)) (wcs ! (pre + m)) (own (of_hw (dev s'))) (of_hw (dev s')))"
proof -
  let ?b = "take n (drop pre wcs)"
  have len: "length ?b = n"
    using n by simp
  note b = completed_batch [of V own nbuf "take pre wcs" ?b "drop (n + pre) wcs" v, folded batch_append, OF c]
  obtain s' m where s': "repost V dev set_dev ?b s = (if m < n then HardwareError else Ok, s')" "m \<le> n" "got s' = got s"
      "kept_device (dev s) (dev s')" "own (of_hw (dev s')) = own (of_hw (dev s)) \<union> set (List.map wr_id (take m ?b))"
      "same_slots V (own (of_hw (dev s'))) (of_hw (dev s)) (of_hw (dev s'))"
      "m < n \<longrightarrow> refused V own (of_recvbuf (dev s)) (of_recvkey (dev s)) (?b ! m) (own (of_hw (dev s'))) (of_hw (dev s'))"
    using repost_ok [OF assms(1,3) b(2) _ b(3)] b(1) unfolding len own by blast
  have "take m ?b = take m (drop pre wcs)"
    using s'(2) by (simp add: min_absorb1)
  then have ids: "own v \<union> set (List.map wr_id (take (pre + m) wcs)) = own (of_hw (dev s'))"
    unfolding s'(5) own by (simp add: take_add image_Un Un_assoc)
  have "same_slots V (own (of_hw (dev s'))) v (of_hw (dev s'))"
    by (rule same_slots_trans [OF same s'(6)]) (auto simp: s'(5))
  moreover have "m < n \<Longrightarrow> ?b ! m = wcs ! (pre + m)"
    using n by simp
  ultimately show ?thesis
    using s'(1-4,7) ids [symmetric] by (intro exI [of _ s'] exI [of _ m]) simp
qed

lemma poll_loop_ok:
  assumes h: "hears V own dev set_dev proc got" and c: "completed V own nbuf wcs v" and posts: "posts_receive V own nbuf base key"
  shows "\<lbrakk> of_recvbuf (dev s) = base; of_recvkey (dev s) = key; todo = drop i wcs; batched i pre; i \<le> length wcs;
      own (of_hw (dev s)) = own v \<union> set (List.map wr_id (take pre wcs)); same_slots V (own (of_hw (dev s))) v (of_hw (dev s)) \<rbrakk> \<Longrightarrow>
    \<exists>st s' n. poll_loop cf V dev set_dev proc wcs i pre todo s = Some (st, s') \<and> n \<le> length todo \<and>
      got s' = got s @ List.map (frame_of V v) (filter (\<lambda>w. \<not> csum_bad cf (of_hints (dev s)) w) (take n todo)) \<and>
      poll_ends V own base key v wcs (i + n) st (dev s')"
proof (induction todo arbitrary: i pre s)
  case Nil
  have i: "i = length wcs" "pre \<le> i"
    using Nil(3,5) batched_le [OF Nil(4)] by simp_all
  have all: "pre + (length wcs - pre) \<le> length wcs" "take (length wcs - pre) (drop pre wcs) = drop pre wcs"
    using i by simp_all
  obtain s' m where m: "repost V dev set_dev (drop pre wcs) s = (if m < length wcs - pre then HardwareError else Ok, s')"
      "m \<le> length wcs - pre" "got s' = got s" "own (of_hw (dev s')) = own v \<union> set (List.map wr_id (take (pre + m) wcs))"
      "m < length wcs - pre \<longrightarrow> refused V own base key (wcs ! (pre + m)) (own (of_hw (dev s'))) (of_hw (dev s'))"
    using repost_batch [OF h c posts [folded Nil(1,2)] Nil(6,7) all(1), unfolded all(2) Nil(1,2)] by blast
  have less: "m < length wcs - pre \<longleftrightarrow> pre + m < length wcs"
    using i by auto
  note s' = m [unfolded less]
  show ?case
  proof (cases "pre + m < length wcs")
    case True
    then show ?thesis
      using s' i by (intro exI [of _ HardwareError] exI [of _ s']) (auto simp: poll_ends_def)
  next
    case False
    then show ?thesis
      using s' i h by (auto simp: poll_ends_def hears_def)
  qed
next
  case (Cons w todo)
  have w: "i < length wcs" "wcs ! i = w" "todo = drop (Suc i) wcs"
    using Cons.prems(3) by (metis drop_eq_Nil list.discI not_le, metis nth_via_drop, metis Cons_nth_drop_Suc drop_eq_Nil list.discI list.inject not_le)
  note lens = h [unfolded hears_def, THEN conjunct1, rule_format]
  show ?case
  proof (cases "csum_bad cf (of_hints (dev s)) w")
    case True
    obtain st s' n where "poll_loop cf V dev set_dev proc wcs (Suc i) pre todo s = Some (st, s')" "n \<le> length todo"
        "got s' = got s @ List.map (frame_of V v) (filter (\<lambda>w. \<not> csum_bad cf (of_hints (dev s)) w) (take n todo))"
        "poll_ends V own base key v wcs (Suc i + n) st (dev s')"
      using Cons.IH [OF Cons.prems(1,2) w(3) batched_Suc [OF Cons.prems(4)] _ Cons.prems(6,7)] w(1) by auto
    then show ?thesis
      using True by (intro exI [of _ st] exI [of _ s'] exI [of _ "Suc n"]) simp
  next
    case False
    have pre: "pre \<le> i"
      using batched_le [OF Cons.prems(4)] .
    then have "w \<in> set (drop pre wcs)"
      using w(1,2) nth_mem [of "i - pre" "drop pre wcs"] by simp
    then have "wr_id w \<notin> own (of_hw (dev s))"
      using completed_batch(1) [of V own nbuf "take pre wcs" "drop pre wcs" "[]" v] c Cons.prems(6) by auto
    then obtain data where data: "recv_buffer V (dev s) (ucast (wr_id w)) = Some data" "unat (ucast (byte_len w) :: u16) \<le> length data"
        "take (unat (ucast (byte_len w) :: u16)) data = frame_of V v w"
      using recv_buffer_ok [OF c _ Cons.prems(7)] w(1,2) nth_mem by metis
    obtain r s1 where s1: "proc (ucast (byte_len w)) data s = Some (r, s1)" "got s1 = got s @ [frame_of V v w]"
        "own (of_hw (dev s1)) = own (of_hw (dev s))" "same_slots V (own (of_hw (dev s))) (of_hw (dev s)) (of_hw (dev s1))"
        "kept_device (dev s) (dev s1)"
      using h data(2,3) unfolding hears_def by metis
    have k: "of_recvbuf (dev s1) = base" "of_recvkey (dev s1) = key" "of_hints (dev s1) = of_hints (dev s)"
      using s1(5) Cons.prems(1,2) by (simp_all add: kept_device_def)
    have own: "own (of_hw (dev s1)) = own v \<union> set (List.map wr_id (take pre wcs))"
      unfolding s1(3) by (rule Cons.prems(6))
    have same: "same_slots V (own (of_hw (dev s1))) v (of_hw (dev s1))"
      by (rule same_slots_trans [OF Cons.prems(7) s1(4)]) (simp_all add: s1(3))
    show ?thesis
    proof (cases "0 < i \<and> i mod POST_RECV_THRESHOLD = 0")
      case go_on: False
      obtain st s' n where "poll_loop cf V dev set_dev proc wcs (Suc i) pre todo s1 = Some (st, s')" "n \<le> length todo"
          "got s' = got s1 @ List.map (frame_of V v) (filter (\<lambda>w. \<not> csum_bad cf (of_hints (dev s1)) w) (take n todo))"
          "poll_ends V own base key v wcs (Suc i + n) st (dev s')"
        using Cons.IH [OF k(1,2) w(3) batched_Suc [OF Cons.prems(4)] _ own same] w(1) by auto
      then show ?thesis
        using False data(1) s1(1,2) go_on k(3) by (intro exI [of _ st] exI [of _ s'] exI [of _ "Suc n"]) auto
    next
      case batch: True
      then have i: "0 < i" "i mod 32 = 0"
        by (simp_all add: POST_RECV_THRESHOLD_def)
      note room = batched_threshold [OF Cons.prems(4) i]
      obtain s2 m where s2: "repost V dev set_dev (take 32 (drop pre wcs)) s1 = (if m < 32 then HardwareError else Ok, s2)" "m \<le> 32"
          "got s2 = got s1" "kept_device (dev s1) (dev s2)" "own (of_hw (dev s2)) = own v \<union> set (List.map wr_id (take (pre + m) wcs))"
          "same_slots V (own (of_hw (dev s2))) v (of_hw (dev s2))"
          "m < 32 \<longrightarrow> refused V own base key (wcs ! (pre + m)) (own (of_hw (dev s2))) (of_hw (dev s2))"
        using repost_batch [OF h c posts [folded k(1,2)] own same, of 32] room(2) w(1) unfolding k(1,2) by (meson le_trans less_imp_le)
      show ?thesis
      proof (cases "m < 32")
        case True
        then have "poll_loop cf V dev set_dev proc wcs i pre (w # todo) s = Some (HardwareError, s2)"
          using False data(1) s1(1) batch s2(1) by (simp add: POST_RECV_THRESHOLD_def)
        moreover have "poll_ends V own base key v wcs (i + 1) HardwareError (dev s2)"
          using True s2(5,7) room(2) by (auto simp: poll_ends_def intro!: exI [of _ "pre + m"])
        ultimately show ?thesis
          using s1(2) s2(3) False by (intro exI [of _ HardwareError] exI [of _ s2] exI [of _ 1]) simp
      next
        case posted: False
        let ?s = "set_dev ((dev s2)\<lparr>of_pending := of_pending (dev s2) - of_nat 32\<rparr>) s2"
        have k2: "of_recvbuf (dev ?s) = base" "of_recvkey (dev ?s) = key" "of_hints (dev ?s) = of_hints (dev s)"
          using s2(4) k by (simp_all add: kept_device_def lens)
        obtain st s' n where "poll_loop cf V dev set_dev proc wcs (Suc i) (pre + 32) todo ?s = Some (st, s')" "n \<le> length todo"
            "got s' = got ?s @ List.map (frame_of V v) (filter (\<lambda>w. \<not> csum_bad cf (of_hints (dev ?s)) w) (take n todo))"
            "poll_ends V own base key v wcs (Suc i + n) st (dev s')"
          using Cons.IH [of ?s "Suc i" "pre + 32", OF k2(1,2) w(3) room(1)] w(1) s2(2,5,6) posted by (auto simp: lens)
        moreover have "got ?s = got s @ [frame_of V v w]"
          using s1(2) s2(3) lens by simp
        ultimately show ?thesis
          using False data(1) s1(1) batch s2(1) i posted unfolding k2(3)
          by (intro exI [of _ st] exI [of _ s'] exI [of _ "Suc n"]) (simp add: POST_RECV_THRESHOLD_def)
      qed
    qed
  qed
qed

section \<open>Properties\<close>

text \<open>C22: A poll of the queue pair of the interface repeats nothing, and loses nothing unless the library refuses a buffer. When the
  library reports completions of buffers that the interface has given back, the processor hears the frames in the order of the
  completions and with the bytes they had when they were polled, although buffers are posted again while the loop runs; of the
  frames only those with a bad checksum are dropped, if the interface checks them. If the poll succeeds, these are all frames,
  the interface owns the completed buffers again besides those it owned before, and the receive window is open. Otherwise the library has
  refused one of the buffers: the poll ends there with an error, the frames it had not come to are lost, and this buffer and those of
  the later completions are not posted.\<close>
theorem ofed_poll_delivers:
  assumes "hears V own dev set_dev proc got"
    and "posts_receive V own (of_nbuf (dev s)) (of_recvbuf (dev s)) (of_recvkey (dev s))"
    and "vb_poll_recv V (of_nbuf (dev s)) (of_hw (dev s)) = (Some wcs, v)" and "wcs \<noteq> []"
    and "completed V own (of_nbuf (dev s)) wcs v"
  shows "\<exists>st s' n. ofed_poll cf V dev set_dev proc s = Some (st, s') \<and> n \<le> length wcs \<and>
    got s' = got s @ List.map (frame_of V v) (filter (\<lambda>w. \<not> csum_bad cf (of_hints (dev s)) w) (take n wcs)) \<and>
    poll_ends V own (of_recvbuf (dev s)) (of_recvkey (dev s)) v wcs n st (dev s')"
proof -
  note lens = assms(1) [unfolded hears_def, THEN conjunct1, rule_format]
  let ?s = "set_dev ((dev s)\<lparr>of_hw := v, of_pending := of_nat (length wcs)\<rparr>) (set_dev ((dev s)\<lparr>of_hw := v\<rparr>) s)"
  have "card (unat ` set (List.map wr_id wcs)) = card (set (List.map wr_id wcs))"
    by (rule card_image) (auto simp: inj_on_def word_unat_eq_iff)
  then have "length wcs = card (unat ` set (List.map wr_id wcs))"
    using assms(5) distinct_card [of "List.map wr_id wcs"] by (simp add: completed_def)
  also have "\<dots> \<le> card {..<unat (of_nbuf (dev s))}"
    using assms(5) by (intro card_mono) (auto simp: completed_def list_all_iff)
  finally have len: "length wcs \<le> unat (of_nbuf (dev s))"
    by simp
  obtain st s' n where "poll_loop cf V dev set_dev proc wcs 0 0 wcs ?s = Some (st, s')" "n \<le> length wcs"
      "got s' = got ?s @ List.map (frame_of V v) (filter (\<lambda>w. \<not> csum_bad cf (of_hints (dev ?s)) w) (take n wcs))"
      "poll_ends V own (of_recvbuf (dev s)) (of_recvkey (dev s)) v wcs n st (dev s')"
    using poll_loop_ok [OF assms(1,5,2), of ?s wcs 0 0 cf] by (auto simp: lens batched_def same_slots_def)
  then show ?thesis
    using assms(3,4) len by (intro exI [of _ st] exI [of _ s'] exI [of _ n]) (simp add: ofed_poll_def lens)
qed

text \<open>An interface with two buffers, which has received in the second and then in the first. Its state is the buffers it
  owns, the completions and the bytes of the buffers.\<close>

definition sample_verbs :: "(u64 list \<times> wc list \<times> u8 list) verbs" where
  "sample_verbs = \<lparr>vb_poll_send = (\<lambda>n v. (Some [], v)),
     vb_poll_recv = (\<lambda>n (o', ws, bs). (Some ws, o', [], bs)),
     vb_post_recv = (\<lambda>j a l k (o', ws, bs).
       if a = 0x10000 + 2048 * j \<and> l = 2048 \<and> k = 7 then (True, j # o', ws, bs) else (False, o', ws, bs)),
     vb_post_send = (\<lambda>wr m v. (True, v)), vb_recv_bytes = (\<lambda>(o', ws, bs). bs), vb_req_notify = (\<lambda>v. (True, v)),
     vb_ppoll = (\<lambda>ns v. (PollReady, v)), vb_get_event = (\<lambda>v. (True, v)), vb_ack_events = (\<lambda>n v. v),
     vb_create_flow = (\<lambda>a v. (Some 0, v)), vb_destroy_flow = (\<lambda>f v. v)\<rparr>"

definition sample_wcs :: "wc list" where
  "sample_wcs = [\<lparr>wr_id = 1, byte_len = 3, wc_ipv4 = True, wc_ip_csum_ok = True, wc_tcp_csum_ok = True\<rparr>,
     \<lparr>wr_id = 0, byte_len = 2, wc_ipv4 = True, wc_ip_csum_ok = False, wc_tcp_csum_ok = True\<rparr>]"

definition sample_ofed :: "(u64 list \<times> wc list \<times> u8 list) ofed" where
  "sample_ofed = (ofed_blank 2 ([], sample_wcs, [4, 5] @ replicate 2046 0 @ [1, 2, 3] @ replicate 2045 0))\<lparr>of_recvbuf := 0x10000, of_recvkey := 7\<rparr>"

definition hear :: "u16 \<Rightarrow> u8 list \<Rightarrow> 'd \<times> u8 list list \<Rightarrow> (status \<times> 'd \<times> u8 list list) option" where
  "hear len data = (\<lambda>(d, got). Some (Ok, d, got @ [take (unat len) data]))"

theorem ofed_poll_delivers_witness:
  "\<exists>s'. ofed_poll \<lparr>cf_hw_checksum = False, cf_hw_tso = False\<rparr> sample_verbs fst (\<lambda>d (_, got). (d, got)) hear (sample_ofed, []) = Some (Ok, s') \<and>
     snd s' = [[1, 2, 3], [4, 5]] \<and> set (fst (of_hw (fst s'))) = {0, 1} \<and> of_pending (fst s') = 0"
proof -
  let ?own = "\<lambda>v :: u64 list \<times> wc list \<times> u8 list. set (fst v)" and ?v = "([] :: u64 list, [] :: wc list, snd (snd (of_hw sample_ofed)))"
  have "hears sample_verbs ?own fst (\<lambda>d (_, got). (d, got)) hear snd"
    by (auto simp: hears_def hear_def same_slots_def)
  moreover have "posts_receive sample_verbs ?own (of_nbuf sample_ofed) (of_recvbuf sample_ofed) (of_recvkey sample_ofed)"
    by (auto simp: posts_receive_def sample_verbs_def sample_ofed_def same_slots_def recv_slot_def)
  moreover have "vb_poll_recv sample_verbs (of_nbuf sample_ofed) (of_hw sample_ofed) = (Some sample_wcs, ?v)"
    by (simp add: sample_verbs_def sample_ofed_def ofed_blank_def)
  moreover have "completed sample_verbs ?own (of_nbuf sample_ofed) sample_wcs ?v" "sample_wcs \<noteq> []"
    by (simp_all add: completed_def sample_verbs_def sample_ofed_def sample_wcs_def ofed_blank_def)
  moreover have frames: "List.map (frame_of sample_verbs ?v) sample_wcs = [[1, 2, 3], [4, 5]]" "set (List.map wr_id sample_wcs) = {0, 1}"
    by (auto simp: frame_of_def recv_slot_def sample_verbs_def sample_ofed_def sample_wcs_def ofed_blank_def)
  moreover have "\<not> refused sample_verbs ?own (of_recvbuf sample_ofed) (of_recvkey sample_ofed) w owned v" for w owned v
    by (auto simp: refused_def sample_verbs_def sample_ofed_def)
  ultimately obtain st s' n where "ofed_poll \<lparr>cf_hw_checksum = False, cf_hw_tso = False\<rparr> sample_verbs fst (\<lambda>d (_, got). (d, got)) hear (sample_ofed, []) = Some (st, s')"
      and got: "snd s' = List.map (frame_of sample_verbs ?v) (take n sample_wcs)"
      and ends: "st = Ok" "n = length sample_wcs" "set (fst (of_hw (fst s'))) = set (List.map wr_id sample_wcs)" "of_pending (fst s') = 0"
    using ofed_poll_delivers [of sample_verbs ?own fst "\<lambda>d (_, got). (d, got)" hear snd "(sample_ofed, [])" sample_wcs ?v
      "\<lparr>cf_hw_checksum = False, cf_hw_tso = False\<rparr>"]
    unfolding poll_ends_def by (simp add: csum_bad_def split: if_splits)
  then show ?thesis
    using frames by (intro exI [of _ s']) simp
qed

end
