(* ===== verification/OfedSend.thy ===== *)
theory OfedSend
  imports Ofed "HOL-Library.Multiset"
begin

text \<open>
  The send buffers of the device of \<^verbatim>\<open>src/transport/ofed\<close>. A buffer is free and in the queue of the device, lent to the stack by
  \<^verbatim>\<open>prepare\<close>, or in flight from \<^verbatim>\<open>commit\<close> until its completion is polled; when the library refuses a request it is in none of
  these places any more. No buffer is ever in two of them.
\<close>

section \<open>The queue of addresses\<close>

definition free_bufs :: "fifo \<Rightarrow> u64 list \<Rightarrow> bool" where
  "free_bufs f as \<longleftrightarrow> fifo_inv f \<and> unat (f_data_len f) = 8 \<and> fifo_elems f = List.map bytes64 as"

lemma free_push:
  assumes "free_bufs f as" and "length as < unat (f_depth f)" and "unat (f_write_count f) + 1 < 2 ^ 64"
  shows "\<exists>f'. tulips_fifo_push (Some f) (bytes64 a) = Some (FIFO_OK, Some f') \<and> free_bufs f' (as @ [a]) \<and> f_depth f' = f_depth f \<and>
    unat (f_write_count f') = unat (f_write_count f) + 1"
proof -
  obtain f' where "fifo_push1 (bytes64 a) f = Some f'" "fifo_inv f'" "fifo_elems f' = fifo_elems f @ [bytes64 a]"
      "f_depth f' = f_depth f" "f_data_len f' = f_data_len f" "unat (f_write_count f') = unat (f_write_count f) + 1"
    using fifo_push_room [of f "bytes64 a"] assms by (auto simp: free_bufs_def fifo_live_def)
  then show ?thesis
    using assms(1) by (auto simp: free_bufs_def fifo_push1_def split: option.splits prod.splits fifo_error.splits)
qed

lemma free_front:
  assumes "free_bufs f (a # as)"
  shows "\<exists>i f'. tulips_fifo_empty (Some f) \<noteq> FIFO_YES \<and> tulips_fifo_front (Some f) = (FIFO_OK, Some i) \<and> rd64 (f_data f) i = Some a \<and>
    tulips_fifo_pop (Some f) = (FIFO_OK, Some f') \<and> free_bufs f' as \<and> f_depth f' = f_depth f \<and> f_write_count f' = f_write_count f"
proof -
  have f: "fifo_inv f" "fifo_elems f = bytes64 a # List.map bytes64 as" "unat (f_data_len f) = 8"
    using assms by (simp_all add: free_bufs_def)
  have ne: "tulips_fifo_empty (Some f) \<noteq> FIFO_YES"
    using fifo_empty_iff [OF f(1)] f(2) by simp
  have "take 8 (drop (slot_at f (f_read_count f)) (f_data f)) = bytes64 a"
    using fifo_front_elems [OF f(1)] f(2,3) ne by (simp add: fifo_front1_def)
  moreover obtain f' where "fifo_pop1 f = Some f'" "fifo_inv f'" "fifo_elems f' = List.map bytes64 as" "f_depth f' = f_depth f"
      "f_data_len f' = f_data_len f" "f_write_count f' = f_write_count f"
    using fifo_pop_some [OF f(1,2)] by blast
  ultimately show ?thesis
    using ne f(3) rd64_bytes64 by (auto simp: fifo_pop1_def free_bufs_def split: if_splits)
qed

lemma push_sent_ok:
  assumes "free_bufs f as" and "length as + length wcs \<le> unat (f_depth f)" and "unat (f_write_count f) + length wcs < 2 ^ 64"
  shows "\<exists>f'. push_sent wcs (Some f) = Some (Some f') \<and> free_bufs f' (as @ List.map wr_id wcs) \<and> f_depth f' = f_depth f \<and>
    unat (f_write_count f') = unat (f_write_count f) + length wcs"
  using assms
proof (induction wcs arbitrary: f as)
  case (Cons w wcs)
  obtain f1 where f1: "tulips_fifo_push (Some f) (bytes64 (wr_id w)) = Some (FIFO_OK, Some f1)" "free_bufs f1 (as @ [wr_id w])"
      "f_depth f1 = f_depth f" "unat (f_write_count f1) = unat (f_write_count f) + 1"
    using free_push [of f as "wr_id w"] Cons.prems by auto
  then show ?case
    using Cons.IH [of f1 "as @ [wr_id w]"] Cons.prems by (auto simp del: tulips_fifo_push.simps)
qed simp

lemma free_create:
  assumes "0 < unat (n :: u16)"
  shows "\<exists>f. tulips_fifo_create (ucast n) 8 True None = Some (FIFO_OK, Some f) \<and> free_bufs f [] \<and> unat (f_depth f) = unat n \<and>
    f_write_count f = 0"
proof -
  let ?d = "ucast n :: u64"
  have n: "unat ?d = unat n" "unat n < 65536"
    by (rule unat_ucast_up_64, rule unat_lt16)
  have len: "unat (?d * 8 + 40) = unat n * 8 + 40"
    using n by (simp add: unat_word_ariths)
  moreover have "?d \<noteq> 0" "\<not> ?d * 8 + 40 < 40"
    using assms n len by (auto simp: word_less_nat_alt simp flip: word_unat_eq_iff)
  ultimately show ?thesis
    using n assms by (simp add: tulips_fifo_create_def free_bufs_def fifo_inv_def fifo_elems_def)
qed

section \<open>The calls\<close>

text \<open>What the library promises: \<open>flying\<close> are the requests it has accepted and whose completion it has not reported.\<close>

definition sends_law :: "'v verbs \<Rightarrow> ('v \<Rightarrow> u64 multiset) \<Rightarrow> bool" where
  "sends_law V flying \<longleftrightarrow>
     (\<forall>n v. case vb_poll_send V n v of (None, v') \<Rightarrow> flying v' = flying v
        | (Some wcs, v') \<Rightarrow> length wcs \<le> unat n \<and> flying v = flying v' + mset (List.map wr_id wcs)) \<and>
     (\<forall>wr m v ok v'. vb_post_send V wr m v = (ok, v') \<longrightarrow> flying v' = (if ok then add_mset (sw_wr_id wr) (flying v) else flying v)) \<and>
     (\<forall>v j a l k. flying (snd (vb_post_recv V j a l k v)) = flying v) \<and>
     (\<forall>v fl. flying (snd (vb_create_flow V fl v)) = flying v)"

text \<open>The addresses of the send buffers, and the state of the device between two calls: each of them is free, lent (\<open>L\<close>), refused (\<open>X\<close>)
  or in flight. \<open>k\<close> calls do not overflow the counters of the queue.\<close>

definition send_addrs :: "'v ofed \<Rightarrow> u64 list" where
  "send_addrs d = List.map (\<lambda>i. of_sendbuf d + of_nat i * of_buflen d) [0..<unat (of_nbuf d)]"

definition send_inv :: "('v \<Rightarrow> u64 multiset) \<Rightarrow> nat \<Rightarrow> 'v ofed \<Rightarrow> u64 multiset \<Rightarrow> u64 multiset \<Rightarrow> bool" where
  "send_inv flying k d L X \<longleftrightarrow> (\<exists>f as. of_fifo d = Some f \<and> free_bufs f as \<and> unat (f_depth f) = unat (of_nbuf d) \<and>
     mset as + L + X + flying (of_hw d) = mset (send_addrs d) \<and> unat (f_write_count f) + 65536 * k < 2 ^ 64)"

definition same_sends :: "'v ofed \<Rightarrow> 'v ofed \<Rightarrow> bool" where
  "same_sends d d' \<longleftrightarrow> of_sendbuf d' = of_sendbuf d \<and> of_sendblk d' = of_sendblk d \<and> of_buflen d' = of_buflen d \<and> of_nbuf d' = of_nbuf d"

lemma same_sends_upd [simp]: "same_sends d d" "same_sends d (d\<lparr>of_hw := v\<rparr>)" "same_sends d (d\<lparr>of_hw := v, of_fifo := f\<rparr>)"
  by (simp_all add: same_sends_def)

lemma same_sends_trans: "same_sends a b \<Longrightarrow> same_sends b c \<Longrightarrow> same_sends a c"
  by (simp add: same_sends_def)

lemma same_sends_addrs: "same_sends d d' \<Longrightarrow> send_addrs d' = send_addrs d"
  by (simp add: same_sends_def send_addrs_def)

lemma ofed_addr_ptr [simp]: "same_sends d d' \<Longrightarrow> ofed_addr d' (ofed_ptr d a) = Some a"
  by (simp add: ofed_ptr_def same_sends_def)

text \<open>\<^verbatim>\<open>prepare\<close> always returns; without a buffer to lend it says so.\<close>

lemma prepare_step:
  assumes "send_inv flying (Suc k) d L X" and "sends_law V flying"
  shows "\<exists>st p d'. ofed_prepare V m d = Some (st, p, m, d') \<and> same_sends d d' \<and>
    (if st = Ok then \<exists>a. p = ofed_ptr d a \<and> send_inv flying k d' (add_mset a L) X
     else send_inv flying k d' L X \<and> (st = NoMoreResources \<longrightarrow> L + X + flying (of_hw d') = mset (send_addrs d)))"
proof -
  obtain f as where f: "of_fifo d = Some f" "free_bufs f as" "unat (f_depth f) = unat (of_nbuf d)"
      "mset as + L + X + flying (of_hw d) = mset (send_addrs d)" "unat (f_write_count f) + 65536 * Suc k < 2 ^ 64"
    using assms(1) by (auto simp: send_inv_def)
  obtain r v where r: "vb_poll_send V (of_nbuf d) (of_hw d) = (r, v)"
    by (cases "vb_poll_send V (of_nbuf d) (of_hw d)")
  have law: "case r of None \<Rightarrow> flying v = flying (of_hw d)
      | Some wcs \<Rightarrow> length wcs \<le> unat (of_nbuf d) \<and> flying (of_hw d) = flying v + mset (List.map wr_id wcs)"
    using assms(2) [unfolded sends_law_def, THEN conjunct1, THEN spec, THEN spec, of "of_hw d" "of_nbuf d"] by (simp add: r split: option.splits)
  show ?thesis
  proof (cases r)
    case None
    then have "send_inv flying k (d\<lparr>of_hw := v\<rparr>) L X"
      using f law by (auto simp: send_inv_def send_addrs_def)
    then show ?thesis
      by (simp add: ofed_prepare_def r None)
  next
    case (Some wcs)
    let ?as = "as @ List.map wr_id wcs"
    have w: "length wcs \<le> unat (of_nbuf d)" "flying (of_hw d) = flying v + mset (List.map wr_id wcs)"
      using law Some by simp_all
    have all: "mset ?as + L + X + flying v = mset (send_addrs d)"
      using f(4) by (simp add: w(2) ac_simps)
    have "size (mset ?as) \<le> size (mset (send_addrs d))"
      by (simp only: all [symmetric] size_union)
    then have fit: "length as + length wcs \<le> unat (f_depth f)"
      by (simp add: send_addrs_def f(3))
    obtain f1 where f1: "push_sent wcs (Some f) = Some (Some f1)" "free_bufs f1 ?as" "f_depth f1 = f_depth f"
        "unat (f_write_count f1) = unat (f_write_count f) + length wcs"
      using push_sent_ok [OF f(2) fit] f(5) w(1) unat_lt16 [of "of_nbuf d"] by auto
    have live: "unat (f_write_count f1) + 65536 * k < 2 ^ 64"
      using f1(4) f(5) w(1) unat_lt16 [of "of_nbuf d"] by simp
    show ?thesis
    proof (cases ?as)
      case Nil
      then have "tulips_fifo_empty (Some f1) = FIFO_YES"
        using f1(2) fifo_empty_iff by (auto simp: free_bufs_def simp del: tulips_fifo_empty.simps)
      moreover have "send_inv flying k (d\<lparr>of_hw := v, of_fifo := Some f1\<rparr>) L X" "L + X + flying v = mset (send_addrs d)"
        using f1 f(3) live all Nil by (auto simp: send_inv_def send_addrs_def)
      ultimately show ?thesis
        using w(1) by (simp add: ofed_prepare_def r Some f(1) f1(1) del: tulips_fifo_empty.simps)
    next
      case (Cons a bs)
      obtain i f2 where f2: "tulips_fifo_empty (Some f1) \<noteq> FIFO_YES" "tulips_fifo_front (Some f1) = (FIFO_OK, Some i)"
          "rd64 (f_data f1) i = Some a" "tulips_fifo_pop (Some f1) = (FIFO_OK, Some f2)" "free_bufs f2 bs" "f_depth f2 = f_depth f1"
          "f_write_count f2 = f_write_count f1"
        using free_front [of f1 a bs] f1(2) Cons by auto
      have "mset bs + add_mset a L + X + flying v = mset (send_addrs d)"
        using all Cons by simp
      then have "send_inv flying k (d\<lparr>of_hw := v, of_fifo := Some f2\<rparr>) (add_mset a L) X"
        using f2 f1 f(3) live by (auto simp: send_inv_def send_addrs_def)
      moreover have "ofed_ptr (d\<lparr>of_hw := v, of_fifo := Some f1\<rparr>) a = ofed_ptr d a"
        by (simp add: ofed_ptr_def)
      ultimately show ?thesis
        using w(1) by (simp add: ofed_prepare_def r Some f(1) f1(1) f2 del: tulips_fifo_empty.simps tulips_fifo_front.simps tulips_fifo_pop.simps) blast
    qed
  qed
qed

text \<open>A buffer that was lent is given to the library, or is lost if the device or the library refuses it.\<close>

lemma post_frame_step:
  assumes "send_inv flying (Suc k) d (add_mset (sw_wr_id wr) L) X" and "sends_law V flying"
  shows "\<exists>st d'. post_frame V wr m d = Some (st, m, d') \<and> same_sends d d' \<and>
    send_inv flying k d' L (if st = Ok then X else add_mset (sw_wr_id wr) X)"
proof -
  obtain ok v where v: "vb_post_send V wr m (of_hw d) = (ok, v)"
    by (cases "vb_post_send V wr m (of_hw d)")
  have "flying v = (if ok then add_mset (sw_wr_id wr) (flying (of_hw d)) else flying (of_hw d))"
    using assms(2) v unfolding sends_law_def by blast
  moreover obtain f as where "of_fifo d = Some f" "free_bufs f as" "unat (f_depth f) = unat (of_nbuf d)"
      "mset as + add_mset (sw_wr_id wr) L + X + flying (of_hw d) = mset (send_addrs d)" "unat (f_write_count f) + 65536 * Suc k < 2 ^ 64"
    using assms(1) unfolding send_inv_def by blast
  moreover from this(4) have "add_mset (sw_wr_id wr) (mset as + L + X + flying (of_hw d)) = mset (send_addrs (d\<lparr>of_hw := v\<rparr>))"
    by (simp add: send_addrs_def)
  ultimately have "send_inv flying k (d\<lparr>of_hw := v\<rparr>) L (if ok then X else add_mset (sw_wr_id wr) X)"
    unfolding send_inv_def by (intro exI [of _ f] exI [of _ as]) (cases ok, simp_all)
  then show ?thesis
    by (simp add: post_frame_def v split: if_splits)
qed

lemma send_inv_refuse:
  "send_inv flying (Suc k) d (add_mset a L) X \<Longrightarrow> send_inv flying k d L (add_mset a X)"
  by (auto simp: send_inv_def)

lemma commit_step:
  assumes "send_inv flying (Suc k) d (add_mset a L) X" and "sends_law V flying"
    and "ofed_commit cf V len (ofed_ptr d a) mss m d = Some (st, m', d')"
  shows "same_sends d d' \<and> send_inv flying k d' L (if st = Ok then X else add_mset a X)"
proof -
  have wr: "sw_wr_id (send_plain d len a) = a" "sw_wr_id (send_tso d len h n a) = a" for h n
    by (simp_all add: send_plain_def send_tso_def)
  have post: "same_sends d d' \<and> send_inv flying k d' L (if st = Ok then X else add_mset a X)"
    if "post_frame V wr m d = Some (st, m', d')" "sw_wr_id wr = a" for wr
    using post_frame_step [of flying k d wr L X V m] assms(1,2) that by auto
  show ?thesis
    using assms(3) send_inv_refuse [OF assms(1)] post [OF _ wr(1)] post [OF _ wr(2)]
    by (auto simp: ofed_commit_def Some_eq_bind split: if_splits)
qed

text \<open>The stack lends a buffer for every \<open>Ok\<close> of \<^verbatim>\<open>prepare\<close> and commits buffers it was lent, in any order, whatever it has
  written to the memory meanwhile.\<close>

inductive sending :: "ofed_config \<Rightarrow> 'v verbs \<Rightarrow> 'v ofed \<times> u64 multiset \<times> u64 multiset \<Rightarrow> 'v ofed \<times> u64 multiset \<times> u64 multiset \<Rightarrow> bool"
  for cf :: ofed_config and V :: "'v verbs"
where
  lend: "ofed_prepare V m d = Some (Ok, p, m', d') \<Longrightarrow> ofed_addr d p = Some a \<Longrightarrow> sending cf V (d, L, X) (d', add_mset a L, X)"
| none: "ofed_prepare V m d = Some (st, p, m', d') \<Longrightarrow> st \<noteq> Ok \<Longrightarrow> sending cf V (d, L, X) (d', L, X)"
| post: "ofed_commit cf V len (ofed_ptr d a) mss m d = Some (Ok, m', d') \<Longrightarrow> sending cf V (d, add_mset a L, X) (d', L, X)"
| refuse: "ofed_commit cf V len (ofed_ptr d a) mss m d = Some (st, m', d') \<Longrightarrow> st \<noteq> Ok \<Longrightarrow> sending cf V (d, add_mset a L, X) (d', L, add_mset a X)"

inductive_cases sendingE: "sending cf V s t"

lemma sending_step:
  assumes "sending cf V (d, L, X) (d', L', X')" and "send_inv flying (Suc k) d L X" and "sends_law V flying"
  shows "same_sends d d' \<and> send_inv flying k d' L' X'"
  using assms(1)
proof (cases rule: sending.cases)
  case (lend m p m' a)
  then show ?thesis
    using prepare_step [OF assms(2,3), of m] by auto
next
  case (none m st p m')
  then show ?thesis
    using prepare_step [OF assms(2,3), of m] by auto
next
  case (post len a mss m m')
  then show ?thesis
    using commit_step [of flying k d a L' X V cf len mss m Ok m' d'] assms(2,3) by simp
next
  case (refuse len a mss m st m')
  then show ?thesis
    using commit_step [of flying k d a L' X V cf len mss m st m' d'] assms(2,3) by simp
qed

lemma sending_steps:
  "(sending cf V ^^ n) (d, L, X) (d', L', X') \<Longrightarrow> send_inv flying (n + k) d L X \<Longrightarrow> sends_law V flying \<Longrightarrow>
    same_sends d d' \<and> send_inv flying k d' L' X'"
proof (induction n arbitrary: d' L' X' k)
  case (Suc n)
  then obtain d1 L1 X1 where s: "(sending cf V ^^ n) (d, L, X) (d1, L1, X1)" "sending cf V (d1, L1, X1) (d', L', X')"
    by auto
  show ?case
    using Suc.IH [OF s(1), of "Suc k"] Suc.prems(2,3) sending_step [OF s(2)] same_sends_trans by fastforce
qed simp

section \<open>The device after its construction\<close>

lemma post_all_sends:
  assumes "sends_law V flying"
  shows "post_all V i k d = (st, d') \<Longrightarrow> \<exists>v. d' = d\<lparr>of_hw := v\<rparr> \<and> flying v = flying (of_hw d)"
proof (induction k arbitrary: i d)
  case (Suc k)
  obtain st1 d1 where p: "postReceive V (of_nat i) d = (st1, d1)"
    by (cases "postReceive V (of_nat i) d")
  then obtain v1 where d1: "d1 = d\<lparr>of_hw := v1\<rparr>" "flying v1 = flying (of_hw d)"
    using assms by (auto simp: postReceive_def sends_law_def split: prod.splits dest: arg_cong [where f = snd]) (metis snd_conv)
  then show ?case
    using Suc.IH [of "i + 1" d1] Suc.prems p by (cases "st1 = Ok") auto
next
  case 0
  then show ?case
    by (intro exI [of _ "of_hw d"]) simp
qed

lemma push_all_free:
  "of_fifo d = Some f \<Longrightarrow> free_bufs f as \<Longrightarrow> length as + k \<le> unat (f_depth f) \<Longrightarrow> unat (f_write_count f) + k < 2 ^ 64 \<Longrightarrow>
    \<exists>f'. push_all i k d = Some (d\<lparr>of_fifo := Some f'\<rparr>) \<and> f_depth f' = f_depth f \<and> unat (f_write_count f') = unat (f_write_count f) + k \<and>
      free_bufs f' (as @ List.map (\<lambda>i. of_sendbuf d + of_nat i * of_buflen d) [i..<i + k])"
proof (induction k arbitrary: i d f as)
  case 0
  then show ?case
    by (auto intro!: exI [of _ f])
next
  case (Suc k)
  let ?a = "of_sendbuf d + of_nat i * of_buflen d"
  obtain f1 where f1: "tulips_fifo_push (Some f) (bytes64 ?a) = Some (FIFO_OK, Some f1)" "free_bufs f1 (as @ [?a])" "f_depth f1 = f_depth f"
      "unat (f_write_count f1) = unat (f_write_count f) + 1"
    using free_push [of f as ?a] Suc.prems by auto
  have upt: "[i..<Suc (i + k)] = i # [Suc i..<Suc (i + k)]"
    by (simp add: upt_conv_Cons del: upt_Suc)
  show ?case
    using Suc.IH [of "d\<lparr>of_fifo := Some f1\<rparr>" f1 "as @ [?a]" "i + 1"] Suc.prems f1
    by (auto simp: upt simp del: tulips_fifo_push.simps upt_Suc)
qed

lemma flows_sends:
  assumes "sends_law V flying" and "ofed_flows V d = Inr d'"
  shows "\<exists>b f v. d' = d\<lparr>of_bcast := b, of_flow := f, of_hw := v\<rparr> \<and> flying v = flying (of_hw d)"
proof -
  have law: "flying (snd (vb_create_flow V fl v)) = flying v" for fl v
    using assms(1) unfolding sends_law_def by blast
  obtain b v1 f v2 where "vb_create_flow V (EthFlow (of_port d + 1) mac_broadcast) (of_hw d) = (Some b, v1)"
      "vb_create_flow V (EthFlow (of_port d + 1) (of_address d)) v1 = (Some f, v2)"
      "d' = d\<lparr>of_bcast := Some b, of_flow := Some f, of_hw := v2\<rparr>"
    using assms(2) by (auto simp: ofed_flows_def split: prod.splits option.splits)
  then show ?thesis
    using law [of "EthFlow (of_port d + 1) mac_broadcast" "of_hw d"] law [of "EthFlow (of_port d + 1) (of_address d)" v1] by auto
qed

lemma identify_fields:
  assumes "ofed_identify cf A ifn d = Inr d'"
  shows "of_nbuf d' = of_nbuf d \<and> of_hw d' = of_hw d \<and> of_fifo d' = of_fifo d \<and> 0 < unat (of_buflen d') \<and> unat (of_buflen d') < 2 ^ 33"
proof -
  have big: "unat (ucast (n :: u32) + 14 :: u64) = unat n + 14" "unat (ucast n :: u64) = unat n" for n
    using unat_lt32 [of n] by (simp_all add: unat_word_ariths unsigned_ucast_eq take_bit_nat_eq_self)
  have "unat n < 8589934578" for n :: u32
    using unat_lt32 [of n] by simp
  moreover from this have "unat n < 8589934592" for n :: u32
    by (rule order.strict_trans) simp
  ultimately show ?thesis
    using assms big
    by (auto simp: ofed_identify_def HAS_TSO_def word_less_nat_alt split: if_splits option.splits prod.splits)
qed

lemma construct_inv:
  assumes "ofed_construct cf V A ifn m0 d0 = Some (Inr (m, d))" and "oa_malloc A" and "of_fifo d0 = None" and n: "0 < unat (of_nbuf d0)"
    and "sends_law V flying" and "flying (of_hw d0) = {#}"
  shows "send_inv flying (2 ^ 47) d {#} {#} \<and> of_nbuf d = of_nbuf d0 \<and> unat (of_buflen d) < 2 ^ 33 \<and> 0 < unat (of_buflen d) \<and>
    of_sendblk d = length m0 \<and> m = m0 @ [replicate (unat (ucast (of_nbuf d) * of_buflen d)) 0]"
proof -
  let ?n = "unat (of_nbuf d0)"
  obtain d1 sk rk where d1: "ofed_identify cf A ifn d0 = Inr d1" "ofed_setup A = Inr (sk, rk)"
    using assms(1) by (auto simp: ofed_construct_def split: sum.splits)
  let ?d2 = "d1\<lparr>of_sendkey := sk, of_recvkey := rk, of_sendbuf := oa_sendbuf A, of_sendblk := length m0, of_recvbuf := oa_recvbuf A\<rparr>"
  note id = identify_fields [OF d1(1)]
  obtain st d3 where d3: "post_all V 0 (unat (of_nbuf ?d2)) ?d2 = (st, d3)"
    by (cases "post_all V 0 (unat (of_nbuf ?d2)) ?d2")
  then obtain v3 where v3: "d3 = ?d2\<lparr>of_hw := v3\<rparr>" "flying v3 = flying (of_hw d0)"
    using post_all_sends [OF assms(5) d3] id by auto
  have nb: "of_nbuf d3 = of_nbuf d0" "of_fifo d3 = None" "st = Ok"
    using v3 id assms(1,3) d1 d3 by (simp_all add: ofed_construct_def Let_def split: if_splits)
  obtain f where f: "tulips_fifo_create (ucast (of_nbuf d0)) 8 True None = Some (FIFO_OK, Some f)" "free_bufs f []" "unat (f_depth f) = ?n"
      "f_write_count f = 0"
    using free_create [OF n] by blast
  have "unat (f_write_count f) + ?n < 2 ^ 64"
    using f(4) unat_lt16 [of "of_nbuf d0"] by simp
  then obtain f' where f': "push_all 0 ?n (d3\<lparr>of_fifo := Some f\<rparr>) = Some (d3\<lparr>of_fifo := Some f'\<rparr>)" "f_depth f' = f_depth f"
      "unat (f_write_count f') = ?n" "free_bufs f' (send_addrs (d3\<lparr>of_fifo := Some f'\<rparr>))"
    using push_all_free [of "d3\<lparr>of_fifo := Some f\<rparr>" f "[]" ?n 0] f(2-4) by (auto simp: send_addrs_def nb(1))
  let ?d4 = "d3\<lparr>of_fifo := Some f'\<rparr>"
  have "ofed_flows V ?d4 = Inr d" and m: "m = m0 @ [replicate (unat (ucast (of_nbuf d0) * of_buflen d1)) 0]"
    using assms(1,2) d1 d3 nb f(1) f'(1) id by (auto simp: ofed_construct_def Let_def split: sum.splits)
  then obtain b fl v where d: "d = ?d4\<lparr>of_bcast := b, of_flow := fl, of_hw := v\<rparr>" "flying v = flying (of_hw ?d4)"
    using flows_sends [OF assms(5), of ?d4 d] by blast
  then have fly: "flying (of_hw d) = {#}" and addrs: "send_addrs d = send_addrs ?d4"
    using v3 assms(6) by (simp_all add: send_addrs_def)
  have "send_inv flying (2 ^ 47) d {#} {#}"
    unfolding send_inv_def using f' f(3) nb(1) fly addrs unat_lt16 [of "of_nbuf d0"]
    by (intro exI [of _ f'] exI [of _ "send_addrs ?d4"]) (simp add: d(1))
  then show ?thesis
    using m d(1) v3(1) id by simp
qed

lemma send_offset:
  assumes "unat (b :: u64) < 2 ^ 33" and "i < 65536"
  shows "unat (of_nat i * b) = i * unat b" "i * unat b < 2 ^ 64"
proof -
  have "i * unat b \<le> 65536 * 2 ^ 33"
    using assms by (intro mult_le_mono) simp_all
  then show lt: "i * unat b < 2 ^ 64"
    by simp
  have "of_nat i * b = of_nat (i * unat b)"
    by simp
  then show "unat (of_nat i * b) = i * unat b"
    using lt by (simp only: unsigned_of_nat) (simp add: take_bit_nat_eq_self)
qed

lemma send_addrs_distinct:
  assumes "0 < unat (of_buflen d)" and "unat (of_buflen d) < 2 ^ 33"
  shows "distinct (send_addrs d)"
proof -
  have "i = j" if "i < unat (of_nbuf d)" "j < unat (of_nbuf d)" "of_nat i * of_buflen d = of_nat j * of_buflen d" for i j
  proof -
    have "i * unat (of_buflen d) = j * unat (of_buflen d)"
      using that send_offset(1) [OF assms(2)] unat_lt16 [of "of_nbuf d"] by (metis order.strict_trans)
    then show ?thesis
      using assms(1) by simp
  qed
  then show ?thesis
    by (auto simp: send_addrs_def distinct_map inj_on_def)
qed

lemma lent_apart:
  assumes "mset as + add_mset a L + X + F = mset xs" and "distinct xs"
  shows "a \<in> set xs" "a \<notin># L + X + F"
proof -
  have eq: "add_mset a (mset as + (L + X + F)) = mset xs"
    using assms(1) by (simp add: ac_simps)
  then show "a \<in> set xs"
    by (metis set_mset_mset union_single_eq_member)
  have "count (mset xs) a \<le> 1"
    using assms(2) by (simp add: distinct_count_atmost_1)
  then show "a \<notin># L + X + F"
    unfolding eq [symmetric] by (simp add: not_in_iff)
qed

section \<open>Properties\<close>

text \<open>C23: Exclusive use of the send buffers. After the construction of the device and any sequence of calls of prepare and commit, a
  further prepare returns. If it lends a buffer, this is one of the buffers of the region, whole and inside it, and the
  stack does not hold it already, nor is it in flight, nor has it been refused before. If it reports that there
  is no buffer, all of them are held, in flight or were refused: the device itself has lost none.\<close>
theorem ofed_buffer_exclusive:
  assumes "ofed_new cf V A ifn nbuf m0 v = Some (Inr (m, d0))" and "oa_malloc A" and "0 < unat nbuf"
    and "sends_law V flying" and "flying v = {#}"
    and "(sending cf V ^^ n) (d0, {#}, {#}) (d, L, X)" and "n < 2 ^ 47"
  shows "\<exists>st p d'. ofed_prepare V mem d = Some (st, p, mem, d') \<and>
    (st = Ok \<longrightarrow> (\<exists>i < unat nbuf. p = Ptr (length m0) (i * unat (of_buflen d0)) \<and> valid m p (unat (of_buflen d0)) \<and>
       of_sendbuf d0 + of_nat i * of_buflen d0 \<notin># L + X + flying (of_hw d'))) \<and>
    (st = NoMoreResources \<longrightarrow> size (L + X + flying (of_hw d')) = unat nbuf)"
proof -
  obtain ifn' where "ofed_construct cf V A ifn' m0 (ofed_blank nbuf v) = Some (Inr (m, d0))"
    using assms(1) by (auto simp: ofed_new_def split: option.splits if_splits)
  then have inv: "send_inv flying (2 ^ 47) d0 {#} {#}" "of_nbuf d0 = nbuf" and b: "unat (of_buflen d0) < 2 ^ 33" "0 < unat (of_buflen d0)"
    and m: "of_sendblk d0 = length m0" "m = m0 @ [replicate (unat (ucast nbuf * of_buflen d0)) 0]"
    using construct_inv [of cf V A ifn' m0 "ofed_blank nbuf v" m d0 flying] assms(2-5) by (simp_all add: ofed_blank_def)
  have "2 ^ 47 = n + Suc (2 ^ 47 - n - 1)"
    using assms(7) by linarith
  then obtain k where k: "send_inv flying (n + Suc k) d0 {#} {#}"
    using inv(1) by metis
  have s: "same_sends d0 d" "send_inv flying (Suc k) d L X"
    using sending_steps [OF assms(6) k assms(4)] by simp_all
  have addrs: "send_addrs d = send_addrs d0" "distinct (send_addrs d0)" "length (send_addrs d0) = unat nbuf"
    using same_sends_addrs [OF s(1)] send_addrs_distinct [OF b(2,1)] by (simp_all add: send_addrs_def inv(2))
  obtain st p d' where p: "ofed_prepare V mem d = Some (st, p, mem, d')" "same_sends d d'"
    and step: "if st = Ok then \<exists>a. p = ofed_ptr d a \<and> send_inv flying k d' (add_mset a L) X
      else send_inv flying k d' L X \<and> (st = NoMoreResources \<longrightarrow> L + X + flying (of_hw d') = mset (send_addrs d))"
    using prepare_step [OF s(2) assms(4), of mem] by blast
  have "\<exists>i < unat nbuf. p = Ptr (length m0) (i * unat (of_buflen d0)) \<and> valid m p (unat (of_buflen d0)) \<and>
       of_sendbuf d0 + of_nat i * of_buflen d0 \<notin># L + X + flying (of_hw d')" if ok: "st = Ok"
  proof -
    obtain a as where a: "p = ofed_ptr d a" "mset as + add_mset a L + X + flying (of_hw d') = mset (send_addrs d0)"
      using step ok same_sends_addrs [OF p(2)] addrs(1) by (auto simp: send_inv_def)
    obtain i where i: "i < unat nbuf" "a = of_sendbuf d0 + of_nat i * of_buflen d0"
      using lent_apart(1) [OF a(2) addrs(2)] by (auto simp: send_addrs_def inv(2))
    have "i < 65536" and n: "unat nbuf < 65536"
      using i(1) unat_lt16 [of nbuf] by simp_all
    then have "p = Ptr (length m0) (i * unat (of_buflen d0))"
      using s(1) send_offset(1) [OF b(1), of i] by (simp add: a(1) ofed_ptr_def same_sends_def m(1) i(2))
    moreover have "unat (ucast nbuf * of_buflen d0) = unat nbuf * unat (of_buflen d0)"
      using send_offset(1) [OF b(1) n] by (simp add: unat_ucast_up_64 flip: unat_ucast_up_64)
    moreover have "Suc i * unat (of_buflen d0) \<le> unat nbuf * unat (of_buflen d0)"
      using i(1) by (intro mult_le_mono1) simp
    ultimately show ?thesis
      using i lent_apart(2) [OF a(2) addrs(2)] by (intro exI [of _ i]) (simp add: m(2) add.commute)
  qed
  moreover have "size (L + X + flying (of_hw d')) = unat nbuf" if "st = NoMoreResources"
  proof -
    have "L + X + flying (of_hw d') = mset (send_addrs d0)"
      using step that addrs(1) by simp
    then show ?thesis
      using addrs(3) by (simp only: size_mset)
  qed
  ultimately show ?thesis
    using p(1) by blast
qed

text \<open>An interface with one send buffer, whose state is the queue of accepted requests.\<close>

definition sample_sender :: "u64 list verbs" where
  "sample_sender = \<lparr>vb_poll_send = (\<lambda>n v. (Some (List.map (\<lambda>a. \<lparr>wr_id = a, byte_len = 0, wc_ipv4 = False, wc_ip_csum_ok = True, wc_tcp_csum_ok = True\<rparr>)
       (take (unat n) v)), drop (unat n) v)),
     vb_poll_recv = (\<lambda>n v. (Some [], v)), vb_post_recv = (\<lambda>j a l k v. (True, v)),
     vb_post_send = (\<lambda>wr m v. (True, v @ [sw_wr_id wr])), vb_recv_bytes = (\<lambda>v. []), vb_req_notify = (\<lambda>v. (True, v)),
     vb_ppoll = (\<lambda>ns v. (PollReady, v)), vb_get_event = (\<lambda>v. (True, v)), vb_ack_events = (\<lambda>n v. v),
     vb_create_flow = (\<lambda>a v. (Some 0, v)), vb_destroy_flow = (\<lambda>f v. v)\<rparr>"

definition sample_answers :: ofed_answers where
  "sample_answers = \<lparr>oa_find = Some ''eth0'', oa_supported = (\<lambda>ifn. True), oa_devices = [''mlx5_0''], oa_ids = (\<lambda>ifn. Some (''mlx5_0'', 0)),
     oa_link = (\<lambda>ifn. Some (Mac 16 0 0 0 0 1, 50)), oa_l3 = (\<lambda>ifn. Some (ip4_make 10 1 0 1, ip4_make 255 255 255 0, ip4_make 10 1 0 254)),
     oa_open = True, oa_query = True, oa_rx_ip = False, oa_rx_tcp = False, oa_max_tso = 0, oa_qpts = 0, oa_port = True, oa_pd = True, oa_comp = True,
     oa_sendcq = True, oa_recvcq = True, oa_async = True, oa_qp = True, oa_init = True, oa_rtr = True, oa_rts = True, oa_sendbuf = 0x7F0000,
     oa_sendmr = Some 5, oa_recvbuf = 0x7E0000, oa_recvmr = Some 6, oa_malloc = True\<rparr>"

lemma sample_ofed_new:
  "\<exists>m d. ofed_new \<lparr>cf_hw_checksum = False, cf_hw_tso = False\<rparr> sample_sender sample_answers None 1 [] [] = Some (Inr (m, d)) \<and>
     of_sendbuf d = 0x7F0000 \<and> of_sendblk d = 0 \<and> of_buflen d = 64 \<and> of_hw d = [] \<and> of_nbuf d = 1 \<and>
     of_fifo d = Some \<lparr>f_depth = 1, f_data_len = 8, f_prepare_count = 0, f_write_count = 1, f_read_count = 0, f_data = bytes64 0x7F0000\<rparr>"
  by (simp add: ofed_new_def ofed_construct_def ofed_identify_def sample_answers_def ofed_setup_def ofed_blank_def Let_def
     sample_sender_def postReceive_def tulips_fifo_create_def ofed_flows_def patch_def slot_at_def)

theorem ofed_buffer_exclusive_witness:
  "\<exists>m d0 d1 st p d'. ofed_new \<lparr>cf_hw_checksum = False, cf_hw_tso = False\<rparr> sample_sender sample_answers None 1 [] [] = Some (Inr (m, d0)) \<and>
     sending \<lparr>cf_hw_checksum = False, cf_hw_tso = False\<rparr> sample_sender (d0, {#}, {#}) (d1, {#0x7F0000#}, {#}) \<and>
     ofed_prepare sample_sender m d1 = Some (st, p, m, d') \<and> st \<noteq> Ok"
proof -
  let ?cf = "\<lparr>cf_hw_checksum = False, cf_hw_tso = False\<rparr>"
  obtain m d0 where d0: "ofed_new ?cf sample_sender sample_answers None 1 [] [] = Some (Inr (m, d0))" "of_sendbuf d0 = 0x7F0000"
      "of_hw d0 = []" "of_nbuf d0 = 1"
      "of_fifo d0 = Some \<lparr>f_depth = 1, f_data_len = 8, f_prepare_count = 0, f_write_count = 1, f_read_count = 0, f_data = bytes64 0x7F0000\<rparr>"
    using sample_ofed_new by blast
  obtain d1 where "ofed_prepare sample_sender m d0 = Some (Ok, ofed_ptr d0 0x7F0000, m, d1)" "same_sends d0 d1"
    using d0 rd64_bytes64 [of 0 "bytes64 0x7F0000"]
    by (simp add: ofed_prepare_def sample_sender_def slot_at_def ofed_ptr_def same_sends_def)
  then have step: "sending ?cf sample_sender (d0, {#}, {#}) (d1, {#0x7F0000#}, {#})"
    using sending.lend [of sample_sender m d0 _ m d1 _ ?cf "{#}" "{#}"] by simp
  then have "(sending ?cf sample_sender ^^ 1) (d0, {#}, {#}) (d1, {#0x7F0000#}, {#})"
    by (simp add: relcompp_apply)
  moreover have "mset v = mset (drop n v) + mset (take n v)" for n and v :: "u64 list"
    by (metis append_take_drop_id mset_append add.commute)
  then have "sends_law sample_sender mset"
    by (auto simp: sends_law_def sample_sender_def comp_def)
  moreover have "oa_malloc sample_answers"
    by (simp add: sample_answers_def)
  ultimately obtain st p d' where "ofed_prepare sample_sender m d1 = Some (st, p, m, d')"
      "st = Ok \<longrightarrow> (\<exists>i < unat (1 :: u16). of_sendbuf d0 + of_nat i * of_buflen d0 \<notin># {#0x7F0000#} + {#} + mset (of_hw d'))"
    using ofed_buffer_exclusive [of ?cf sample_sender sample_answers None 1 "[]" "[]" m d0 mset 1 d1 "{#0x7F0000#}" "{#}" m, OF d0(1)] by auto
  then have "ofed_prepare sample_sender m d1 = Some (st, p, m, d')" "st \<noteq> Ok"
    using d0(2) by auto
  then show ?thesis
    using d0(1) step by blast
qed

section \<open>Segmentation by the interface\<close>

text \<open>With segmentation offload, a frame with a payload that is not refused is posted as one request whose header and rest
  cover the frame exactly, and every segment the interface makes of it fits into an Ethernet frame of the port.\<close>
theorem ofed_tso_fits:
  assumes "cf_hw_tso cf" and "header_length m (ofed_ptr d a) len = Some (True, h)" and "h < len"
    and "unat h < unat (of_hwmtu d)" and "unat (of_hwmtu d) + 14 < 65536"
    and "unat len \<le> unat (of_hwmtu d) + 14 \<or> unat h < unat mss"
  shows "\<exists>wr. ofed_commit cf V len (ofed_ptr d a) mss m d = post_frame V wr m d \<and> sw_opcode wr = WR_TSO \<and>
    sw_wr_id wr = a \<and> sw_tso_hdr wr = a \<and> sw_addr wr = a + ucast (sw_tso_hdr_sz wr) \<and> sw_tso_hdr_sz wr = h \<and>
    unat h + unat (sw_length wr) = unat len \<and> 0 < unat (sw_tso_mss wr) \<and> unat h + unat (sw_tso_mss wr) \<le> unat (of_hwmtu d) + 14"
proof -
  have m: "unat (ucast mss :: u32) = unat mss" "unat (ucast len :: u64) = unat len" "unat (ucast (of_hwmtu d) + 14 :: u64) = unat (of_hwmtu d) + 14"
    using unat_lt32 [of "of_hwmtu d"] unat_lt32 [of len]
    by (simp_all add: unat_ucast_up unat_word_ariths unsigned_ucast_eq take_bit_nat_eq_self)
  have "\<not> (ucast (of_hwmtu d) + 14 < (ucast len :: u64) \<and> ucast mss \<le> h)"
    using assms(6) by (auto simp: word_less_nat_alt word_le_nat_alt m)
  then have "ofed_commit cf V len (ofed_ptr d a) mss m d = post_frame V (send_tso d len h (tso_mss d h mss) a) m d"
    using assms(1-3) by (auto simp: ofed_commit_def)
  moreover have "unat h + unat (len - h) = unat len"
    using assms(3) by (simp add: word_less_nat_alt unat_sub word_le_nat_alt)
  moreover have "0 < unat (tso_mss d h mss) \<and> unat h + unat (tso_mss d h mss) \<le> unat (of_hwmtu d) + 14"
  proof (cases "mss = 0 \<or> ucast mss > of_hwmtu d - h")
    case True
    have "unat (of_hwmtu d + 14) = unat (of_hwmtu d) + 14"
      using assms(5) by (simp add: unat_word_ariths)
    then have "unat (of_hwmtu d + 14 - h) = unat (of_hwmtu d) + 14 - unat h"
      using assms(4) by (simp add: unat_sub word_le_nat_alt)
    then have "unat (ucast (of_hwmtu d + 14 - h) :: u16) = unat (of_hwmtu d) + 14 - unat h"
      using assms(5) by (simp add: unsigned_ucast_eq take_bit_nat_eq_self)
    then show ?thesis
      using True assms(4) by (simp add: tso_mss_def)
  next
    case False
    then have "0 < unat mss" "unat mss \<le> unat (of_hwmtu d) - unat h"
      using assms(4) by (simp_all add: unat_gt_0 word_less_nat_alt not_less word_le_nat_alt unat_sub m)
    then show ?thesis
      using False assms(4) by (simp add: tso_mss_def)
  qed
  ultimately show ?thesis
    by (intro exI [of _ "send_tso d len h (tso_mss d h mss) a"]) (simp add: send_tso_def)
qed

text \<open>A frame of 3054 bytes with a TCP header without options, at the start of the region.\<close>

definition sample_frame :: mem where
  "sample_frame = [replicate 46 0 @ [0x50] @ replicate 3007 0]"

definition sample_tso :: "u64 list ofed" where
  "sample_tso = (ofed_blank 1 [])\<lparr>of_hwmtu := 1500\<rparr>"

lemma sample_header: "header_length sample_frame (ofed_ptr sample_tso 0) 3054 = Some (True, 54)"
  by (simp add: header_length_def ld8_def mem_read_def sample_frame_def sample_tso_def ofed_ptr_def ofed_blank_def rd8_def nth_append)

theorem ofed_tso_fits_witness:
  "\<exists>wr. ofed_commit \<lparr>cf_hw_checksum = False, cf_hw_tso = True\<rparr> sample_sender 3054 (ofed_ptr sample_tso 0) 1460 sample_frame sample_tso =
       post_frame sample_sender wr sample_frame sample_tso \<and> sw_length wr = 3000 \<and> unat (sw_tso_mss wr) \<le> 1460"
proof -
  have "unat (54 :: u32) < unat (of_hwmtu sample_tso)" "unat (of_hwmtu sample_tso) + 14 < 65536" and mtu: "unat (of_hwmtu sample_tso) = 1500"
    by (simp_all add: sample_tso_def)
  then obtain wr where "ofed_commit \<lparr>cf_hw_checksum = False, cf_hw_tso = True\<rparr> sample_sender 3054 (ofed_ptr sample_tso 0) 1460 sample_frame sample_tso =
       post_frame sample_sender wr sample_frame sample_tso" "unat (54 :: u32) + unat (sw_length wr) = unat (3054 :: u32)"
      "unat (54 :: u32) + unat (sw_tso_mss wr) \<le> unat (of_hwmtu sample_tso) + 14"
    using ofed_tso_fits [of "\<lparr>cf_hw_checksum = False, cf_hw_tso = True\<rparr>" sample_frame sample_tso 0 3054 54 1460 sample_sender, OF _ sample_header]
    by auto
  then show ?thesis
    using mtu by (intro exI [of _ wr]) (auto simp: word_unat_eq_iff)
qed

text \<open>The device raises the segment size. A frame of the Ethernet header, the other headers and a segment is longer by 14 bytes than
  the unit of transmission; for the sizes in between the segment size that the stack asked for, which is the one the
  peer has announced, is replaced by a larger one.\<close>
theorem ofed_tso_raises_mss:
  assumes "cf_hw_tso cf" and "header_length m (ofed_ptr d a) len = Some (True, h)" and "h < len" and "unat h < unat mss"
    and "unat h < unat (of_hwmtu d)" and "unat (of_hwmtu d) + 14 < 65536"
    and "unat (of_hwmtu d) < unat h + unat mss" and "unat h + unat mss < unat (of_hwmtu d) + 14"
  shows "\<exists>wr. ofed_commit cf V len (ofed_ptr d a) mss m d = post_frame V wr m d \<and> sw_opcode wr = WR_TSO \<and> mss < sw_tso_mss wr"
proof -
  have m: "unat (ucast mss :: u32) = unat mss"
    by (simp add: unat_ucast_up)
  have "of_hwmtu d - h < ucast mss"
    using assms(5,7) by (simp add: word_less_nat_alt unat_sub word_le_nat_alt m)
  moreover have "unat (of_hwmtu d + 14) = unat (of_hwmtu d) + 14"
    using assms(6) by (simp add: unat_word_ariths)
  then have "unat (of_hwmtu d + 14 - h) = unat (of_hwmtu d) + 14 - unat h"
    using assms(5) by (simp add: unat_sub word_le_nat_alt)
  then have "unat (ucast (of_hwmtu d + 14 - h) :: u16) = unat (of_hwmtu d) + 14 - unat h"
    using assms(6) by (simp add: unsigned_ucast_eq take_bit_nat_eq_self)
  ultimately have "mss < tso_mss d h mss"
    using assms(8) by (simp add: tso_mss_def word_less_nat_alt)
  moreover have "\<not> ucast mss \<le> h"
    using assms(4) by (simp add: word_le_nat_alt m)
  ultimately show ?thesis
    using assms(1-3) by (intro exI [of _ "send_tso d len h (tso_mss d h mss) a"]) (simp add: ofed_commit_def, simp add: send_tso_def)
qed

theorem ofed_tso_raises_mss_witness:
  "\<exists>wr. ofed_commit \<lparr>cf_hw_checksum = False, cf_hw_tso = True\<rparr> sample_sender 3054 (ofed_ptr sample_tso 0) 1450 sample_frame sample_tso =
       post_frame sample_sender wr sample_frame sample_tso \<and> 1450 < sw_tso_mss wr"
  using ofed_tso_raises_mss [of "\<lparr>cf_hw_checksum = False, cf_hw_tso = True\<rparr>" sample_frame sample_tso 0 3054 54 1450 sample_sender, OF _ sample_header]
  by (simp add: sample_tso_def) blast

end
