(* ===== verification/Npipe.thy ===== *)
theory Npipe
  imports Net
begin

text \<open>
  The device over two named pipes (\<^verbatim>\<open>src/transport/npipe\<close>): every frame is its length in four bytes and then its bytes. The
  two ends of the pipes are parameters, the functions \<open>rd\<close> and \<open>wr\<close> for \<^verbatim>\<open>read\<close> and \<^verbatim>\<open>write\<close> on a state each; what the kernel
  documents of them are hypotheses. The constructors only open the pipes.
\<close>

section \<open>The device\<close>

text \<open>A call of \<^verbatim>\<open>read\<close> returns bytes, the end of the file, or an error, which is \<^verbatim>\<open>EAGAIN\<close> if there is nothing to read yet.\<close>

datatype read_result = ReadBytes "u8 list" | ReadEnd | ReadAgain | ReadError

text \<open>The buffer to write from is the block \<open>np_wblk\<close> of the memory.\<close>

record ('p, 'q) npipe =
  np_rbuf :: "u8 list"
  np_wblk :: nat
  np_in :: 'p
  np_out :: 'q

definition npipe_init :: "mem \<Rightarrow> 'p \<Rightarrow> 'q \<Rightarrow> mem \<times> ('p, 'q) npipe" where
  "npipe_init m p q = (m @ [replicate 1514 0], \<lparr>np_rbuf = replicate 1514 0, np_wblk = length m, np_in = p, np_out = q\<rparr>)"

definition npipe_prepare :: "mem \<Rightarrow> ('p, 'q) npipe \<Rightarrow> (status \<times> ptr \<times> mem \<times> ('p, 'q) npipe) option" where
  "npipe_prepare m d = Some (Ok, Ptr (np_wblk d) 0, m, d)"

text \<open>The loop of \<^verbatim>\<open>write\<close>, over the bytes that are left. It goes on for ever if no byte is ever taken.\<close>

partial_function (option) npipe_write :: "(u8 list \<Rightarrow> 'q \<Rightarrow> int \<times> 'q) \<Rightarrow> u8 list \<Rightarrow> 'q \<Rightarrow> (bool \<times> 'q) option" where
  "npipe_write wr bs q = (if bs = [] then Some (True, q)
     else case wr bs q of (ret, q) \<Rightarrow> if ret < 0 then Some (False, q) else npipe_write wr (drop (nat ret) bs) q)"

definition npipe_commit :: "(u8 list \<Rightarrow> 'q \<Rightarrow> int \<times> 'q) \<Rightarrow> u32 \<Rightarrow> ptr \<Rightarrow> u16 \<Rightarrow> mem \<Rightarrow> ('p, 'q) npipe \<Rightarrow>
    (status \<times> mem \<times> ('p, 'q) npipe) option" where
  "npipe_commit wr len buf mss m d = do {
     (ok, q) \<leftarrow> npipe_write wr (bytes32 len) (np_out d);
     if \<not> ok then Some (HardwareLinkLost, m, d\<lparr>np_out := q\<rparr>)
     else do {
       bs \<leftarrow> mem_read m buf (unat len);
       (ok, q) \<leftarrow> npipe_write wr bs q;
       Some (if ok then Ok else HardwareLinkLost, m, d\<lparr>np_out := q\<rparr>)
     }
   }"

definition npipe_ops :: "(u8 list \<Rightarrow> 'q \<Rightarrow> int \<times> 'q) \<Rightarrow> ('p, 'q) npipe device_ops" where
  "npipe_ops wr = \<lparr>d_mtu = (\<lambda>d. 1500), d_mss = (\<lambda>d. 1514), d_rblog2 = (\<lambda>d. 11), d_rbavail = (\<lambda>d. 32),
     d_listen = (\<lambda>port d. (Ok, d)), d_unlisten = (\<lambda>port d. d), d_prepare = npipe_prepare, d_commit = npipe_commit wr\<rparr>"

text \<open>The loop over \<^verbatim>\<open>EAGAIN\<close>. \<open>None\<close> is also a read past the end of the buffer.\<close>

partial_function (option) read_payload :: "(nat \<Rightarrow> 'p \<Rightarrow> read_result \<times> 'p) \<Rightarrow> nat \<Rightarrow> u8 list \<Rightarrow> 'p \<Rightarrow> (bool \<times> u8 list \<times> 'p) option" where
  "read_payload rd n buf p = (case rd n p of
     (ReadBytes bs, p) \<Rightarrow> if length bs \<le> length buf then Some (True, patch buf 0 bs, p) else None
   | (ReadAgain, p) \<Rightarrow> read_payload rd n buf p
   | (_, p) \<Rightarrow> Some (False, buf, p))"

text \<open>The length is a variable that was zero: a read of fewer than four bytes leaves the others. Neither read is completed.\<close>

definition read_length :: "u8 list \<Rightarrow> u32" where
  "read_length bs = (let xs = bs @ replicate 4 0 in le32 (xs ! 0) (xs ! 1) (xs ! 2) (xs ! 3))"

definition npipe_poll :: "(nat \<Rightarrow> 'p \<Rightarrow> read_result \<times> 'p) \<Rightarrow> ('s \<Rightarrow> ('p, 'q) npipe) \<Rightarrow> (('p, 'q) npipe \<Rightarrow> 's \<Rightarrow> 's) \<Rightarrow>
    (u16 \<Rightarrow> u8 list \<Rightarrow> 's \<Rightarrow> (status \<times> 's) option) \<Rightarrow> 's \<Rightarrow> (status \<times> 's) option" where
  "npipe_poll rd dev set_dev proc s = (case rd 4 (np_in (dev s)) of
     (ReadAgain, p) \<Rightarrow> Some (NoDataAvailable, set_dev ((dev s)\<lparr>np_in := p\<rparr>) s)
   | (ReadError, p) \<Rightarrow> Some (HardwareLinkLost, set_dev ((dev s)\<lparr>np_in := p\<rparr>) s)
   | (ReadEnd, p) \<Rightarrow> Some (HardwareLinkLost, set_dev ((dev s)\<lparr>np_in := p\<rparr>) s)
   | (ReadBytes bs, p) \<Rightarrow> do {
       let len = read_length bs;
       (ok, buf, p) \<leftarrow> read_payload rd (unat len) (np_rbuf (dev s)) p;
       let s = set_dev ((dev s)\<lparr>np_rbuf := buf, np_in := p\<rparr>) s;
       if \<not> ok then Some (HardwareLinkLost, s) else proc (ucast len) buf s
     })"

text \<open>\<open>sel\<close> is the result of \<^verbatim>\<open>select\<close> for the time in microseconds: an error polls like an event.\<close>

definition wait_us :: "u64 \<Rightarrow> int" where
  "wait_us ns = (let us = sint (ucast (ns div 1000) :: u32) in if us = 0 then 1 else us)"

definition npipe_wait :: "(nat \<Rightarrow> 'p \<Rightarrow> read_result \<times> 'p) \<Rightarrow> (int \<Rightarrow> 'p \<Rightarrow> int \<times> 'p) \<Rightarrow> ('s \<Rightarrow> ('p, 'q) npipe) \<Rightarrow>
    (('p, 'q) npipe \<Rightarrow> 's \<Rightarrow> 's) \<Rightarrow> (u16 \<Rightarrow> u8 list \<Rightarrow> 's \<Rightarrow> (status \<times> 's) option) \<Rightarrow> u64 \<Rightarrow> 's \<Rightarrow> (status \<times> 's) option" where
  "npipe_wait rd sel dev set_dev proc ns s = (case sel (wait_us ns) (np_in (dev s)) of (ret, p) \<Rightarrow>
     let s = set_dev ((dev s)\<lparr>np_in := p\<rparr>) s
     in if ret = 0 then Some (NoDataAvailable, s) else npipe_poll rd dev set_dev proc s)"

section \<open>What the kernel promises\<close>

text \<open>A write of at most 4096 bytes is atomic: it fails, or all its bytes enter the pipe together.\<close>

definition pipe_write :: "(u8 list \<Rightarrow> 'q \<Rightarrow> int \<times> 'q) \<Rightarrow> ('q \<Rightarrow> u8 list list) \<Rightarrow> bool" where
  "pipe_write wr sent \<longleftrightarrow> (\<forall>bs q ret q'. bs \<noteq> [] \<longrightarrow> length bs \<le> 4096 \<longrightarrow> wr bs q = (ret, q') \<longrightarrow>
     ret < 0 \<and> sent q' = sent q \<or> ret = int (length bs) \<and> sent q' = sent q @ [bs])"

text \<open>
  At the other end \<open>avail p\<close> are the bytes in the pipe and \<open>coming p\<close> the writes that will follow; up to a read some of them may have arrived.
  A read returns the first bytes there are; if there are none it says so, and this is not repeated for ever if a write is to follow.
\<close>

definition pipe_read :: "(nat \<Rightarrow> 'p \<Rightarrow> read_result \<times> 'p) \<Rightarrow> ('p \<Rightarrow> u8 list) \<Rightarrow> ('p \<Rightarrow> u8 list list) \<Rightarrow> ('p \<Rightarrow> nat) \<Rightarrow> bool" where
  "pipe_read rd avail coming delay \<longleftrightarrow> (\<forall>n p r p'. 0 < n \<longrightarrow> rd n p = (r, p') \<longrightarrow>
     (\<exists>k. coming p' = drop k (coming p) \<and>
        (if avail p @ concat (take k (coming p)) = []
         then r = ReadAgain \<and> avail p' = [] \<and> (coming p \<noteq> [] \<longrightarrow> delay p' < delay p)
         else r = ReadBytes (take n (avail p @ concat (take k (coming p)))) \<and> avail p' = drop n (avail p @ concat (take k (coming p))))))"

text \<open>A processor that keeps the frames it hears, the last one last.\<close>

definition pipe_hears :: "('s \<Rightarrow> ('p, 'q) npipe) \<Rightarrow> (('p, 'q) npipe \<Rightarrow> 's \<Rightarrow> 's) \<Rightarrow>
    (u16 \<Rightarrow> u8 list \<Rightarrow> 's \<Rightarrow> (status \<times> 's) option) \<Rightarrow> ('s \<Rightarrow> u8 list list) \<Rightarrow> bool" where
  "pipe_hears dev set_dev proc got \<longleftrightarrow>
     (\<forall>d s. dev (set_dev d s) = d \<and> got (set_dev d s) = got s) \<and>
     (\<forall>len data s. unat len \<le> length data \<longrightarrow> (\<exists>r s'. proc len data s = Some (r, s') \<and> got s' = got s @ [take (unat len) data] \<and>
        np_in (dev s') = np_in (dev s) \<and> length (np_rbuf (dev s')) = length (np_rbuf (dev s))))"

section \<open>Frames on their way\<close>

text \<open>The writes \<open>cs\<close> have not been read; some of them are in the pipe.\<close>

definition travelling :: "('p \<Rightarrow> u8 list) \<Rightarrow> ('p \<Rightarrow> u8 list list) \<Rightarrow> u8 list list \<Rightarrow> 'p \<Rightarrow> bool" where
  "travelling avail coming cs p \<longleftrightarrow> (\<exists>n. avail p = concat (take n cs) \<and> coming p = drop n cs)"

definition frame_writes :: "u8 list list \<Rightarrow> u8 list list" where
  "frame_writes fs = concat (List.map (\<lambda>f. [bytes32 (of_nat (length f)), f]) fs)"

definition np_frame :: "u8 list \<Rightarrow> bool" where
  "np_frame f \<longleftrightarrow> f \<noteq> [] \<and> length f \<le> 1514"

lemma read_chunk:
  assumes "pipe_read rd avail coming delay" and "travelling avail coming (c # cs) p" and "c \<noteq> []" and "rd (length c) p = (r, p')"
  shows "r = ReadAgain \<and> travelling avail coming (c # cs) p' \<and> delay p' < delay p \<or> r = ReadBytes c \<and> travelling avail coming cs p'"
proof -
  obtain n where n: "avail p = concat (take n (c # cs))" "coming p = drop n (c # cs)"
    using assms(2) by (auto simp: travelling_def)
  obtain k where k: "coming p' = drop k (coming p)"
    and r: "if avail p @ concat (take k (coming p)) = []
      then r = ReadAgain \<and> avail p' = [] \<and> (coming p \<noteq> [] \<longrightarrow> delay p' < delay p)
      else r = ReadBytes (take (length c) (avail p @ concat (take k (coming p)))) \<and>
        avail p' = drop (length c) (avail p @ concat (take k (coming p)))"
    using assms(1,3,4) unfolding pipe_read_def by (metis length_greater_0_conv)
  have all: "avail p @ concat (take k (coming p)) = concat (take (n + k) (c # cs))"
    by (simp add: n take_add)
  have left: "coming p' = drop (n + k) (c # cs)"
    by (simp add: k n(2) add.commute)
  show ?thesis
  proof (cases "n + k")
    case 0
    then show ?thesis
      using r n left unfolding all by (auto simp: travelling_def intro!: exI [of _ 0])
  next
    case (Suc j)
    then show ?thesis
      using r left assms(3) unfolding all by (auto simp: travelling_def intro!: exI [of _ j])
  qed
qed

lemma read_none:
  assumes "pipe_read rd avail coming delay" and "travelling avail coming [] p" and "rd n p = (r, p')" and "0 < n"
  shows "r = ReadAgain \<and> travelling avail coming [] p'"
proof -
  have n: "avail p = []" "coming p = []"
    using assms(2) by (auto simp: travelling_def)
  obtain k where "coming p' = drop k (coming p)"
    and "if avail p @ concat (take k (coming p)) = []
      then r = ReadAgain \<and> avail p' = [] \<and> (coming p \<noteq> [] \<longrightarrow> delay p' < delay p)
      else r = ReadBytes (take n (avail p @ concat (take k (coming p)))) \<and> avail p' = drop n (avail p @ concat (take k (coming p)))"
    using assms(1,3,4) unfolding pipe_read_def by metis
  then show ?thesis
    by (simp add: n travelling_def)
qed

lemma read_payload_chunk:
  assumes "pipe_read rd avail coming delay" and "c \<noteq> []" and "length c \<le> length buf"
  shows "travelling avail coming (c # cs) p \<Longrightarrow> \<exists>p'. read_payload rd (length c) buf p = Some (True, patch buf 0 c, p') \<and> travelling avail coming cs p'"
proof (induction "delay p" arbitrary: p rule: less_induct)
  case less
  obtain r p1 where r: "rd (length c) p = (r, p1)"
    by (cases "rd (length c) p")
  from read_chunk [OF assms(1) less.prems assms(2) r] show ?case
  proof (elim disjE conjE)
    assume "r = ReadAgain" "travelling avail coming (c # cs) p1" "delay p1 < delay p"
    then show ?thesis
      using less.hyps [of p1] by (subst read_payload.simps) (simp add: r)
  next
    assume "r = ReadBytes c" "travelling avail coming cs p1"
    then show ?thesis
      using assms(3) by (subst read_payload.simps) (simp add: r)
  qed
qed

lemma read_length_bytes32 [simp]: "read_length (bytes32 w) = w"
  by (simp add: read_length_def bytes32_def)

lemma bytes32_not_Nil [simp]: "bytes32 w \<noteq> []"
  by (simp add: bytes32_def)

lemma frame_length: "np_frame f \<Longrightarrow> unat (of_nat (length f) :: u32) = length f" "np_frame f \<Longrightarrow> unat (ucast (of_nat (length f) :: u32) :: u16) = length f"
  by (auto simp: np_frame_def unsigned_of_nat unsigned_ucast_eq take_bit_nat_eq_self)

text \<open>A poll delivers the oldest frame, or leaves everything as it is; then a write that is to follow is closer.\<close>

lemma npipe_poll_step:
  assumes rd: "pipe_read rd avail coming delay" and h: "pipe_hears dev set_dev proc got" and fs: "list_all np_frame fs"
    and t: "travelling avail coming (frame_writes fs) (np_in (dev s))" and buf: "length (np_rbuf (dev s)) = 1514"
  shows "\<exists>st s'. npipe_poll rd dev set_dev proc s = Some (st, s') \<and> length (np_rbuf (dev s')) = 1514 \<and>
    (got s' = got s \<and> travelling avail coming (frame_writes fs) (np_in (dev s')) \<and> (fs \<noteq> [] \<longrightarrow> delay (np_in (dev s')) < delay (np_in (dev s))) \<or>
     (\<exists>f fs'. fs = f # fs' \<and> got s' = got s @ [f] \<and> travelling avail coming (frame_writes fs') (np_in (dev s'))))"
proof -
  note lens = h [unfolded pipe_hears_def, THEN conjunct1, rule_format]
  obtain r p1 where r: "rd 4 (np_in (dev s)) = (r, p1)"
    by (cases "rd 4 (np_in (dev s))")
  show ?thesis
  proof (cases fs)
    case Nil
    then show ?thesis
      using read_none [OF rd _ r] t buf by (simp add: frame_writes_def npipe_poll_def r lens)
  next
    case (Cons f fs')
    let ?len = "of_nat (length f) :: u32"
    have f: "f \<noteq> []" "length f \<le> 1514" "np_frame f"
      using fs Cons by (simp_all add: np_frame_def)
    have cs: "frame_writes fs = bytes32 ?len # f # frame_writes fs'"
      by (simp add: Cons frame_writes_def)
    have r4: "rd (length (bytes32 ?len)) (np_in (dev s)) = (r, p1)"
      by (simp add: r)
    from read_chunk [OF rd t [unfolded cs] bytes32_not_Nil r4] show ?thesis
    proof (elim disjE conjE)
      assume "r = ReadAgain" "travelling avail coming (bytes32 ?len # f # frame_writes fs') p1" "delay p1 < delay (np_in (dev s))"
      then show ?thesis
        using buf by (simp add: npipe_poll_def r lens cs)
    next
      assume b: "r = ReadBytes (bytes32 ?len)" "travelling avail coming (f # frame_writes fs') p1"
      obtain p2 where p2: "read_payload rd (length f) (np_rbuf (dev s)) p1 = Some (True, patch (np_rbuf (dev s)) 0 f, p2)"
          "travelling avail coming (frame_writes fs') p2"
        using read_payload_chunk [OF rd f(1) _ b(2), of "np_rbuf (dev s)"] f(2) buf by auto
      let ?buf = "patch (np_rbuf (dev s)) 0 f" and ?s = "set_dev ((dev s)\<lparr>np_rbuf := patch (np_rbuf (dev s)) 0 f, np_in := p2\<rparr>) s"
      have d: "length ?buf = 1514" "take (length f) ?buf = f"
        using f(2) buf by (simp_all add: patch_def)
      obtain st s' where s': "proc (ucast ?len) ?buf ?s = Some (st, s')" "got s' = got ?s @ [f]" "np_in (dev s') = np_in (dev ?s)"
          "length (np_rbuf (dev s')) = length (np_rbuf (dev ?s))"
        using h [unfolded pipe_hears_def, THEN conjunct2, rule_format, of "ucast ?len" ?buf ?s] f(2)
        unfolding frame_length(2) [OF f(3)] d by auto
      then show ?thesis
        using p2 d(1) b(1) Cons by (simp add: npipe_poll_def r lens frame_length(1) [OF f(3)])
    qed
  qed
qed

section \<open>Sending frames\<close>

lemma npipe_write_chunk:
  assumes "pipe_write wr sent" and "bs \<noteq> []" and "length bs \<le> 4096"
  shows "\<exists>ok q'. npipe_write wr bs q = Some (ok, q') \<and> sent q' = (if ok then sent q @ [bs] else sent q)"
proof -
  obtain ret q' where w: "wr bs q = (ret, q')"
    by (cases "wr bs q")
  then consider "ret < 0" "sent q' = sent q" | "ret = int (length bs)" "sent q' = sent q @ [bs]"
    using assms unfolding pipe_write_def by blast
  then show ?thesis
    using assms(2) w npipe_write.simps [of wr bs q] npipe_write.simps [of wr "[]" q'] by cases auto
qed

lemma npipe_commit_frame:
  assumes "pipe_write wr sent" and "np_frame f" and "mem_read m buf (length f) = Some f"
  shows "\<exists>st d'. npipe_commit wr (of_nat (length f)) buf mss m d = Some (st, m, d') \<and> np_wblk d' = np_wblk d \<and>
    (st = Ok \<longrightarrow> sent (np_out d') = sent (np_out d) @ frame_writes [f])"
proof -
  let ?len = "of_nat (length f) :: u32"
  have f: "f \<noteq> []" "length f \<le> 4096" "unat ?len = length f"
    using assms(2) frame_length(1) by (auto simp: np_frame_def)
  obtain ok q1 where q1: "npipe_write wr (bytes32 ?len) (np_out d) = Some (ok, q1)"
      "sent q1 = (if ok then sent (np_out d) @ [bytes32 ?len] else sent (np_out d))"
    using npipe_write_chunk [OF assms(1), of "bytes32 ?len" "np_out d"] by auto
  obtain ok' q2 where q2: "npipe_write wr f q1 = Some (ok', q2)" "sent q2 = (if ok' then sent q1 @ [f] else sent q1)"
    using npipe_write_chunk [OF assms(1) f(1,2), of q1] by blast
  show ?thesis
    using q1 q2 by (simp add: npipe_commit_def f(3) assms(3) frame_writes_def)
qed

text \<open>The stack sends frames one after the other: \<^verbatim>\<open>prepare\<close>, the bytes, \<^verbatim>\<open>commit\<close>; and the other end is polled again and again.\<close>

fun npipe_sends :: "(u8 list \<Rightarrow> 'q \<Rightarrow> int \<times> 'q) \<Rightarrow> u8 list list \<Rightarrow> mem \<Rightarrow> ('p, 'q) npipe \<Rightarrow> (bool \<times> mem \<times> ('p, 'q) npipe) option" where
  "npipe_sends wr [] m d = Some (True, m, d)"
| "npipe_sends wr (f # fs) m d = (case npipe_prepare m d of None \<Rightarrow> None
   | Some (st, p, m, d) \<Rightarrow> (case mem_write m p f of None \<Rightarrow> None
   | Some m \<Rightarrow> (case npipe_commit wr (of_nat (length f)) p 0 m d of None \<Rightarrow> None
   | Some (st, m, d) \<Rightarrow> if st \<noteq> Ok then Some (False, m, d) else npipe_sends wr fs m d)))"

fun npipe_polls :: "(nat \<Rightarrow> 'p \<Rightarrow> read_result \<times> 'p) \<Rightarrow> ('s \<Rightarrow> ('p, 'q) npipe) \<Rightarrow> (('p, 'q) npipe \<Rightarrow> 's \<Rightarrow> 's) \<Rightarrow>
    (u16 \<Rightarrow> u8 list \<Rightarrow> 's \<Rightarrow> (status \<times> 's) option) \<Rightarrow> nat \<Rightarrow> 's \<Rightarrow> 's option" where
  "npipe_polls rd dev set_dev proc 0 s = Some s"
| "npipe_polls rd dev set_dev proc (Suc n) s = (case npipe_poll rd dev set_dev proc s of None \<Rightarrow> None
   | Some (st, s) \<Rightarrow> npipe_polls rd dev set_dev proc n s)"

lemma npipe_sends_frames:
  assumes "pipe_write wr sent"
  shows "npipe_sends wr fs m d = Some (ok, m', d') \<Longrightarrow> list_all np_frame fs \<Longrightarrow>
    ok \<longrightarrow> sent (np_out d') = sent (np_out d) @ frame_writes fs"
proof (induction fs arbitrary: m d)
  case (Cons f fs)
  obtain m1 where m1: "mem_write m (Ptr (np_wblk d) 0) f = Some m1"
    using Cons.prems(1) by (auto simp: npipe_prepare_def split: option.splits)
  then have "mem_read m1 (Ptr (np_wblk d) 0) (length f) = Some f"
    by (auto simp: mem_write_def mem_read_def patch_def split: if_splits)
  then obtain st d1 where d1: "npipe_commit wr (of_nat (length f)) (Ptr (np_wblk d) 0) 0 m1 d = Some (st, m1, d1)"
      "st = Ok \<longrightarrow> sent (np_out d1) = sent (np_out d) @ frame_writes [f]"
    using npipe_commit_frame [OF assms, of f m1 "Ptr (np_wblk d) 0" 0 d] Cons.prems(2) by auto
  show ?case
    using Cons.IH [of m1 d1] Cons.prems m1 d1 by (auto simp: npipe_prepare_def frame_writes_def split: if_splits)
qed (simp add: frame_writes_def)

section \<open>Reception\<close>

lemma npipe_polls_prefix:
  assumes rd: "pipe_read rd avail coming delay" and h: "pipe_hears dev set_dev proc got"
  shows "list_all np_frame fs \<Longrightarrow> travelling avail coming (frame_writes fs) (np_in (dev s)) \<Longrightarrow> length (np_rbuf (dev s)) = 1514 \<Longrightarrow>
    \<exists>s' k. npipe_polls rd dev set_dev proc n s = Some s' \<and> got s' = got s @ take k fs"
proof (induction n arbitrary: fs s)
  case 0
  then show ?case
    by (auto intro: exI [of _ 0])
next
  case (Suc n)
  obtain st s1 where s1: "npipe_poll rd dev set_dev proc s = Some (st, s1)" "length (np_rbuf (dev s1)) = 1514"
    and "got s1 = got s \<and> travelling avail coming (frame_writes fs) (np_in (dev s1)) \<or>
      (\<exists>f fs'. fs = f # fs' \<and> got s1 = got s @ [f] \<and> travelling avail coming (frame_writes fs') (np_in (dev s1)))"
    using npipe_poll_step [OF rd h Suc.prems] by blast
  from this(3) show ?case
  proof (elim disjE exE conjE)
    assume "got s1 = got s" "travelling avail coming (frame_writes fs) (np_in (dev s1))"
    then show ?thesis
      using Suc.IH [OF Suc.prems(1) _ s1(2)] s1(1) by simp
  next
    fix f fs' assume f: "fs = f # fs'" "got s1 = got s @ [f]" "travelling avail coming (frame_writes fs') (np_in (dev s1))"
    then obtain s' k where "npipe_polls rd dev set_dev proc n s1 = Some s'" "got s' = got s1 @ take k fs'"
      using Suc.IH [of fs' s1] Suc.prems(1) s1(2) by auto
    then show ?thesis
      using f(1,2) s1(1) by (intro exI [of _ s'] exI [of _ "Suc k"]) simp
  qed
qed

lemma npipe_polls_all:
  assumes rd: "pipe_read rd avail coming delay" and h: "pipe_hears dev set_dev proc got"
  shows "list_all np_frame fs \<Longrightarrow> travelling avail coming (frame_writes fs) (np_in (dev s)) \<Longrightarrow> length (np_rbuf (dev s)) = 1514 \<Longrightarrow>
    \<exists>n s'. npipe_polls rd dev set_dev proc n s = Some s' \<and> got s' = got s @ fs"
proof (induction "(length fs, delay (np_in (dev s)))" arbitrary: fs s rule: wf_induct [OF wf_lex_prod [OF wf_less_than wf_less_than]])
  case (1 fs s)
  show ?case
  proof (cases "fs = []")
    case True
    then show ?thesis
      by (intro exI [of _ 0]) simp
  next
    case False
    obtain st s1 where s1: "npipe_poll rd dev set_dev proc s = Some (st, s1)" "length (np_rbuf (dev s1)) = 1514"
      and "got s1 = got s \<and> travelling avail coming (frame_writes fs) (np_in (dev s1)) \<and> delay (np_in (dev s1)) < delay (np_in (dev s)) \<or>
        (\<exists>f fs'. fs = f # fs' \<and> got s1 = got s @ [f] \<and> travelling avail coming (frame_writes fs') (np_in (dev s1)))"
      using npipe_poll_step [OF rd h "1.prems"] False by blast
    from this(3) have "\<exists>n s'. npipe_polls rd dev set_dev proc n s1 = Some s' \<and> got s' = got s @ fs"
    proof (elim disjE exE conjE)
      assume "got s1 = got s" "travelling avail coming (frame_writes fs) (np_in (dev s1))" "delay (np_in (dev s1)) < delay (np_in (dev s))"
      then show ?thesis
        using "1.hyps" [rule_format, of "(length fs, delay (np_in (dev s1)))" fs s1] "1.prems"(1) s1(2) by simp
    next
      fix f fs' assume f: "fs = f # fs'" "got s1 = got s @ [f]" "travelling avail coming (frame_writes fs') (np_in (dev s1))"
      then show ?thesis
        using "1.hyps" [rule_format, of "(length fs', delay (np_in (dev s1)))" fs' s1] "1.prems"(1) s1(2) by simp
    qed
    then show ?thesis
      using s1(1) by (metis npipe_polls.simps(2) option.simps(5) old.prod.case)
  qed
qed

section \<open>A read that returns less\<close>

text \<open>Nothing resumes a read of the payload that returns only its first bytes: the processor is given the full length, with what an
  earlier frame has left in the buffer.\<close>

lemma npipe_short_read:
  assumes "rd 4 (np_in (dev s)) = (ReadBytes (bytes32 len), p)" and "rd (unat len) p = (ReadBytes bs, p')"
    and "length bs < unat len" and "unat len \<le> 1514" and "length (np_rbuf (dev s)) = 1514"
  shows "npipe_poll rd dev set_dev proc s = proc (ucast len) (bs @ drop (length bs) (np_rbuf (dev s)))
    (set_dev ((dev s)\<lparr>np_rbuf := bs @ drop (length bs) (np_rbuf (dev s)), np_in := p'\<rparr>) s)"
proof -
  have "read_payload rd (unat len) (np_rbuf (dev s)) p = Some (True, bs @ drop (length bs) (np_rbuf (dev s)), p')"
    using assms(2-5) by (subst read_payload.simps) (simp add: patch_def)
  then show ?thesis
    by (simp add: npipe_poll_def assms(1))
qed

section \<open>Properties\<close>

text \<open>C24: Frames travel through the pipes. When all frames have been sent and the other end is polled, however often and however the
  writes arrive in the pipe meanwhile, the processor has heard the first of the frames, each exactly as it was sent; and
  after finitely many polls it has heard all of them.\<close>
theorem npipe_frames_travel:
  assumes "pipe_write wr sent" and "npipe_sends wr fs m d = Some (True, m', d')" and "sent (np_out d) = []" and "list_all np_frame fs"
    and "pipe_read rd avail coming delay" and "pipe_hears dev set_dev proc got" and "length (np_rbuf (dev s)) = 1514"
    and "avail (np_in (dev s)) = []" and "coming (np_in (dev s)) = sent (np_out d')" and "got s = []"
  shows "(\<exists>s' k. npipe_polls rd dev set_dev proc n s = Some s' \<and> got s' = take k fs) \<and>
    (\<exists>n s'. npipe_polls rd dev set_dev proc n s = Some s' \<and> got s' = fs)"
proof -
  have "sent (np_out d') = frame_writes fs"
    using npipe_sends_frames [OF assms(1,2,4)] assms(3) by simp
  then have "travelling avail coming (frame_writes fs) (np_in (dev s))"
    using assms(8,9) by (auto simp: travelling_def intro: exI [of _ 0])
  then show ?thesis
    using npipe_polls_prefix [OF assms(5,6,4) _ assms(7), of n] npipe_polls_all [OF assms(5,6,4) _ assms(7)] assms(10) by simp
qed

text \<open>A pipe that takes every write, and from which a read sees one more write than the last one.\<close>

definition sample_write :: "u8 list \<Rightarrow> u8 list list \<Rightarrow> int \<times> u8 list list" where
  "sample_write bs q = (int (length bs), q @ [bs])"

definition sample_read :: "nat \<Rightarrow> u8 list \<times> u8 list list \<Rightarrow> read_result \<times> u8 list \<times> u8 list list" where
  "sample_read n p = (let a = fst p @ concat (take 1 (snd p)) in if a = [] then (ReadAgain, [], drop 1 (snd p))
     else (ReadBytes (take n a), drop n a, drop 1 (snd p)))"

definition sample_npipe :: "u8 list \<times> u8 list list \<Rightarrow> (u8 list \<times> u8 list list, u8 list list) npipe" where
  "sample_npipe p = \<lparr>np_rbuf = replicate 1514 0, np_wblk = 0, np_in = p, np_out = []\<rparr>"

definition pipe_hear :: "u16 \<Rightarrow> u8 list \<Rightarrow> 'd \<times> u8 list list \<Rightarrow> (status \<times> 'd \<times> u8 list list) option" where
  "pipe_hear len data = (\<lambda>(d, got). Some (Ok, d, got @ [take (unat len) data]))"

theorem npipe_frames_travel_witness:
  "\<exists>m' d'. npipe_sends sample_write [[1, 2, 3], [4]] [replicate 1514 0] (sample_npipe ([], [])) = Some (True, m', d') \<and>
     (\<exists>n s'. npipe_polls sample_read fst (\<lambda>d (_, got). (d, got)) pipe_hear n (sample_npipe ([], np_out d'), []) = Some s' \<and>
       snd s' = [[1, 2, 3], [4]])"
proof -
  have w: "pipe_write sample_write id"
    by (simp add: pipe_write_def sample_write_def)
  have "pipe_read sample_read fst snd (\<lambda>p. length (snd p))"
    unfolding pipe_read_def sample_read_def Let_def by (intro allI impI exI [of _ 1]) (auto split: if_splits)
  moreover have "pipe_hears fst (\<lambda>d (_, got). (d, got)) pipe_hear snd"
    by (auto simp: pipe_hears_def pipe_hear_def)
  moreover have "list_all np_frame [[1, 2, 3], [4]]"
    by (simp add: np_frame_def)
  moreover obtain m' d' where d': "npipe_sends sample_write [[1, 2, 3], [4]] [replicate 1514 0] (sample_npipe ([], [])) = Some (True, m', d')"
    by (simp add: npipe_commit_def npipe_prepare_def sample_npipe_def mem_write_def mem_read_def patch_def
        npipe_write.simps [of sample_write] sample_write_def)
  ultimately have "\<exists>n s'. npipe_polls sample_read fst (\<lambda>d (_, got). (d, got)) pipe_hear n (sample_npipe ([], np_out d'), []) = Some s' \<and>
       snd s' = [[1, 2, 3], [4]]"
    by (intro npipe_frames_travel [OF w d', of sample_read fst snd "\<lambda>p. length (snd p)" fst "\<lambda>d (_, got). (d, got)" pipe_hear snd,
          THEN conjunct2]) (simp_all add: sample_npipe_def)
  then show ?thesis
    using d' by blast
qed

end
