(* ===== verification/Tap.thy ===== *)
theory Tap
  imports Npipe Devices
begin

text \<open>
  The device over a tap interface of the kernel (\<^verbatim>\<open>src/transport/tap\<close>), and the device that records the frames of another one in a
  capture file (\<^verbatim>\<open>src/transport/pcap\<close>). As for the pipes, \<^verbatim>\<open>read\<close>, \<^verbatim>\<open>write\<close> and \<^verbatim>\<open>select\<close> are parameters; the capture file is the list of the
  records written to it.
\<close>

section \<open>The tap device\<close>

record 'f tap =
  tp_address :: mac
  tp_mtu :: u32
  tp_buffers :: "ptr list"
  tp_fd :: 'f

text \<open>The answers of the system to the constructor.\<close>

record tap_answers =
  ta_open :: bool
  ta_info :: bool
  ta_ether :: bool
  ta_link :: "(mac \<times> u32) option"
  ta_nonblock :: bool

text \<open>64 buffers, each a new block whose contents are \<open>junk\<close>.\<close>

definition tap_new :: "tap_answers \<Rightarrow> string \<Rightarrow> (nat \<Rightarrow> nat \<Rightarrow> u8) \<Rightarrow> 'f \<Rightarrow> mem \<Rightarrow> string + mem \<times> 'f tap" where
  "tap_new A devname junk fd m =
     (if \<not> ta_open A then Inl (''Cannot open '' @ devname @ '' device'')
      else if \<not> ta_info A then Inl (devname @ '' is not a TUN/TAP device'')
      else if \<not> ta_ether A then Inl (devname @ '' is not a TAP device'')
      else (case ta_link A of None \<Rightarrow> Inl ''Cannot get TAP device information''
      | Some (addr, mtu) \<Rightarrow>
          if \<not> ta_nonblock A then Inl ''Cannot set the device in non-blocking mode''
          else Inr (m @ List.map (\<lambda>b. List.map (junk b) [0..<unat mtu + 14]) [0..<64],
            \<lparr>tp_address = addr, tp_mtu = mtu, tp_buffers = List.map (\<lambda>b. Ptr (length m + b) 0) [0..<64], tp_fd = fd\<rparr>)))"

text \<open>The buffer on the stack has \<^verbatim>\<open>m_mtu\<close> bytes. \<open>eagain\<close> is whether \<^verbatim>\<open>errno\<close> is \<^verbatim>\<open>EAGAIN\<close>, which the code also asks when \<^verbatim>\<open>read\<close> returned 0:
  after an end of file, and for a frame of no bytes.\<close>

definition tap_poll :: "(nat \<Rightarrow> 'f \<Rightarrow> read_result \<times> 'f) \<Rightarrow> ('f \<Rightarrow> bool) \<Rightarrow> ('s \<Rightarrow> 'f tap) \<Rightarrow> ('f tap \<Rightarrow> 's \<Rightarrow> 's) \<Rightarrow>
    (u16 \<Rightarrow> u8 list \<Rightarrow> 's \<Rightarrow> (status \<times> 's) option) \<Rightarrow> 's \<Rightarrow> (status \<times> 's) option" where
  "tap_poll rd eagain dev set_dev proc s = (case rd (unat (tp_mtu (dev s))) (tp_fd (dev s)) of (ret, fd) \<Rightarrow>
     let s = set_dev ((dev s)\<lparr>tp_fd := fd\<rparr>) s
     in (case ret of
           ReadBytes bs \<Rightarrow> if bs = [] then Some (if eagain fd then NoDataAvailable else HardwareError, s)
             else proc (of_nat (length bs)) bs s
         | ReadAgain \<Rightarrow> Some (NoDataAvailable, s)
         | ReadEnd \<Rightarrow> Some (if eagain fd then NoDataAvailable else HardwareError, s)
         | ReadError \<Rightarrow> Some (HardwareError, s)))"

definition tap_wait :: "(nat \<Rightarrow> 'f \<Rightarrow> read_result \<times> 'f) \<Rightarrow> ('f \<Rightarrow> bool) \<Rightarrow> (u64 \<Rightarrow> 'f \<Rightarrow> int \<times> 'f) \<Rightarrow> ('s \<Rightarrow> 'f tap) \<Rightarrow>
    ('f tap \<Rightarrow> 's \<Rightarrow> 's) \<Rightarrow> (u16 \<Rightarrow> u8 list \<Rightarrow> 's \<Rightarrow> (status \<times> 's) option) \<Rightarrow> u64 \<Rightarrow> 's \<Rightarrow> (status \<times> 's) option" where
  "tap_wait rd eagain sel dev set_dev proc ns s = (
     let us = ns div 1000
     in case sel (if us = 0 then 1 else us) (tp_fd (dev s)) of (ret, fd) \<Rightarrow>
       let s = set_dev ((dev s)\<lparr>tp_fd := fd\<rparr>) s
       in if ret = 0 then Some (NoDataAvailable, s)
          else if ret = 1 then tap_poll rd eagain dev set_dev proc s
          else Some (HardwareError, s))"

definition tap_prepare :: "mem \<Rightarrow> 'f tap \<Rightarrow> (status \<times> ptr \<times> mem \<times> 'f tap) option" where
  "tap_prepare m d = (case tp_buffers d of [] \<Rightarrow> Some (NoMoreResources, Null, m, d)
     | b # bs \<Rightarrow> Some (Ok, b, m, d\<lparr>tp_buffers := bs\<rparr>))"

definition tap_commit :: "(u8 list \<Rightarrow> 'f \<Rightarrow> int \<times> 'f) \<Rightarrow> u32 \<Rightarrow> ptr \<Rightarrow> u16 \<Rightarrow> mem \<Rightarrow> 'f tap \<Rightarrow> (status \<times> mem \<times> 'f tap) option" where
  "tap_commit wr len buf mss m d = do {
     bs \<leftarrow> mem_read m buf (unat len);
     let (res, fd) = wr bs (tp_fd d);
     Some (if res = -1 then (HardwareError, m, d\<lparr>tp_fd := fd\<rparr>)
           else (Ok, m, d\<lparr>tp_fd := fd, tp_buffers := tp_buffers d @ [buf]\<rparr>))
   }"

definition tap_ops :: "(u8 list \<Rightarrow> 'f \<Rightarrow> int \<times> 'f) \<Rightarrow> 'f tap device_ops" where
  "tap_ops wr = \<lparr>d_mtu = tp_mtu, d_mss = (\<lambda>d. tp_mtu d + 14), d_rblog2 = (\<lambda>d. 11), d_rbavail = (\<lambda>d. 32),
     d_listen = (\<lambda>port d. (Ok, d)), d_unlisten = (\<lambda>port d. d), d_prepare = tap_prepare, d_commit = tap_commit wr\<rparr>"

section \<open>The recording device\<close>

text \<open>
  A record is the seconds and nanoseconds since the first one, and the bytes. The clock is the sequence \<open>pc_clock\<close> of its readings; the time of the
  first record and the frequency are variables of the function, set by its first call.
\<close>

record 'd pcap =
  pc_device :: 'd
  pc_file :: "(u64 \<times> u64 \<times> u8 list) list"
  pc_cps :: u64
  pc_first :: u64
  pc_clock :: "nat \<Rightarrow> u64"
  pc_reads :: nat

definition writePacket :: "u8 list \<Rightarrow> 'd pcap \<Rightarrow> 'd pcap option" where
  "writePacket data d = (let now = pc_clock d (pc_reads d); d' = d\<lparr>pc_reads := pc_reads d + 1\<rparr>
     in if pc_first d = 0 then Some (d'\<lparr>pc_first := now, pc_file := pc_file d @ [(0, 0, data)]\<rparr>)
        else if pc_cps d = 0 then None
        else let delta = now - pc_first d; secs = delta div pc_cps d;
                 nscs = (delta - secs * pc_cps d) * 1000000000 div pc_cps d
             in Some (d'\<lparr>pc_file := pc_file d @ [(secs, nscs, data)]\<rparr>))"

definition pcap_prepare :: "'d device_ops \<Rightarrow> mem \<Rightarrow> 'd pcap \<Rightarrow> (status \<times> ptr \<times> mem \<times> 'd pcap) option" where
  "pcap_prepare ops m d = do {
     (ret, buf, m, e) \<leftarrow> d_prepare ops m (pc_device d);
     Some (ret, buf, m, d\<lparr>pc_device := e\<rparr>)
   }"

definition pcap_commit :: "'d device_ops \<Rightarrow> u32 \<Rightarrow> ptr \<Rightarrow> u16 \<Rightarrow> mem \<Rightarrow> 'd pcap \<Rightarrow> (status \<times> mem \<times> 'd pcap) option" where
  "pcap_commit ops len buf mss m d = do {
     (ret, m, e) \<leftarrow> d_commit ops len buf mss m (pc_device d);
     let d = d\<lparr>pc_device := e\<rparr>;
     if ret = Ok then do {
       bs \<leftarrow> mem_read m buf (unat len);
       d \<leftarrow> writePacket bs d;
       Some (ret, m, d)
     }
     else Some (ret, m, d)
   }"

definition pcap_process :: "('s \<Rightarrow> 'd pcap) \<Rightarrow> ('d pcap \<Rightarrow> 's \<Rightarrow> 's) \<Rightarrow> (u16 \<Rightarrow> u8 list \<Rightarrow> 's \<Rightarrow> (status \<times> 's) option) \<Rightarrow>
    u16 \<Rightarrow> u8 list \<Rightarrow> 's \<Rightarrow> (status \<times> 's) option" where
  "pcap_process dev set_dev proc len data s =
     (if len > 0 then
        if unat len \<le> length data
        then (case writePacket (take (unat len) data) (dev s) of None \<Rightarrow> None | Some d \<Rightarrow> proc len data (set_dev d s))
        else None
      else proc len data s)"

text \<open>\<^verbatim>\<open>poll\<close> and \<^verbatim>\<open>wait\<close> are those of the other device, given by \<open>inner\<close>, with the recording processor in between.\<close>

definition pcap_poll :: "((u16 \<Rightarrow> u8 list \<Rightarrow> 's \<Rightarrow> (status \<times> 's) option) \<Rightarrow> 's \<Rightarrow> (status \<times> 's) option) \<Rightarrow> ('s \<Rightarrow> 'd pcap) \<Rightarrow>
    ('d pcap \<Rightarrow> 's \<Rightarrow> 's) \<Rightarrow> (u16 \<Rightarrow> u8 list \<Rightarrow> 's \<Rightarrow> (status \<times> 's) option) \<Rightarrow> 's \<Rightarrow> (status \<times> 's) option" where
  "pcap_poll inner dev set_dev proc s = inner (pcap_process dev set_dev proc) s"

definition pcap_ops :: "'d device_ops \<Rightarrow> 'd pcap device_ops" where
  "pcap_ops ops = \<lparr>d_mtu = (\<lambda>d. d_mtu ops (pc_device d)), d_mss = (\<lambda>d. d_mss ops (pc_device d)),
     d_rblog2 = (\<lambda>d. d_rblog2 ops (pc_device d)), d_rbavail = (\<lambda>d. d_rbavail ops (pc_device d)),
     d_listen = (\<lambda>port d. let (st, e) = d_listen ops port (pc_device d) in (st, d\<lparr>pc_device := e\<rparr>)),
     d_unlisten = (\<lambda>port d. d\<lparr>pc_device := d_unlisten ops port (pc_device d)\<rparr>),
     d_prepare = pcap_prepare ops, d_commit = pcap_commit ops\<rparr>"

section \<open>The contracts of the devices\<close>

text \<open>If every write takes some bytes, the device over pipes has the contract of a device that never fails.\<close>

lemma npipe_write_all:
  assumes "\<And>bs q. bs \<noteq> [] \<Longrightarrow> 0 < fst (wr bs q)"
  shows "\<exists>q'. npipe_write wr bs q = Some (True, q')"
proof (induction "length bs" arbitrary: bs q rule: less_induct)
  case less
  show ?case
  proof (cases "bs = []")
    case True
    then show ?thesis
      by (subst npipe_write.simps) simp
  next
    case False
    obtain ret q1 where w: "wr bs q = (ret, q1)" "0 < ret"
      using assms [OF False, of q] by (cases "wr bs q") auto
    then have "length (drop (nat ret) bs) < length bs"
      using False by simp
    from less [OF this, of q1] show ?thesis
      using w False by (subst npipe_write.simps) auto
  qed
qed

definition npipe_dinv :: "mem \<Rightarrow> ('p, 'q) npipe \<Rightarrow> bool" where
  "npipe_dinv m d \<longleftrightarrow> valid m (Ptr (np_wblk d) 0) 1514"

lemma npipe_reliable:
  fixes wr :: "u8 list \<Rightarrow> 'q \<Rightarrow> int \<times> 'q"
  assumes "\<And>bs q. bs \<noteq> [] \<Longrightarrow> 0 < fst (wr bs q)"
  shows "reliable_nic (npipe_ops wr :: ('p, 'q) npipe device_ops) npipe_dinv 1514 0"
proof -
  have commit: "npipe_commit wr len p tso m d = (if valid m p (unat len) then Some (Ok, m, d\<lparr>np_out := q\<rparr>) else None)"
    if "npipe_write wr (bytes32 len) (np_out d) = Some (True, q1)" "npipe_write wr (mem_get m p (unat len)) q1 = Some (True, q)"
    for len p tso m q q1 and d :: "('p, 'q) npipe"
    using that by (simp add: npipe_commit_def mem_read_def)
  have commits: "\<exists>q. npipe_commit wr len p tso m d = (if valid m p (unat len) then Some (Ok, m, d\<lparr>np_out := q\<rparr>) else None)"
    for len p tso m and d :: "('p, 'q) npipe"
  proof -
    obtain q1 where q1: "npipe_write wr (bytes32 len) (np_out d) = Some (True, q1)"
      using npipe_write_all [of wr, OF assms] by blast
    obtain q where "npipe_write wr (mem_get m p (unat len)) q1 = Some (True, q)"
      using npipe_write_all [of wr, OF assms] by blast
    from commit [OF q1 this] show ?thesis
      by blast
  qed
  show ?thesis
  proof
    fix m p len tso st m' and d d' :: "('p, 'q) npipe"
    assume d: "npipe_dinv m d"
    show "runs (d_prepare (npipe_ops wr) m d) (\<lambda>(st, p, m', d'). mem_le m m' \<and> npipe_dinv m' d' \<and> (st = Ok \<longrightarrow> frame_ok m' p 0 1514))"
      using d frame_okI [of m "Ptr (np_wblk d) 0" 0 1514] by (simp add: npipe_ops_def npipe_prepare_def npipe_dinv_def)
    show "frame_ok m p 0 (unat (len :: u32)) \<Longrightarrow> runs (d_commit (npipe_ops wr) len p tso m d) (\<lambda>(st, m', d'). mem_le m m' \<and> npipe_dinv m' d')"
      using d commits [of len p tso m d] frame_ok_valid [of m p 0 "unat len"] by (auto simp: npipe_ops_def npipe_dinv_def)
    show "d_commit (npipe_ops wr) len p tso m d = Some (st, m', d') \<Longrightarrow> st = Ok"
      using commits [of len p tso m d] by (auto simp: npipe_ops_def split: if_splits)
  qed (auto simp: npipe_ops_def npipe_dinv_def npipe_prepare_def simp del: valid.simps intro: valid_mono)
qed

text \<open>Recording the frames of a device with a contract keeps it, if the clock has a frequency.\<close>

definition pcap_dinv :: "(mem \<Rightarrow> 'd \<Rightarrow> bool) \<Rightarrow> mem \<Rightarrow> 'd pcap \<Rightarrow> bool" where
  "pcap_dinv dinv m d \<longleftrightarrow> dinv m (pc_device d) \<and> pc_cps d \<noteq> 0"

lemma writePacket_ok:
  "pc_cps d \<noteq> 0 \<Longrightarrow> \<exists>d'. writePacket bs d = Some d' \<and> pc_device d' = pc_device d \<and> pc_cps d' = pc_cps d \<and>
    List.map (\<lambda>(s, n, bs). bs) (pc_file d') = List.map (\<lambda>(s, n, bs). bs) (pc_file d) @ [bs]"
  by (simp add: writePacket_def Let_def)

context reliable_nic
begin

lemma pcap_commit_runs:
  assumes "pcap_dinv dinv m d" and p: "frame_ok m p hr (unat len)" and "unat len \<le> nmss"
  shows "runs (pcap_commit ops len p tso m d) (\<lambda>(st, m', d'). st = Ok \<and> mem_le m m' \<and> pcap_dinv dinv m' d')"
  unfolding pcap_commit_def runs_bind
proof (rule runs_mono [OF commit_law [of m "pc_device d" p len tso]], goal_cases)
  case (4 r)
  obtain st m' e where r: "r = (st, m', e)"
    by (cases r)
  have st: "st = Ok" "mem_le m m'" "dinv m' e"
    using 4 commit_Ok [of m "pc_device d" len p tso] assms(1) by (auto simp: r pcap_dinv_def)
  have v: "valid m' p (unat len)"
    using frame_ok_valid [OF frame_ok_mono [OF p st(2)]] .
  obtain d' where "writePacket (mem_get m' p (unat len)) (d\<lparr>pc_device := e\<rparr>) = Some d'" "pc_device d' = e" "pc_cps d' = pc_cps d"
    using writePacket_ok [of "d\<lparr>pc_device := e\<rparr>" "mem_get m' p (unat len)"] assms(1) by (auto simp: pcap_dinv_def)
  then show ?case
    using st assms(1) v by (simp add: r mem_read_def pcap_dinv_def)
qed (use assms in \<open>simp_all add: pcap_dinv_def\<close>)

lemma pcap_reliable: "reliable_nic (pcap_ops ops) (pcap_dinv dinv) nmss hr"
proof
  fix m p len tso st m' and d d' :: "'a pcap"
  assume d: "pcap_dinv dinv m d"
  show "runs (d_prepare (pcap_ops ops) m d) (\<lambda>(st, p, m', d'). mem_le m m' \<and> pcap_dinv dinv m' d' \<and> (st = Ok \<longrightarrow> frame_ok m' p hr nmss))"
    using prepare_law [of m "pc_device d"] d
    by (auto simp: pcap_ops_def pcap_prepare_def pcap_dinv_def runs_bind elim!: runs_mono)
  show "d_prepare (pcap_ops ops) m d = Some (st, p, m', d') \<Longrightarrow> st = Ok" for p
    using prepare_Ok [of m "pc_device d"] d by (auto simp: pcap_ops_def pcap_prepare_def pcap_dinv_def Some_eq_bind)
  show "frame_ok m p hr (unat (len :: u32)) \<Longrightarrow> unat len \<le> nmss \<Longrightarrow>
      runs (d_commit (pcap_ops ops) len p tso m d) (\<lambda>(st, m', d'). mem_le m m' \<and> pcap_dinv dinv m' d')"
    using runs_mono [OF pcap_commit_runs [OF d, of p len tso], of "\<lambda>(st, m', d'). mem_le m m' \<and> pcap_dinv dinv m' d'"]
    by (auto simp: pcap_ops_def)
  show "d_commit (pcap_ops ops) len p tso m d = Some (st, m', d') \<Longrightarrow> st = Ok"
    using commit_Ok [of m "pc_device d"] d
    by (auto simp: pcap_ops_def pcap_commit_def pcap_dinv_def Some_eq_bind split: if_splits)
qed (auto simp: pcap_ops_def pcap_dinv_def mss_const dinv_listen dinv_unlisten Let_def split_beta intro: dinv_mem)

end

interpretation recorded_list: reliable_nic "pcap_ops list_ops" "pcap_dinv (list_dinv mtu)" "unat mtu" 4 for mtu
  by (rule list_link.pcap_reliable)

section \<open>The frames and buffers of the tap device\<close>

text \<open>A read from the interface takes one frame of those that are \<open>pending\<close> and cuts it to the room it is given.\<close>

definition frame_read :: "(nat \<Rightarrow> 'f \<Rightarrow> read_result \<times> 'f) \<Rightarrow> ('f \<Rightarrow> u8 list list) \<Rightarrow> bool" where
  "frame_read rd pending \<longleftrightarrow> (\<forall>n fd f fs. pending fd = f # fs \<longrightarrow>
     (\<exists>fd'. rd n fd = (ReadBytes (take n f), fd') \<and> pending fd' = fs))"

text \<open>The stack sends \<open>bs\<close>: \<^verbatim>\<open>prepare\<close>, the bytes, \<^verbatim>\<open>commit\<close>.\<close>

definition tap_send :: "(u8 list \<Rightarrow> 'f \<Rightarrow> int \<times> 'f) \<Rightarrow> u8 list \<Rightarrow> mem \<times> 'f tap \<Rightarrow> (status \<times> mem \<times> 'f tap) option" where
  "tap_send wr bs = (\<lambda>(m, d). do {
     (st, p, m, d) \<leftarrow> tap_prepare m d;
     if st \<noteq> Ok then Some (st, m, d)
     else do { m \<leftarrow> mem_write m p bs; tap_commit wr (of_nat (length bs)) p 0 m d }
   })"

fun tap_sends :: "(u8 list \<Rightarrow> 'f \<Rightarrow> int \<times> 'f) \<Rightarrow> u8 list list \<Rightarrow> mem \<times> 'f tap \<Rightarrow> (status list \<times> mem \<times> 'f tap) option" where
  "tap_sends wr [] s = Some ([], s)"
| "tap_sends wr (bs # bss) s = (case tap_send wr bs s of None \<Rightarrow> None
   | Some (st, s) \<Rightarrow> (case tap_sends wr bss s of None \<Rightarrow> None | Some (sts, s) \<Rightarrow> Some (st # sts, s)))"

definition tap_inv :: "mem \<Rightarrow> 'f tap \<Rightarrow> bool" where
  "tap_inv m d \<longleftrightarrow> list_all (\<lambda>p. valid m p (unat (tp_mtu d) + 14)) (tp_buffers d)"

lemma tap_new_inv:
  assumes "tap_new A devname junk fd m0 = Inr (m, d)"
  shows "tap_inv m d \<and> length (tp_buffers d) = 64"
  using assms
  by (auto simp: tap_new_def tap_inv_def list_all_iff nth_append split: if_splits option.splits)

lemma tap_send_fails:
  assumes "tap_inv m d" and "tp_buffers d = p # ps" and "length bs \<le> unat (tp_mtu d) + 14" and "length bs < 2 ^ 32"
    and "\<And>bs fd. fst (wr bs fd) = -1"
  shows "\<exists>m' d'. tap_send wr bs (m, d) = Some (HardwareError, m', d') \<and> tap_inv m' d' \<and> tp_buffers d' = ps \<and> tp_mtu d' = tp_mtu d"
proof -
  let ?m = "mem_upd m p bs"
  have v: "valid m p (unat (tp_mtu d) + 14)" "list_all (\<lambda>p. valid m p (unat (tp_mtu d) + 14)) ps"
    using assms(1,2) by (simp_all add: tap_inv_def)
  have n: "unat (of_nat (length bs) :: u32) = length bs"
    using assms(4) by (simp add: unsigned_of_nat take_bit_nat_eq_self)
  obtain fd' where w: "wr (mem_get ?m p (length bs)) (tp_fd d) = (-1, fd')"
    using assms(5) [of "mem_get ?m p (length bs)" "tp_fd d"] by (cases "wr (mem_get ?m p (length bs)) (tp_fd d)") simp
  have "tap_commit wr (of_nat (length bs)) p 0 ?m (d\<lparr>tp_buffers := ps\<rparr>) = Some (HardwareError, ?m, d\<lparr>tp_buffers := ps, tp_fd := fd'\<rparr>)"
    using v(1) assms(3) w by (simp add: tap_commit_def n mem_read_valid(1) [of ?m p "unat (tp_mtu d) + 14"])
  then show ?thesis
    using v assms(2,3) by (simp add: tap_send_def tap_prepare_def mem_write_valid(1) [OF v(1)] tap_inv_def)
qed

lemma tap_sends_fail:
  assumes "\<And>bs fd. fst (wr bs fd) = -1"
  shows "tap_inv m d \<Longrightarrow> list_all (\<lambda>bs. length bs \<le> unat (tp_mtu d) + 14 \<and> length bs < 2 ^ 32) bss \<Longrightarrow> length bss = length (tp_buffers d) \<Longrightarrow>
    \<exists>m' d'. tap_sends wr bss (m, d) = Some (replicate (length bss) HardwareError, m', d') \<and> tp_buffers d' = []"
proof (induction bss arbitrary: m d)
  case (Cons bs bss)
  then obtain p ps where ps: "tp_buffers d = p # ps"
    by (cases "tp_buffers d") auto
  obtain m1 d1 where "tap_send wr bs (m, d) = Some (HardwareError, m1, d1)" "tap_inv m1 d1" "tp_buffers d1 = ps" "tp_mtu d1 = tp_mtu d"
    using tap_send_fails [of m d p ps bs wr, OF Cons.prems(1) ps _ _ assms] Cons.prems(2) by auto
  then show ?case
    using Cons.IH [of m1 d1] Cons.prems(2,3) ps by auto
qed simp

section \<open>Properties\<close>

text \<open>C30: The device cuts frames. It declares that it can transfer frames of the unit of transmission and an Ethernet header, but of a frame
  pending that is longer than the unit only the first bytes up to the unit reach the processor, and the rest is gone. (Were the unit 0, the
  frame would be gone without a call of the processor.)\<close>
theorem tap_cuts_frames:
  assumes "frame_read rd pending" and "pending (tp_fd (dev s)) = f # fs" and "unat (tp_mtu (dev s)) < length f"
    and "length f \<le> unat (d_mss (tap_ops wr) (dev s))" and "\<And>d s. dev (set_dev d s) = d"
  shows "\<exists>s'. tap_poll rd eagain dev set_dev proc s =
      (if tp_mtu (dev s) \<noteq> 0 then proc (ucast (tp_mtu (dev s))) (take (unat (tp_mtu (dev s))) f) s'
       else Some (if eagain (tp_fd (dev s')) then NoDataAvailable else HardwareError, s')) \<and>
    pending (tp_fd (dev s')) = fs"
proof -
  obtain fd' where "rd (unat (tp_mtu (dev s))) (tp_fd (dev s)) = (ReadBytes (take (unat (tp_mtu (dev s))) f), fd')" "pending fd' = fs"
    using assms(1,2) unfolding frame_read_def by blast
  moreover have "of_nat (min (length f) (unat (tp_mtu (dev s)))) = (ucast (tp_mtu (dev s)) :: u16)"
    using assms(3) by (simp add: min_absorb2)
  moreover have "f \<noteq> []"
    using assms(3) by auto
  ultimately show ?thesis
    using assms(5) by (intro exI [of _ "set_dev ((dev s)\<lparr>tp_fd := fd'\<rparr>) s"]) (simp add: tap_poll_def Let_def unat_eq_zero)
qed

definition sample_tap :: "u8 list list \<Rightarrow> u8 list list tap" where
  "sample_tap fs = \<lparr>tp_address = Mac 16 0 0 0 0 1, tp_mtu = 4, tp_buffers = [], tp_fd = fs\<rparr>"

definition sample_tap_read :: "nat \<Rightarrow> u8 list list \<Rightarrow> read_result \<times> u8 list list" where
  "sample_tap_read n fs = (case fs of [] \<Rightarrow> (ReadAgain, []) | f # fs \<Rightarrow> (ReadBytes (take n f), fs))"

theorem tap_cuts_frames_witness:
  "\<exists>s' :: u8 list list tap \<times> u8 list. tap_poll sample_tap_read (\<lambda>fs. True) fst (\<lambda>d (_, got). (d, got)) (\<lambda>len data (d, got). Some (Ok, d, data))
     (sample_tap [[1, 2, 3, 4, 5, 6]], []) = Some (Ok, s') \<and> snd s' = [1, 2, 3, 4]"
  using tap_cuts_frames [of sample_tap_read id fst "(sample_tap [[1, 2, 3, 4, 5, 6]], [])" "[1, 2, 3, 4, 5, 6]" "[]"
      "\<lambda>bs fs. (0, fs)" "\<lambda>d (_, got). (d, got)" "\<lambda>fs. True" "\<lambda>len data (d, got). Some (Ok, d, data)"]
  by (auto simp: frame_read_def sample_tap_read_def sample_tap_def tap_ops_def split_beta)

text \<open>A write that fails costs a buffer. After 64 frames that the kernel refused, a device that has just been constructed reports that
  there is no buffer, and this is so for ever, since only a commit gives one back.\<close>
theorem tap_failed_writes:
  assumes "tap_new A devname junk fd m0 = Inr (m, d)" and "\<And>bs fd. fst (wr bs fd) = -1" and "length bss = 64"
    and "list_all (\<lambda>bs. length bs \<le> unat (tp_mtu d) + 14 \<and> length bs < 2 ^ 32) bss"
  shows "\<exists>m' d'. tap_sends wr bss (m, d) = Some (replicate 64 HardwareError, m', d') \<and>
    tap_send wr' bs (m', d') = Some (NoMoreResources, m', d')"
  using tap_sends_fail [OF assms(2) _ assms(4)] tap_new_inv [OF assms(1)] assms(3)
  by (fastforce simp: tap_send_def tap_prepare_def)

theorem tap_failed_writes_witness:
  "\<exists>m d m' d'. tap_new \<lparr>ta_open = True, ta_info = True, ta_ether = True, ta_link = Some (Mac 16 0 0 0 0 1, 1500), ta_nonblock = True\<rparr> ''tap0''
       (\<lambda>b i. 0) () [] = Inr (m, d) \<and>
     tap_sends (\<lambda>bs fd. (-1, fd)) (replicate 64 [1, 2, 3]) (m, d) = Some (replicate 64 HardwareError, m', d') \<and>
     tap_send (\<lambda>bs fd. (3, fd)) [1, 2, 3] (m', d') = Some (NoMoreResources, m', d')"
proof -
  let ?A = "\<lparr>ta_open = True, ta_info = True, ta_ether = True, ta_link = Some (Mac 16 0 0 0 0 1, 1500), ta_nonblock = True\<rparr>"
  obtain m d where d: "tap_new ?A ''tap0'' (\<lambda>b i. 0) () [] = Inr (m, d)"
    by (simp add: tap_new_def)
  show ?thesis
    using tap_failed_writes [of ?A "''tap0''" "\<lambda>b i. 0" "()" "[]" m d "\<lambda>bs fd. (-1, fd)" "replicate 64 [1, 2, 3]" "\<lambda>bs fd. (3, fd)" "[1, 2, 3]"] d
    by (auto simp: list_all_iff)
qed

end
