(* ===== verification/Links.thy ===== *)
theory Links
  imports Tap Api
begin

text \<open>
  The safety of the whole stack, over any device that has the contract of \<open>reliable_nic\<close>. The device over named pipes has it
  as long as the writes to its pipe take some bytes, and recording the frames of a device in a capture file keeps it, so that a
  client over recorded pipes is an instance.
\<close>

section \<open>A sample client\<close>

definition sample_pcap :: "(u8 list \<times> u8 list list, u8 list list) npipe pcap" where
  "sample_pcap = \<lparr>pc_device = sample_npipe ([], []), pc_file = [], pc_cps = 1000, pc_first = 0, pc_clock = (\<lambda>n. of_nat n + 1), pc_reads = 0\<rparr>"



lemma sample_pipe_link: "reliable_nic (pcap_ops (npipe_ops sample_write)) (pcap_dinv npipe_dinv) 1514 0"
  by (rule reliable_nic.pcap_reliable [OF npipe_reliable]) (simp add: sample_write_def)

lemma sample_pipe_dinv: "pcap_dinv npipe_dinv [replicate 1514 0] sample_pcap"
  by (simp add: pcap_dinv_def npipe_dinv_def sample_pcap_def sample_npipe_def)

definition sample_pipe_net :: "(u8 list \<times> u8 list list, u8 list list) npipe pcap net" where
  "sample_pipe_net = \<lparr>n_mem = [replicate 1514 0], n_dev = sample_pcap, n_eth = eth_producer_init (Mac 16 0 0 0 0 1),
     n_ip = ip_producer_init (ip4_make 10 1 0 1)\<rparr>"

lemma sample_pipe_tcp:
  "\<exists>t0. tcp_create (pcap_ops (npipe_ops sample_write)) sample_pipe_net (client_new 1 ()) 1 0 100 = Some t0 \<and>
     all_admissible (pcap_ops (npipe_ops sample_write)) (client_events default_delegate) sample_events t0"
  by (simp add: tcp_create_def assign_ids.simps Let_def sample_events_def reusable_def conn_init_def hasAvailableSegments_def
      port_in_use_def choose_port.simps segment_empty_def list_ex_iff split: option.split)

section \<open>Properties\<close>



text \<open>C2: Any TCP processor over any device that takes every frame and never releases a buffer it has lent or accepted, with any
  event handler that keeps its contract, handles every sequence of admissible events, from its construction on: it never reads or
  writes outside a buffer, through a null pointer or outside a vector, whatever the segments, the timing and the answers of
  the handler are, and ends with all its connections well-formed. As for C1, a device that refuses a frame is excluded.\<close>
theorem tcp_never_fails:
  assumes "reliable_nic ops dinv nmss hr" and "62 \<le> nmss" and "nmss < 2 ^ 24" and "app ev hinv" and "hinv h"
    and "dinv (n_mem n) (n_dev n)" and "tcp_create ops n h nconn now cps = Some t0" and "all_admissible ops ev events t0"
  shows "\<exists>t. tcp_play ops ev events t0 = Some t \<and> dinv (t_mem t) (t_dev t) \<and> hinv (t_handler t) \<and> tcp_ok hr nmss t"
  using assms by (rule processor_play)

theorem tcp_never_fails_witness:
  "\<exists>t0 t. tcp_create (pcap_ops (npipe_ops sample_write)) sample_pipe_net (client_new 1 ()) 1 0 100 = Some t0 \<and>
     tcp_play (pcap_ops (npipe_ops sample_write)) (client_events default_delegate) sample_events t0 = Some t \<and> tcp_ok 0 1514 t"
proof -
  obtain t0 where t0: "tcp_create (pcap_ops (npipe_ops sample_write)) sample_pipe_net (client_new 1 ()) 1 0 100 = Some t0"
      "all_admissible (pcap_ops (npipe_ops sample_write)) (client_events default_delegate) sample_events t0"
    using sample_pipe_tcp by blast
  have "pcap_dinv npipe_dinv (n_mem sample_pipe_net) (n_dev sample_pipe_net)"
    using sample_pipe_dinv by (simp add: sample_pipe_net_def)
  then show ?thesis
    using tcp_never_fails [OF sample_pipe_link _ _ default_client.app_axioms _ _ t0] t0(1) by (auto simp: client_new_ok)
qed

end
