(* ===== verification/Poller.thy ===== *)
theory Poller
  imports Api
begin

text \<open>
  The poller of the interactive user-space client, \<^verbatim>\<open>tools/uspace/client/Poller.cpp\<close>: a thread that owns a client and serves the
  calls of another thread, with one mutex and one condition variable between them. The two threads are interleaved:
  a critical section is one step, as is one round of waiting for the device. The answers that the calls return
  are compared with those the thread has given.
\<close>

section \<open>The shared state\<close>

datatype poller_action = ActConnect | ActClose | ActInfo | ActWrite | ActNone

text \<open>The members of the class that the threads share, and the two local variables of \<^verbatim>\<open>run\<close>. The device is
  that of the client.\<close>

record ('d, 'u) poller =
  po_client :: "('d, 'u client) stack"
  po_run :: bool
  po_action :: poller_action
  po_ripaddr :: ip4
  po_lport :: u16
  po_rport :: u16
  po_id :: u16
  po_status :: status
  po_data :: "u8 list"
  po_closing :: bool
  po_off :: u32

definition poller_create :: "('d, 'u client) stack \<Rightarrow> ('d, 'u) poller" where
  "poller_create k = \<lparr>po_client = k, po_run = True, po_action = ActNone, po_ripaddr = 0, po_lport = 0, po_rport = 0,
     po_id = 0, po_status = Ok, po_data = [], po_closing = False, po_off = 0\<rparr>"

section \<open>The thread\<close>

text \<open>\<^verbatim>\<open>wait\<close> of the device, which hands the frames that arrive to the client, is the parameter \<open>wt\<close>.\<close>

definition poller_poll :: "'d device_ops \<Rightarrow> 'u delegate_ops \<Rightarrow> (('d, 'u client) stack \<Rightarrow> (status \<times> ('d, 'u client) stack) option) \<Rightarrow>
    u64 \<times> u64 \<Rightarrow> u64 \<times> u64 \<Rightarrow> ('d, 'u) poller \<Rightarrow> ('d, 'u) poller option" where
  "poller_poll ops g wt anow tnow p = do {
     (st, k) \<leftarrow> wt (po_client p);
     if st = NoDataAvailable then do {
       (_, k) \<leftarrow> client_run ops g anow tnow k;
       Some (p\<lparr>po_client := k\<rparr>)
     } else Some (p\<lparr>po_client := k\<rparr>)
   }"

text \<open>The critical section of the loop: the answer with the new state, and whether the condition is signalled.\<close>

definition poller_serve :: "'d device_ops \<Rightarrow> u64 list \<Rightarrow> ('d, 'u) poller \<Rightarrow> (bool \<times> ('d, 'u) poller) option" where
  "poller_serve ops readings p = (case po_action p of
     ActConnect \<Rightarrow> do {
       (st, k) \<leftarrow> client_connect ops (po_id p) (po_ripaddr p) (po_rport p) readings (po_client p);
       Some (True, p\<lparr>po_client := k, po_status := st, po_action := ActNone\<rparr>)
     }
   | ActClose \<Rightarrow>
       if po_closing p then
         Some (if client_isClosed (po_id p) (po_client p) then (True, p\<lparr>po_closing := False, po_action := ActNone\<rparr>) else (False, p))
       else do {
         (st, k) \<leftarrow> client_close ops (po_id p) (po_client p);
         let p = p\<lparr>po_client := k, po_status := st\<rparr>;
         Some (if st \<noteq> Ok then (True, p\<lparr>po_action := ActNone\<rparr>) else (False, p\<lparr>po_closing := True\<rparr>))
       }
   | ActInfo \<Rightarrow> (case client_get (po_id p) (po_client p) of (st, info) \<Rightarrow>
       let p = (case info of None \<Rightarrow> p | Some (ip, lport, rport) \<Rightarrow> p\<lparr>po_ripaddr := ip, po_lport := lport, po_rport := rport\<rparr>)
       in Some (True, p\<lparr>po_status := st, po_action := ActNone\<rparr>))
   | ActWrite \<Rightarrow> do {
       (st, off, k) \<leftarrow> client_send ops (po_id p) (of_nat (length (po_data p))) (Some (po_data p)) (po_off p) (po_client p);
       let p = p\<lparr>po_client := k, po_status := st, po_off := off\<rparr>;
       Some (case st of
          Ok \<Rightarrow> if unat off = length (po_data p) then (True, p\<lparr>po_off := 0, po_action := ActNone\<rparr>) else (False, p)
        | OperationInProgress \<Rightarrow> (False, p)
        | _ \<Rightarrow> (True, p\<lparr>po_off := 0, po_action := ActNone\<rparr>))
     }
   | ActNone \<Rightarrow> Some (False, p))"

section \<open>The calls\<close>

datatype poller_call = CallConnect ip4 u16 | CallClose u16 | CallGet u16 | CallWrite u16 "u8 list"

text \<open>What a call returns: its status, with the identifier for \<^verbatim>\<open>connect\<close> and the addresses for \<^verbatim>\<open>get\<close>.\<close>

datatype poller_answer = Answer status | AnswerId status u16 | AnswerInfo status ip4 u16 u16

text \<open>The critical section of a call up to its first wait. \<open>Inl\<close> is the status of a call that returns at once, \<open>Inr\<close> the
  identifier of the handle of one that waits.\<close>

fun poller_request :: "poller_call \<Rightarrow> ('d, 'u) poller \<Rightarrow> (status + u16) \<times> ('d, 'u) poller" where
  "poller_request (CallConnect ip port) p = (case client_open (po_client p) of
     (st, i, k) \<Rightarrow> (let p = p\<lparr>po_client := k\<rparr> in case i of
        Some i \<Rightarrow> if st = Ok then (Inr i, p\<lparr>po_ripaddr := ip, po_rport := port, po_id := i, po_action := ActConnect\<rparr>) else (Inl st, p)
      | None \<Rightarrow> (Inl st, p)))"
| "poller_request (CallClose i) p = (Inr i, p\<lparr>po_action := ActClose, po_id := i\<rparr>)"
| "poller_request (CallGet i) p = (Inr i, p\<lparr>po_action := ActInfo, po_id := i\<rparr>)"
| "poller_request (CallWrite i data) p = (Inr i, p\<lparr>po_action := ActWrite, po_id := i, po_data := data\<rparr>)"

fun caller_answer :: "poller_call \<Rightarrow> u16 \<Rightarrow> ('d, 'u) poller \<Rightarrow> poller_answer" where
  "caller_answer (CallConnect ip port) i p = AnswerId (po_status p) i"
| "caller_answer (CallClose j) i p = Answer (po_status p)"
| "caller_answer (CallGet j) i p = AnswerInfo (po_status p) (po_ripaddr p) (po_lport p) (po_rport p)"
| "caller_answer (CallWrite j data) i p = Answer (po_status p)"

text \<open>The critical section after a wait: \<^verbatim>\<open>connect\<close> asks again while the operation is in progress.\<close>

fun poller_resume :: "poller_call \<Rightarrow> u16 \<Rightarrow> ('d, 'u) poller \<Rightarrow> poller_answer option \<times> ('d, 'u) poller" where
  "poller_resume (CallConnect ip port) i p = (if po_status p = OperationInProgress then (None, p\<lparr>po_action := ActConnect\<rparr>)
     else (Some (caller_answer (CallConnect ip port) i p), p))"
| "poller_resume c i p = (Some (caller_answer c i p), p)"

section \<open>The two threads\<close>

datatype mutex_owner = Free | HeldByCaller | HeldByThread

datatype caller_pc = CallerIdle | CallerLocking poller_call | CallerInside poller_call | CallerBlocked poller_call u16
  | CallerAwake poller_call u16 | CallerChecking poller_call u16 | CallerGone

datatype thread_pc = ThreadHead | ThreadPolling | ThreadLocking | ThreadServing | ThreadGone

text \<open>With the state of the two threads and of the mutex, the history: the calls that have waited and returned, with what they
  returned, and the requests the thread has answered with a signal, with its answers.\<close>

record ('d, 'u) poller_sys =
  ps_poller :: "('d, 'u) poller"
  ps_mutex :: mutex_owner
  ps_caller :: caller_pc
  ps_thread :: thread_pc
  ps_returned :: "(poller_call \<times> u16 \<times> poller_answer) list"
  ps_served :: "(poller_call \<times> u16 \<times> poller_answer) list"

definition poller_start :: "('d, 'u client) stack \<Rightarrow> ('d, 'u) poller_sys" where
  "poller_start k = \<lparr>ps_poller = poller_create k, ps_mutex = Free, ps_caller = CallerIdle, ps_thread = ThreadHead,
     ps_returned = [], ps_served = []\<rparr>"

text \<open>The call that the shared state asks the thread for.\<close>

definition poller_asked :: "('d, 'u) poller \<Rightarrow> poller_call option" where
  "poller_asked p = (case po_action p of
     ActConnect \<Rightarrow> Some (CallConnect (po_ripaddr p) (po_rport p))
   | ActClose \<Rightarrow> Some (CallClose (po_id p))
   | ActInfo \<Rightarrow> Some (CallGet (po_id p))
   | ActWrite \<Rightarrow> Some (CallWrite (po_id p) (po_data p))
   | ActNone \<Rightarrow> None)"

text \<open>\<^verbatim>\<open>pthread_cond_signal\<close> wakes the caller if it waits; the caller still has to take the mutex.\<close>

fun caller_signal :: "caller_pc \<Rightarrow> caller_pc" where
  "caller_signal (CallerBlocked c i) = CallerAwake c i"
| "caller_signal pc = pc"

definition log_served :: "('d, 'u) poller \<Rightarrow> ('d, 'u) poller \<Rightarrow> (poller_call \<times> u16 \<times> poller_answer) list" where
  "log_served p p' = (case poller_asked p of None \<Rightarrow> [] | Some c \<Rightarrow> [(c, po_id p, caller_answer c (po_id p) p')])"

text \<open>One step of either thread. \<open>sp\<close> tells whether \<^verbatim>\<open>pthread_cond_wait\<close> may return without a signal, as POSIX permits.\<close>

inductive poller_step :: "bool \<Rightarrow> 'd device_ops \<Rightarrow> 'u delegate_ops \<Rightarrow> (('d, 'u client) stack \<Rightarrow> (status \<times> ('d, 'u client) stack) option) \<Rightarrow>
    ('d, 'u) poller_sys \<Rightarrow> ('d, 'u) poller_sys \<Rightarrow> bool" for sp ops g wt where
  call: "ps_caller s = CallerIdle \<Longrightarrow> poller_step sp ops g wt s (s\<lparr>ps_caller := CallerLocking c\<rparr>)"
| caller_lock: "ps_caller s = CallerLocking c \<Longrightarrow> ps_mutex s = Free \<Longrightarrow>
    poller_step sp ops g wt s (s\<lparr>ps_caller := CallerInside c, ps_mutex := HeldByCaller\<rparr>)"
| refused: "ps_caller s = CallerInside c \<Longrightarrow> poller_request c (ps_poller s) = (Inl st, p) \<Longrightarrow>
    poller_step sp ops g wt s (s\<lparr>ps_poller := p, ps_caller := CallerIdle, ps_mutex := Free\<rparr>)"
| request: "ps_caller s = CallerInside c \<Longrightarrow> poller_request c (ps_poller s) = (Inr i, p) \<Longrightarrow>
    poller_step sp ops g wt s (s\<lparr>ps_poller := p, ps_caller := CallerBlocked c i, ps_mutex := Free\<rparr>)"
| spurious: "sp \<Longrightarrow> ps_caller s = CallerBlocked c i \<Longrightarrow> poller_step sp ops g wt s (s\<lparr>ps_caller := CallerAwake c i\<rparr>)"
| wake: "ps_caller s = CallerAwake c i \<Longrightarrow> ps_mutex s = Free \<Longrightarrow>
    poller_step sp ops g wt s (s\<lparr>ps_caller := CallerChecking c i, ps_mutex := HeldByCaller\<rparr>)"
| again: "ps_caller s = CallerChecking c i \<Longrightarrow> poller_resume c i (ps_poller s) = (None, p) \<Longrightarrow>
    poller_step sp ops g wt s (s\<lparr>ps_poller := p, ps_caller := CallerBlocked c i, ps_mutex := Free\<rparr>)"
| return: "ps_caller s = CallerChecking c i \<Longrightarrow> poller_resume c i (ps_poller s) = (Some a, p) \<Longrightarrow>
    poller_step sp ops g wt s (s\<lparr>ps_poller := p, ps_caller := CallerIdle, ps_mutex := Free,
      ps_returned := ps_returned s @ [(c, i, a)]\<rparr>)"
| destroy: "ps_caller s = CallerIdle \<Longrightarrow>
    poller_step sp ops g wt s (s\<lparr>ps_poller := (ps_poller s)\<lparr>po_run := False\<rparr>, ps_caller := CallerGone\<rparr>)"
| loop: "ps_thread s = ThreadHead \<Longrightarrow>
    poller_step sp ops g wt s (s\<lparr>ps_thread := if po_run (ps_poller s) then ThreadPolling else ThreadGone\<rparr>)"
| poll: "ps_thread s = ThreadPolling \<Longrightarrow> poller_poll ops g wt anow tnow (ps_poller s) = Some p \<Longrightarrow>
    poller_step sp ops g wt s (s\<lparr>ps_poller := p, ps_thread := ThreadLocking\<rparr>)"
| thread_lock: "ps_thread s = ThreadLocking \<Longrightarrow> ps_mutex s = Free \<Longrightarrow>
    poller_step sp ops g wt s (s\<lparr>ps_thread := ThreadServing, ps_mutex := HeldByThread\<rparr>)"
| serve: "ps_thread s = ThreadServing \<Longrightarrow> poller_serve ops readings (ps_poller s) = Some (signalled, p) \<Longrightarrow>
    poller_step sp ops g wt s (s\<lparr>ps_poller := p, ps_thread := ThreadHead, ps_mutex := Free,
      ps_caller := (if signalled then caller_signal (ps_caller s) else ps_caller s),
      ps_served := (if signalled then ps_served s @ log_served (ps_poller s) p else ps_served s)\<rparr>)"

inductive poller_reaches :: "bool \<Rightarrow> 'd device_ops \<Rightarrow> 'u delegate_ops \<Rightarrow> (('d, 'u client) stack \<Rightarrow> (status \<times> ('d, 'u client) stack) option) \<Rightarrow>
    ('d, 'u client) stack \<Rightarrow> ('d, 'u) poller_sys \<Rightarrow> bool" for sp ops g wt k where
  start: "poller_reaches sp ops g wt k (poller_start k)"
| step: "poller_reaches sp ops g wt k s \<Longrightarrow> poller_step sp ops g wt s s' \<Longrightarrow> poller_reaches sp ops g wt k s'"

section \<open>The hand-over between the threads\<close>

definition quiet :: "('d, 'u) poller \<Rightarrow> bool" where
  "quiet p \<longleftrightarrow> po_action p = ActNone \<and> \<not> po_closing p \<and> po_off p = 0"

definition pending :: "poller_call \<Rightarrow> u16 \<Rightarrow> ('d, 'u) poller \<Rightarrow> bool" where
  "pending c i p \<longleftrightarrow> poller_asked p = Some c \<and> po_id p = i \<and> (po_closing p \<longrightarrow> po_action p = ActClose) \<and>
     (po_off p \<noteq> 0 \<longrightarrow> po_action p = ActWrite)"

text \<open>A \<^verbatim>\<open>connect\<close> that has been answered may be asked again: the address, port and handle are still there.\<close>

fun askable :: "poller_call \<Rightarrow> u16 \<Rightarrow> ('d, 'u) poller \<Rightarrow> bool" where
  "askable (CallConnect ip port) i p \<longleftrightarrow> po_ripaddr p = ip \<and> po_rport p = port \<and> po_id p = i"
| "askable c i p \<longleftrightarrow> True"

text \<open>The exchanges that end a call: all but those of \<^verbatim>\<open>connect\<close> that leave the operation in progress.\<close>

fun final_exchange :: "poller_call \<times> u16 \<times> poller_answer \<Rightarrow> bool" where
  "final_exchange (CallConnect ip port, i, a) \<longleftrightarrow> a \<noteq> AnswerId OperationInProgress i"
| "final_exchange (c, i, a) \<longleftrightarrow> True"

definition caller_ok :: "('d, 'u) poller_sys \<Rightarrow> bool" where
  "caller_ok s \<longleftrightarrow> (let p = ps_poller s; served = filter final_exchange (ps_served s) in case ps_caller s of
     CallerBlocked c i \<Rightarrow> pending c i p \<and> ps_returned s = served
   | CallerAwake c i \<Rightarrow> quiet p \<and> askable c i p \<and> filter final_exchange (ps_returned s @ [(c, i, caller_answer c i p)]) = served
   | CallerChecking c i \<Rightarrow> quiet p \<and> askable c i p \<and> filter final_exchange (ps_returned s @ [(c, i, caller_answer c i p)]) = served
   | _ \<Rightarrow> quiet p \<and> ps_returned s = served)"

definition mutex_ok :: "('d, 'u) poller_sys \<Rightarrow> bool" where
  "mutex_ok s \<longleftrightarrow>
     (ps_mutex s = HeldByCaller \<longleftrightarrow> (\<exists>c. ps_caller s = CallerInside c) \<or> (\<exists>c i. ps_caller s = CallerChecking c i)) \<and>
     (ps_mutex s = HeldByThread \<longleftrightarrow> ps_thread s = ThreadServing) \<and>
     (po_run (ps_poller s) \<longleftrightarrow> ps_caller s \<noteq> CallerGone) \<and> (ps_thread s = ThreadGone \<longrightarrow> \<not> po_run (ps_poller s)) \<and>
     filter final_exchange (ps_returned s) = ps_returned s"

definition sys_ok :: "('d, 'u) poller_sys \<Rightarrow> bool" where
  "sys_ok s \<longleftrightarrow> caller_ok s \<and> mutex_ok s"

lemma serve_quiet: "quiet p \<Longrightarrow> poller_serve ops readings p = Some (b, p') \<Longrightarrow> \<not> b \<and> p' = p"
  by (auto simp: quiet_def poller_serve_def)

lemma serve_run: "poller_serve ops readings p = Some (b, p') \<Longrightarrow> po_run p' = po_run p"
  by (auto simp: poller_serve_def Some_eq_bind Let_def split: poller_action.splits if_splits status.splits option.splits prod.splits)

lemma serve_pending:
  assumes "pending c i p" and "poller_serve ops readings p = Some (False, p')"
  shows "pending c i p'"
  using assms by (auto simp: pending_def poller_asked_def poller_serve_def Some_eq_bind Let_def
      split: poller_action.splits if_splits status.splits option.splits prod.splits)

lemma serve_answers:
  assumes "pending c i p" and "poller_serve ops readings p = Some (True, p')"
  shows "quiet p'" "askable c i p'" "log_served p p' = [(c, i, caller_answer c i p')]"
  using assms by (auto simp: pending_def quiet_def log_served_def poller_asked_def poller_serve_def Some_eq_bind Let_def
      split: poller_action.splits if_splits status.splits option.splits prod.splits)

lemma poll_client: "poller_poll ops g wt anow tnow p = Some p' \<Longrightarrow> \<exists>k. p' = p\<lparr>po_client := k\<rparr>"
  by (auto simp: poller_poll_def Some_eq_bind split: if_splits)

lemma client_fields:
  "quiet (p\<lparr>po_client := k\<rparr>) = quiet p" "pending c i (p\<lparr>po_client := k\<rparr>) = pending c i p"
  "askable c i (p\<lparr>po_client := k\<rparr>) = askable c i p" "caller_answer c i (p\<lparr>po_client := k\<rparr>) = caller_answer c i p"
  by (cases c; simp add: quiet_def pending_def poller_asked_def cong: poller_action.case_cong)+

lemma poll_fields:
  assumes "poller_poll ops g wt anow tnow p = Some p'"
  shows "quiet p' = quiet p" "pending c i p' = pending c i p" "askable c i p' = askable c i p"
    "caller_answer c i p' = caller_answer c i p" "po_run p' = po_run p"
  using poll_client [OF assms] by (auto simp: client_fields)

lemma request_waits:
  assumes "poller_request c p = (Inr i, p')" and "quiet p"
  shows "pending c i p'" "po_run p' = po_run p"
  using assms by (cases c; auto simp: quiet_def pending_def poller_asked_def Let_def split: option.splits if_splits prod.splits)+

lemma request_refused:
  assumes "poller_request c p = (Inl st, p')"
  shows "quiet p' = quiet p" "po_run p' = po_run p"
  using assms by (cases c; auto simp: quiet_def Let_def split: option.splits if_splits prod.splits)+

lemma resume_again:
  assumes "poller_resume c i p = (None, p')" and "quiet p" and "askable c i p"
  shows "pending c i p'" "\<not> final_exchange (c, i, caller_answer c i p)" "po_run p' = po_run p"
  using assms by (cases c; auto simp: quiet_def pending_def poller_asked_def split: if_splits)+

lemma resume_returns:
  assumes "poller_resume c i p = (Some a, p')"
  shows "p' = p" "a = caller_answer c i p" "final_exchange (c, i, a)"
  using assms by (cases c; auto split: if_splits)+

lemma sys_ok_start: "sys_ok (poller_start k)"
  by (simp add: sys_ok_def caller_ok_def mutex_ok_def Let_def poller_start_def poller_create_def quiet_def)

lemma caller_ok_quiet: "caller_ok s \<Longrightarrow> (\<And>c i. ps_caller s \<noteq> CallerBlocked c i) \<Longrightarrow> quiet (ps_poller s)"
  by (auto simp: caller_ok_def Let_def split: caller_pc.splits)

lemma sys_ok_serve:
  assumes ok: "sys_ok s" and th: "ps_thread s = ThreadServing" and sv: "poller_serve ops readings (ps_poller s) = Some (b, p)"
  shows "sys_ok (s\<lparr>ps_poller := p, ps_thread := ThreadHead, ps_mutex := Free,
      ps_caller := (if b then caller_signal (ps_caller s) else ps_caller s),
      ps_served := (if b then ps_served s @ log_served (ps_poller s) p else ps_served s)\<rparr>)"
proof (cases "\<exists>c i. ps_caller s = CallerBlocked c i")
  case True
  then obtain c i where c: "ps_caller s = CallerBlocked c i"
    by blast
  then have p: "pending c i (ps_poller s)" "ps_returned s = filter final_exchange (ps_served s)"
    using ok by (simp_all add: sys_ok_def caller_ok_def Let_def)
  show ?thesis
  proof (cases b)
    case True
    then show ?thesis
      using ok th c p serve_answers [OF p(1)] serve_run [OF sv] sv
      by (auto simp: sys_ok_def caller_ok_def mutex_ok_def Let_def)
  next
    case False
    then show ?thesis
      using ok th c p serve_pending [OF p(1)] serve_run [OF sv] sv
      by (auto simp: sys_ok_def caller_ok_def mutex_ok_def Let_def)
  qed
next
  case False
  then have "quiet (ps_poller s)"
    using ok caller_ok_quiet [of s] by (simp add: sys_ok_def)
  then have "\<not> b \<and> p = ps_poller s"
    using serve_quiet sv by blast
  then show ?thesis
    using ok th by (auto simp: sys_ok_def mutex_ok_def caller_ok_def Let_def split: caller_pc.splits)
qed

lemma sys_ok_step:
  assumes "poller_step False ops g wt s s'" and "sys_ok s"
  shows "sys_ok s'"
  using assms
proof (induction rule: poller_step.induct)
  case (request s c i p)
  then show ?case
    using request_waits [OF request(2)] by (auto simp: sys_ok_def caller_ok_def mutex_ok_def Let_def)
next
  case (refused s c st p)
  then show ?case
    using request_refused [OF refused(2)] by (auto simp: sys_ok_def caller_ok_def mutex_ok_def Let_def)
next
  case (again s c i p)
  then show ?case
    using resume_again [OF again(2)] by (auto simp: sys_ok_def caller_ok_def mutex_ok_def Let_def)
next
  case (return s c i a p)
  then show ?case
    using resume_returns [OF return(2)] by (auto simp: sys_ok_def caller_ok_def mutex_ok_def Let_def)
next
  case (poll s anow tnow p)
  then show ?case
    using poll_fields [OF poll(2)] by (auto simp: sys_ok_def caller_ok_def mutex_ok_def Let_def split: caller_pc.splits)
next
  case (serve s readings signalled p)
  then show ?case
    by (blast intro: sys_ok_serve)
next
  case (destroy s)
  then show ?case
    by (auto simp: sys_ok_def caller_ok_def mutex_ok_def Let_def quiet_def)
qed (auto simp: sys_ok_def caller_ok_def mutex_ok_def Let_def split: caller_pc.splits)

lemma reaches_sys_ok: "poller_reaches False ops g wt k s \<Longrightarrow> sys_ok s"
  by (induction rule: poller_reaches.induct) (auto intro: sys_ok_start sys_ok_step)

section \<open>Sample runs\<close>

text \<open>One call, from the lock to the answer, that the thread answers in one round.\<close>

abbreviation (input) sys_state :: "('d, 'u) poller \<Rightarrow> mutex_owner \<Rightarrow> caller_pc \<Rightarrow> thread_pc \<Rightarrow>
    (poller_call \<times> u16 \<times> poller_answer) list \<Rightarrow> (poller_call \<times> u16 \<times> poller_answer) list \<Rightarrow> ('d, 'u) poller_sys" where
  "sys_state p m c t r v \<equiv> \<lparr>ps_poller = p, ps_mutex = m, ps_caller = c, ps_thread = t, ps_returned = r, ps_served = v\<rparr>"

lemma reaches_trans:
  assumes "poller_reaches sp ops g wt k s" and "poller_step sp ops g wt s s1" and "s1 = s'"
  shows "poller_reaches sp ops g wt k s'"
  using poller_reaches.step [OF assms(1,2)] assms(3) by simp

lemma reaches_blocked:
  assumes "poller_reaches sp ops g wt k (sys_state p Free CallerIdle t r v)" and "poller_request c p = (Inr i, p1)"
  shows "poller_reaches sp ops g wt k (sys_state p1 Free (CallerBlocked c i) t r v)"
proof -
  have "poller_reaches sp ops g wt k (sys_state p Free (CallerLocking c) t r v)"
    by (rule reaches_trans [OF assms(1) poller_step.call]) simp_all
  then have "poller_reaches sp ops g wt k (sys_state p HeldByCaller (CallerInside c) t r v)"
    by (rule reaches_trans [OF _ poller_step.caller_lock]) simp_all
  then show ?thesis
    by (rule reaches_trans [OF _ poller_step.request]) (simp_all add: assms(2))
qed

lemma reaches_returned:
  assumes "poller_reaches sp ops g wt k (sys_state p Free (CallerAwake c i) t r v)" and "poller_resume c i p = (Some a, p1)"
  shows "poller_reaches sp ops g wt k (sys_state p1 Free CallerIdle t (r @ [(c, i, a)]) v)"
proof -
  have "poller_reaches sp ops g wt k (sys_state p HeldByCaller (CallerChecking c i) t r v)"
    by (rule reaches_trans [OF assms(1) poller_step.wake]) simp_all
  then show ?thesis
    by (rule reaches_trans [OF _ poller_step.return]) (simp_all add: assms(2))
qed

lemma reaches_polling:
  assumes "poller_reaches sp ops g wt k (sys_state p m c ThreadHead r v)" and "po_run p"
  shows "poller_reaches sp ops g wt k (sys_state p m c ThreadPolling r v)"
  by (rule reaches_trans [OF assms(1) poller_step.loop]) (simp_all add: assms(2))

lemma poller_round:
  assumes "poller_reaches sp ops g wt k (sys_state p Free CallerIdle ThreadHead r v)"
    and "poller_request c p = (Inr i, p1)" and "po_run p1"
    and "poller_poll ops g wt anow tnow p1 = Some p2" and "poller_serve ops readings p2 = Some (True, p3)"
    and "poller_resume c i p3 = (Some a, p4)"
  shows "poller_reaches sp ops g wt k (sys_state p4 Free CallerIdle ThreadHead (r @ [(c, i, a)]) (v @ log_served p2 p3))"
proof -
  have "poller_reaches sp ops g wt k (sys_state p1 Free (CallerBlocked c i) ThreadPolling r v)"
    by (rule reaches_polling [OF reaches_blocked [OF assms(1,2)] assms(3)])
  then have "poller_reaches sp ops g wt k (sys_state p2 Free (CallerBlocked c i) ThreadLocking r v)"
    by (rule reaches_trans [OF _ poller_step.poll [where anow = anow and tnow = tnow and p = p2]]) (use assms(4) in simp_all)
  then have "poller_reaches sp ops g wt k (sys_state p2 HeldByThread (CallerBlocked c i) ThreadServing r v)"
    by (rule reaches_trans [OF _ poller_step.thread_lock]) simp_all
  then have "poller_reaches sp ops g wt k (sys_state p3 Free (CallerAwake c i) ThreadHead r (v @ log_served p2 p3))"
    by (rule reaches_trans [OF _ poller_step.serve [where readings = readings and signalled = True and p = p3]])
      (use assms(5) in simp_all)
  then show ?thesis
    by (rule reaches_returned) (rule assms(6))
qed

lemma sample_poller_run:
  "\<exists>p. poller_reaches False list_ops default_delegate (\<lambda>k. Some (Ok, k)) sample_stack
     (sys_state p Free CallerIdle ThreadHead [(CallClose 0, 0, Answer NotConnected)] [(CallClose 0, 0, Answer NotConnected)])"
proof -
  let ?p = "poller_create sample_stack"
  let ?p1 = "?p\<lparr>po_action := ActClose, po_id := 0\<rparr>"
  let ?p3 = "?p\<lparr>po_id := 0, po_status := NotConnected\<rparr>"
  have serve: "poller_serve list_ops [] ?p1 = Some (True, ?p3)"
    by (simp add: poller_serve_def poller_create_def client_close_def sample_stack_def sample_tcp_def client_new_def client_conn_init_def on_net_def Let_def)
  have "poller_reaches False list_ops default_delegate (\<lambda>k. Some (Ok, k)) sample_stack (sys_state ?p3 Free CallerIdle ThreadHead
      ([] @ [(CallClose 0, 0, Answer NotConnected)]) ([] @ log_served ?p1 ?p3))"
    by (rule poller_round [OF _ _ _ _ serve, where p = ?p])
      (use poller_reaches.start in \<open>simp_all add: poller_start_def poller_create_def poller_poll_def\<close>)
  then show ?thesis
    by (auto simp: log_served_def poller_asked_def poller_create_def)
qed

section \<open>Properties\<close>

text \<open>C26: The answers of the poller. As long as no wait ends without a signal, the calls that have returned are exactly the
  requests the thread has answered, each once and in their order, with the status, the identifier and the addresses
  that the thread found for this very request; only answers that leave a connect in progress are skipped.\<close>
theorem poller_calls_answered:
  assumes "poller_reaches False ops g wt k s" and "ps_caller s = CallerIdle"
  shows "ps_returned s = filter final_exchange (ps_served s)"
  using reaches_sys_ok [OF assms(1)] assms(2) by (simp add: sys_ok_def caller_ok_def)

theorem poller_calls_answered_witness:
  "\<exists>s. poller_reaches False list_ops default_delegate (\<lambda>k. Some (Ok, k)) sample_stack s \<and>
     ps_returned s = [(CallClose 0, 0, Answer NotConnected)] \<and> ps_returned s = filter final_exchange (ps_served s)"
proof -
  obtain p where p: "poller_reaches False list_ops default_delegate (\<lambda>k. Some (Ok, k)) sample_stack
     (sys_state p Free CallerIdle ThreadHead [(CallClose 0, 0, Answer NotConnected)] [(CallClose 0, 0, Answer NotConnected)])"
    using sample_poller_run by blast
  show ?thesis
    by (intro exI conjI, rule p, simp, rule poller_calls_answered [OF p]) simp
qed

text \<open>C27: No wake-up of the poller is lost. While a call waits, its request stands in the shared state until the thread answers it,
  the mutex is not held by the caller, and the thread has not ended.\<close>
theorem poller_wakeup_not_lost:
  assumes "poller_reaches False ops g wt k s" and "ps_caller s = CallerBlocked c i"
  shows "poller_asked (ps_poller s) = Some c \<and> po_id (ps_poller s) = i \<and> ps_mutex s \<noteq> HeldByCaller \<and> ps_thread s \<noteq> ThreadGone"
  using reaches_sys_ok [OF assms(1)] assms(2) by (auto simp: sys_ok_def caller_ok_def mutex_ok_def pending_def Let_def)

theorem poller_wakeup_not_lost_witness:
  "\<exists>s. poller_reaches False list_ops default_delegate (\<lambda>k. Some (Ok, k)) sample_stack s \<and>
     poller_asked (ps_poller s) = Some (CallGet 3) \<and> ps_thread s \<noteq> ThreadGone"
proof -
  have s: "poller_reaches False list_ops default_delegate (\<lambda>k. Some (Ok, k)) sample_stack
      (sys_state ((poller_create sample_stack)\<lparr>po_action := ActInfo, po_id := 3\<rparr>) Free (CallerBlocked (CallGet 3) 3) ThreadHead [] [])"
    by (rule reaches_blocked [OF poller_reaches.start [unfolded poller_start_def]]) simp
  show ?thesis
    using poller_wakeup_not_lost [OF s] s by (intro exI [of _ "sys_state _ _ _ _ _ _"]) auto
qed

text \<open>C28: The calls wait without a loop over a condition. If a wait ends without a signal, \<^verbatim>\<open>close\<close> answers Ok with the status
  left from before, although the thread has served nothing and the client is untouched.\<close>
theorem poller_spurious_wakeup:
  "\<exists>s. poller_reaches True ops g wt k s \<and> ps_returned s = [(CallClose i, i, Answer Ok)] \<and> ps_served s = [] \<and>
     po_client (ps_poller s) = k"
proof -
  let ?p = "(poller_create k)\<lparr>po_action := ActClose, po_id := i\<rparr>"
  have "poller_reaches True ops g wt k (sys_state ?p Free (CallerBlocked (CallClose i) i) ThreadHead [] [])"
    by (rule reaches_blocked [OF poller_reaches.start [unfolded poller_start_def]]) simp
  then have "poller_reaches True ops g wt k (sys_state ?p Free (CallerAwake (CallClose i) i) ThreadHead [] [])"
    by (rule reaches_trans [OF _ poller_step.spurious]) simp_all
  then have "poller_reaches True ops g wt k (sys_state ?p Free CallerIdle ThreadHead ([] @ [(CallClose i, i, Answer (po_status ?p))]) [])"
    by (rule reaches_returned) simp
  then show ?thesis
    by (intro exI [of _ "sys_state ?p Free CallerIdle ThreadHead [(CallClose i, i, Answer Ok)] []"]) (simp add: poller_create_def)
qed

text \<open>\<^verbatim>\<open>connect\<close> opens a handle of the client while it holds the mutex, but the thread waits for the device and runs the timers of
  the same client without it: the two can happen at the same time.\<close>
theorem poller_open_race:
  "\<exists>s. poller_reaches False ops g wt k s \<and> ps_caller s = CallerInside (CallConnect ip port) \<and> ps_thread s = ThreadPolling"
proof -
  have "poller_reaches False ops g wt k (sys_state (poller_create k) Free CallerIdle ThreadPolling [] [])"
    by (rule reaches_polling [OF poller_reaches.start [unfolded poller_start_def]]) (simp add: poller_create_def)
  then have "poller_reaches False ops g wt k (sys_state (poller_create k) Free (CallerLocking (CallConnect ip port)) ThreadPolling [] [])"
    by (rule reaches_trans [OF _ poller_step.call]) simp_all
  then have "poller_reaches False ops g wt k (sys_state (poller_create k) HeldByCaller (CallerInside (CallConnect ip port)) ThreadPolling [] [])"
    by (rule reaches_trans [OF _ poller_step.caller_lock]) simp_all
  then show ?thesis
    by (intro exI [of _ "sys_state (poller_create k) HeldByCaller (CallerInside (CallConnect ip port)) ThreadPolling [] []"]) simp
qed

end
