(* ===== verification/TcpLife.thy ===== *)
theory TcpLife
  imports TcpSystem
begin

text \<open>
  The life of a connection: its states in the order in which it passes through them. With this order on the states, a
  connection only moves forward between two times at which it is out of use.
\<close>

section \<open>The order of the states\<close>

fun state_rank :: "conn_state \<Rightarrow> nat" where
  "state_rank CLOSED = 0"
| "state_rank STOPPED = 1"
| "state_rank SYN_SENT = 2"
| "state_rank SYN_RCVD = 3"
| "state_rank ESTABLISHED = 4"
| "state_rank CLOSE = 5"
| "state_rank FIN_WAIT_1 = 6"
| "state_rank FIN_WAIT_2 = 7"
| "state_rank CLOSING = 8"
| "state_rank LAST_ACK = 9"
| "state_rank TIME_WAIT = 10"

lemma state_rank_inject: "state_rank s = state_rank s' \<Longrightarrow> s = s'"
  by (cases s; cases s'; simp)

instantiation conn_state :: linorder
begin

definition less_eq_conn_state :: "conn_state \<Rightarrow> conn_state \<Rightarrow> bool" where
  "less_eq_conn_state s s' \<longleftrightarrow> state_rank s \<le> state_rank s'"

definition less_conn_state :: "conn_state \<Rightarrow> conn_state \<Rightarrow> bool" where
  "less_conn_state s s' \<longleftrightarrow> state_rank s < state_rank s'"

instance
  by standard (auto simp: less_eq_conn_state_def less_conn_state_def state_rank_inject)

end

lemma tcp_step_forward: "tcp_step s s' \<Longrightarrow> s \<noteq> TIME_WAIT \<Longrightarrow> s' \<noteq> CLOSED \<Longrightarrow> s \<le> s'"
  by (auto simp: less_eq_conn_state_def elim!: tcp_step.cases)

lemma tcp_step_opens: "tcp_step CLOSED s \<Longrightarrow> s \<in> {CLOSED, SYN_SENT, SYN_RCVD}"
  by (auto elim: tcp_step_from)

section \<open>The states of a connection during a run\<close>

fun conn_history :: "'d device_ops \<Rightarrow> 'h handler_ops \<Rightarrow> nat \<Rightarrow> tcp_event list \<Rightarrow> ('d, 'h) tcp \<Rightarrow> conn_state list" where
  "conn_history ops ev i [] t = [m_state (t_conns t ! i)]"
| "conn_history ops ev i (x # xs) t = m_state (t_conns t ! i) #
     (case tcp_handle ops ev x t of None \<Rightarrow> [] | Some t \<Rightarrow> conn_history ops ev i xs t)"

lemma conn_history_Cons: "\<exists>ss. conn_history ops ev i xs t = m_state (t_conns t ! i) # ss"
  by (cases xs) simp_all

lemma handle_conn_step:
  assumes "tcp_handle ops ev x t = Some t'" and "i < length (t_conns t)"
  shows "tcp_step (m_state (t_conns t ! i)) (m_state (t_conns t' ! i)) \<and> i < length (t_conns t')"
  using tcp_handle_evolves [OF assms(1)] assms(2) by (auto simp: evolves_def list_all2_conv_all_nth)

lemma conn_history_steps:
  "i < length (t_conns t) \<Longrightarrow> successively tcp_step (conn_history ops ev i xs t)"
proof (induction xs arbitrary: t)
  case (Cons x xs)
  show ?case
  proof (cases "tcp_handle ops ev x t")
    case (Some t')
    obtain ss where ss: "conn_history ops ev i xs t' = m_state (t_conns t' ! i) # ss"
      using conn_history_Cons by blast
    show ?thesis
      using handle_conn_step [OF Some Cons.prems] Cons.IH [of t'] Some by (simp add: ss)
  qed simp
qed simp

lemma steps_sorted:
  "successively tcp_step ss \<Longrightarrow> CLOSED \<notin> set (tl ss) \<Longrightarrow> TIME_WAIT \<notin> set (butlast ss) \<Longrightarrow> sorted ss"
proof (induction ss rule: induct_list012)
  case (3 s s' ss)
  then have "s \<le> s'" and "sorted (s' # ss)"
    by (auto intro: tcp_step_forward)
  then show ?case
    by auto
qed auto

section \<open>Properties\<close>

text \<open>C9: A connection only moves forward. During any run of the processor, as long as a connection does not come back to CLOSED and
  does not leave TIME_WAIT, the states it passes through are in the order CLOSED, SYN_SENT, SYN_RCVD, ESTABLISHED, CLOSE, FIN_WAIT_1,
  FIN_WAIT_2, CLOSING, LAST_ACK, TIME_WAIT, and if it was closed at the beginning it is opened by a handshake first.\<close>
theorem connection_moves_forward:
  assumes "i < length (t_conns t)" and "conn_history ops ev i xs t = ss"
    and "CLOSED \<notin> set (tl ss)" and "TIME_WAIT \<notin> set (butlast ss)"
  shows "sorted ss \<and> (\<forall>s' ss'. ss = CLOSED # s' # ss' \<longrightarrow> s' \<in> {SYN_SENT, SYN_RCVD})"
proof -
  have steps: "successively tcp_step ss"
    using conn_history_steps [OF assms(1)] assms(2) by blast
  then have "s' \<in> {SYN_SENT, SYN_RCVD}" if "ss = CLOSED # s' # ss'" for s' ss'
    using that assms(3) tcp_step_opens [of s'] by auto
  then show ?thesis
    using steps_sorted [OF steps assms(3,4)] by blast
qed

theorem connection_moves_forward_witness:
  "sorted [CLOSED, SYN_SENT] \<and>
   conn_history list_ops (client_events default_delegate) 0 [hd sample_events] sample_tcp = [CLOSED, SYN_SENT]"
proof -
  have h: "conn_history list_ops (client_events default_delegate) 0 [hd sample_events] sample_tcp = [CLOSED, SYN_SENT]"
    using sample_connect by (auto simp: sample_tcp_def conn_init_def)
  show ?thesis
    using connection_moves_forward [OF _ h] h by (simp add: sample_tcp_def)
qed

end
