(* ===== verification/Latency.thy ===== *)
theory Latency
  imports Api
begin

text \<open>
  The measuring application of the library, \<^verbatim>\<open>src/apps/TCPLatency.cpp\<close>: a sender that writes numbered messages of a fixed length
  to a connection, as fast as the connection takes them or with a delay in between, and a receiver that checks the numbers. The
  sender works on the abstract interface of a client, here a record of functions. The output of the measurements is left out, what
  it resets is not.
\<close>

section \<open>The interface of a client\<close>

text \<open>The functions of \<^verbatim>\<open>interface::Client\<close> that the sender calls, with the device below it. What a call takes from its
  environment, like the readings of the clock, is an argument of its own. \<open>wait\<close> and \<open>poll\<close> hand the frames of the device to
  the client.\<close>

record ('e, 'k) iclient =
  ic_open :: "'k \<Rightarrow> status \<times> u16 option \<times> 'k"
  ic_wait :: "'e \<Rightarrow> 'k \<Rightarrow> (status \<times> 'k) option"
  ic_poll :: "'e \<Rightarrow> 'k \<Rightarrow> (status \<times> 'k) option"
  ic_run :: "'e \<Rightarrow> 'k \<Rightarrow> (status \<times> 'k) option"
  ic_connect :: "'e \<Rightarrow> u16 \<Rightarrow> ip4 \<Rightarrow> u16 \<Rightarrow> 'k \<Rightarrow> (status \<times> 'k) option"
  ic_close :: "u16 \<Rightarrow> 'k \<Rightarrow> (status \<times> 'k) option"
  ic_isClosed :: "u16 \<Rightarrow> 'k \<Rightarrow> bool"
  ic_send :: "u16 \<Rightarrow> u32 \<Rightarrow> u8 list \<Rightarrow> u32 \<Rightarrow> 'k \<Rightarrow> (status \<times> u32 \<times> 'k) option"

text \<open>The client of the library, with its readings of the clock and the random ports.\<close>

record client_env =
  en_arp :: "u64 \<times> u64"
  en_tcp :: "u64 \<times> u64"
  en_ports :: "u64 list"

definition plain_client :: "'d device_ops \<Rightarrow> 'u delegate_ops \<Rightarrow> (client_env \<Rightarrow> ('d, 'u client) stack \<Rightarrow> (status \<times> ('d, 'u client) stack) option) \<Rightarrow>
    (client_env \<Rightarrow> ('d, 'u client) stack \<Rightarrow> (status \<times> ('d, 'u client) stack) option) \<Rightarrow> (client_env, ('d, 'u client) stack) iclient" where
  "plain_client ops g wt pl = \<lparr>ic_open = client_open, ic_wait = wt, ic_poll = pl,
     ic_run = (\<lambda>e. client_run ops g (en_arp e) (en_tcp e)),
     ic_connect = (\<lambda>e i ip port. client_connect ops i ip port (en_ports e)),
     ic_close = client_close ops, ic_isClosed = client_isClosed,
     ic_send = (\<lambda>i len data off. client_send ops i len (Some data) off)\<rparr>"

section \<open>The sender\<close>

text \<open>The options that the loops use.\<close>

record lat_options =
  op_wait :: bool
  op_noDelay :: bool
  op_destination :: ip4
  op_port :: u16
  op_usDelay :: int
  op_length :: u64
  op_count :: u64
  op_interval :: u64

text \<open>The delegate only chooses whether segments are delayed; the bit of \<^verbatim>\<open>NO_DELAY\<close> is the lowest.\<close>

definition lat_delegate :: "bool \<Rightarrow> unit delegate_ops" where
  "lat_delegate nodelay = default_delegate\<lparr>g_connected := (\<lambda>i cookie opts u. Some (0, if nodelay then 1 else 0, u))\<rparr>"

datatype lat_state = LatConnect | LatRun | LatClosing

text \<open>The variables of \<^verbatim>\<open>run\<close> and the static ones of the file; \<^verbatim>\<open>keep_running\<close> and \<^verbatim>\<open>show_latency\<close> are set by signals too.\<close>

record 'k latency =
  la_client :: 'k
  la_state :: lat_state
  la_id :: u16
  la_keep :: bool
  la_local :: bool
  la_data :: "u8 list"
  la_res :: u32
  la_last :: u64
  la_iter :: u64
  la_sends :: u64
  la_successes :: u64
  la_iterations :: u64
  la_show :: bool
  la_timer :: timer

text \<open>\<open>junk\<close> is what the array \<^verbatim>\<open>data\<close> holds at first. The identifier is not initialised if \<^verbatim>\<open>open\<close> fails.\<close>

definition lat_start :: "lat_options \<Rightarrow> ('e, 'k) iclient \<Rightarrow> u64 \<Rightarrow> u64 \<Rightarrow> u8 list \<Rightarrow> 'k \<Rightarrow> 'k latency option" where
  "lat_start opt ic cps now junk k = (case ic_open ic k of (st, i, k) \<Rightarrow> do {
     i \<leftarrow> i;
     Some \<lparr>la_client = k, la_state = LatConnect, la_id = i, la_keep = True, la_local = True, la_data = junk, la_res = 0,
       la_last = 0, la_iter = 0, la_sends = 0, la_successes = 0, la_iterations = 0, la_show = False,
       la_timer = (if op_usDelay opt = 0 then timer_set 0 0 else timer_set now (cps * word_of_int (op_usDelay opt) div 1000000))\<rparr>
   })"

text \<open>The first half of an iteration; the result tells whether the second half follows. In the waiting mode the case of no
  data falls through to the default.\<close>

definition lat_process :: "lat_options \<Rightarrow> ('e, 'k) iclient \<Rightarrow> 'e \<Rightarrow> 'k latency \<Rightarrow> (bool \<times> 'k latency) option" where
  "lat_process opt ic e s = do {
     (st, k) \<leftarrow> (if op_wait opt then ic_wait ic e (la_client s) else ic_poll ic e (la_client s));
     let s = s\<lparr>la_client := k\<rparr>;
     if st = Ok then Some (True, s)
     else if st = NoDataAvailable then
         if op_wait opt then do {
           (_, k) \<leftarrow> ic_run ic e (la_client s);
           Some (False, s\<lparr>la_client := k, la_local := False\<rparr>)
         } else if la_iter s AND 0x1F = 0 then do {
           (_, k) \<leftarrow> ic_run ic e (la_client s);
           Some (True, s\<lparr>la_client := k, la_iter := la_iter s + 1\<rparr>)
         } else Some (True, s\<lparr>la_iter := la_iter s + 1\<rparr>)
     else Some (False, s\<lparr>la_local := False\<rparr>)
   }"

text \<open>What the output of the measurements resets. It divides by the interval.\<close>

definition lat_report :: "lat_options \<Rightarrow> 'k latency \<Rightarrow> 'k latency option" where
  "lat_report opt s = (if \<not> la_show s then Some s else if op_interval opt = 0 then None
     else Some (s\<lparr>la_last := la_sends s, la_successes := 0, la_iterations := 0, la_show := False\<rparr>))"

text \<open>One attempt to send the rest of the current message. Its number is written to the first eight bytes of the array each time,
  whatever its length. The first component of the result is what the client has taken.\<close>

definition lat_send :: "lat_options \<Rightarrow> ('e, 'k) iclient \<Rightarrow> 'k latency \<Rightarrow> (u8 list \<times> 'k latency) option" where
  "lat_send opt ic s = (if length (la_data s) < 8 then None else do {
     let data = bytes64 (la_sends s) @ drop 8 (la_data s);
     (st, res, k) \<leftarrow> ic_send ic (la_id s) (ucast (op_length opt)) data (la_res s) (la_client s);
     let taken = drop (unat (la_res s)) (take (unat res) data);
     let s = s\<lparr>la_client := k, la_data := data, la_res := res, la_iterations := la_iterations s + 1\<rparr>;
     Some (taken, if st = Ok then
          let s = s\<lparr>la_successes := la_successes s + 1\<rparr>;
              s = (if ucast res = op_length opt then s\<lparr>la_sends := la_sends s + 1, la_res := 0\<rparr> else s)
          in if 0 < op_count opt \<and> la_sends s = op_count opt then s\<lparr>la_keep := False\<rparr> else s
        else if st = OperationInProgress then s else s\<lparr>la_local := False\<rparr>)
   })"

text \<open>The second half. \<open>now\<close> and \<open>now'\<close> are the clock when the timer is read and when it is reset.\<close>

definition lat_app :: "lat_options \<Rightarrow> ('e, 'k) iclient \<Rightarrow> 'e \<Rightarrow> u64 \<Rightarrow> u64 \<Rightarrow> 'k latency \<Rightarrow> (u8 list \<times> 'k latency) option" where
  "lat_app opt ic e now now' s = (case la_state s of
     LatConnect \<Rightarrow> do {
       let s = s\<lparr>la_local := la_keep s\<rparr>;
       (st, k) \<leftarrow> ic_connect ic e (la_id s) (op_destination opt) (op_port opt) (la_client s);
       let s = s\<lparr>la_client := k\<rparr>;
       Some ([], if st = Ok then s\<lparr>la_state := LatRun\<rparr> else if st = OperationInProgress then s else s\<lparr>la_local := False\<rparr>)
     }
   | LatRun \<Rightarrow> do {
       s \<leftarrow> lat_report opt s;
       if op_usDelay opt \<noteq> 0 \<and> \<not> timer_expired now (la_timer s) then Some ([], s)
       else do {
         let s = (if op_usDelay opt \<noteq> 0 then s\<lparr>la_timer := timer_reset now' (la_timer s)\<rparr> else s);
         if \<not> la_keep s then do {
           (_, k) \<leftarrow> ic_close ic (la_id s) (la_client s);
           Some ([], s\<lparr>la_client := k, la_state := LatClosing\<rparr>)
         } else lat_send opt ic s
       }
     }
   | LatClosing \<Rightarrow> do {
       (st, k) \<leftarrow> ic_close ic (la_id s) (la_client s);
       let s = s\<lparr>la_client := k\<rparr>;
       Some ([], if st = NotConnected \<and> ic_isClosed ic (la_id s) k then s\<lparr>la_local := False\<rparr> else s)
     })"

text \<open>An iteration of the loop, and the two signals.\<close>

datatype 'e lat_event = Iterate 'e u64 u64 | Interrupt | Alarm

fun lat_handle :: "lat_options \<Rightarrow> ('e, 'k) iclient \<Rightarrow> 'e lat_event \<Rightarrow> 'k latency \<Rightarrow> (u8 list \<times> 'k latency) option" where
  "lat_handle opt ic (Iterate e now now') s = (if \<not> la_local s then Some ([], s) else do {
     (go, s) \<leftarrow> lat_process opt ic e s;
     if go then lat_app opt ic e now now' s else Some ([], s)
   })"
| "lat_handle opt ic Interrupt s = Some ([], s\<lparr>la_keep := False\<rparr>)"
| "lat_handle opt ic Alarm s = Some ([], s\<lparr>la_show := True\<rparr>)"

fun lat_play :: "lat_options \<Rightarrow> ('e, 'k) iclient \<Rightarrow> 'e lat_event list \<Rightarrow> 'k latency \<Rightarrow> (u8 list \<times> 'k latency) option" where
  "lat_play opt ic [] s = Some ([], s)"
| "lat_play opt ic (x # xs) s = do {
     (out, s) \<leftarrow> lat_handle opt ic x s;
     (out', s) \<leftarrow> lat_play opt ic xs s;
     Some (out @ out', s)
   }"

section \<open>The receiver\<close>

text \<open>The delegate of the receiver, with the pairs of expected and actual number that it reports.\<close>

record lat_sink =
  lk_next :: u64
  lk_bytes :: u64
  lk_errors :: "(u64 \<times> u64) list"

definition lat_sink_new :: lat_sink where
  "lat_sink_new = \<lparr>lk_next = 0, lk_bytes = 0, lk_errors = []\<rparr>"

definition lat_onNewData :: "u8 list \<Rightarrow> lat_sink \<Rightarrow> lat_sink option" where
  "lat_onNewData data k = do {
     header \<leftarrow> rd64 data 0;
     let k = (if header \<noteq> lk_next k then k\<lparr>lk_errors := lk_errors k @ [(lk_next k, header)]\<rparr> else k);
     Some (k\<lparr>lk_next := lk_next k + 1, lk_bytes := lk_bytes k + of_nat (length data)\<rparr>)
   }"

definition lat_sink_delegate :: "lat_sink delegate_ops" where
  "lat_sink_delegate = \<lparr>
     g_connected = (\<lambda>i cookie opts u. Some (0, opts, u)),
     g_acked = (\<lambda>i cookie u. Some (Continue, u)),
     g_acked_send = (\<lambda>i cookie alen u. Some (Continue, [], 0, u)),
     g_newdata = (\<lambda>i cookie data u. map_option (\<lambda>u. (Continue, u)) (lat_onNewData data u)),
     g_newdata_send = (\<lambda>i cookie data alen u. map_option (\<lambda>u. (Continue, [], 0, u)) (lat_onNewData data u)),
     g_closed = (\<lambda>i cookie u. Some u)\<rparr>"

text \<open>The loop of the receiver, over the server of the library.\<close>

record 'd lat_server =
  lv_server :: "('d, lat_sink server) stack"
  lv_keep :: bool
  lv_iter :: u64
  lv_prev :: u64
  lv_show :: bool
  lv_timer :: timer

definition lat_throughput :: "'d lat_server \<Rightarrow> u64 \<times> 'd lat_server" where
  "lat_throughput s = (let bytes = lk_bytes (sv_dlg (t_handler (k_tcp (lv_server s))))
     in (push_bit 3 (bytes - lv_prev s), s\<lparr>lv_prev := bytes\<rparr>))"

definition lat_serve :: "lat_options \<Rightarrow> 'd device_ops \<Rightarrow> (('d, lat_sink server) stack \<Rightarrow> (status \<times> ('d, lat_sink server) stack) option) \<Rightarrow>
    (('d, lat_sink server) stack \<Rightarrow> (status \<times> ('d, lat_sink server) stack) option) \<Rightarrow> u64 \<times> u64 \<Rightarrow> u64 \<times> u64 \<Rightarrow> u64 \<Rightarrow> u64 \<Rightarrow>
    'd lat_server \<Rightarrow> 'd lat_server option" where
  "lat_serve opt ops wt pl anow tnow now now' s =
     (if \<not> lv_keep s then Some s
      else if op_usDelay opt \<noteq> 0 \<and> \<not> timer_expired now (lv_timer s) then Some s
      else do {
        let s = (if op_usDelay opt \<noteq> 0 then s\<lparr>lv_timer := timer_reset now' (lv_timer s)\<rparr> else s);
        (st, k) \<leftarrow> (if op_wait opt then wt (lv_server s) else pl (lv_server s));
        let s = s\<lparr>lv_server := k\<rparr>;
        (go, s) \<leftarrow> (if st = Ok then Some (True, s)
            else if st = NoDataAvailable then
              let run = op_wait opt \<or> lv_iter s AND 0x1F = 0;
                  s = (if op_wait opt then s else s\<lparr>lv_iter := lv_iter s + 1\<rparr>)
              in if run then do {
                   (_, k) \<leftarrow> server_run ops lat_sink_delegate anow tnow (lv_server s);
                   Some (True, s\<lparr>lv_server := k\<rparr>)
                 } else Some (True, s)
            else Some (False, s\<lparr>lv_keep := False\<rparr>));
        Some (if go \<and> lv_show s then (snd (lat_throughput s))\<lparr>lv_show := False\<rparr> else s)
      })"

section \<open>The stream of messages\<close>

text \<open>What the sender takes for granted of its client: \<^verbatim>\<open>send\<close> advances the offset by no more than the data left.\<close>

locale taking_client =
  fixes ic :: "('e, 'k) iclient"
  assumes ic_send_law: "ic_send ic i len data off k = Some (st, off', k') \<Longrightarrow> off \<le> len \<Longrightarrow> unat len + 2 ^ 24 \<le> 2 ^ 32 \<Longrightarrow>
    off \<le> off' \<and> off' \<le> len"

text \<open>The message with a number.\<close>

definition lat_message :: "u8 list \<Rightarrow> nat \<Rightarrow> u8 list" where
  "lat_message junk n = bytes64 (of_nat n) @ drop 8 junk"

definition lat_stream :: "u8 list \<Rightarrow> nat \<Rightarrow> u8 list" where
  "lat_stream junk n = concat (List.map (lat_message junk) [0..<n])"

lemma lat_stream_simps [simp]: "lat_stream junk 0 = []" "lat_stream junk (Suc n) = lat_stream junk n @ lat_message junk n"
  by (simp_all add: lat_stream_def)

text \<open>\<open>n\<close> messages have been taken, and the beginning of the next one.\<close>

definition lat_sent :: "lat_options \<Rightarrow> u8 list \<Rightarrow> nat \<Rightarrow> u8 list \<Rightarrow> 'k latency \<Rightarrow> bool" where
  "lat_sent opt junk n out s \<longleftrightarrow> la_sends s = of_nat n \<and> length (la_data s) = length junk \<and> drop 8 (la_data s) = drop 8 junk \<and>
     la_res s \<le> ucast (op_length opt) \<and> out = lat_stream junk n @ take (unat (la_res s)) (lat_message junk n)"

lemma lat_sent_same:
  "lat_sent opt junk n out s \<Longrightarrow> la_sends s' = la_sends s \<Longrightarrow> la_data s' = la_data s \<Longrightarrow> la_res s' = la_res s \<Longrightarrow> lat_sent opt junk n out s'"
  by (simp add: lat_sent_def)

lemma lat_process_same:
  "lat_process opt ic e s = Some (go, s') \<Longrightarrow> la_sends s' = la_sends s \<and> la_data s' = la_data s \<and> la_res s' = la_res s \<and>
     la_keep s' = la_keep s"
  by (auto simp: lat_process_def Let_def Some_eq_bind split: if_splits)

lemma lat_report_same:
  "lat_report opt s = Some s' \<Longrightarrow> la_sends s' = la_sends s \<and> la_data s' = la_data s \<and> la_res s' = la_res s \<and> la_keep s' = la_keep s"
  by (auto simp: lat_report_def split: if_splits)

text \<open>An iteration that does not send leaves the message alone.\<close>

lemma lat_app_cases:
  assumes "lat_app opt ic e now now' s = Some (taken, s')"
  obtains "taken = []" "la_sends s' = la_sends s" "la_data s' = la_data s" "la_res s' = la_res s" "la_keep s' = la_keep s"
  | s1 where "la_sends s1 = la_sends s" "la_data s1 = la_data s" "la_res s1 = la_res s" "la_keep s1" "la_keep s"
      "lat_send opt ic s1 = Some (taken, s')"
proof (cases "la_state s")
  case LatRun
  obtain s0 where s0: "lat_report opt s = Some s0"
    using assms LatRun by (auto simp: lat_app_def Some_eq_bind)
  note same = lat_report_same [OF s0]
  let ?s1 = "if op_usDelay opt \<noteq> 0 then s0\<lparr>la_timer := timer_reset now' (la_timer s0)\<rparr> else s0"
  show ?thesis
  proof (cases "(op_usDelay opt \<noteq> 0 \<and> \<not> timer_expired now (la_timer s0)) \<or> \<not> la_keep s0")
    case True
    then show ?thesis
      using that(1) assms LatRun s0 same by (auto simp: lat_app_def Let_def Some_eq_bind split: if_splits)
  next
    case False
    then show ?thesis
      using that(2) [of ?s1] assms LatRun s0 same by (auto simp: lat_app_def Let_def split: if_splits)
  qed
qed (use that(1) assms in \<open>auto simp: lat_app_def Let_def Some_eq_bind split: if_splits\<close>)

context taking_client
begin

lemma lat_send_stream:
  assumes "lat_sent opt junk n out s" and "lat_send opt ic s = Some (taken, s')"
    and "unat (ucast (op_length opt) :: u32) + 2 ^ 24 \<le> 2 ^ 32" and "length junk = unat (op_length opt)"
  shows "\<exists>n'. lat_sent opt junk n' (out @ taken) s'"
proof -
  let ?m = "lat_message junk n"
  have data: "bytes64 (la_sends s) @ drop 8 (la_data s) = ?m"
    using assms(1) by (simp add: lat_sent_def lat_message_def)
  obtain st res k where r: "ic_send ic (la_id s) (ucast (op_length opt)) ?m (la_res s) (la_client s) = Some (st, res, k)"
      "taken = drop (unat (la_res s)) (take (unat res) ?m)" and len: "8 \<le> length (la_data s)"
    using assms(2) unfolding lat_send_def Let_def data by (auto simp: Some_eq_bind split: if_splits)
  have le: "la_res s \<le> res" "res \<le> ucast (op_length opt)"
    using ic_send_law [OF r(1) _ assms(3)] assms(1) by (auto simp: lat_sent_def)
  have out: "out @ taken = lat_stream junk n @ take (unat res) ?m"
    using assms(1) le(1) by (simp add: lat_sent_def r(2) drop_take word_le_nat_alt flip: take_add)
  have s': "la_data s' = ?m" "la_sends s' = (if st = Ok \<and> ucast res = op_length opt then la_sends s + 1 else la_sends s)"
      "la_res s' = (if st = Ok \<and> ucast res = op_length opt then 0 else res)"
    using assms(2) r(1) len unfolding lat_send_def Let_def data by (auto split: if_splits)
  have m: "length ?m = length junk" "drop 8 ?m = drop 8 junk"
    using assms(1) len by (simp_all add: lat_message_def lat_sent_def)
  show ?thesis
  proof (cases "st = Ok \<and> ucast res = op_length opt")
    case True
    then have "unat (ucast res :: u64) = length ?m"
      using m(1) assms(4) by simp
    then have "unat res = length ?m"
      by (simp add: unsigned_ucast_eq take_bit_nat_eq_self order.strict_trans [OF unsigned_less])
    then show ?thesis
      using True s' m out assms(1) by (intro exI [of _ "Suc n"]) (simp add: lat_sent_def)
  next
    case False
    then show ?thesis
      using s' m out le(2) assms(1) by (intro exI [of _ n]) (auto simp: lat_sent_def)
  qed
qed

lemma lat_handle_stream:
  assumes "lat_sent opt junk n out s" and "lat_handle opt ic x s = Some (taken, s')"
    and "unat (ucast (op_length opt) :: u32) + 2 ^ 24 \<le> 2 ^ 32" and "length junk = unat (op_length opt)"
  shows "\<exists>n'. lat_sent opt junk n' (out @ taken) s'"
proof (cases x)
  case (Iterate e now now')
  show ?thesis
  proof (cases "la_local s")
    case True
    then obtain go s1 where s1: "lat_process opt ic e s = Some (go, s1)"
        "(if go then lat_app opt ic e now now' s1 else Some ([], s1)) = Some (taken, s')"
      using assms(2) Iterate by (auto simp: Some_eq_bind)
    have inv1: "lat_sent opt junk n out s1"
      using lat_sent_same [OF assms(1)] lat_process_same [OF s1(1)] by blast
    show ?thesis
    proof (cases go)
      case True
      then have "lat_app opt ic e now now' s1 = Some (taken, s')"
        using s1(2) by simp
      then show ?thesis
      proof (cases rule: lat_app_cases)
        case 1
        then show ?thesis
          using lat_sent_same [OF inv1] by auto
      next
        case (2 s2)
        then show ?thesis
          using lat_send_stream [OF lat_sent_same [OF inv1] _ assms(3,4), of s2] by auto
      qed
    qed (use s1(2) inv1 in auto)
  qed (use assms(1,2) Iterate in auto)
next
  case Interrupt
  then show ?thesis
    using assms(1,2) lat_sent_same [OF assms(1), of s'] by (intro exI [of _ n]) auto
next
  case Alarm
  then show ?thesis
    using assms(1,2) lat_sent_same [OF assms(1), of s'] by (intro exI [of _ n]) auto
qed

lemma lat_play_stream:
  assumes "unat (ucast (op_length opt) :: u32) + 2 ^ 24 \<le> 2 ^ 32" and "length junk = unat (op_length opt)"
  shows "lat_sent opt junk n out s \<Longrightarrow> lat_play opt ic xs s = Some (taken, s') \<Longrightarrow> \<exists>n'. lat_sent opt junk n' (out @ taken) s'"
proof (induction xs arbitrary: n out s taken)
  case (Cons x xs)
  then obtain t1 s1 t2 where 1: "lat_handle opt ic x s = Some (t1, s1)" "lat_play opt ic xs s1 = Some (t2, s')" "taken = t1 @ t2"
    by (auto simp: Some_eq_bind)
  then show ?case
    using lat_handle_stream [OF Cons.prems(1) 1(1) assms] Cons.IH [OF _ 1(2)] by fastforce
qed auto

lemma lat_stream_sent:
  assumes "lat_start opt ic cps now junk k = Some s0" and "lat_play opt ic xs s0 = Some (out, s)"
    and "unat (ucast (op_length opt) :: u32) + 2 ^ 24 \<le> 2 ^ 32" and "length junk = unat (op_length opt)"
  shows "\<exists>n. lat_sent opt junk n out s"
proof -
  have "lat_sent opt junk 0 [] s0"
    using assms(1) by (auto simp: lat_start_def lat_sent_def Some_eq_bind split: prod.splits)
  then show ?thesis
    using lat_play_stream [OF assms(3,4) _ assms(2)] by fastforce
qed

end

interpretation plain: taking_client "plain_client ops g wt pl" for ops g wt pl
  by unfold_locales (auto simp: plain_client_def client_send_def Some_eq_bind split: if_splits dest: tcp_send_advances)

section \<open>A sample run\<close>

text \<open>A client whose connection is established after the first poll.\<close>

definition sample_options :: lat_options where
  "sample_options = \<lparr>op_wait = False, op_noDelay = True, op_destination = ip4_make 10 1 0 2, op_port = 80, op_usDelay = 0,
     op_length = 8, op_count = 1, op_interval = 1\<rparr>"

definition sample_connected :: "(list_dev, unit client) stack" where
  "sample_connected = sample_stack\<lparr>k_tcp := (k_tcp sample_stack)\<lparr>
     t_net := sample_link\<lparr>n_mem := [replicate 110 0]\<rparr>,
     t_handler := \<lparr>cl_dlg = (), cl_cns = [\<lparr>cc_state = Connected, cc_conn = 0\<rparr>], cl_idx = [0 \<mapsto> 0]\<rparr>,
     t_conns := [conn_init\<lparr>m_id := 0, m_state := ESTABLISHED, m_rethaddr := Mac 16 0 0 0 0 2, m_ripaddr := ip4_make 10 1 0 2,
       m_lport := 5000, m_rport := 80, m_opts := 1, m_sdat := Ptr 0 38, m_window := 1000, m_mss := 40, m_initialmss := 40\<rparr>]\<rparr>\<rparr>"

definition sample_client :: "(client_env, (list_dev, unit client) stack) iclient" where
  "sample_client = plain_client list_ops (lat_delegate True) (\<lambda>e k. Some (Ok, k))
     (\<lambda>e k. Some (Ok, if cc_state (k_handle k 0) = Connected then k else sample_connected))"

definition sample_iteration :: "client_env lat_event" where
  "sample_iteration = Iterate \<lparr>en_arp = (0, 0), en_tcp = (0, 0), en_ports = []\<rparr> 0 0"

lemma sample_lat_start: "\<exists>s0. lat_start sample_options sample_client 1000 0 (replicate 8 0) sample_stack = Some s0 \<and>
   (\<exists>s. lat_play sample_options sample_client [sample_iteration, sample_iteration] s0 = Some (replicate 8 0, s) \<and> la_sends s = 1)"
proof -
  have "(case lat_start sample_options sample_client 1000 0 (replicate 8 0) sample_stack of None \<Rightarrow> None
    | Some s0 \<Rightarrow> map_option (\<lambda>(out, s). (out, la_sends s)) (lat_play sample_options sample_client [sample_iteration, sample_iteration] s0)) =
    Some (replicate 8 0, 1)"
    by code_simp
  then show ?thesis
    by (auto split: option.splits)
qed

section \<open>Counting\<close>

text \<open>With a number of messages to send, the sender is told to stop as it completes the last of them.\<close>

definition lat_counted :: "lat_options \<Rightarrow> 'k latency \<Rightarrow> bool" where
  "lat_counted opt s \<longleftrightarrow> la_sends s < op_count opt \<or> (la_sends s = op_count opt \<and> \<not> la_keep s)"

lemma lat_send_counted:
  assumes "lat_send opt ic s = Some (taken, s')" and "lat_counted opt s" and "la_keep s" and "0 < op_count opt"
  shows "lat_counted opt s'"
proof -
  have "la_sends s + 1 \<le> op_count opt"
    using assms(2,3) by (auto simp: lat_counted_def intro: inc_le)
  then show ?thesis
    using assms by (auto simp: lat_send_def lat_counted_def Let_def Some_eq_bind split: if_splits)
qed

lemma lat_handle_counted:
  assumes "lat_handle opt ic x s = Some (taken, s')" and "lat_counted opt s" and "0 < op_count opt"
  shows "lat_counted opt s'"
proof (cases "\<exists>e now now'. x = Iterate e now now' \<and> la_local s")
  case True
  then obtain e now now' go s1 where s1: "lat_process opt ic e s = Some (go, s1)"
      "(if go then lat_app opt ic e now now' s1 else Some ([], s1)) = Some (taken, s')"
    using assms(1) by (auto simp: Some_eq_bind)
  have c1: "lat_counted opt s1"
    using assms(2) lat_process_same [OF s1(1)] by (simp add: lat_counted_def)
  show ?thesis
  proof (cases go)
    case True
    then have "lat_app opt ic e now now' s1 = Some (taken, s')"
      using s1(2) by simp
    then show ?thesis
      by (cases rule: lat_app_cases)
        (use c1 assms(3) lat_send_counted [of opt ic _ taken s'] in \<open>auto simp: lat_counted_def\<close>)
  qed (use s1(2) c1 in simp)
qed (use assms in \<open>cases x; auto simp: lat_counted_def\<close>)

lemma lat_play_counted:
  "lat_play opt ic xs s = Some (out, s') \<Longrightarrow> lat_counted opt s \<Longrightarrow> 0 < op_count opt \<Longrightarrow> lat_counted opt s'"
  by (induction xs arbitrary: s out) (auto simp: Some_eq_bind dest: lat_handle_counted)

section \<open>Properties\<close>

text \<open>C29: What the sender sends. Over the client of the library, after any number of iterations and signals, the bytes that the
  connection has taken are the messages numbered from 0 on, each complete and once, as many as were counted, and the beginning of
  the next one; and if a number of messages was asked for, not more than these.\<close>
theorem latency_messages_in_order:
  assumes "lat_start opt (plain_client ops g wt pl) cps now junk k = Some s0"
    and "lat_play opt (plain_client ops g wt pl) xs s0 = Some (out, s)"
    and "unat (ucast (op_length opt) :: u32) + 2 ^ 24 \<le> 2 ^ 32" and "length junk = unat (op_length opt)"
  shows "(\<exists>n. la_sends s = of_nat n \<and> out = lat_stream junk n @ take (unat (la_res s)) (lat_message junk n)) \<and>
    (0 < op_count opt \<longrightarrow> la_sends s \<le> op_count opt)"
proof -
  have "lat_counted opt s0" if "0 < op_count opt"
    using assms(1) that by (auto simp: lat_start_def lat_counted_def Some_eq_bind split: prod.splits)
  then have "0 < op_count opt \<longrightarrow> la_sends s \<le> op_count opt"
    using lat_play_counted [OF assms(2)] by (auto simp: lat_counted_def)
  then show ?thesis
    using plain.lat_stream_sent [OF assms] by (auto simp: lat_sent_def)
qed

theorem latency_messages_in_order_witness:
  "\<exists>s :: (list_dev, unit client) stack latency. (\<exists>n. la_sends s = of_nat n \<and> replicate 8 0 = lat_stream (replicate 8 0) n @ take (unat (la_res s)) (lat_message (replicate 8 0) n)) \<and>
     la_sends s = 1"
proof -
  obtain s0 s where s: "lat_start sample_options sample_client 1000 0 (replicate 8 0) sample_stack = Some s0"
      "lat_play sample_options sample_client [sample_iteration, sample_iteration] s0 = Some (replicate 8 0, s)" "la_sends s = 1"
    using sample_lat_start by blast
  show ?thesis
    using latency_messages_in_order [OF s(1,2) [unfolded sample_client_def]] s(3)
    by (intro exI [of _ s]) (simp add: sample_options_def)
qed

text \<open>The receiver, given one message at a time, reports no error, and counts the messages and their bytes.\<close>

fun lat_receive :: "u8 list list \<Rightarrow> lat_sink \<Rightarrow> lat_sink option" where
  "lat_receive [] k = Some k"
| "lat_receive (d # ds) k = do { k \<leftarrow> lat_onNewData d k; lat_receive ds k }"

lemma lat_receive_snoc: "lat_receive (ds @ [d]) k = do { k \<leftarrow> lat_receive ds k; lat_onNewData d k }"
  by (induction ds arbitrary: k) (auto split: Option.bind_split)

theorem latency_messages_received:
  assumes "8 \<le> length junk"
  shows "lat_receive (List.map (lat_message junk) [0..<n]) lat_sink_new =
    Some \<lparr>lk_next = of_nat n, lk_bytes = of_nat (n * length junk), lk_errors = []\<rparr>"
proof (induction n)
  case (Suc n)
  have "rd64 (lat_message junk n) 0 = Some (of_nat n)"
    by (rule rd64_bytes64) (simp add: lat_message_def)
  then show ?case
    using Suc assms by (simp add: lat_receive_snoc lat_onNewData_def lat_message_def Let_def algebra_simps)
qed (simp add: lat_sink_new_def)

text \<open>A message that arrives in two pieces is reported as an error, although every byte is right.\<close>

theorem latency_pieces_reported:
  "map_option lk_errors (lat_receive [take 8 (lat_message (replicate 16 0) 0), drop 8 (lat_message (replicate 16 0) 0)] lat_sink_new) =
    Some [(1, 0)]"
  by code_simp

end
