(* ===== verification/Spec2Isabelle.thy ===== *)
theory Spec2Isabelle
  imports Fifo TcpAck TcpStream Api Text Ring TcpTimeout TcpRexmit Shm SslStream OfedRecv OfedSend Links Poller TcpLife Latency
begin

text \<open>
  A model of tulips, a TCP/IP stack in user space, with what makes it correct.

  \<^bold>\<open>The program.\<close> A host is a client or a server (\<^verbatim>\<open>src/api\<close>) over one chain of processors: frames that a device
  (\<^verbatim>\<open>src/transport\<close>) polls go up through the Ethernet and IPv4 processors to ARP, ICMP and TCP (\<^verbatim>\<open>src/stack\<close>), and TCP calls
  the event handler of the client or server, which calls the delegate of the application. What is sent goes down through
  the IPv4 and Ethernet producers, which fill the headers of a buffer that the device has lent (\<^verbatim>\<open>prepare\<close>, \<^verbatim>\<open>commit\<close>). The
  SSL client and server (\<^verbatim>\<open>src/ssl\<close>) stand between those of the interface and the application. Nothing blocks: timers and
  retransmissions are driven by \<^verbatim>\<open>run\<close>.

  \<^bold>\<open>How it is modelled.\<close> Machine integers are words of their width. A function that can read outside a buffer or
  a vector, go through null, or not return has an \<open>option\<close> as its result, and \<open>None\<close> for that. Buffers of a device are blocks of
  a memory, pointers are a block with an offset or null; a block that has been released has no bytes left, so that reading it fails. State is passed explicitly: a device is an abstract state with a record of
  its operations (\<open>device_ops\<close>, for the virtual functions of \<^verbatim>\<open>Device\<close> and \<^verbatim>\<open>Producer\<close>), an application a state with a
  record of callbacks. Readings of the clock and random numbers are arguments. Host order is little-endian.

  The configuration is that of the tests: ARP, ICMP and raw processing on, FIFO checks on, hardware checksums,
  segmentation in hardware, the latency monitor and the runtime checks of the stack off; in the model of the verbs device the two
  hardware options are parameters.

  \<^bold>\<open>Foundations.\<close>
  \<^item> \<open>Prelude\<close>: statuses, bytes, byte order, the block memory, the rules for \<open>option\<close> programs (\<open>runs\<close>, \<open>yields\<close>).
  \<^item> \<open>Checksum\<close> (\<^verbatim>\<open>stack/Utils.cpp\<close>): the Internet checksum is the ones' complement sum; a header with its
    checksum verifies.
  \<^item> \<open>Net\<close> (\<^verbatim>\<open>ethernet/Producer.cpp\<close>, \<^verbatim>\<open>ipv4/Producer.cpp\<close>): sending below the transport protocols. The locales \<open>nic\<close> and
    \<open>reliable_nic\<close> are the contract of a device, which never releases a buffer it has lent or accepted, and, if reliable, takes
    every frame; every lemma on the layers above rests on them, and the software
    devices are interpretations, seen from the side that sends.
  \<^item> \<open>Timers\<close> (\<^verbatim>\<open>system/Timer\<close>), \<open>Text\<close> (addresses and strings: what is printed is read back).

  \<^bold>\<open>TCP\<close> (\<^verbatim>\<open>stack/tcpv4\<close>).
  \<^item> \<open>TcpConn\<close>, \<open>TcpOptions\<close>, \<open>TcpSend\<close>, \<open>TcpUser\<close>, \<open>TcpProcess\<close>: \<^verbatim>\<open>Connection.h\<close> and \<^verbatim>\<open>Segment.h\<close>; \<^verbatim>\<open>Options.cpp\<close>; \<^verbatim>\<open>Send.cpp\<close>; the
    calls of the application and the constructor (which returns exactly for at most 65535 connections); \<^verbatim>\<open>Processor.cpp\<close> with
    the timers.
  \<^item> \<open>TcpSafe\<close>, \<open>TcpRxSafe\<close>, \<open>TcpSystem\<close>: on a reliable device that keeps its contract and with an application that keeps its own (locales
    \<open>tcp_link\<close>, \<open>app\<close>, \<open>tcp_app\<close>) no sequence of admissible events makes the processor fail, and the invariant of the connections
    is kept.
  \<^item> \<open>TcpStates\<close>, \<open>TcpLife\<close>: the edges of the state machine (\<open>tcp_step\<close>), and their order.
  \<^item> \<open>TcpAck\<close>: the acknowledgement scan against its specification on distances; what it does outside the window.
  \<^item> \<open>TcpFrame\<close>, \<open>TcpDemux\<close>, \<open>TcpStream\<close>: a segment touches one connection; which one; and the application gets the bytes of its
    peer in order, whatever is lost, repeated or reordered, if the device takes every frame (locale \<open>accepting\<close>): when an
    acknowledgement cannot be sent, the code drops the data it acknowledges later.
  \<^item> \<open>TcpImage\<close>, \<open>TcpWire\<close>: the bytes of a segment from the sending functions of one host to the TCP processor of another.
  \<^item> \<open>TcpTimeout\<close>, \<open>TcpRexmit\<close>: a silent peer is given up, after a number of ticks computed from the retransmission counter; and
    what a retransmission puts on the wire, which is not what was sent first. Over the list device it may not come to that: the
    segment points into a packet that the reader releases, and the copy then reads released memory.

  \<^bold>\<open>The other protocols and the host.\<close>
  \<^item> \<open>Arp\<close>, \<open>Icmp\<close>: the translation table with its ageing; requests and answers.
  \<^item> \<open>Stack\<close>: the Ethernet and IPv4 processors; frames that are rejected change nothing.
  \<^item> \<open>Delegates\<close>, \<open>Api\<close>: the callbacks of the application (locale \<open>delegate\<close>), the event handlers, client and server (locale
    \<open>client_host\<close>). \<open>Links\<close>: over any reliable device no sequence of admissible calls, frames and ticks makes a client fail, nor one of
    admissible events the TCP processor. A device that refuses a frame is not covered: the code then goes on without a send buffer.
  \<^item> \<open>Ssl\<close>, \<open>SslSafe\<close>, \<open>SslStream\<close>: contexts, client and server. OpenSSL is the record \<open>openssl\<close> of the functions the code
    calls; what is taken for granted of it are the predicates \<open>writes_cipher\<close>, \<open>shakes\<close> and, from states whose input is intact application
    data, \<open>reads_plain\<close>; an engine without encryption meets them. A flush that fails after TCP has taken bytes breaks the stream,
    since the next one passes them again (\<open>failing_flush_repeats\<close>).
  \<^item> \<open>Poller\<close> (\<^verbatim>\<open>tools/uspace/client/Poller.cpp\<close>): two threads, a mutex and a condition variable as interleaved steps, and the
    history of calls and answers.
  \<^item> \<open>Latency\<close> (\<^verbatim>\<open>apps/TCPLatency.cpp\<close>): the loops that send and receive numbered messages, over the interface of a client
    (locale \<open>taking_client\<close>); what reaches the connection is the messages in order.

  \<^bold>\<open>Devices and buffers.\<close>
  \<^item> \<open>Fifo\<close> (\<^verbatim>\<open>fifo\<close>), \<open>Shm\<close> (\<^verbatim>\<open>transport/shm\<close>), \<open>Ring\<close> (\<^verbatim>\<open>system/CircularBuffer\<close>, \<^verbatim>\<open>Buffer.h\<close>, \<^verbatim>\<open>ssl/BIO.cpp\<close>): bounded queues, as
    refinements of lists.
  \<^item> \<open>Devices\<close>: \<^verbatim>\<open>list\<close>, \<^verbatim>\<open>erase\<close> and \<^verbatim>\<open>check\<close>. The two ends of a list device share a heap; a packet belongs to the reader once it is
    committed, who releases it. \<open>Npipe\<close>, \<open>Tap\<close>: named pipes, the tap interface and the recording device
    \<^verbatim>\<open>pcap\<close>; the calls of the system are functions on an abstract state.
  \<^item> \<open>Ofed\<close>, \<open>OfedRecv\<close>, \<open>OfedSend\<close> (\<^verbatim>\<open>transport/ofed\<close>): the device on a raw packet queue pair. The verbs library with the
    network interface is the record \<open>verbs\<close>. Received frames reach the processor once and in order until the library refuses to
    take a buffer back, a send buffer is never in two places, segments built by the hardware fit.

  \<^bold>\<open>Bounds.\<close> No fuel is used: loops are structural, have a measure, or are partial functions whose results are
  proved to exist. The lemmas on the stack ask for a unit of transmission of at least 62 bytes (headers and the options of a SYN) and
  below \<open>2 ^ 24\<close>, the width of the length fields of a connection; data given to \<^verbatim>\<open>send\<close> ends \<open>2 ^ 24\<close> bytes before
  the end of the 32-bit range, so that its length plus what is pending does not wrap around.

  \<^bold>\<open>Not modelled.\<close>
  \<^item> Thread affinity, the clock, mutexes and spin locks (\<^verbatim>\<open>system\<close>): single calls of the system; they enter as
    readings of the clock and as atomic steps.
  \<^item> The functions of \<^verbatim>\<open>transport/stubs\<close> and \<^verbatim>\<open>stack/arp/stubs\<close> that ask the kernel for addresses, routes and the ARP cache: no
    state of their own; their results are parameters.
  \<^item> Destructors as far as they only release memory and handles, logging and hexadecimal dumps.
  \<^item> The programs of \<^verbatim>\<open>apps\<close> and \<^verbatim>\<open>tools\<close> apart from the poller and the loops above: command lines, terminal input
    (\<^verbatim>\<open>linenoise\<close> is a third-party library) and output.
  \<^item> The callbacks do not call the processor again while they run, though the code does not prevent it.
\<close>

end
